(* ===== verification/Prelude.thy ===== *)
theory Prelude
  imports Complex_Main "HOL-Library.AList" "HOL-Library.Sublist" "HOL-Library.Char_ord"
    "HOL-Library.List_Lexorder" "HOL-Library.Product_Lexorder"
begin

text \<open>
  What the component theories share: the types that stand for Python's values, the few
  built-in operations of Python the code uses (truthiness, \<open>or\<close>, insertion-ordered
  dictionaries, deques trimmed from the left, \<open>isinstance\<close>), the interfaces several
  components offer (as locales), and the fact collections that carry the proofs.

  Python's floats (clock readings, rates, fractions) are modelled as exact \<open>real\<close>
  numbers: rounding is not modelled. Python's integers are \<open>int\<close>, or \<open>nat\<close> where
  the value is the length of a container.
\<close>

named_theorems py_defs \<open>definitions of the Python built-ins\<close>
named_theorems inv_defs \<open>definitions of the component invariants\<close>

type_synonym time = real

section \<open>Python built-ins\<close>

text \<open>An exception value is the list of class names of its type's method resolution order.\<close>

type_synonym exc = "string list"

definition isinstance :: "exc \<Rightarrow> string list \<Rightarrow> bool" where
  [py_defs]: "isinstance e classes = list_ex (\<lambda>c. List.member e c) classes"

definition int_or :: "int \<Rightarrow> int \<Rightarrow> int" where
  [py_defs]: "int_or x d = (if x = 0 then d else x)"

definition float_or :: "real \<Rightarrow> real \<Rightarrow> real" where
  [py_defs]: "float_or x d = (if x = 0 then d else x)"

definition list_or :: "'a list \<Rightarrow> 'a list \<Rightarrow> 'a list" where
  [py_defs]: "list_or xs d = (if xs = [] then d else xs)"

definition option_or :: "'a option \<Rightarrow> 'a \<Rightarrow> 'a" where
  [py_defs]: "option_or x d = (case x of None \<Rightarrow> d | Some v \<Rightarrow> v)"

text \<open>\<open>round\<close> to the nearest integer, halves to the even one; \<open>int\<close> truncates.\<close>

definition py_round :: "real \<Rightarrow> int" where
  [py_defs]: "py_round x =
     (let f = floor x; d = x - of_int f in
      if d < 1 / 2 then f else if d > 1 / 2 then f + 1 else if even f then f else f + 1)"

definition py_int :: "real \<Rightarrow> int" where
  [py_defs]: "py_int x = (if 0 \<le> x then floor x else ceiling x)"

lemma py_int_bounds: "0 \<le> x \<Longrightarrow> of_int (py_int x) \<le> x \<and> x < of_int (py_int x) + 1"
  by (simp add: py_int_def)

lemma py_int_nonneg: "0 \<le> x \<Longrightarrow> 0 \<le> py_int x"
  by (simp add: py_int_def)

lemma py_round_bounds: "\<bar>of_int (py_round x) - x\<bar> \<le> 1 / 2"
  unfolding py_round_def Let_def by (auto simp: abs_if) linarith+

lemma py_round_nonneg: "0 \<le> x \<Longrightarrow> 0 \<le> py_round x"
  by (simp add: py_round_def Let_def)

text \<open>What \<open>json.dumps\<close> and the API see of a value.\<close>

datatype json = JNull | JBool bool | JInt int | JFloat real | JStr string
  | JList "json list" | JObj "(string \<times> json) list"

text \<open>
  Strings are lists of characters with codes below 256; the code's own strings are ASCII, and
  the case mapping and whitespace below are Python's on ASCII.
\<close>

definition is_space :: "char \<Rightarrow> bool" where
  [py_defs]: "is_space c = (let n = of_char c :: nat in
     (9 \<le> n \<and> n \<le> 13) \<or> (28 \<le> n \<and> n \<le> 32))"

definition char_lower :: "char \<Rightarrow> char" where
  [py_defs]: "char_lower c =
     (let n = of_char c :: nat in if 65 \<le> n \<and> n \<le> 90 then char_of (n + 32) else c)"

definition py_lower :: "string \<Rightarrow> string" where
  [py_defs]: "py_lower s = map char_lower s"

definition py_strip :: "string \<Rightarrow> string" where
  [py_defs]: "py_strip s = rev (dropWhile is_space (rev (dropWhile is_space s)))"

text \<open>On the bits of a character, for evaluation.\<close>

lemma char_lower_code [code]:
  "char_lower (Char b0 b1 b2 b3 b4 b5 b6 b7) =
     (if \<not> b7 \<and> b6 \<and> \<not> b5 \<and> (b0 \<or> b1 \<or> b2 \<or> b3 \<or> b4) \<and> \<not> (b4 \<and> b3 \<and> (b2 \<or> b1 \<and> b0))
      then Char b0 b1 b2 b3 b4 True b6 b7 else Char b0 b1 b2 b3 b4 b5 b6 b7)"
  by (cases b7; cases b6; cases b5; cases b4; cases b3; cases b2; cases b1; cases b0)
    (simp_all add: char_lower_def Let_def char_of_def bit_0)

lemma char_lower_idem: "char_lower (char_lower c) = char_lower c"
  by (simp add: char_lower_def Let_def)

lemma py_lower_idem: "py_lower (py_lower s) = py_lower s"
  by (simp add: py_lower_def char_lower_idem)

text \<open>\<open>while len(xs) > n: xs.popleft()\<close>, for \<open>n\<close> not negative.\<close>

fun trim_left :: "int \<Rightarrow> 'a list \<Rightarrow> 'a list" where
  "trim_left n [] = []"
| "trim_left n (x # xs) = (if int (length (x # xs)) > n then trim_left n xs else x # xs)"

lemma trim_left_drop: "0 \<le> n \<Longrightarrow> trim_left n xs = drop (length xs - nat n) xs"
proof (induction xs)
  case Nil
  then show ?case by simp
next
  case (Cons x xs)
  show ?case
  proof (cases "int (length (x # xs)) > n")
    case True
    then have "length (x # xs) - nat n = Suc (length xs - nat n)" by auto
    with True Cons show ?thesis by simp
  next
    case False
    then have "length (x # xs) - nat n = 0" by auto
    with False show ?thesis by simp
  qed
qed

lemma length_trim_left: "0 \<le> n \<Longrightarrow> int (length (trim_left n xs)) = min n (int (length xs))"
  by (simp add: trim_left_drop)

lemma set_trim_left: "set (trim_left n xs) \<subseteq> set xs"
  by (induction xs) auto

lemma trim_left_id: "int (length xs) \<le> n \<Longrightarrow> trim_left n xs = xs"
  by (cases xs) auto

lemma suffix_trim_left: "suffix (trim_left n xs) xs"
  by (induction xs) (auto intro: suffix_ConsI)

text \<open>
  A dictionary is an association list in insertion order: \<open>d[k] = v\<close> replaces in place
  or appends at the end, which is what \<open>AList.update\<close> does.
\<close>

abbreviation dict_set :: "'k \<Rightarrow> 'v \<Rightarrow> ('k \<times> 'v) list \<Rightarrow> ('k \<times> 'v) list" where
  "dict_set \<equiv> AList.update"

abbreviation dict_get :: "('k \<times> 'v) list \<Rightarrow> 'k \<Rightarrow> 'v option" where
  "dict_get \<equiv> map_of"

abbreviation dict_pop :: "'k \<Rightarrow> ('k \<times> 'v) list \<Rightarrow> ('k \<times> 'v) list" where
  "dict_pop \<equiv> AList.delete"

lemma dict_get_set: "dict_get (dict_set k v d) = (dict_get d)(k \<mapsto> v)"
  by (simp add: update_conv')

lemma dict_get_set_same [simp]: "dict_get (dict_set k v d) k = Some v"
  by (simp add: update_conv')

lemma dict_get_set_other [simp]: "j \<noteq> k \<Longrightarrow> dict_get (dict_set k v d) j = dict_get d j"
  by (simp add: update_conv')

lemma distinct_keys_set: "distinct (map fst d) \<Longrightarrow> distinct (map fst (dict_set k v d))"
  by (rule distinct_update)

lemma dict_set_new: "k \<notin> fst ` set d \<Longrightarrow> dict_set k v d = d @ [(k, v)]"
  by (induction d) auto

section \<open>Interfaces the components share\<close>

text \<open>
  A component driven by events: a step function and an invariant every step keeps. Every
  run then keeps it.
\<close>

locale step_system =
  fixes step :: "'s \<Rightarrow> 'e \<Rightarrow> 's"
    and good :: "'s \<Rightarrow> bool"
  assumes step_good: "good s \<Longrightarrow> good (step s e)"
begin

lemma run_good: "good s \<Longrightarrow> good (foldl step s es)"
proof (induction es arbitrary: s)
  case Nil
  then show ?case by simp
next
  case (Cons e es)
  from Cons.prems have "good (step s e)" by (rule step_good)
  then show ?case using Cons.IH by simp
qed

lemma prefix_good: "good s \<Longrightarrow> prefix ps es \<Longrightarrow> good (foldl step s ps)"
  by (rule run_good)

end

text \<open>
  An ambient slot (a context variable): \<open>push\<close> installs a value and returns the handle
  with which \<open>pop\<close> restores what was there before.
\<close>

locale ambient_slot =
  fixes push :: "'v \<Rightarrow> 'w \<Rightarrow> 'h \<times> 'w"
    and pop :: "'h \<Rightarrow> 'w \<Rightarrow> 'w"
    and current :: "'w \<Rightarrow> 'h"
    and just :: "'v \<Rightarrow> 'h"
  assumes push_handle: "fst (push v w) = current w"
    and push_current: "current (snd (push v w)) = just v"
    and pop_current: "current (pop h w) = h"
begin

lemma push_pop_current: "current (pop (fst (push v w)) w') = current w"
  by (simp add: pop_current push_handle)

lemma nested_push_pop:
  assumes "push v w = (h1, w1)" and "push v' w1 = (h2, w2)"
  shows "current (pop h2 w2) = just v" and "current (pop h1 (pop h2 w2)) = current w"
proof -
  from assms have "h1 = current w" "h2 = current w1" "current w1 = just v"
    using push_handle push_current by (metis fst_conv snd_conv)+
  then show "current (pop h2 w2) = just v" and "current (pop h1 (pop h2 w2)) = current w"
    by (simp_all add: pop_current)
qed

end

text \<open>A registry: \<open>get\<close> returns the object of a name, creating it on the first call.\<close>

locale get_or_create =
  fixes get :: "'k \<Rightarrow> 'a \<Rightarrow> 'w \<Rightarrow> 'r \<times> 'w"
    and find :: "'w \<Rightarrow> 'k \<Rightarrow> 'r option"
    and good :: "'w \<Rightarrow> bool"
  assumes get_found: "good w \<Longrightarrow> find w k = Some r \<Longrightarrow> get k a w = (r, w)"
    and get_finds: "good w \<Longrightarrow> find (snd (get k a w)) k = Some (fst (get k a w))"
    and get_other: "good w \<Longrightarrow> j \<noteq> k \<Longrightarrow> find (snd (get k a w)) j = find w j"
    and get_good: "good w \<Longrightarrow> good (snd (get k a w))"
begin

lemma get_idem: "good w \<Longrightarrow> get k b (snd (get k a w)) = get k a w"
  by (metis get_finds get_found get_good prod.collapse)

lemma get_stable: "good w \<Longrightarrow> find w j = Some r \<Longrightarrow> find (snd (get k a w)) j = Some r"
  by (metis get_found get_other snd_conv)

end

end
