(* ===== verification/CircuitBreaker.thy ===== *)
theory CircuitBreaker
  imports Prelude
begin

text \<open>
  \<open>harness/circuit_breaker.py\<close>. The breaker's fields are one record; every method is a
  function from the record (and the clock readings the method makes, in order) to the new
  record. Every method that writes holds the breaker's lock, so a method is one atomic
  step and the interleavings of concurrent callers are the sequences of steps. The
  registry, the scoped breaker and the ambient breaker work on references to shared
  objects, so there the breakers live in a heap.
\<close>

section \<open>Data\<close>

datatype circuit_state = CLOSED | OPEN | HALF_OPEN

record cb_config =
  failure_threshold :: int
  success_threshold :: int
  timeout_seconds :: real
  half_open_max_requests :: int
  excluded_exceptions :: "string list"
  enabled :: bool
  window_size :: "int option"
  failure_rate_threshold :: real

definition default_cb_config :: cb_config where
  "default_cb_config = \<lparr>failure_threshold = 5, success_threshold = 3, timeout_seconds = 30,
     half_open_max_requests = 1, excluded_exceptions = [], enabled = True,
     window_size = None, failure_rate_threshold = 1 / 2\<rparr>"

record cb_stats =
  st_state :: circuit_state
  st_consecutive_failures :: int
  st_consecutive_successes :: int
  st_total_requests :: int
  st_total_failures :: int
  st_total_successes :: int
  st_last_failure_time :: "time option"
  st_last_success_time :: "time option"
  st_last_state_change :: "time option"
  st_state_changes :: "(circuit_state \<times> time) list"

definition new_cb_stats :: "circuit_state \<Rightarrow> cb_stats" where
  "new_cb_stats s = \<lparr>st_state = s, st_consecutive_failures = 0, st_consecutive_successes = 0,
     st_total_requests = 0, st_total_failures = 0, st_total_successes = 0,
     st_last_failure_time = None, st_last_success_time = None, st_last_state_change = None,
     st_state_changes = []\<rparr>"

record breaker =
  config :: cb_config
  cb_name :: string
  state :: circuit_state
  consecutive_failures :: int
  consecutive_successes :: int
  last_failure_time :: "time option"
  last_success_time :: "time option"
  last_state_change :: "time option"
  state_changes :: "(circuit_state \<times> time) list"
  half_open_requests :: int
  stats :: cb_stats
  window :: "bool list"

datatype cb_error = CircuitOpenError | Raised exc

definition new_breaker :: "cb_config option \<Rightarrow> string \<Rightarrow> time \<Rightarrow> breaker" where
  "new_breaker cfg nm now = \<lparr>config = option_or cfg default_cb_config, cb_name = nm,
     state = CLOSED, consecutive_failures = 0, consecutive_successes = 0,
     last_failure_time = None, last_success_time = None, last_state_change = Some now,
     state_changes = [(CLOSED, now)], half_open_requests = 0, stats = new_cb_stats CLOSED,
     window = []\<rparr>"

section \<open>The breaker's methods\<close>

definition is_closed :: "breaker \<Rightarrow> bool" where
  "is_closed b = (state b = CLOSED)"

definition is_open :: "breaker \<Rightarrow> bool" where
  "is_open b = (state b = OPEN)"

definition is_half_open :: "breaker \<Rightarrow> bool" where
  "is_half_open b = (state b = HALF_OPEN)"

definition seconds_until_retry :: "time \<Rightarrow> breaker \<Rightarrow> real" where
  "seconds_until_retry now b =
     (case last_state_change b of
        None \<Rightarrow> 0
      | Some t \<Rightarrow>
          (if state b \<noteq> OPEN \<or> \<not> enabled (config b) then 0
           else max 0 (timeout_seconds (config b) - (now - t))))"

definition should_trip :: "breaker \<Rightarrow> bool" where
  "should_trip b =
     (consecutive_failures b \<ge> failure_threshold (config b) \<and> enabled (config b))"

definition cb_window_size :: "breaker \<Rightarrow> int" where
  "cb_window_size b = option_or (window_size (config b)) 0"

text \<open>\<open>sum\<close> of a deque of booleans counts its \<open>True\<close> entries.\<close>

definition window_failures :: "breaker \<Rightarrow> nat" where
  "window_failures b = count_list (window b) True"

definition window_failure_rate_exceeded :: "breaker \<Rightarrow> bool" where
  "window_failure_rate_exceeded b =
     (let size = cb_window_size b in
      if size \<le> 0 \<or> \<not> enabled (config b) \<or> int (length (window b)) < size then False
      else real (window_failures b) / real (length (window b))
             \<ge> failure_rate_threshold (config b))"

definition should_reset :: "breaker \<Rightarrow> bool" where
  "should_reset b =
     (consecutive_successes b \<ge> success_threshold (config b) \<and> state b = HALF_OPEN)"

definition should_transition_to_half_open :: "time \<Rightarrow> breaker \<Rightarrow> bool" where
  "should_transition_to_half_open now b =
     (if \<not> enabled (config b) then False
      else if state b \<noteq> OPEN then False
      else (case last_state_change b of
              None \<Rightarrow> False
            | Some t \<Rightarrow> now - t \<ge> timeout_seconds (config b)))"

definition change_state :: "time \<Rightarrow> circuit_state \<Rightarrow> breaker \<Rightarrow> breaker" where
  "change_state now new b =
     (if state b \<noteq> new
      then b\<lparr>state := new, last_state_change := Some now,
             state_changes := state_changes b @ [(new, now)]\<rparr>
      else b)"

definition trip_on_failure_rate :: "time \<Rightarrow> breaker \<Rightarrow> breaker" where
  "trip_on_failure_rate now b = (change_state now OPEN b)\<lparr>window := []\<rparr>"

definition push_outcome :: "bool \<Rightarrow> breaker \<Rightarrow> breaker" where
  "push_outcome failed b =
     b\<lparr>window := trim_left (cb_window_size b) (window b @ [failed])\<rparr>"

definition record_failure :: "time \<Rightarrow> breaker \<Rightarrow> breaker" where
  "record_failure now b =
     (let b1 = b\<lparr>consecutive_failures := consecutive_failures b + 1,
                 consecutive_successes := 0,
                 last_failure_time := Some now,
                 stats := (stats b)\<lparr>st_total_failures := st_total_failures (stats b) + 1\<rparr>\<rparr>
      in if cb_window_size b1 > 0 then push_outcome True b1 else b1)"

definition record_success :: "time \<Rightarrow> breaker \<Rightarrow> breaker" where
  "record_success now b =
     (let b1 = b\<lparr>consecutive_failures := 0,
                 consecutive_successes := consecutive_successes b + 1,
                 last_success_time := Some now,
                 stats := (stats b)\<lparr>st_total_successes := st_total_successes (stats b) + 1\<rparr>\<rparr>
      in if cb_window_size b1 > 0 then push_outcome False b1 else b1)"

text \<open>
  \<open>__aenter__\<close> reads the clock for the timeout check (\<open>t1\<close>) and, when the breaker
  moves to half-open, again for the time of the change (\<open>t2\<close>). It may change the state
  and still raise, so the result is a pair.
\<close>

definition half_open_transition :: "time \<Rightarrow> time \<Rightarrow> breaker \<Rightarrow> breaker" where
  "half_open_transition t1 t2 b =
     (if should_transition_to_half_open t1 b
      then (change_state t2 HALF_OPEN b)\<lparr>half_open_requests := 0\<rparr> else b)"

definition aenter :: "time \<Rightarrow> time \<Rightarrow> breaker \<Rightarrow> (cb_error + unit) \<times> breaker" where
  "aenter t1 t2 b =
     (let b1 = half_open_transition t1 t2 b in
      if state b1 = OPEN then (Inl CircuitOpenError, b1)
      else if state b1 = HALF_OPEN then
        (if half_open_requests b1 \<ge> half_open_max_requests (config b1)
         then (Inl CircuitOpenError, b1)
         else (Inr (), b1\<lparr>half_open_requests := half_open_requests b1 + 1\<rparr>))
      else (Inr (), b1))"

text \<open>
  \<open>__aexit__\<close>: \<open>None\<close> is a body that returned, \<open>Some e\<close> one that raised \<open>e\<close>.
  The statistics are copied before this call's own outcome is recorded. \<open>t1\<close> is the
  time of the outcome, \<open>t2\<close> the time of a state change.
\<close>

definition release_slot :: "breaker \<Rightarrow> breaker" where
  "release_slot b =
     (if half_open_requests b > 0
      then b\<lparr>half_open_requests := half_open_requests b - 1\<rparr> else b)"

definition update_stats :: "breaker \<Rightarrow> breaker" where
  "update_stats b =
     b\<lparr>stats := (stats b)\<lparr>
        st_total_requests := st_total_requests (stats b) + 1,
        st_consecutive_failures := consecutive_failures b,
        st_consecutive_successes := consecutive_successes b,
        st_last_failure_time := last_failure_time b,
        st_last_success_time := last_success_time b,
        st_last_state_change := last_state_change b,
        st_state := state b,
        st_state_changes := state_changes b\<rparr>\<rparr>"

definition is_failure :: "exc option \<Rightarrow> breaker \<Rightarrow> bool" where
  "is_failure ex b =
     (case ex of None \<Rightarrow> False
      | Some e \<Rightarrow> \<not> isinstance e (excluded_exceptions (config b)))"

definition exit_failure :: "time \<Rightarrow> time \<Rightarrow> breaker \<Rightarrow> breaker" where
  "exit_failure t1 t2 b0 =
     (let b = record_failure t1 b0 in
      if should_trip b then change_state t2 OPEN b
      else if window_failure_rate_exceeded b then trip_on_failure_rate t2 b
      else if cb_window_size b > 0 \<and> state b = HALF_OPEN then change_state t2 OPEN b
      else b)"

definition exit_success :: "time \<Rightarrow> time \<Rightarrow> breaker \<Rightarrow> breaker" where
  "exit_success t1 t2 b0 =
     (let b = record_success t1 b0 in
      if should_reset b then change_state t2 CLOSED b
      else if state b = CLOSED \<and> window_failure_rate_exceeded b then trip_on_failure_rate t2 b
      else b)"

definition aexit :: "exc option \<Rightarrow> time \<Rightarrow> time \<Rightarrow> breaker \<Rightarrow> breaker" where
  "aexit ex t1 t2 b =
     (let b1 = update_stats (release_slot b) in
      if is_failure ex b1 then exit_failure t1 t2 b1 else exit_success t1 t2 b1)"

text \<open>
  \<open>call\<close>: enter, run the function, exit. The function awaits, so other callers may step
  the breaker meanwhile (\<open>meanwhile\<close>); its outcome is a value or an exception, which
  \<open>__aexit__\<close> does not swallow.
\<close>

definition cb_call ::
  "time \<times> time \<times> time \<times> time \<Rightarrow> (breaker \<Rightarrow> breaker) \<Rightarrow> exc + 'v \<Rightarrow> breaker
   \<Rightarrow> (cb_error + 'v) \<times> breaker" where
  "cb_call ts meanwhile outcome b =
     (case ts of (t1, t2, t3, t4) \<Rightarrow>
        (case aenter t1 t2 b of
           (Inl e, b1) \<Rightarrow> (Inl e, b1)
         | (Inr _, b1) \<Rightarrow>
             (let b2 = meanwhile b1 in
              case outcome of
                Inl e \<Rightarrow> (Inl (Raised e), aexit (Some e) t3 t4 b2)
              | Inr v \<Rightarrow> (Inr v, aexit None t3 t4 b2))))"

definition cb_reset :: "time \<Rightarrow> breaker \<Rightarrow> breaker" where
  "cb_reset now b = (change_state now CLOSED b)\<lparr>consecutive_failures := 0,
     consecutive_successes := 0, half_open_requests := 0, window := []\<rparr>"

definition force_open :: "time \<Rightarrow> breaker \<Rightarrow> breaker" where
  "force_open now b = change_state now OPEN b"

definition get_stats :: "breaker \<Rightarrow> cb_stats" where
  "get_stats b = \<lparr>st_state = state b, st_consecutive_failures = consecutive_failures b,
     st_consecutive_successes = consecutive_successes b,
     st_total_requests = st_total_requests (stats b),
     st_total_failures = st_total_failures (stats b),
     st_total_successes = st_total_successes (stats b),
     st_last_failure_time = last_failure_time b, st_last_success_time = last_success_time b,
     st_last_state_change = last_state_change b, st_state_changes = state_changes b\<rparr>"

text \<open>The steps other tasks see: a caller enters, a caller leaves, an operator resets or forces.\<close>

datatype cb_event =
    Enter time time
  | Exit "exc option" time time
  | Reset time
  | ForceOpen time

fun cb_step :: "breaker \<Rightarrow> cb_event \<Rightarrow> breaker" where
  "cb_step b (Enter t1 t2) = snd (aenter t1 t2 b)"
| "cb_step b (Exit ex t1 t2) = aexit ex t1 t2 b"
| "cb_step b (Reset t) = cb_reset t b"
| "cb_step b (ForceOpen t) = force_open t b"

section \<open>Shared breakers: registry, scope and ambient slot\<close>

text \<open>
  Breakers are shared objects: the registry, an open scope and the ambient slot hold
  references to them. A reference is an index of the heap, and creating a breaker appends.
\<close>

record cb_registry =
  breakers :: "(string \<times> nat) list"
  default_config :: cb_config

record cb_world =
  heap :: "breaker list"
  the_registry :: "cb_registry option"
  ambient :: "nat option"

definition new_registry :: cb_registry where
  "new_registry = \<lparr>breakers = [], default_config = default_cb_config\<rparr>"

definition get_registry :: "cb_world \<Rightarrow> cb_registry \<times> cb_world" where
  "get_registry w =
     (case the_registry w of
        None \<Rightarrow> (new_registry, w\<lparr>the_registry := Some new_registry\<rparr>)
      | Some r \<Rightarrow> (r, w))"

definition alloc_breaker :: "string \<Rightarrow> breaker \<Rightarrow> cb_registry \<Rightarrow> cb_world \<Rightarrow> nat \<times> cb_world" where
  "alloc_breaker nm b r w =
     (length (heap w),
      w\<lparr>heap := heap w @ [b],
        the_registry := Some (r\<lparr>breakers := dict_set nm (length (heap w)) (breakers r)\<rparr>)\<rparr>)"

definition get_circuit_breaker ::
  "string \<Rightarrow> cb_config option \<times> time \<Rightarrow> cb_world \<Rightarrow> nat \<times> cb_world" where
  "get_circuit_breaker nm a w =
     (case get_registry w of (r, w1) \<Rightarrow>
        (case dict_get (breakers r) nm of
           Some i \<Rightarrow> (i, w1)
         | None \<Rightarrow>
             alloc_breaker nm
               (new_breaker (Some (option_or (fst a) (default_config r))) nm (snd a)) r w1))"

definition update_at :: "nat \<Rightarrow> (breaker \<Rightarrow> breaker) \<Rightarrow> cb_world \<Rightarrow> cb_world" where
  "update_at i f w = w\<lparr>heap := (heap w)[i := f (heap w ! i)]\<rparr>"

definition get_all_stats :: "cb_world \<Rightarrow> (string \<times> cb_stats) list" where
  "get_all_stats w =
     (case the_registry w of None \<Rightarrow> []
      | Some r \<Rightarrow> map (\<lambda>(nm, i). (nm, get_stats (heap w ! i))) (breakers r))"

definition reset_all :: "(nat \<Rightarrow> time) \<Rightarrow> cb_world \<Rightarrow> cb_world" where
  "reset_all clock w =
     (case the_registry w of None \<Rightarrow> w
      | Some r \<Rightarrow> foldl (\<lambda>w (k, nm, i). update_at i (cb_reset (clock k)) w) w
                    (enumerate 0 (breakers r)))"

definition set_default_config :: "cb_config \<Rightarrow> cb_world \<Rightarrow> cb_world" where
  "set_default_config cfg w =
     (case get_registry w of (r, w1) \<Rightarrow> w1\<lparr>the_registry := Some (r\<lparr>default_config := cfg\<rparr>)\<rparr>)"

definition ollama_defaults :: cb_config where
  "ollama_defaults = \<lparr>failure_threshold = 3, success_threshold = 2, timeout_seconds = 60,
     half_open_max_requests = 1, excluded_exceptions = [], enabled = True,
     window_size = Some 20, failure_rate_threshold = 1 / 2\<rparr>"

definition ollama_config :: "cb_config option \<Rightarrow> cb_config" where
  "ollama_config cfg =
     (case cfg of None \<Rightarrow> ollama_defaults
      | Some c \<Rightarrow>
          \<lparr>failure_threshold = int_or (failure_threshold c) (failure_threshold ollama_defaults),
           success_threshold = int_or (success_threshold c) (success_threshold ollama_defaults),
           timeout_seconds = float_or (timeout_seconds c) (timeout_seconds ollama_defaults),
           half_open_max_requests =
             int_or (half_open_max_requests c) (half_open_max_requests ollama_defaults),
           excluded_exceptions =
             list_or (excluded_exceptions c) (excluded_exceptions ollama_defaults),
           enabled = enabled c,
           window_size =
             (if window_size c \<noteq> None then window_size c else window_size ollama_defaults),
           failure_rate_threshold =
             float_or (failure_rate_threshold c) (failure_rate_threshold ollama_defaults)\<rparr>)"

definition get_ollama_circuit_breaker ::
  "string \<Rightarrow> cb_config option \<times> time \<Rightarrow> cb_world \<Rightarrow> nat \<times> cb_world" where
  "get_ollama_circuit_breaker nm a w =
     (case get_registry w of (r, w1) \<Rightarrow>
        (case dict_get (breakers r) nm of
           Some i \<Rightarrow> (i, w1)
         | None \<Rightarrow>
             alloc_breaker nm (new_breaker (Some (ollama_config (fst a))) nm (snd a)) r w1))"

definition set_state :: "circuit_state \<Rightarrow> int \<Rightarrow> int \<Rightarrow> int \<Rightarrow> time \<Rightarrow> breaker \<Rightarrow> breaker" where
  "set_state s cf cs ho now b =
     b\<lparr>state := s, consecutive_failures := cf, consecutive_successes := cs,
       half_open_requests := ho, last_state_change := Some now, window := []\<rparr>"

text \<open>The accessor creates the breaker (at \<open>t1\<close>) when there is none, and the reset is at \<open>t2\<close>.\<close>

definition reset_ollama_circuit_breaker ::
  "string \<Rightarrow> time \<Rightarrow> time \<Rightarrow> cb_world \<Rightarrow> nat \<times> cb_world" where
  "reset_ollama_circuit_breaker nm t1 t2 w =
     (case get_ollama_circuit_breaker nm (None, t1) w of
        (i, w1) \<Rightarrow> (i, update_at i (set_state CLOSED 0 0 0 t2) w1))"

record scope =
  sc_name :: string
  sc_breaker :: "nat option"
  saved_state :: "circuit_state option"
  saved_consecutive_failures :: int
  saved_consecutive_successes :: int
  saved_half_open_requests :: int
  saved_window :: "bool list"

definition new_scope :: "string \<Rightarrow> scope" where
  "new_scope nm = \<lparr>sc_name = nm, sc_breaker = None, saved_state = None,
     saved_consecutive_failures = 0, saved_consecutive_successes = 0,
     saved_half_open_requests = 0, saved_window = []\<rparr>"

definition scope_enter :: "time \<Rightarrow> time \<Rightarrow> scope \<Rightarrow> cb_world \<Rightarrow> scope \<times> cb_world" where
  "scope_enter t1 t2 sc w =
     (case get_ollama_circuit_breaker (sc_name sc) (None, t1) w of (i, w1) \<Rightarrow>
        (let b = heap w1 ! i in
         (sc\<lparr>sc_breaker := Some i, saved_state := Some (state b),
             saved_consecutive_failures := consecutive_failures b,
             saved_consecutive_successes := consecutive_successes b,
             saved_half_open_requests := half_open_requests b,
             saved_window := window b\<rparr>,
          update_at i (set_state CLOSED 0 0 0 t2) w1)))"

definition scope_exit :: "time \<Rightarrow> scope \<Rightarrow> cb_world \<Rightarrow> cb_world" where
  "scope_exit now sc w =
     (case (sc_breaker sc, saved_state sc) of
        (Some i, Some s) \<Rightarrow>
          update_at i (\<lambda>b. let b1 = set_state s (saved_consecutive_failures sc)
                                      (saved_consecutive_successes sc)
                                      (saved_half_open_requests sc) now b
                           in b1\<lparr>window := window b1 @ saved_window sc\<rparr>) w
      | _ \<Rightarrow> w)"

definition push_ollama_breaker :: "nat \<Rightarrow> cb_world \<Rightarrow> nat option \<times> cb_world" where
  "push_ollama_breaker i w = (ambient w, w\<lparr>ambient := Some i\<rparr>)"

definition pop_ollama_breaker :: "nat option \<Rightarrow> cb_world \<Rightarrow> cb_world" where
  "pop_ollama_breaker previous w = w\<lparr>ambient := previous\<rparr>"

definition current_ollama_breaker :: "string \<Rightarrow> time \<Rightarrow> cb_world \<Rightarrow> nat \<times> cb_world" where
  "current_ollama_breaker nm now w =
     (case ambient w of
        Some i \<Rightarrow> (i, w)
      | None \<Rightarrow> get_ollama_circuit_breaker nm (None, now) w)"

datatype starvation = CircuitStarvationError string string

definition raise_if_ollama_starved ::
  "string \<Rightarrow> string \<Rightarrow> time \<Rightarrow> cb_world \<Rightarrow> (starvation + unit) \<times> cb_world" where
  "raise_if_ollama_starved ctx nm now w =
     (case current_ollama_breaker nm now w of (i, w1) \<Rightarrow>
        (if is_open (heap w1 ! i) then (Inl (CircuitStarvationError nm ctx), w1)
         else (Inr (), w1)))"

section \<open>Invariant of every run\<close>

text \<open>The moves the state log may show; \<open>HALF_OPEN\<close> is reached from \<open>OPEN\<close> only.\<close>

inductive legal_move :: "circuit_state \<Rightarrow> circuit_state \<Rightarrow> bool" where
  closed_open: "legal_move CLOSED OPEN"
| open_half: "legal_move OPEN HALF_OPEN"
| open_closed: "legal_move OPEN CLOSED"
| half_open_open: "legal_move HALF_OPEN OPEN"
| half_closed: "legal_move HALF_OPEN CLOSED"

inductive_simps legal_from_closed [simp]: "legal_move CLOSED s"
inductive_simps legal_from_open [simp]: "legal_move OPEN s"
inductive_simps legal_from_half [simp]: "legal_move HALF_OPEN s"

definition log_good :: "breaker \<Rightarrow> bool" where
  "log_good b \<longleftrightarrow> state_changes b \<noteq> [] \<and> fst (last (state_changes b)) = state b \<and>
     Some (snd (last (state_changes b))) = last_state_change b \<and>
     successively legal_move (map fst (state_changes b))"

definition counters_good :: "breaker \<Rightarrow> bool" where
  "counters_good b \<longleftrightarrow> 0 \<le> consecutive_failures b \<and> 0 \<le> consecutive_successes b \<and>
     (consecutive_failures b = 0 \<or> consecutive_successes b = 0) \<and>
     st_total_requests (stats b) = st_total_failures (stats b) + st_total_successes (stats b) \<and>
     0 \<le> st_total_failures (stats b) \<and> 0 \<le> st_total_successes (stats b)"

definition slots_good :: "breaker \<Rightarrow> bool" where
  "slots_good b \<longleftrightarrow> 0 \<le> half_open_requests b \<and>
     half_open_requests b \<le> max 0 (half_open_max_requests (config b)) \<and>
     int (length (window b)) \<le> max 0 (cb_window_size b)"

definition breaker_good :: "breaker \<Rightarrow> bool" where
  "breaker_good b \<longleftrightarrow> log_good b \<and> counters_good b \<and> slots_good b"

lemmas breaker_good_defs = breaker_good_def log_good_def counters_good_def slots_good_def

lemmas outcome_defs = push_outcome_def record_failure_def record_success_def
  exit_failure_def exit_success_def trip_on_failure_rate_def change_state_def

lemma successively_snoc:
  "successively P (xs @ [x]) \<longleftrightarrow> successively P xs \<and> (xs \<noteq> [] \<longrightarrow> P (last xs) x)"
  by (auto simp: successively_append_iff)

lemma log_good_change:
  assumes "log_good b" and "legal_move (state b) s"
  shows "log_good (change_state t s b)"
  using assms by (auto simp: log_good_def change_state_def successively_snoc last_map)

lemma log_good_frame:
  "state b' = state b \<Longrightarrow> state_changes b' = state_changes b \<Longrightarrow>
   last_state_change b' = last_state_change b \<Longrightarrow> log_good b' = log_good b"
  by (simp add: log_good_def)

lemma log_good_window [simp]: "log_good (b\<lparr>window := w\<rparr>) = log_good b"
  by (simp add: log_good_def)

lemma log_good_same: "log_good b \<Longrightarrow> state b = s \<Longrightarrow> log_good (change_state t s b)"
  by (simp add: change_state_def)

lemma log_good_open: "log_good b \<Longrightarrow> log_good (change_state t OPEN b)"
  by (cases "state b") (auto intro: log_good_change log_good_same)

lemma log_good_closed: "log_good b \<Longrightarrow> log_good (change_state t CLOSED b)"
  by (cases "state b") (auto intro: log_good_change log_good_same)

lemma change_state_sel [simp]:
  "state (change_state t s b) = s"
  "config (change_state t s b) = config b"
  "consecutive_failures (change_state t s b) = consecutive_failures b"
  "consecutive_successes (change_state t s b) = consecutive_successes b"
  "half_open_requests (change_state t s b) = half_open_requests b"
  "stats (change_state t s b) = stats b"
  "window (change_state t s b) = window b"
  "cb_window_size (change_state t s b) = cb_window_size b"
  by (simp_all add: change_state_def cb_window_size_def)

lemma record_failure_sel [simp]:
  "state (record_failure t b) = state b"
  "config (record_failure t b) = config b"
  "consecutive_failures (record_failure t b) = consecutive_failures b + 1"
  "consecutive_successes (record_failure t b) = 0"
  "half_open_requests (record_failure t b) = half_open_requests b"
  "state_changes (record_failure t b) = state_changes b"
  "last_state_change (record_failure t b) = last_state_change b"
  "stats (record_failure t b) =
     (stats b)\<lparr>st_total_failures := st_total_failures (stats b) + 1\<rparr>"
  "cb_window_size (record_failure t b) = cb_window_size b"
  by (simp_all add: record_failure_def push_outcome_def cb_window_size_def Let_def)

lemma record_success_sel [simp]:
  "state (record_success t b) = state b"
  "config (record_success t b) = config b"
  "consecutive_failures (record_success t b) = 0"
  "consecutive_successes (record_success t b) = consecutive_successes b + 1"
  "half_open_requests (record_success t b) = half_open_requests b"
  "state_changes (record_success t b) = state_changes b"
  "last_state_change (record_success t b) = last_state_change b"
  "stats (record_success t b) =
     (stats b)\<lparr>st_total_successes := st_total_successes (stats b) + 1\<rparr>"
  "cb_window_size (record_success t b) = cb_window_size b"
  by (simp_all add: record_success_def push_outcome_def cb_window_size_def Let_def)

lemma window_record_bound:
  assumes "int (length (window b)) \<le> max 0 (cb_window_size b)"
  shows "int (length (window (record_failure t b))) \<le> max 0 (cb_window_size b)"
    and "int (length (window (record_success t b))) \<le> max 0 (cb_window_size b)"
  using assms
  by (auto simp: record_failure_def record_success_def push_outcome_def Let_def
      cb_window_size_def length_trim_left)

lemma leave_sel [simp]:
  "state (update_stats (release_slot b)) = state b"
  "config (update_stats (release_slot b)) = config b"
  "consecutive_failures (update_stats (release_slot b)) = consecutive_failures b"
  "consecutive_successes (update_stats (release_slot b)) = consecutive_successes b"
  "half_open_requests (update_stats (release_slot b)) =
     (if half_open_requests b > 0 then half_open_requests b - 1 else half_open_requests b)"
  "state_changes (update_stats (release_slot b)) = state_changes b"
  "last_state_change (update_stats (release_slot b)) = last_state_change b"
  "window (update_stats (release_slot b)) = window b"
  "st_total_requests (stats (update_stats (release_slot b))) = st_total_requests (stats b) + 1"
  "st_total_failures (stats (update_stats (release_slot b))) = st_total_failures (stats b)"
  "st_total_successes (stats (update_stats (release_slot b))) = st_total_successes (stats b)"
  "cb_window_size (update_stats (release_slot b)) = cb_window_size b"
  by (simp_all add: update_stats_def release_slot_def cb_window_size_def)

lemma exit_failure_config [simp]: "config (exit_failure t1 t2 b) = config b"
  by (simp add: exit_failure_def trip_on_failure_rate_def Let_def)

lemma exit_success_config [simp]: "config (exit_success t1 t2 b) = config b"
  by (simp add: exit_success_def trip_on_failure_rate_def Let_def)

lemma aexit_config [simp]: "config (aexit ex t1 t2 b) = config b"
  by (simp add: aexit_def Let_def)

lemma half_open_transition_sel [simp]:
  "config (half_open_transition t1 t2 b) = config b"
  "stats (half_open_transition t1 t2 b) = stats b"
  "window (half_open_transition t1 t2 b) = window b"
  "consecutive_failures (half_open_transition t1 t2 b) = consecutive_failures b"
  "consecutive_successes (half_open_transition t1 t2 b) = consecutive_successes b"
  "cb_window_size (half_open_transition t1 t2 b) = cb_window_size b"
  by (simp_all add: half_open_transition_def cb_window_size_def)

lemma aenter_sel [simp]:
  "config (snd (aenter t1 t2 b)) = config b"
  "state (snd (aenter t1 t2 b)) = state (half_open_transition t1 t2 b)"
  "consecutive_failures (snd (aenter t1 t2 b)) = consecutive_failures b"
  "consecutive_successes (snd (aenter t1 t2 b)) = consecutive_successes b"
  "stats (snd (aenter t1 t2 b)) = stats b"
  "window (snd (aenter t1 t2 b)) = window b"
  by (simp_all add: aenter_def Let_def)

lemma cb_step_config [simp]: "config (cb_step b e) = config b"
  by (cases e) (simp_all add: cb_reset_def force_open_def)

lemma transition_good:
  assumes "breaker_good b"
  shows "breaker_good (half_open_transition t1 t2 b)"
proof (cases "should_transition_to_half_open t1 b")
  case True
  then have "state b = OPEN"
    by (auto simp: should_transition_to_half_open_def split: if_splits)
  with assms have "log_good (change_state t2 HALF_OPEN b)"
    by (auto simp: breaker_good_def intro: log_good_change)
  with assms True show ?thesis
    by (auto simp: breaker_good_def half_open_transition_def counters_good_def slots_good_def
        log_good_def cb_window_size_def)
next
  case False
  with assms show ?thesis by (simp add: half_open_transition_def)
qed

lemma aenter_good:
  assumes "breaker_good b"
  shows "breaker_good (snd (aenter t1 t2 b))"
proof -
  define b1 where "b1 = half_open_transition t1 t2 b"
  have "breaker_good b1" unfolding b1_def using assms by (rule transition_good)
  then show ?thesis
    unfolding aenter_def b1_def[symmetric]
    by (auto simp: Let_def breaker_good_defs cb_window_size_def)
qed

lemma exit_failure_log:
  assumes "log_good b" shows "log_good (exit_failure t1 t2 b)"
proof -
  have r: "log_good (record_failure t1 b)"
    using assms by (simp add: log_good_def)
  then show ?thesis
    by (simp add: exit_failure_def trip_on_failure_rate_def Let_def log_good_open)
qed

lemma exit_success_log:
  assumes "log_good b" shows "log_good (exit_success t1 t2 b)"
proof -
  have r: "log_good (record_success t1 b)"
    using assms by (simp add: log_good_def)
  then show ?thesis
    by (simp add: exit_success_def trip_on_failure_rate_def Let_def log_good_closed log_good_open)
qed

lemma exit_failure_sel [simp]:
  "consecutive_failures (exit_failure t1 t2 b) = consecutive_failures b + 1"
  "consecutive_successes (exit_failure t1 t2 b) = 0"
  "half_open_requests (exit_failure t1 t2 b) = half_open_requests b"
  "stats (exit_failure t1 t2 b) =
     (stats b)\<lparr>st_total_failures := st_total_failures (stats b) + 1\<rparr>"
  by (simp_all add: exit_failure_def trip_on_failure_rate_def Let_def)

lemma exit_success_sel [simp]:
  "consecutive_failures (exit_success t1 t2 b) = 0"
  "consecutive_successes (exit_success t1 t2 b) = consecutive_successes b + 1"
  "half_open_requests (exit_success t1 t2 b) = half_open_requests b"
  "stats (exit_success t1 t2 b) =
     (stats b)\<lparr>st_total_successes := st_total_successes (stats b) + 1\<rparr>"
  by (simp_all add: exit_success_def trip_on_failure_rate_def Let_def)

lemma exit_window_bound:
  assumes "int (length (window b)) \<le> max 0 (cb_window_size b)"
  shows "int (length (window (exit_failure t1 t2 b))) \<le> max 0 (cb_window_size b)"
    and "int (length (window (exit_success t1 t2 b))) \<le> max 0 (cb_window_size b)"
  using window_record_bound [OF assms, of t1]
  by (auto simp: exit_failure_def exit_success_def trip_on_failure_rate_def Let_def)

lemma aexit_good:
  assumes "breaker_good b"
  shows "breaker_good (aexit ex t1 t2 b)"
proof -
  define b1 where "b1 = update_stats (release_slot b)"
  have log: "log_good b1"
    using assms unfolding b1_def breaker_good_def by (simp add: log_good_def)
  have slots: "slots_good b1"
    using assms unfolding b1_def breaker_good_def by (auto simp: slots_good_def cb_window_size_def)
  have w: "int (length (window b1)) \<le> max 0 (cb_window_size b1)"
    using slots by (simp add: slots_good_def)
  have ws: "cb_window_size (exit_failure t1 t2 b1) = cb_window_size b1"
    "cb_window_size (exit_success t1 t2 b1) = cb_window_size b1"
    by (simp_all add: cb_window_size_def)
  have "log_good (exit_failure t1 t2 b1)" "log_good (exit_success t1 t2 b1)"
    using log by (simp_all add: exit_failure_log exit_success_log)
  moreover have "slots_good (exit_failure t1 t2 b1)" "slots_good (exit_success t1 t2 b1)"
    using slots exit_window_bound [OF w] by (simp_all add: slots_good_def ws)
  moreover have "counters_good (exit_failure t1 t2 b1)" "counters_good (exit_success t1 t2 b1)"
    using assms unfolding b1_def breaker_good_def by (auto simp: counters_good_def)
  ultimately show ?thesis
    unfolding aexit_def b1_def[symmetric] Let_def breaker_good_def by simp
qed

lemma reset_good: "breaker_good b \<Longrightarrow> breaker_good (cb_reset t b)"
  using log_good_closed [of b t]
  by (auto simp: breaker_good_def cb_reset_def counters_good_def slots_good_def log_good_def
      cb_window_size_def)

lemma force_open_good: "breaker_good b \<Longrightarrow> breaker_good (force_open t b)"
  using log_good_open [of b t]
  by (auto simp: breaker_good_def force_open_def counters_good_def slots_good_def)

interpretation breaker: step_system cb_step breaker_good
proof
  show "breaker_good (cb_step b e)" if "breaker_good b" for b e
    using that by (cases e) (simp_all add: aenter_good aexit_good reset_good force_open_good)
qed

lemma new_breaker_good: "breaker_good (new_breaker cfg nm t)"
  by (simp add: new_breaker_def breaker_good_defs new_cb_stats_def)

text \<open>C15: in every interleaving of callers entering and leaving, resets and forced opens, the
  state log ends in the current state and contains legal moves only, the counters agree with the
  totals, the rolling window never exceeds its configured size and the trial slots in use never
  exceed the configured maximum.\<close>

theorem breaker_invariant: "breaker_good (foldl cb_step (new_breaker cfg nm t) es)"
  by (rule breaker.run_good [OF new_breaker_good])

section \<open>Admission\<close>

lemma transition_state:
  "state (half_open_transition t1 t2 b) =
     (if should_transition_to_half_open t1 b then HALF_OPEN else state b)"
  by (simp add: half_open_transition_def)

lemma due_open: "should_transition_to_half_open t b \<Longrightarrow> state b = OPEN \<and> enabled (config b)"
  by (auto simp: should_transition_to_half_open_def split: if_splits)

text \<open>exactly when a call is let through: always in \<open>CLOSED\<close>, in \<open>HALF_OPEN\<close> while a
  trial slot is free, in \<open>OPEN\<close> only once the timeout has run out on an enabled breaker (and a
  slot can exist at all). A refused call in \<open>OPEN\<close> before the timeout changes nothing.\<close>

theorem admission_iff:
  "(fst (aenter t1 t2 b) = Inr () \<longleftrightarrow>
      (case state b of
         CLOSED \<Rightarrow> True
       | HALF_OPEN \<Rightarrow> half_open_requests b < half_open_max_requests (config b)
       | OPEN \<Rightarrow> should_transition_to_half_open t1 b \<and> 0 < half_open_max_requests (config b)))
   \<and> (fst (aenter t1 t2 b) \<noteq> Inr () \<longrightarrow> fst (aenter t1 t2 b) = Inl CircuitOpenError)
   \<and> (state b = OPEN \<and> \<not> should_transition_to_half_open t1 b \<longrightarrow>
        aenter t1 t2 b = (Inl CircuitOpenError, b))"
  using due_open [of t1 b]
  by (cases "state b") (auto simp: aenter_def half_open_transition_def Let_def)

definition open_demo :: breaker where
  "open_demo = force_open 10 (new_breaker None ''llm'' 0)"

theorem admission_iff_witness:
  "aenter 20 20 open_demo = (Inl CircuitOpenError, open_demo) \<and>
   fst (aenter 40 40 open_demo) = Inr ()"
proof -
  have s: "state open_demo = OPEN" by (simp add: open_demo_def force_open_def)
  have early: "\<not> should_transition_to_half_open 20 open_demo"
    by (simp add: open_demo_def force_open_def change_state_def new_breaker_def option_or_def
        default_cb_config_def should_transition_to_half_open_def)
  have late: "should_transition_to_half_open 40 open_demo"
    "0 < half_open_max_requests (config open_demo)"
    by (simp_all add: open_demo_def force_open_def change_state_def new_breaker_def option_or_def
        default_cb_config_def should_transition_to_half_open_def)
  from s early have "aenter 20 20 open_demo = (Inl CircuitOpenError, open_demo)"
    using admission_iff [of 20 20 open_demo, THEN conjunct2, THEN conjunct2] by blast
  moreover from s late have "fst (aenter 40 40 open_demo) = Inr ()"
    unfolding admission_iff [of 40 40 open_demo, THEN conjunct1] by simp
  ultimately show ?thesis ..
qed

text \<open>the retry hint agrees with the admission rule: on an enabled open breaker with a time of
  change, zero seconds are left exactly when the next call moves it to half-open, and after waiting
  the announced seconds it does.\<close>

theorem retry_hint_exact:
  assumes "state b = OPEN" and "enabled (config b)" and "last_state_change b = Some t"
  shows "(seconds_until_retry now b = 0 \<longleftrightarrow> should_transition_to_half_open now b) \<and>
    should_transition_to_half_open (now + seconds_until_retry now b) b"
proof (rule conjI)
  have s: "seconds_until_retry n b = max 0 (timeout_seconds (config b) - (n - t))" for n
    using assms by (simp add: seconds_until_retry_def)
  have d: "should_transition_to_half_open n b \<longleftrightarrow> timeout_seconds (config b) \<le> n - t" for n
    using assms by (simp add: should_transition_to_half_open_def)
  show "seconds_until_retry now b = 0 \<longleftrightarrow> should_transition_to_half_open now b"
    unfolding s d by (simp add: max_def)
  show "should_transition_to_half_open (now + seconds_until_retry now b) b"
    unfolding s d by (simp add: max_def)
qed

theorem retry_hint_exact_witness:
  "seconds_until_retry 25 open_demo = 15 \<and> should_transition_to_half_open 40 open_demo"
proof -
  have o: "state open_demo = OPEN" "enabled (config open_demo)"
    "last_state_change open_demo = Some 10"
    by (simp_all add: open_demo_def force_open_def change_state_def new_breaker_def option_or_def
        default_cb_config_def)
  have s: "seconds_until_retry 25 open_demo = 15"
    by (simp add: open_demo_def force_open_def change_state_def new_breaker_def option_or_def
        default_cb_config_def seconds_until_retry_def)
  from retry_hint_exact [OF o, of 25] s show ?thesis by simp
qed

section \<open>Tripping\<close>

definition fails :: "cb_config \<Rightarrow> cb_event \<Rightarrow> bool" where
  "fails cfg ev = (case ev of
     Exit (Some e) _ _ \<Rightarrow> \<not> isinstance e (excluded_exceptions cfg) | _ \<Rightarrow> False)"

lemma failing_exit:
  assumes "fails (config b) ev"
  shows "consecutive_failures (cb_step b ev) = consecutive_failures b + 1"
    and "enabled (config b) \<Longrightarrow> failure_threshold (config b) \<le> consecutive_failures b + 1
           \<Longrightarrow> state (cb_step b ev) = OPEN"
proof -
  obtain e t1 t2 where ev: "ev = Exit (Some e) t1 t2"
      and e: "\<not> isinstance e (excluded_exceptions (config b))"
    using assms by (auto simp: fails_def split: cb_event.splits option.splits)
  then have f: "cb_step b ev = exit_failure t1 t2 (update_stats (release_slot b))"
    by (simp add: aexit_def is_failure_def Let_def)
  then show "consecutive_failures (cb_step b ev) = consecutive_failures b + 1" by simp
  show "state (cb_step b ev) = OPEN"
    if "enabled (config b)" "failure_threshold (config b) \<le> consecutive_failures b + 1"
    unfolding f exit_failure_def using that by (simp add: should_trip_def Let_def)
qed

lemma failing_run_counts:
  "list_all (fails (config b)) es \<Longrightarrow>
   consecutive_failures (foldl cb_step b es) = consecutive_failures b + int (length es)"
  by (induction es arbitrary: b) (auto simp: failing_exit)

lemma run_config [simp]: "config (foldl cb_step b es) = config b"
  by (induction es arbitrary: b) auto

text \<open>enough consecutive counted failures open an enabled breaker, whatever state and
  window it had: after a non-empty run of failing exits that brings the counter to the threshold
  the breaker is \<open>OPEN\<close>.\<close>

theorem consecutive_failures_open:
  assumes "enabled (config b)" and "list_all (fails (config b)) es" and "es \<noteq> []"
    and "failure_threshold (config b) \<le> consecutive_failures b + int (length es)"
  shows "state (foldl cb_step b es) = OPEN"
proof -
  obtain ds ev where es: "es = ds @ [ev]" using \<open>es \<noteq> []\<close> by (cases es rule: rev_cases) auto
  let ?b = "foldl cb_step b ds"
  have "consecutive_failures ?b = consecutive_failures b + int (length ds)"
    using assms(2) es by (simp add: failing_run_counts)
  then have "state (cb_step ?b ev) = OPEN"
    using assms es by (intro failing_exit(2)) auto
  then show ?thesis by (simp add: es)
qed

theorem consecutive_failures_open_witness:
  "state (foldl cb_step (new_breaker None ''llm'' 0)
     (replicate 5 (Exit (Some [''TimeoutError'']) 1 1))) = OPEN"
  by (rule consecutive_failures_open)
    (simp_all add: new_breaker_def option_or_def default_cb_config_def fails_def isinstance_def
      eval_nat_numeral)

definition forces :: "cb_event \<Rightarrow> bool" where
  "forces ev = (case ev of ForceOpen _ \<Rightarrow> True | _ \<Rightarrow> False)"

lemma disabled_step:
  assumes "\<not> enabled (config b)" and "\<not> forces ev" and "state b = CLOSED"
  shows "state (cb_step b ev) = CLOSED"
proof -
  have no: "\<not> should_transition_to_half_open t b" for t
    using assms(1) by (simp add: should_transition_to_half_open_def)
  show ?thesis
  proof (cases ev)
    case (Enter t1 t2)
    with assms no show ?thesis by (simp add: transition_state)
  next
    case (Exit ex t1 t2)
    with assms show ?thesis
      by (simp add: aexit_def exit_failure_def exit_success_def should_trip_def
          window_failure_rate_exceeded_def Let_def)
  next
    case (Reset t)
    then show ?thesis by (simp add: cb_reset_def)
  next
    case (ForceOpen t)
    with assms(2) show ?thesis by (simp add: forces_def)
  qed
qed

text \<open>a disabled breaker that nobody forces open never rejects anything, however many
  failures it sees: it stays \<open>CLOSED\<close> in every run and the next call is admitted.\<close>

theorem disabled_never_trips:
  assumes "\<not> enabled (config b)" and "state b = CLOSED" and "list_all (\<lambda>ev. \<not> forces ev) es"
  shows "state (foldl cb_step b es) = CLOSED \<and> fst (aenter t1 t2 (foldl cb_step b es)) = Inr ()"
proof -
  have "state (foldl cb_step b es) = CLOSED"
    using assms by (induction es arbitrary: b) (simp_all add: disabled_step)
  moreover from this have "fst (aenter t1 t2 (foldl cb_step b es)) = Inr ()"
    by (simp add: aenter_def half_open_transition_def should_transition_to_half_open_def Let_def)
  ultimately show ?thesis by simp
qed

theorem disabled_never_trips_witness:
  "state (foldl cb_step (new_breaker (Some (default_cb_config\<lparr>enabled := False\<rparr>)) ''x'' 0)
     (replicate 9 (Exit (Some [''TimeoutError'']) 1 1))) = CLOSED"
  using disabled_never_trips [of "new_breaker (Some (default_cb_config\<lparr>enabled := False\<rparr>)) ''x'' 0"
      "replicate 9 (Exit (Some [''TimeoutError'']) 1 1)" 2 2]
  by (simp add: new_breaker_def option_or_def forces_def list_all_iff)

section \<open>Recovery\<close>

text \<open>A trial call that succeeds while no other caller runs.\<close>

definition probe :: "breaker \<Rightarrow> time \<times> time \<times> time \<times> time \<Rightarrow> breaker" where
  "probe b ts = snd (cb_call ts id (Inr () :: exc + unit) b)"

definition trial_ready :: "breaker \<Rightarrow> bool" where
  "trial_ready b \<longleftrightarrow> state b = HALF_OPEN \<and> 0 \<le> half_open_requests b \<and>
     half_open_requests b < half_open_max_requests (config b) \<and> 0 \<le> consecutive_successes b"

lemma exit_success_state:
  "state b = HALF_OPEN \<Longrightarrow> state (exit_success t1 t2 b) =
     (if success_threshold (config b) \<le> consecutive_successes b + 1 then CLOSED else HALF_OPEN)"
  by (simp add: exit_success_def should_reset_def Let_def)

lemma probe_trial:
  assumes "trial_ready b"
  shows "state (probe b ts) =
      (if success_threshold (config b) \<le> consecutive_successes b + 1 then CLOSED else HALF_OPEN)"
    and "config (probe b ts) = config b"
    and "half_open_requests (probe b ts) = half_open_requests b"
    and "consecutive_successes (probe b ts) = consecutive_successes b + 1"
proof -
  obtain t1 t2 t3 t4 where ts: "ts = (t1, t2, t3, t4)" by (cases ts) auto
  have "\<not> should_transition_to_half_open t1 b"
    using assms due_open by (auto simp: trial_ready_def)
  with assms have e: "aenter t1 t2 b =
      (Inr (), b\<lparr>half_open_requests := half_open_requests b + 1\<rparr>)"
    by (simp add: aenter_def half_open_transition_def trial_ready_def Let_def)
  show "state (probe b ts) =
      (if success_threshold (config b) \<le> consecutive_successes b + 1 then CLOSED else HALF_OPEN)"
    "config (probe b ts) = config b"
    "half_open_requests (probe b ts) = half_open_requests b"
    "consecutive_successes (probe b ts) = consecutive_successes b + 1"
    using assms
    by (simp_all add: probe_def cb_call_def ts e aexit_def is_failure_def Let_def
        exit_success_state trial_ready_def)
qed

lemma trials_close:
  assumes "trial_ready b" and "pts \<noteq> []"
    and "success_threshold (config b) \<le> consecutive_successes b + int (length pts)"
  shows "\<exists>ps. prefix ps pts \<and> state (foldl probe b ps) = CLOSED"
  using assms
proof (induction pts arbitrary: b)
  case Nil
  then show ?case by simp
next
  case (Cons ts pts)
  note p = probe_trial [OF Cons.prems(1), of ts]
  show ?case
  proof (cases "success_threshold (config b) \<le> consecutive_successes b + 1")
    case True
    with p(1) have "state (foldl probe b [ts]) = CLOSED" by simp
    then show ?thesis by (intro exI [of _ "[ts]"]) simp
  next
    case False
    with p Cons.prems have "trial_ready (probe b ts)" "pts \<noteq> []"
      "success_threshold (config (probe b ts))
         \<le> consecutive_successes (probe b ts) + int (length pts)"
      by (auto simp: trial_ready_def)
    then obtain ps where "prefix ps pts" "state (foldl probe (probe b ts) ps) = CLOSED"
      using Cons.IH by blast
    then show ?thesis by (intro exI [of _ "ts # ps"]) simp
  qed
qed

text \<open>C16: self-healing: once the timeout of an open breaker has run out, \<open>success_threshold\<close>
  sequential successful calls bring it back to \<open>CLOSED\<close>, although at most
  \<open>half_open_max_requests\<close> trials may run at a time (even one is enough).\<close>

theorem breaker_heals:
  assumes "should_transition_to_half_open (fst (hd pts)) b" and "pts \<noteq> []"
    and "0 < half_open_max_requests (config b)" and "0 \<le> consecutive_successes b"
    and "success_threshold (config b) \<le> int (length pts)"
  shows "\<exists>ps. prefix ps pts \<and> state (foldl probe b ps) = CLOSED"
proof -
  obtain t1 t2 t3 t4 rest where pts: "pts = (t1, t2, t3, t4) # rest"
    using \<open>pts \<noteq> []\<close> by (cases pts) auto
  define b' where "b' = half_open_transition t1 t2 b"
  have tr: "trial_ready b'"
    using assms unfolding b'_def trial_ready_def
    by (simp add: pts transition_state half_open_transition_def)
  then have "\<not> should_transition_to_half_open t1 b'"
    using due_open by (auto simp: trial_ready_def)
  then have "half_open_transition t1 t2 b' = b'" by (simp add: half_open_transition_def)
  then have same: "probe b (t1, t2, t3, t4) = probe b' (t1, t2, t3, t4)"
    by (simp add: probe_def cb_call_def aenter_def b'_def [symmetric])
  have "success_threshold (config b') \<le> consecutive_successes b' + int (length pts)"
    using assms unfolding b'_def by simp
  then obtain ps where ps: "prefix ps pts" "state (foldl probe b' ps) = CLOSED"
    using trials_close [OF tr \<open>pts \<noteq> []\<close>] by blast
  then have "ps \<noteq> []" using tr by (auto simp: trial_ready_def)
  then have "foldl probe b ps = foldl probe b' ps"
    using ps(1) by (cases ps) (auto simp: pts same)
  with ps show ?thesis by auto
qed

theorem breaker_heals_witness:
  "\<exists>ps. prefix ps (replicate 3 (40, 40, 41, 41)) \<and> state (foldl probe open_demo ps) = CLOSED"
  by (rule breaker_heals)
    (simp_all add: open_demo_def force_open_def change_state_def new_breaker_def option_or_def
      default_cb_config_def should_transition_to_half_open_def eval_nat_numeral)

text \<open>what the recovery rule counts: the successes that close a half-open breaker need not be
  trials. The counter survives \<open>force_open\<close> (it is only reset by a counted failure or a reset), so
  with the default threshold of three, three successes before an operator forces the breaker open
  let a single successful trial close it.\<close>

theorem stale_successes_close_early:
  "let ok = Exit None 1 1;
       b0 = foldl cb_step (new_breaker None ''llm'' 0)
              [Enter 1 1, ok, Enter 1 1, ok, Enter 1 1, ok, ForceOpen 2];
       b1 = cb_step b0 (Enter 40 40)
   in state b0 = OPEN \<and> state b1 = HALF_OPEN \<and> success_threshold (config b1) = 3 \<and>
      state (cb_step b1 (Exit None 41 41)) = CLOSED"
  by code_simp

text \<open>a caller admitted in \<open>CLOSED\<close> that leaves while the breaker is half-open frees a trial
  slot it never took, so two trials run at once with \<open>half_open_max_requests = 1\<close>: A enters, the
  breaker is forced open and times out, B enters as the one trial, C is refused, A leaves, and now
  D is let in beside B.\<close>

theorem foreign_exit_frees_slot:
  "let b = foldl cb_step (new_breaker None ''llm'' 0) [Enter 1 1, ForceOpen 2, Enter 40 40];
       refused = fst (aenter 41 41 b);
       b' = cb_step (snd (aenter 41 41 b)) (Exit None 42 42)
   in half_open_max_requests (config b) = 1 \<and> half_open_requests b = 1 \<and>
      refused = Inl CircuitOpenError \<and> state b' = HALF_OPEN \<and>
      fst (aenter 43 43 b') = Inr ()"
  by code_simp

section \<open>Registry, scope and ambient slot\<close>

definition world_good :: "cb_world \<Rightarrow> bool" where
  "world_good w \<longleftrightarrow> (\<forall>r. the_registry w = Some r \<longrightarrow>
      distinct (map fst (breakers r)) \<and> distinct (map snd (breakers r)) \<and>
      (\<forall>i\<in>set (map snd (breakers r)). i < length (heap w))) \<and>
    (\<forall>i. ambient w = Some i \<longrightarrow> i < length (heap w))"

definition registered :: "cb_world \<Rightarrow> string \<Rightarrow> nat option" where
  "registered w nm = (case the_registry w of None \<Rightarrow> None | Some r \<Rightarrow> dict_get (breakers r) nm)"

lemma registered_good: "world_good w \<Longrightarrow> registered w nm = Some i \<Longrightarrow> i < length (heap w)"
  by (force simp: world_good_def registered_def split: option.splits dest: map_of_SomeD)

lemma get_registry_sel [simp]:
  "heap (snd (get_registry w)) = heap w" "ambient (snd (get_registry w)) = ambient w"
  "the_registry (snd (get_registry w)) = Some (fst (get_registry w))"
  by (simp_all add: get_registry_def split: option.splits)

lemma get_registry_good: "world_good w \<Longrightarrow> world_good (snd (get_registry w))"
  by (auto simp: world_good_def get_registry_def new_registry_def split: option.splits)

lemma registered_get_registry:
  "registered w nm = dict_get (breakers (fst (get_registry w))) nm"
  by (simp add: registered_def get_registry_def new_registry_def split: option.splits)

lemma get_registry_registered: "registered w nm = Some i \<Longrightarrow> snd (get_registry w) = w"
  by (simp add: registered_def get_registry_def split: option.splits)

lemma alloc_good:
  assumes "world_good w" and "the_registry w = Some r" and "dict_get (breakers r) nm = None"
  shows "world_good (snd (alloc_breaker nm b r w))"
proof -
  have new: "nm \<notin> fst ` set (breakers r)" using assms(3) by (simp add: map_of_eq_None_iff)
  then have upd: "dict_set nm (length (heap w)) (breakers r)
      = breakers r @ [(nm, length (heap w))]"
    by (rule dict_set_new)
  show ?thesis
    using assms new unfolding alloc_breaker_def upd
    by (force simp: world_good_def)
qed

text \<open>Both accessors are the same get-or-create; they differ in the breaker they create.\<close>

lemma get_circuit_breaker_found:
  "registered w nm = Some i \<Longrightarrow> get_circuit_breaker nm a w = (i, w)"
  using get_registry_registered [of w nm i]
  by (simp add: registered_get_registry get_circuit_breaker_def case_prod_beta)

lemma get_ollama_found:
  "registered w nm = Some i \<Longrightarrow> get_ollama_circuit_breaker nm a w = (i, w)"
  using get_registry_registered [of w nm i]
  by (simp add: registered_get_registry get_ollama_circuit_breaker_def case_prod_beta)

lemma get_circuit_breaker_new:
  "registered w nm = None \<Longrightarrow> get_circuit_breaker nm a w =
     alloc_breaker nm
       (new_breaker (Some (option_or (fst a) (default_config (fst (get_registry w))))) nm (snd a))
       (fst (get_registry w)) (snd (get_registry w))"
  by (simp add: registered_get_registry get_circuit_breaker_def case_prod_beta)

lemma get_ollama_new:
  "registered w nm = None \<Longrightarrow> get_ollama_circuit_breaker nm a w =
     alloc_breaker nm (new_breaker (Some (ollama_config (fst a))) nm (snd a))
       (fst (get_registry w)) (snd (get_registry w))"
  by (simp add: registered_get_registry get_ollama_circuit_breaker_def case_prod_beta)

lemma alloc_registered:
  "registered (snd (alloc_breaker nm b r w)) j =
     (if j = nm then Some (length (heap w)) else dict_get (breakers r) j)"
  by (simp add: alloc_breaker_def registered_def)

lemma alloc_world_good:
  "world_good w \<Longrightarrow> registered w nm = None \<Longrightarrow>
   world_good (snd (alloc_breaker nm b (fst (get_registry w)) (snd (get_registry w))))"
  by (intro alloc_good get_registry_good) (simp_all add: registered_get_registry)

interpretation plain_registry: get_or_create get_circuit_breaker registered world_good
proof
  fix w nm a j i
  assume g: "world_good w"
  show "registered w nm = Some i \<Longrightarrow> get_circuit_breaker nm a w = (i, w)"
    by (rule get_circuit_breaker_found)
  show "registered (snd (get_circuit_breaker nm a w)) nm = Some (fst (get_circuit_breaker nm a w))"
    by (cases "registered w nm")
      (auto simp: get_circuit_breaker_new get_circuit_breaker_found alloc_registered
        alloc_breaker_def registered_def)
  show "registered (snd (get_circuit_breaker nm a w)) j = registered w j" if "j \<noteq> nm"
    using that by (cases "registered w nm")
      (auto simp: get_circuit_breaker_new get_circuit_breaker_found alloc_registered
        registered_get_registry [of w j])
  show "world_good (snd (get_circuit_breaker nm a w))"
    using g by (cases "registered w nm")
      (simp_all add: get_circuit_breaker_new get_circuit_breaker_found alloc_world_good)
qed

interpretation ollama_registry: get_or_create get_ollama_circuit_breaker registered world_good
proof
  fix w nm a j i
  assume g: "world_good w"
  show "registered w nm = Some i \<Longrightarrow> get_ollama_circuit_breaker nm a w = (i, w)"
    by (rule get_ollama_found)
  show "registered (snd (get_ollama_circuit_breaker nm a w)) nm
      = Some (fst (get_ollama_circuit_breaker nm a w))"
    by (cases "registered w nm")
      (auto simp: get_ollama_new get_ollama_found alloc_registered alloc_breaker_def registered_def)
  show "registered (snd (get_ollama_circuit_breaker nm a w)) j = registered w j" if "j \<noteq> nm"
    using that by (cases "registered w nm")
      (auto simp: get_ollama_new get_ollama_found alloc_registered registered_get_registry [of w j])
  show "world_good (snd (get_ollama_circuit_breaker nm a w))"
    using g by (cases "registered w nm")
      (simp_all add: get_ollama_new get_ollama_found alloc_world_good)
qed

interpretation ambient_breaker:
  ambient_slot push_ollama_breaker pop_ollama_breaker ambient Some
  by unfold_locales (simp_all add: push_ollama_breaker_def pop_ollama_breaker_def)

lemma update_at_sel [simp]:
  "i < length (heap w) \<Longrightarrow> heap (update_at i f w) ! i = f (heap w ! i)"
  "i \<noteq> j \<Longrightarrow> heap (update_at i f w) ! j = heap w ! j"
  "length (heap (update_at i f w)) = length (heap w)"
  "the_registry (update_at i f w) = the_registry w" "ambient (update_at i f w) = ambient w"
  by (simp_all add: update_at_def)

lemma scope_enter_eq:
  "scope_enter t1 t2 sc w =
    (let i = fst (get_ollama_circuit_breaker (sc_name sc) (None, t1) w);
         w1 = snd (get_ollama_circuit_breaker (sc_name sc) (None, t1) w); b = heap w1 ! i
     in (sc\<lparr>sc_breaker := Some i, saved_state := Some (state b),
            saved_consecutive_failures := consecutive_failures b,
            saved_consecutive_successes := consecutive_successes b,
            saved_half_open_requests := half_open_requests b, saved_window := window b\<rparr>,
         update_at i (set_state CLOSED 0 0 0 t2) w1))"
  by (simp add: scope_enter_def case_prod_beta Let_def)

text \<open>the scoped breaker isolates a run: on entry the shared breaker is \<open>CLOSED\<close> with clean
  counters, and on exit, whatever the run did to the shared heap (\<open>w2\<close>), its state, counters,
  trial slots and window are those from before the scope, while every other breaker is untouched
  by the exit.\<close>

theorem scope_roundtrip:
  assumes "world_good w" and "scope_enter t1 t2 (new_scope nm) w = (sc, w1)"
    and "get_ollama_circuit_breaker nm (None, t1) w = (i, w0)"
    and "length (heap w1) \<le> length (heap w2)" and "w3 = scope_exit t3 sc w2"
  shows "is_closed (heap w1 ! i) \<and> consecutive_failures (heap w1 ! i) = 0 \<and>
      consecutive_successes (heap w1 ! i) = 0 \<and>
      state (heap w3 ! i) = state (heap w0 ! i) \<and>
      consecutive_failures (heap w3 ! i) = consecutive_failures (heap w0 ! i) \<and>
      consecutive_successes (heap w3 ! i) = consecutive_successes (heap w0 ! i) \<and>
      half_open_requests (heap w3 ! i) = half_open_requests (heap w0 ! i) \<and>
      window (heap w3 ! i) = window (heap w0 ! i) \<and>
      (\<forall>j. j \<noteq> i \<longrightarrow> heap w3 ! j = heap w2 ! j)"
proof -
  have "registered w0 nm = Some i" and "world_good w0"
    using ollama_registry.get_finds [OF assms(1), of nm "(None, t1)"]
      ollama_registry.get_good [OF assms(1), of nm "(None, t1)"] assms(3) by simp_all
  then have i: "i < length (heap w0)" using registered_good by blast
  from assms(2,3) have sc: "sc_breaker sc = Some i" "saved_state sc = Some (state (heap w0 ! i))"
    "saved_consecutive_failures sc = consecutive_failures (heap w0 ! i)"
    "saved_consecutive_successes sc = consecutive_successes (heap w0 ! i)"
    "saved_half_open_requests sc = half_open_requests (heap w0 ! i)"
    "saved_window sc = window (heap w0 ! i)"
    and w1: "w1 = update_at i (set_state CLOSED 0 0 0 t2) w0"
    by (auto simp: scope_enter_eq new_scope_def Let_def)
  have i2: "i < length (heap w2)" using i w1 assms(4) by simp
  show ?thesis
    using i i2 by (simp add: w1 is_closed_def assms(5) scope_exit_def sc set_state_def Let_def)
qed

definition empty_world :: cb_world where
  "empty_world = \<lparr>heap = [], the_registry = None, ambient = None\<rparr>"

definition tripped_world :: cb_world where
  "tripped_world =
     update_at 0 (force_open 1) (snd (get_ollama_circuit_breaker ''ollama'' (None, 0) empty_world))"

lemma tripped_world_eq: "tripped_world =
    \<lparr>heap = [force_open 1 (new_breaker (Some (ollama_config None)) ''ollama'' 0)],
      the_registry = Some \<lparr>breakers = [(''ollama'', 0)], default_config = default_cb_config\<rparr>,
      ambient = None\<rparr>"
  by (simp add: tripped_world_def empty_world_def get_ollama_circuit_breaker_def
      get_registry_def new_registry_def alloc_breaker_def update_at_def)

theorem scope_roundtrip_witness:
  "let (sc, w1) = scope_enter 5 5 (new_scope ''ollama'') tripped_world;
       w2 = update_at 0 (force_open 6) w1
   in state (heap tripped_world ! 0) = OPEN \<and> state (heap w1 ! 0) = CLOSED \<and>
      state (heap (scope_exit 7 sc w2) ! 0) = OPEN"
proof -
  have g: "world_good tripped_world" by (simp add: tripped_world_eq world_good_def)
  have r: "get_ollama_circuit_breaker ''ollama'' (None, 5) tripped_world = (0, tripped_world)"
    by (rule get_ollama_found) (simp add: tripped_world_eq registered_def)
  obtain sc w1 where e: "scope_enter 5 5 (new_scope ''ollama'') tripped_world = (sc, w1)"
    by (cases "scope_enter 5 5 (new_scope ''ollama'') tripped_world") auto
  have o: "state (heap tripped_world ! 0) = OPEN" by (simp add: tripped_world_eq force_open_def)
  define w2 where "w2 = update_at 0 (force_open 6) w1"
  have "length (heap w1) \<le> length (heap w2)" by (simp add: w2_def)
  note rt = scope_roundtrip [OF g e r this refl, of 7]
  then have c: "state (heap w1 ! 0) = CLOSED" by (simp add: is_closed_def)
  from rt o have "state (heap (scope_exit 7 sc w2) ! 0) = OPEN" by simp
  with e o c show ?thesis by (simp add: w2_def)
qed

text \<open>an ambient breaker governs exactly the run that pushed it: inside the run the current
  breaker is the pushed one (no breaker is created), and popping with the handle restores whatever
  was ambient before, whatever happened to the heap meanwhile.\<close>

theorem ambient_isolation:
  assumes "push_ollama_breaker i w = (h, w1)"
  shows "current_ollama_breaker nm now w1 = (i, w1) \<and>
    ambient (pop_ollama_breaker h w2) = ambient w"
  using ambient_breaker.push_pop_current [of i w w2] ambient_breaker.push_current [of i w] assms
  by (simp add: current_ollama_breaker_def)

theorem ambient_isolation_witness:
  "current_ollama_breaker ''ollama'' 9 (snd (push_ollama_breaker 0 tripped_world)) =
     (0, snd (push_ollama_breaker 0 tripped_world)) \<and>
   ambient (pop_ollama_breaker None tripped_world) = ambient tripped_world"
  using ambient_isolation [of 0 tripped_world None "snd (push_ollama_breaker 0 tripped_world)"
      "''ollama''" 9 tripped_world]
  by (simp add: push_ollama_breaker_def tripped_world_eq)

end
