(* ===== verification/Effort.thy ===== *)
theory Effort
  imports Prelude
begin

text \<open>
  \<open>harness/effort.py\<close>: the ledger of model calls, the budget that gates further spend, and
  the projection for a set of URLs. Every operation of the budget that writes holds its lock,
  so it is one atomic step; \<open>now\<close> is the reading of the injectable clock. The reason strings
  are constructors that carry the numbers the code formats into them.
\<close>

section \<open>Data\<close>

datatype budget_mode = SOFT | HARD

datatype call_kind = ROUTING | AGENT_DISPATCH | CRITIQUE | VALIDATION_RETRY | ESCALATION
  | PAYLOAD_LLM_FALLBACK | REDISCOVERY

fun kind_value :: "call_kind \<Rightarrow> string" where
  "kind_value ROUTING = ''routing''"
| "kind_value AGENT_DISPATCH = ''agent_dispatch''"
| "kind_value CRITIQUE = ''critique''"
| "kind_value VALIDATION_RETRY = ''validation_retry''"
| "kind_value ESCALATION = ''escalation''"
| "kind_value PAYLOAD_LLM_FALLBACK = ''payload_llm_fallback''"
| "kind_value REDISCOVERY = ''rediscovery''"

fun default_token_estimate :: "call_kind \<Rightarrow> int" where
  "default_token_estimate ROUTING = 900"
| "default_token_estimate AGENT_DISPATCH = 1600"
| "default_token_estimate CRITIQUE = 1400"
| "default_token_estimate VALIDATION_RETRY = 1200"
| "default_token_estimate ESCALATION = 1800"
| "default_token_estimate PAYLOAD_LLM_FALLBACK = 1000"
| "default_token_estimate REDISCOVERY = 1500"

record call_record =
  cr_kind :: call_kind
  cr_model :: string
  prompt_tokens :: "int option"
  completion_tokens :: "int option"
  provider :: string
  prompt_version :: string
  latency_ms :: real
  retries :: int
  outcome :: string
  streamed :: bool
  case_ref :: string
  run_id :: string
  attempted :: bool
  completed :: bool
  usable :: bool
  queue_ms :: "real option"
  connection_ms :: "real option"
  generation_ms :: "real option"
  wall_ms :: "real option"

definition total_tokens :: "call_record \<Rightarrow> int option" where
  "total_tokens r =
     (case (prompt_tokens r, completion_tokens r) of
        (Some p, Some c) \<Rightarrow> Some (p + c)
      | _ \<Rightarrow> None)"

definition known_tokens :: "call_record \<Rightarrow> int" where
  "known_tokens r = option_or (prompt_tokens r) 0 + option_or (completion_tokens r) 0"

definition json_int :: "int option \<Rightarrow> json" where
  "json_int x = (case x of None \<Rightarrow> JNull | Some i \<Rightarrow> JInt i)"

definition json_float :: "real option \<Rightarrow> json" where
  "json_float x = (case x of None \<Rightarrow> JNull | Some i \<Rightarrow> JFloat i)"

definition timings :: "call_record \<Rightarrow> (string \<times> real option) list" where
  "timings r = [(''queue_ms'', queue_ms r), (''connection_ms'', connection_ms r),
     (''generation_ms'', generation_ms r), (''wall_ms'', wall_ms r)]"

definition record_to_dict :: "call_record \<Rightarrow> (string \<times> json) list" where
  "record_to_dict r =
     [(''kind'', JStr (kind_value (cr_kind r))), (''model'', JStr (cr_model r)),
      (''provider'', JStr (provider r)), (''prompt_version'', JStr (prompt_version r)),
      (''prompt_tokens'', json_int (prompt_tokens r)),
      (''completion_tokens'', json_int (completion_tokens r)),
      (''total_tokens'', json_int (total_tokens r)),
      (''latency_ms'', JFloat (latency_ms r)), (''retries'', JInt (retries r)),
      (''outcome'', JStr (outcome r)), (''streamed'', JBool (streamed r)),
      (''case_ref'', JStr (case_ref r)), (''run_id'', JStr (run_id r)),
      (''attempted'', JBool (attempted r)), (''completed'', JBool (completed r)),
      (''usable'', JBool (usable r)), (''usage_known'', JBool (total_tokens r \<noteq> None)),
      (''known_tokens'', JInt (known_tokens r)),
      (''queue_ms'', json_float (queue_ms r)), (''connection_ms'', json_float (connection_ms r)),
      (''generation_ms'', json_float (generation_ms r)), (''wall_ms'', json_float (wall_ms r)),
      (''missing_timings'',
         JList (map (\<lambda>(key, _). JStr key) (filter (\<lambda>(_, v). v = None) (timings r))))]"

section \<open>The ledger\<close>

text \<open>
  The keyword arguments \<open>record\<close> and \<open>commit\<close> forward: one constructor per name of
  \<open>_TRACE_FIELDS\<close>, and \<open>Unknown\<close> for any other name.
\<close>

datatype trace_field =
    Provider string | PromptVersion string | LatencyMs real | Retries int | Outcome string
  | Streamed bool | CaseRef string | RunId string | Attempted bool | Completed bool
  | Usable bool | QueueMs "real option" | ConnectionMs "real option"
  | GenerationMs "real option" | WallMs "real option" | Unknown string

datatype effort_error = TypeError "string list"

definition unknown_names :: "trace_field list \<Rightarrow> string list" where
  "unknown_names meta = concat (map (\<lambda>f. case f of Unknown n \<Rightarrow> [n] | _ \<Rightarrow> []) meta)"

definition trace_meta :: "trace_field list \<Rightarrow> effort_error + trace_field list" where
  "trace_meta meta =
     (let extra = unknown_names meta in
      if extra \<noteq> [] then Inl (TypeError (sort (remdups extra))) else Inr meta)"

fun set_field :: "trace_field \<Rightarrow> call_record \<Rightarrow> call_record" where
  "set_field (Provider v) r = r\<lparr>provider := v\<rparr>"
| "set_field (PromptVersion v) r = r\<lparr>prompt_version := v\<rparr>"
| "set_field (LatencyMs v) r = r\<lparr>latency_ms := v\<rparr>"
| "set_field (Retries v) r = r\<lparr>retries := v\<rparr>"
| "set_field (Outcome v) r = r\<lparr>outcome := v\<rparr>"
| "set_field (Streamed v) r = r\<lparr>streamed := v\<rparr>"
| "set_field (CaseRef v) r = r\<lparr>case_ref := v\<rparr>"
| "set_field (RunId v) r = r\<lparr>run_id := v\<rparr>"
| "set_field (Attempted v) r = r\<lparr>attempted := v\<rparr>"
| "set_field (Completed v) r = r\<lparr>completed := v\<rparr>"
| "set_field (Usable v) r = r\<lparr>usable := v\<rparr>"
| "set_field (QueueMs v) r = r\<lparr>queue_ms := v\<rparr>"
| "set_field (ConnectionMs v) r = r\<lparr>connection_ms := v\<rparr>"
| "set_field (GenerationMs v) r = r\<lparr>generation_ms := v\<rparr>"
| "set_field (WallMs v) r = r\<lparr>wall_ms := v\<rparr>"
| "set_field (Unknown n) r = r"

definition new_record ::
  "call_kind \<Rightarrow> string \<Rightarrow> int option \<Rightarrow> int option \<Rightarrow> trace_field list \<Rightarrow> call_record" where
  "new_record k m p c meta = fold set_field meta
     \<lparr>cr_kind = k, cr_model = m, prompt_tokens = p, completion_tokens = c, provider = [],
      prompt_version = [], latency_ms = 0, retries = 0, outcome = ''ok'', streamed = False,
      case_ref = [], run_id = [], attempted = True, completed = True, usable = True,
      queue_ms = None, connection_ms = None, generation_ms = None, wall_ms = None\<rparr>"

type_synonym ledger = "call_record list"

definition ledger_record ::
  "call_kind \<Rightarrow> string \<Rightarrow> int option \<Rightarrow> int option \<Rightarrow> trace_field list \<Rightarrow> ledger
   \<Rightarrow> (effort_error + call_record) \<times> ledger" where
  "ledger_record k m p c meta l =
     (case trace_meta meta of
        Inl e \<Rightarrow> (Inl e, l)
      | Inr ok \<Rightarrow> (let rec = new_record k m p c ok in (Inr rec, l @ [rec])))"

definition trace :: "ledger \<Rightarrow> (string \<times> json) list list" where
  "trace l = map record_to_dict l"

definition ledger_total :: "ledger \<Rightarrow> int" where
  "ledger_total l = sum_list (map known_tokens l)"

definition usage_complete :: "ledger \<Rightarrow> bool" where
  "usage_complete l = list_all (\<lambda>r. total_tokens r \<noteq> None) l"

definition matching_totals :: "call_kind \<Rightarrow> ledger \<Rightarrow> int list" where
  "matching_totals k l =
     map (\<lambda>r. the (total_tokens r)) (filter (\<lambda>r. cr_kind r = k \<and> total_tokens r \<noteq> None) l)"

definition average_tokens :: "call_kind \<Rightarrow> ledger \<Rightarrow> real" where
  "average_tokens k l =
     (let matching = matching_totals k l in
      if matching \<noteq> [] then of_int (sum_list matching) / real (length matching)
      else of_int (default_token_estimate k))"

definition has_real_data_for :: "call_kind \<Rightarrow> ledger \<Rightarrow> bool" where
  "has_real_data_for k l = list_ex (\<lambda>r. cr_kind r = k \<and> total_tokens r \<noteq> None) l"

definition breakdown :: "ledger \<Rightarrow> (string \<times> int) list" where
  "breakdown l =
     foldl (\<lambda>out r. dict_set (kind_value (cr_kind r))
              (option_or (dict_get out (kind_value (cr_kind r))) 0 + known_tokens r) out) [] l"

section \<open>The budget\<close>

record budget =
  mode :: budget_mode
  cap :: "int option"
  max_duration_s :: "int option"
  ledger :: ledger
  overspend_confirmed :: bool
  deadline :: "time option"
  reserved :: int
  unmeasured_admission :: int

definition new_budget :: "budget_mode \<Rightarrow> int option \<Rightarrow> int option \<Rightarrow> time \<Rightarrow> budget" where
  "new_budget m c d now = \<lparr>mode = m, cap = c, max_duration_s = d, ledger = [],
     overspend_confirmed = False,
     deadline = (case d of None \<Rightarrow> None | Some s \<Rightarrow> Some (now + of_int s)),
     reserved = 0, unmeasured_admission = 0\<rparr>"

definition spent :: "budget \<Rightarrow> int" where
  "spent b = ledger_total (ledger b)"

definition remaining :: "budget \<Rightarrow> int option" where
  "remaining b = (case cap b of None \<Rightarrow> None
     | Some t \<Rightarrow> Some (max 0 (t - spent b - unmeasured_admission b)))"

definition exhausted :: "budget \<Rightarrow> bool" where
  "exhausted b = (case cap b of None \<Rightarrow> False
     | Some t \<Rightarrow> spent b + unmeasured_admission b \<ge> t)"

definition deadline_passed :: "time \<Rightarrow> budget \<Rightarrow> bool" where
  "deadline_passed now b =
     (if max_duration_s b = None then False
      else (case deadline b of None \<Rightarrow> False | Some d \<Rightarrow> now \<ge> d))"

datatype limit_desc =
    TokenLimit int int "int option"
  | PendingLimit int int int "int option"
  | DurationLimit "int option"

datatype reason = NoReason | HardStop limit_desc | OverConfirmed limit_desc
  | AwaitingConfirmation limit_desc

definition allow :: "time \<Rightarrow> budget \<Rightarrow> bool \<times> reason" where
  "allow now b =
     (let token_exhausted = exhausted b; duration_passed = deadline_passed now b in
      if \<not> token_exhausted \<and> \<not> duration_passed then (True, NoReason)
      else
        (let desc = (if token_exhausted
                     then TokenLimit (spent b) (unmeasured_admission b) (cap b)
                     else DurationLimit (max_duration_s b)) in
         if mode b = HARD then (False, HardStop desc)
         else if overspend_confirmed b then (True, OverConfirmed desc)
         else (False, AwaitingConfirmation desc)))"

definition confirm_overspend :: "budget \<Rightarrow> budget" where
  "confirm_overspend b = b\<lparr>overspend_confirmed := True\<rparr>"

definition budget_record ::
  "call_kind \<Rightarrow> string \<Rightarrow> int option \<Rightarrow> int option \<Rightarrow> trace_field list \<Rightarrow> budget
   \<Rightarrow> (effort_error + call_record) \<times> budget" where
  "budget_record k m p c meta b =
     (case ledger_record k m p c meta (ledger b) of (r, l) \<Rightarrow> (r, b\<lparr>ledger := l\<rparr>))"

definition token_full :: "int \<Rightarrow> budget \<Rightarrow> bool" where
  "token_full requested b =
     (case cap b of None \<Rightarrow> False
      | Some t \<Rightarrow>
          spent b + unmeasured_admission b + reserved b \<ge> t
          \<or> spent b + unmeasured_admission b + reserved b + requested > t)"

definition reserve :: "int \<Rightarrow> time \<Rightarrow> budget \<Rightarrow> (bool \<times> reason) \<times> budget" where
  "reserve estimated now b =
     (let duration_passed = deadline_passed now b;
          requested = max 0 estimated;
          full = token_full requested b in
      if \<not> duration_passed \<and> \<not> full
      then ((True, NoReason), b\<lparr>reserved := reserved b + max 0 estimated\<rparr>)
      else
        (let desc = (if full
                     then PendingLimit (spent b) (reserved b) (unmeasured_admission b) (cap b)
                     else DurationLimit (max_duration_s b)) in
         if mode b = HARD then ((False, HardStop desc), b)
         else if overspend_confirmed b
         then ((True, OverConfirmed desc), b\<lparr>reserved := reserved b + max 0 estimated\<rparr>)
         else ((False, AwaitingConfirmation desc), b)))"

text \<open>
  \<open>commit\<close> gives the reservation back before the ledger checks the trace fields, so a call
  with an unknown field raises with the reservation already released and nothing recorded.
\<close>

definition commit ::
  "call_kind \<Rightarrow> string \<Rightarrow> int option \<Rightarrow> int option \<Rightarrow> int \<Rightarrow> trace_field list \<Rightarrow> budget
   \<Rightarrow> (effort_error + call_record) \<times> budget" where
  "commit k m p c held meta b =
     (let b1 = b\<lparr>reserved := max 0 (reserved b - max 0 held)\<rparr> in
      case ledger_record k m p c meta (ledger b1) of
        (Inl e, _) \<Rightarrow> (Inl e, b1)
      | (Inr rec, l) \<Rightarrow>
          (let b2 = b1\<lparr>ledger := l\<rparr> in
           (Inr rec,
            if completed rec \<and> total_tokens rec = None
            then b2\<lparr>unmeasured_admission :=
                      unmeasured_admission b2 + max 0 (held - known_tokens rec)\<rparr>
            else b2)))"

definition release :: "int \<Rightarrow> budget \<Rightarrow> budget" where
  "release held b = b\<lparr>reserved := max 0 (reserved b - max 0 held)\<rparr>"

record accounts =
  ac_known_tokens :: int
  ac_usage_complete :: bool
  ac_pending :: int
  ac_unmeasured :: int
  ac_remaining :: "int option"
  ac_attempted :: nat
  ac_completed :: nat
  ac_usable :: nat
  ac_error :: nat
  ac_cancelled :: nat

definition accounting :: "budget \<Rightarrow> accounts" where
  "accounting b =
     (let records = ledger b in
      \<lparr>ac_known_tokens = spent b, ac_usage_complete = usage_complete records,
       ac_pending = reserved b, ac_unmeasured = unmeasured_admission b,
       ac_remaining = remaining b,
       ac_attempted = length (filter attempted records),
       ac_completed = length (filter completed records),
       ac_usable = length (filter usable records),
       ac_error = length (filter (\<lambda>r. outcome r = ''error'') records),
       ac_cancelled = length (filter (\<lambda>r. outcome r = ''cancelled'') records)\<rparr>)"

section \<open>The projection for a set of URLs\<close>

record url_estimate_input =
  url :: string
  risk_score :: "real option"
  category :: "string option"

record assumptions =
  avg_agents_per_dispatch :: real
  critique_fraction :: real
  retry_rounds_high_risk :: int
  retry_rounds_low_risk :: int
  high_risk_threshold :: real
  escalation_rate_among_high_risk :: real

definition default_assumptions :: assumptions where
  "default_assumptions = \<lparr>avg_agents_per_dispatch = 3, critique_fraction = 4 / 10,
     retry_rounds_high_risk = 3, retry_rounds_low_risk = 1, high_risk_threshold = 6 / 10,
     escalation_rate_among_high_risk = 1 / 3\<rparr>"

record url_estimate =
  urls_total :: nat
  urls_scored :: nat
  urls_unscored :: nat
  urls_high_risk :: nat
  estimated_total_tokens :: int
  calibrated_from_real_calls :: bool
  bd_routing :: int
  bd_agent_dispatch :: int
  bd_critique :: int
  bd_validation_retries :: int
  bd_escalation :: int
  used_assumptions :: assumptions

definition n_scored :: "url_estimate_input list \<Rightarrow> nat" where
  "n_scored us = length (filter (\<lambda>u. risk_score u \<noteq> None) us)"

definition n_high :: "assumptions \<Rightarrow> url_estimate_input list \<Rightarrow> nat" where
  "n_high a us =
     length (filter (\<lambda>u. option_or (risk_score u) 0 \<ge> high_risk_threshold a) us)"

definition estimate_for_urls ::
  "url_estimate_input list \<Rightarrow> ledger \<Rightarrow> assumptions \<Rightarrow> url_estimate" where
  "estimate_for_urls urls l a =
     (let routing_cost = average_tokens ROUTING l;
          agent_cost = average_tokens AGENT_DISPATCH l;
          critique_cost = average_tokens CRITIQUE l;
          retry_cost = average_tokens VALIDATION_RETRY l;
          escalation_cost = average_tokens ESCALATION l;
          n = real (length urls);
          high = n_high a urls;
          n_rest = length urls - high;
          routing_total = n * routing_cost;
          agent_total = n * avg_agents_per_dispatch a * agent_cost;
          critique_total = n * avg_agents_per_dispatch a * critique_fraction a * critique_cost;
          retry_total = real high * of_int (retry_rounds_high_risk a) * retry_cost
            + real n_rest * of_int (retry_rounds_low_risk a) * retry_cost;
          escalation_total =
            of_int (py_round (real high * escalation_rate_among_high_risk a)) * escalation_cost;
          grand_total = routing_total + agent_total + critique_total + retry_total
            + escalation_total
      in \<lparr>urls_total = length urls, urls_scored = n_scored urls,
          urls_unscored = length urls - n_scored urls, urls_high_risk = high,
          estimated_total_tokens = py_int grand_total,
          calibrated_from_real_calls = list_ex (\<lambda>r. total_tokens r \<noteq> None) l,
          bd_routing = py_int routing_total, bd_agent_dispatch = py_int agent_total,
          bd_critique = py_int critique_total, bd_validation_retries = py_int retry_total,
          bd_escalation = py_int escalation_total, used_assumptions = a\<rparr>)"

section \<open>Ledger\<close>

lemma known_tokens_total: "total_tokens r = Some t \<Longrightarrow> known_tokens r = t"
  by (auto simp: total_tokens_def known_tokens_def option_or_def split: option.splits)

lemma ledger_total_simps [simp]:
  "ledger_total [] = 0" "ledger_total (l @ l') = ledger_total l + ledger_total l'"
  "ledger_total [r] = known_tokens r"
  by (simp_all add: ledger_total_def)

lemma sum_dict_add:
  "sum_list (map snd (dict_set k (option_or (dict_get d k) 0 + v) d))
     = sum_list (map snd d) + (v :: int)"
  by (induction d) (auto simp: option_or_def)

text \<open>the per-kind breakdown accounts for every known token: its values add up to the
  ledger's total, and it has one entry per kind.\<close>

theorem breakdown_accounts:
  "sum_list (map snd (breakdown l)) = ledger_total l \<and> distinct (map fst (breakdown l))"
proof -
  let ?f = "\<lambda>out r. dict_set (kind_value (cr_kind r))
    (option_or (dict_get out (kind_value (cr_kind r))) 0 + known_tokens r) out"
  have "sum_list (map snd (foldl ?f out l)) = sum_list (map snd out) + ledger_total l \<and>
      (distinct (map fst out) \<longrightarrow> distinct (map fst (foldl ?f out l)))" for out
    by (induction l arbitrary: out)
      (simp_all add: ledger_total_def sum_dict_add distinct_keys_set)
  from this [of "[]"] show ?thesis by (simp add: breakdown_def)
qed

text \<open>Trace fields never change what was consumed.\<close>

lemma set_field_tokens [simp]:
  "prompt_tokens (set_field f r) = prompt_tokens r"
  "completion_tokens (set_field f r) = completion_tokens r" "cr_kind (set_field f r) = cr_kind r"
  by (cases f; simp)+

lemma fold_set_field_tokens [simp]:
  "prompt_tokens (fold set_field fs r) = prompt_tokens r"
  "completion_tokens (fold set_field fs r) = completion_tokens r"
  "cr_kind (fold set_field fs r) = cr_kind r"
  by (induction fs arbitrary: r) simp_all

lemma new_record_tokens [simp]:
  "known_tokens (new_record k m p c meta) = option_or p 0 + option_or c 0"
  "total_tokens (new_record k m p c meta) = None \<longleftrightarrow> p = None \<or> c = None"
  by (auto simp: new_record_def known_tokens_def total_tokens_def split: option.splits)

lemma trace_meta_ok: "trace_meta meta = Inr fs \<Longrightarrow> fs = meta \<and> unknown_names meta = []"
  by (auto simp: trace_meta_def Let_def split: if_splits)

lemma ledger_record_cases:
  obtains (fails) e where "ledger_record k m p c meta l = (Inl e, l)" "unknown_names meta \<noteq> []"
  | (ok) "ledger_record k m p c meta l =
      (Inr (new_record k m p c meta), l @ [new_record k m p c meta])" "unknown_names meta = []"
  by (cases "unknown_names meta = []") (auto simp: ledger_record_def trace_meta_def Let_def)

section \<open>Budget\<close>

text \<open>settling a reservation spends exactly what a bare record of the same call spends, and
  returns the same record or the same error; only the reservation and the debit for unmeasured
  usage differ.\<close>

theorem commit_spends_like_record:
  "fst (commit k m p c held meta b) = fst (budget_record k m p c meta b) \<and>
   ledger (snd (commit k m p c held meta b)) = ledger (snd (budget_record k m p c meta b)) \<and>
   spent (snd (commit k m p c held meta b)) = spent (snd (budget_record k m p c meta b)) \<and>
   reserved (snd (commit k m p c held meta b)) = max 0 (reserved b - max 0 held)"
  by (rule ledger_record_cases [of k m p c meta "ledger b"])
    (simp_all add: commit_def budget_record_def spent_def Let_def)

datatype budget_event =
    Record call_kind string "int option" "int option" "trace_field list"
  | Reserve int time
  | Commit call_kind string "int option" "int option" int "trace_field list"
  | Release int
  | Confirm

fun budget_step :: "budget \<Rightarrow> budget_event \<Rightarrow> budget" where
  "budget_step b (Record k m p c meta) = snd (budget_record k m p c meta b)"
| "budget_step b (Reserve n now) = snd (reserve n now b)"
| "budget_step b (Commit k m p c held meta) = snd (commit k m p c held meta b)"
| "budget_step b (Release held) = release held b"
| "budget_step b Confirm = confirm_overspend b"

definition budget_good :: "budget \<Rightarrow> bool" where
  "budget_good b \<longleftrightarrow> 0 \<le> reserved b \<and> 0 \<le> unmeasured_admission b \<and>
     (deadline b = None \<longleftrightarrow> max_duration_s b = None)"

lemma reserve_sel [simp]:
  "ledger (snd (reserve n now b)) = ledger b" "mode (snd (reserve n now b)) = mode b"
  "cap (snd (reserve n now b)) = cap b" "deadline (snd (reserve n now b)) = deadline b"
  "max_duration_s (snd (reserve n now b)) = max_duration_s b"
  "unmeasured_admission (snd (reserve n now b)) = unmeasured_admission b"
  "reserved (snd (reserve n now b)) =
     reserved b + (if fst (fst (reserve n now b)) then max 0 n else 0)"
  by (simp_all add: reserve_def Let_def)

lemma commit_sel [simp]:
  "mode (snd (commit k m p c held meta b)) = mode b"
  "cap (snd (commit k m p c held meta b)) = cap b"
  "deadline (snd (commit k m p c held meta b)) = deadline b"
  "max_duration_s (snd (commit k m p c held meta b)) = max_duration_s b"
  by (rule ledger_record_cases [of k m p c meta "ledger b"]; simp add: commit_def Let_def)+

lemma commit_unmeasured:
  "unmeasured_admission b \<le> unmeasured_admission (snd (commit k m p c held meta b))"
  by (rule ledger_record_cases [of k m p c meta "ledger b"]) (simp_all add: commit_def Let_def)

lemma commit_reserved [simp]:
  "reserved (snd (commit k m p c held meta b)) = max 0 (reserved b - max 0 held)"
  using commit_spends_like_record by blast

lemma budget_record_sel [simp]:
  "reserved (snd (budget_record k m p c meta b)) = reserved b"
  "unmeasured_admission (snd (budget_record k m p c meta b)) = unmeasured_admission b"
  "deadline (snd (budget_record k m p c meta b)) = deadline b"
  "max_duration_s (snd (budget_record k m p c meta b)) = max_duration_s b"
  "mode (snd (budget_record k m p c meta b)) = mode b"
  "cap (snd (budget_record k m p c meta b)) = cap b"
  by (simp_all add: budget_record_def case_prod_beta)

interpretation budget: step_system budget_step budget_good
proof
  show "budget_good (budget_step b e)" if "budget_good b" for b e
    using that order_trans [OF _ commit_unmeasured]
    by (cases e) (auto simp: budget_good_def release_def confirm_overspend_def)
qed

text \<open>whatever callers do, in any order and even with unpaired or negative releases and
  commits, the pending reservation and the unmeasured debit stay non-negative, so a caller can
  never create capacity by over-releasing.\<close>

theorem budget_invariant: "budget_good (foldl budget_step (new_budget m c d now) es)"
  by (rule budget.run_good) (simp add: budget_good_def new_budget_def split: option.splits)

text \<open>a hard budget cannot be talked past: once the tokens or the time are used up, both
  admission checks refuse, with or without an operator confirmation, and the refusal reserves
  nothing.\<close>

theorem hard_mode_final:
  assumes "mode b = HARD" and "exhausted b \<or> deadline_passed now b" and "0 \<le> reserved b"
  shows "\<not> fst (allow now b) \<and> \<not> fst (allow now (confirm_overspend b)) \<and>
    \<not> fst (fst (reserve n now (confirm_overspend b))) \<and>
    snd (reserve n now (confirm_overspend b)) = confirm_overspend b"
proof -
  let ?b = "confirm_overspend b"
  have same: "mode ?b = HARD" "exhausted ?b = exhausted b"
    "deadline_passed now ?b = deadline_passed now b" "reserved ?b = reserved b"
    using assms(1)
    by (simp_all add: confirm_overspend_def exhausted_def deadline_passed_def spent_def
        split: option.split)
  have "exhausted ?b \<longrightarrow> token_full (max 0 n) ?b"
    using assms(3) same by (auto simp: exhausted_def token_full_def split: option.splits)
  then show ?thesis
    using assms same by (auto simp: allow_def reserve_def Let_def)
qed

theorem hard_mode_final_witness:
  "\<not> fst (fst (reserve 1 5 (confirm_overspend (new_budget HARD (Some 0) None 0))))"
  using hard_mode_final [of "new_budget HARD (Some 0) None 0" 5 1]
  by (simp add: new_budget_def exhausted_def spent_def)

text \<open>with nothing in flight, asking to reserve nothing decides exactly like the plain
  check \<open>allow\<close>, in both modes, before and after a confirmation, for tokens and time.\<close>

theorem reserve_agrees_with_allow:
  assumes "reserved b = 0" and "n \<le> 0"
  shows "fst (fst (reserve n now b)) = fst (allow now b) \<and> reserved (snd (reserve n now b)) = 0"
  using assms
  by (auto simp: reserve_def allow_def token_full_def exhausted_def Let_def split: option.splits)

theorem reserve_agrees_with_allow_witness:
  "fst (fst (reserve 0 7 (new_budget SOFT (Some 10) (Some 5) 0))) =
   fst (allow 7 (new_budget SOFT (Some 10) (Some 5) 0))"
  using reserve_agrees_with_allow [of "new_budget SOFT (Some 10) (Some 5) 0" 0 7]
  by (simp add: new_budget_def)

section \<open>Concurrent dispatchers\<close>

text \<open>
  What callers do with one budget: an admitted reservation is a ticket, settled by one \<open>commit\<close> with whatever the provider
  reports, or given back by one \<open>release\<close>; a call made on the plain check \<open>allow\<close> is recorded without a ticket. Any caller may
  move at any time. The state is the budget, the tickets in flight, and the overrun so far: the tokens that calls used beyond
  what was reserved for them.
\<close>

definition usage :: "int option \<Rightarrow> int option \<Rightarrow> int" where
  "usage p c = option_or p 0 + option_or c 0"

inductive dispatch :: "budget \<times> int list \<times> int \<Rightarrow> budget \<times> int list \<times> int \<Rightarrow> bool" where
  admitted: "reserve n now b = ((True, r), b') \<Longrightarrow> dispatch (b, ts, x) (b', max 0 n # ts, x)"
| refused: "reserve n now b = ((False, r), b') \<Longrightarrow> dispatch (b, ts, x) (b', ts, x)"
| settled: "commit k m p c t meta b = (res, b') \<Longrightarrow>
     dispatch (b, us @ t # vs, x) (b', us @ vs, x + max 0 (usage p c - t))"
| aborted: "dispatch (b, us @ t # vs, x) (release t b, us @ vs, x)"
| recorded: "budget_record k m p c meta b = (res, b') \<Longrightarrow> dispatch (b, ts, x) (b', ts, x + max 0 (usage p c))"
| confirmed: "dispatch (b, ts, x) (confirm_overspend b, ts, x)"

definition committed :: "budget \<Rightarrow> int" where
  "committed b = spent b + unmeasured_admission b + reserved b"

definition hard_good :: "int \<Rightarrow> budget \<times> int list \<times> int \<Rightarrow> bool" where
  "hard_good T s = (case s of (b, ts, x) \<Rightarrow>
     mode b = HARD \<and> cap b = Some T \<and> reserved b = sum_list ts \<and> (\<forall>t\<in>set ts. 0 \<le> t) \<and>
     0 \<le> unmeasured_admission b \<and> 0 \<le> x \<and> committed b \<le> T + x)"

lemma reserve_hard:
  assumes "mode b = HARD" and "cap b = Some T" and "fst (fst (reserve n now b))"
  shows "committed b + max 0 n \<le> T"
  using assms by (auto simp: reserve_def token_full_def committed_def Let_def split: if_splits)

lemma sum_list_nonneg_int: "\<forall>t\<in>set ts. 0 \<le> t \<Longrightarrow> 0 \<le> sum_list (ts :: int list)"
  by (simp add: sum_list_nonneg)

lemma commit_committed:
  assumes "0 \<le> t" "t \<le> reserved b"
  shows "committed (snd (commit k m p c t meta b)) \<le> committed b + max 0 (usage p c - t)"
  using assms
  by (rule_tac ledger_record_cases [of k m p c meta "ledger b"])
    (auto simp: commit_def committed_def spent_def usage_def Let_def)

lemma record_committed:
  "committed (snd (budget_record k m p c meta b)) \<le> committed b + max 0 (usage p c)"
  by (rule ledger_record_cases [of k m p c meta "ledger b"])
    (auto simp: budget_record_def committed_def spent_def usage_def Let_def)

lemma dispatch_hard: "dispatch s s' \<Longrightarrow> hard_good T s \<Longrightarrow> hard_good T s'"
proof (induction rule: dispatch.induct)
  case (admitted n now b r b' ts x)
  then have "committed b + max 0 n \<le> T"
    by (intro reserve_hard [of b T n now]) (auto simp: hard_good_def)
  moreover have "b' = snd (reserve n now b)" "fst (fst (reserve n now b))"
    using admitted by simp_all
  ultimately show ?case
    using admitted.prems by (simp add: hard_good_def committed_def spent_def)
next
  case (refused n now b r b' ts x)
  then have "b' = snd (reserve n now b)" "\<not> fst (fst (reserve n now b))" by simp_all
  with refused.prems show ?case by (simp add: hard_good_def committed_def spent_def)
next
  case (settled k m p c t meta b res b' us vs x)
  then have b': "b' = snd (commit k m p c t meta b)" by simp
  have r: "reserved b = sum_list us + t + sum_list vs" "0 \<le> t" "0 \<le> sum_list us" "0 \<le> sum_list vs"
    using settled.prems by (auto simp: hard_good_def intro!: sum_list_nonneg)
  then have "committed b' \<le> committed b + max 0 (usage p c - t)"
    unfolding b' by (intro commit_committed) simp_all
  moreover have "unmeasured_admission b \<le> unmeasured_admission b'"
    unfolding b' by (rule commit_unmeasured)
  ultimately show ?case
    using settled.prems r by (auto simp: hard_good_def b')
next
  case (aborted b us t vs x)
  then have "0 \<le> t" "0 \<le> sum_list us" "0 \<le> sum_list vs"
    by (auto simp: hard_good_def intro!: sum_list_nonneg)
  with aborted show ?case
    by (auto simp: hard_good_def release_def committed_def spent_def)
next
  case (recorded k m p c meta b res b' ts x)
  then have b': "b' = snd (budget_record k m p c meta b)" by simp
  then show ?case using recorded.prems record_committed[of k m p c meta b] by (auto simp: hard_good_def)
next
  case (confirmed b ts x)
  then show ?case by (simp add: hard_good_def confirm_overspend_def committed_def spent_def)
qed

text \<open>C17: a hard budget is overspent by no more than what calls use beyond their reservation, which no admission can prevent: however
  many callers run concurrently, known spend plus the debit for unmeasured calls plus everything in flight stays within the cap
  plus these overruns, confirmations included; the pending counter is exactly the sum of the tickets in flight; and whenever a
  reservation is admitted it fits under the cap itself together with everything spent and in flight, so nothing is
  admitted while the budget is overspent.\<close>

theorem hard_overspend_bounded:
  assumes "dispatch\<^sup>*\<^sup>* (new_budget HARD (Some T) d now, [], 0) (b, ts, overrun)" and "0 \<le> T"
  shows "spent b + unmeasured_admission b + reserved b \<le> T + overrun \<and> reserved b = sum_list ts \<and>
    spent b \<le> T + overrun \<and>
    (\<forall>n t. fst (fst (reserve n t b)) \<longrightarrow> spent b + unmeasured_admission b + reserved b + max 0 n \<le> T)"
proof -
  have start: "hard_good T (new_budget HARD (Some T) d now, [], 0)"
    using assms(2) by (simp add: hard_good_def new_budget_def committed_def spent_def)
  have good: "hard_good T (b, ts, overrun)"
    using assms(1)
    by (induction rule: rtranclp_induct) (auto intro: start dispatch_hard)
  then have "spent b + unmeasured_admission b + reserved b + max 0 n \<le> T" if "fst (fst (reserve n t b))" for n t
    using reserve_hard[OF _ _ that, of T] by (auto simp: hard_good_def committed_def)
  then show ?thesis
    using good sum_list_nonneg_int [of ts] by (auto simp: hard_good_def committed_def)
qed

theorem hard_overspend_bounded_witness:
  "let b0 = new_budget HARD (Some 100) None 0;
       b1 = snd (reserve 60 1 b0);
       b2 = snd (reserve 60 2 b1);
       b3 = snd (commit CRITIQUE ''m'' (Some 20) (Some 30) 60 [] b2)
   in reserved b1 = 60 \<and> b2 = b1 \<and> spent b3 = 50 \<and> spent b3 \<le> 100"
proof -
  define b0 b1 b3 where "b0 = new_budget HARD (Some 100) None 0"
    and "b1 = snd (reserve 60 1 b0)"
    and "b3 = snd (commit CRITIQUE ''m'' (Some 20) (Some 30) 60 [] b1)"
  have e1: "reserve 60 1 b0 = ((True, NoReason), b1)" "reserved b1 = 60"
    by (simp_all add: b1_def b0_def reserve_def new_budget_def token_full_def deadline_passed_def
        spent_def Let_def)
  have e2: "reserve 60 2 b1 = ((False, HardStop (PendingLimit 0 60 0 (Some 100))), b1)"
    by (simp add: b1_def b0_def reserve_def new_budget_def token_full_def deadline_passed_def
        spent_def Let_def)
  have e3: "spent b3 = 50"
    by (simp add: b3_def b1_def b0_def commit_def reserve_def new_budget_def token_full_def
        deadline_passed_def spent_def Let_def ledger_record_def trace_meta_def unknown_names_def
        known_tokens_def new_record_def option_or_def)
  have "dispatch (b0, [], 0) (b1, [60], 0)" using dispatch.admitted [OF e1(1), of "[]"] by simp
  moreover have "dispatch (b1, [60], 0) (b1, [60], 0)" by (rule dispatch.refused [OF e2])
  moreover have "dispatch (b1, [] @ 60 # [], 0) (b3, [] @ [], 0 + max 0 (usage (Some 20) (Some 30) - 60))"
    by (rule dispatch.settled [where k = CRITIQUE and m = "''m''" and meta = "[]" and
          res = "fst (commit CRITIQUE ''m'' (Some 20) (Some 30) 60 [] b1)"])
      (simp add: b3_def)
  ultimately have "dispatch\<^sup>*\<^sup>* (b0, [], 0) (b3, [], 0)"
    by (auto simp: usage_def option_or_def intro: converse_rtranclp_into_rtranclp)
  then have "spent b3 \<le> 100"
    unfolding b0_def using hard_overspend_bounded [of 100 None 0 b3 "[]" 0] by simp
  moreover have "snd (reserve 60 2 b1) = b1" by (simp add: e2)
  ultimately show ?thesis using e1(2) e3 unfolding Let_def
    by (simp add: b0_def [symmetric] b1_def [symmetric] b3_def [symmetric])
qed

section \<open>Projection\<close>

definition ledger_nonneg :: "ledger \<Rightarrow> bool" where
  "ledger_nonneg l \<longleftrightarrow>
     list_all (\<lambda>r. case total_tokens r of None \<Rightarrow> True | Some t \<Rightarrow> 0 \<le> t) l"

definition assumptions_nonneg :: "assumptions \<Rightarrow> bool" where
  "assumptions_nonneg a \<longleftrightarrow> 0 \<le> avg_agents_per_dispatch a \<and> 0 \<le> critique_fraction a \<and>
     0 \<le> retry_rounds_high_risk a \<and> 0 \<le> retry_rounds_low_risk a \<and>
     0 \<le> escalation_rate_among_high_risk a"

lemma average_tokens_nonneg:
  assumes "ledger_nonneg l" shows "0 \<le> average_tokens k l"
proof -
  have "\<forall>t\<in>set (matching_totals k l). 0 \<le> t"
    using assms by (auto simp: ledger_nonneg_def matching_totals_def list_all_iff split: option.splits)
  then have "0 \<le> sum_list (matching_totals k l)" by (simp add: sum_list_nonneg)
  moreover have "0 \<le> default_token_estimate k" by (cases k) simp_all
  ultimately show ?thesis by (simp add: average_tokens_def Let_def)
qed

text \<open>The average is the prior until a call of the kind is measured, and lies between the least
  and the greatest measured total afterwards.\<close>

lemma matching_totals_none: "\<not> has_real_data_for k l \<Longrightarrow> matching_totals k l = []"
  by (auto simp: has_real_data_for_def matching_totals_def list_ex_iff filter_empty_conv)

lemma average_bounds:
  assumes "xs \<noteq> []" and "\<forall>x\<in>set xs. lo \<le> x \<and> x \<le> (hi :: int)"
  shows "of_int lo \<le> (of_int (sum_list xs) / real (length xs) :: real) \<and>
    of_int (sum_list xs) / real (length xs) \<le> (of_int hi :: real)"
proof -
  have "lo * int (length xs) \<le> sum_list xs \<and> sum_list xs \<le> hi * int (length xs)"
    using assms(2) by (induction xs) (auto simp: algebra_simps)
  then have "of_int lo * real (length xs) \<le> of_int (sum_list xs) \<and>
      of_int (sum_list xs) \<le> of_int hi * real (length xs)"
    by (metis of_int_le_iff of_int_mult of_int_of_nat_eq)
  then show ?thesis using assms(1) by (simp add: le_divide_eq divide_le_eq)
qed

text \<open>the calibration: without a measured call of a kind the average is the labelled prior;
  with one it lies between any bounds of the measured totals of that kind, and calls whose provider
  reported no usage do not enter it.\<close>

theorem average_calibrated:
  "(\<not> has_real_data_for k l \<longrightarrow> average_tokens k l = of_int (default_token_estimate k)) \<and>
   (has_real_data_for k l \<and>
      (\<forall>r\<in>set l. \<forall>t. cr_kind r = k \<and> total_tokens r = Some t \<longrightarrow> lo \<le> t \<and> t \<le> hi) \<longrightarrow>
    of_int lo \<le> average_tokens k l \<and> average_tokens k l \<le> of_int hi)"
proof (intro conjI impI)
  assume "\<not> has_real_data_for k l"
  then show "average_tokens k l = of_int (default_token_estimate k)"
    by (simp add: average_tokens_def matching_totals_none)
next
  assume a: "has_real_data_for k l \<and>
      (\<forall>r\<in>set l. \<forall>t. cr_kind r = k \<and> total_tokens r = Some t \<longrightarrow> lo \<le> t \<and> t \<le> hi)"
  then have "matching_totals k l \<noteq> []"
    by (auto simp: has_real_data_for_def matching_totals_def list_ex_iff filter_empty_conv)
  moreover have "\<forall>x\<in>set (matching_totals k l). lo \<le> x \<and> x \<le> hi"
    using a by (auto simp: matching_totals_def)
  ultimately have "of_int lo \<le> average_tokens k l \<and> average_tokens k l \<le> of_int hi"
    using average_bounds [of "matching_totals k l" lo hi] by (simp add: average_tokens_def Let_def)
  then show "of_int lo \<le> average_tokens k l" and "average_tokens k l \<le> of_int hi" by simp_all
qed

definition sample_call :: "int \<Rightarrow> call_record" where
  "sample_call n = new_record CRITIQUE ''m'' (Some n) (Some 0) []"

theorem average_calibrated_witness:
  "average_tokens ROUTING [sample_call 10] = 900 \<and>
   10 \<le> average_tokens CRITIQUE [sample_call 10, sample_call 30]"
proof -
  have r: "\<not> has_real_data_for ROUTING [sample_call 10]"
    by (simp add: has_real_data_for_def sample_call_def new_record_def)
  have c: "has_real_data_for CRITIQUE [sample_call 10, sample_call 30]"
    by (simp add: has_real_data_for_def sample_call_def new_record_def total_tokens_def)
  have b: "\<forall>r\<in>set [sample_call 10, sample_call 30]. \<forall>t.
      cr_kind r = CRITIQUE \<and> total_tokens r = Some t \<longrightarrow> 10 \<le> t \<and> t \<le> 30"
    by (simp add: sample_call_def new_record_def total_tokens_def)
  show ?thesis
    using average_calibrated [of ROUTING "[sample_call 10]" 0 0] r
      average_calibrated [of CRITIQUE "[sample_call 10, sample_call 30]" 10 30] c b by simp
qed

lemma split_sum_bounds:
  fixes a b c d e :: real
  assumes "0 \<le> a" "0 \<le> b" "0 \<le> c" "0 \<le> d" "0 \<le> e"
  shows "py_int a + py_int b + py_int c + py_int d + py_int e \<le> py_int (a + b + c + d + e) \<and>
    py_int (a + b + c + d + e) < py_int a + py_int b + py_int c + py_int d + py_int e + 5"
  using assms unfolding py_int_def by (simp, linarith)

text \<open>the projection's breakdown explains its total: for a ledger and assumptions without
  negative numbers the five components are non-negative and add up to the estimated total, short of
  it by less than the five truncations, and scored and unscored URLs add up to all.\<close>

theorem estimate_breakdown:
  assumes "ledger_nonneg l" and "assumptions_nonneg a" and "r = estimate_for_urls us l a"
  shows "0 \<le> bd_routing r \<and> 0 \<le> bd_agent_dispatch r \<and> 0 \<le> bd_critique r \<and>
    0 \<le> bd_validation_retries r \<and> 0 \<le> bd_escalation r \<and>
    bd_routing r + bd_agent_dispatch r + bd_critique r + bd_validation_retries r
      + bd_escalation r \<le> estimated_total_tokens r \<and>
    estimated_total_tokens r < bd_routing r + bd_agent_dispatch r + bd_critique r
      + bd_validation_retries r + bd_escalation r + 5 \<and>
    urls_scored r + urls_unscored r = urls_total r"
proof -
  note avg = average_tokens_nonneg [OF assms(1)]
  have n: "n_scored us \<le> length us" by (simp add: n_scored_def)
  have nn: "0 \<le> real (length us) * average_tokens ROUTING l"
    "0 \<le> real (length us) * avg_agents_per_dispatch a * average_tokens AGENT_DISPATCH l"
    "0 \<le> real (length us) * avg_agents_per_dispatch a * critique_fraction a
           * average_tokens CRITIQUE l"
    "0 \<le> real (n_high a us) * of_int (retry_rounds_high_risk a) * average_tokens VALIDATION_RETRY l
       + real (length us - n_high a us) * of_int (retry_rounds_low_risk a)
           * average_tokens VALIDATION_RETRY l"
    "0 \<le> of_int (py_round (real (n_high a us) * escalation_rate_among_high_risk a))
           * average_tokens ESCALATION l"
    using assms(2) avg py_round_nonneg
    by (simp_all add: assumptions_nonneg_def)
  note bounds = split_sum_bounds [OF nn]
  show ?thesis
    using bounds nn [THEN py_int_nonneg] n
    unfolding assms(3) estimate_for_urls_def Let_def by simp
qed

theorem estimate_breakdown_witness:
  "bd_routing (estimate_for_urls [\<lparr>url = ''u'', risk_score = None, category = None\<rparr>] []
     default_assumptions) \<ge> 0"
  using estimate_breakdown [of "[]" default_assumptions
      _ "[\<lparr>url = ''u'', risk_score = None, category = None\<rparr>]"]
  by (simp add: ledger_nonneg_def assumptions_nonneg_def default_assumptions_def)

end
