(* ===== verification/RateLimiter.thy ===== *)
theory RateLimiter
  imports Prelude
begin

text \<open>
  \<open>harness/rate_limiter.py\<close>: the token bucket and the request window behind one \<open>allow\<close>,
  the waiting loop, the token, request and combined limiters and their registry. Clock readings
  are arguments, one per call of \<open>time.time()\<close> in the order the code makes them. The waiting
  loop may never return, so it is a partial function into \<open>option\<close>.
\<close>

section \<open>Data\<close>

datatype strategy = TOKEN_BUCKET | FIXED_WINDOW | SLIDING_WINDOW

record rl_config =
  strategy :: strategy
  tokens_per_second :: real
  max_tokens :: int
  max_requests :: int
  window_seconds :: real
  tokens_per_request :: int
  rl_enabled :: bool

definition default_rl_config :: rl_config where
  "default_rl_config = \<lparr>strategy = TOKEN_BUCKET, tokens_per_second = 100, max_tokens = 1000,
     max_requests = 100, window_seconds = 60, tokens_per_request = 100, rl_enabled = True\<rparr>"

record rl_stats =
  allowed :: int
  rejected :: int
  current_tokens :: real
  current_requests :: nat
  stats_last_update :: time
  waiting :: int

definition fresh_rl_stats :: "real \<Rightarrow> time \<Rightarrow> rl_stats" where
  "fresh_rl_stats cur upd = \<lparr>allowed = 0, rejected = 0, current_tokens = cur,
     current_requests = 0, stats_last_update = upd, waiting = 0\<rparr>"

record limiter =
  rl_config :: rl_config
  rl_name :: string
  tokens :: real
  last_update :: time
  requests :: "time list"
  rl_stats :: rl_stats

definition new_limiter :: "rl_config option \<Rightarrow> string \<Rightarrow> time \<Rightarrow> limiter" where
  "new_limiter cfg nm now =
     (let c = option_or cfg default_rl_config in
      \<lparr>rl_config = c, rl_name = nm, tokens = of_int (max_tokens c), last_update = now,
       requests = [], rl_stats = fresh_rl_stats (of_int (max_tokens c)) now\<rparr>)"

section \<open>RateLimiter\<close>

definition update_tokens :: "time \<Rightarrow> limiter \<Rightarrow> limiter" where
  "update_tokens now l =
     (let elapsed = now - last_update l in
      if elapsed > 0
      then l\<lparr>tokens := min (of_int (max_tokens (rl_config l)))
                        (tokens l + elapsed * tokens_per_second (rl_config l)),
             last_update := now\<rparr>
      else l)"

text \<open>\<open>while q and q[0] < w: q.popleft()\<close> is \<open>dropWhile\<close>.\<close>

definition cleanup_requests :: "time \<Rightarrow> limiter \<Rightarrow> limiter" where
  "cleanup_requests now l =
     (let window_start = now - window_seconds (rl_config l) in
      l\<lparr>requests := dropWhile (\<lambda>r. r < window_start) (requests l)\<rparr>)"

definition reject :: "limiter \<Rightarrow> limiter" where
  "reject l = l\<lparr>rl_stats := (rl_stats l)\<lparr>rejected := rejected (rl_stats l) + 1\<rparr>\<rparr>"

definition allow_tokens :: "time \<Rightarrow> limiter \<Rightarrow> bool \<times> limiter" where
  "allow_tokens t l0 =
     (let l = update_tokens t l0; need = of_int (tokens_per_request (rl_config l)) in
      if tokens l \<ge> need
      then (True, l\<lparr>tokens := tokens l - need,
                    rl_stats := (rl_stats l)\<lparr>allowed := allowed (rl_stats l) + 1,
                                            current_tokens := tokens l - need,
                                            stats_last_update := last_update l\<rparr>\<rparr>)
      else (False, reject l))"

definition allow_window :: "time \<Rightarrow> time \<Rightarrow> limiter \<Rightarrow> bool \<times> limiter" where
  "allow_window t1 t2 l0 =
     (let l = cleanup_requests t1 l0 in
      if int (length (requests l)) < max_requests (rl_config l)
      then (True, l\<lparr>requests := requests l @ [t2],
                    rl_stats := (rl_stats l)\<lparr>allowed := allowed (rl_stats l) + 1,
                                            current_requests := length (requests l @ [t2])\<rparr>\<rparr>)
      else (False, reject l))"

definition rl_allow :: "time \<Rightarrow> time \<Rightarrow> limiter \<Rightarrow> bool \<times> limiter" where
  "rl_allow t1 t2 l =
     (if \<not> rl_enabled (rl_config l) then (True, l)
      else (case strategy (rl_config l) of
              TOKEN_BUCKET \<Rightarrow> allow_tokens t1 l
            | FIXED_WINDOW \<Rightarrow> allow_window t1 t2 l
            | SLIDING_WINDOW \<Rightarrow> allow_window t1 t2 l))"

text \<open>
  The loop of \<open>wait_for_token\<close>. Round \<open>k\<close> reads the clock twice for \<open>allow\<close> and once for
  the timeout (\<open>clock k\<close>); while it sleeps, other tasks may use the limiter (\<open>env k\<close>).
\<close>

partial_function (option) wait_loop ::
  "(nat \<Rightarrow> time \<times> time \<times> time) \<Rightarrow> (nat \<Rightarrow> limiter \<Rightarrow> limiter) \<Rightarrow> time option \<Rightarrow> time \<Rightarrow>
   nat \<Rightarrow> limiter \<Rightarrow> (bool \<times> limiter) option" where
  "wait_loop clock env timeout start k l =
     (let r = rl_allow (fst (clock k)) (fst (snd (clock k))) l in
      if fst r then Some (True, snd r)
      else if (case timeout of None \<Rightarrow> False | Some d \<Rightarrow> snd (snd (clock k)) - start \<ge> d)
      then Some (False, snd r)
      else wait_loop clock env timeout start (Suc k) (env k (snd r)))"

definition wait_for_token ::
  "(nat \<Rightarrow> time \<times> time \<times> time) \<Rightarrow> (nat \<Rightarrow> limiter \<Rightarrow> limiter) \<Rightarrow> time option \<Rightarrow> time \<Rightarrow>
   limiter \<Rightarrow> (bool \<times> limiter) option" where
  "wait_for_token clock env timeout start l =
     (if \<not> rl_enabled (rl_config l) then Some (True, l)
      else wait_loop clock env timeout start 0 l)"

text \<open>Entering the context waits without a timeout; leaving it does nothing.\<close>

definition rl_aenter ::
  "(nat \<Rightarrow> time \<times> time \<times> time) \<Rightarrow> (nat \<Rightarrow> limiter \<Rightarrow> limiter) \<Rightarrow> time \<Rightarrow> limiter \<Rightarrow> limiter option"
  where
  "rl_aenter clock env start l =
     (if rl_enabled (rl_config l)
      then map_option snd (wait_for_token clock env None start l)
      else Some l)"

definition rl_reset :: "time \<Rightarrow> limiter \<Rightarrow> limiter" where
  "rl_reset now l =
     l\<lparr>tokens := of_int (max_tokens (rl_config l)), last_update := now, requests := [],
       rl_stats := fresh_rl_stats (of_int (max_tokens (rl_config l))) now\<rparr>"

definition rl_get_stats :: "limiter \<Rightarrow> rl_stats" where
  "rl_get_stats l = \<lparr>allowed = allowed (rl_stats l), rejected = rejected (rl_stats l),
     current_tokens = tokens l, current_requests = length (requests l),
     stats_last_update = last_update l, waiting = waiting (rl_stats l)\<rparr>"

section \<open>TokenRateLimiter\<close>

record token_limiter =
  tl_limiter :: limiter
  token_usage :: "(time \<times> int) list"
  total_tokens_used :: int
  unknown_usage :: "time list"

definition default_token_config :: rl_config where
  "default_token_config = default_rl_config\<lparr>strategy := TOKEN_BUCKET,
     tokens_per_second := 1000 / 60, max_tokens := 1000, rl_enabled := True\<rparr>"

definition new_token_limiter :: "rl_config option \<Rightarrow> string \<Rightarrow> time \<Rightarrow> token_limiter" where
  "new_token_limiter cfg nm now =
     \<lparr>tl_limiter = new_limiter (Some (option_or cfg default_token_config)) nm now,
      token_usage = [], total_tokens_used = 0, unknown_usage = []\<rparr>"

text \<open>Usage older than the cutoff is dropped from the left and taken off the running total.\<close>

fun expire_usage :: "time \<Rightarrow> (time \<times> int) list \<Rightarrow> int \<Rightarrow> (time \<times> int) list \<times> int" where
  "expire_usage cutoff [] tot = ([], tot)"
| "expire_usage cutoff ((t, n) # us) tot =
     (if t < cutoff then expire_usage cutoff us (tot - n) else ((t, n) # us, tot))"

definition record_usage ::
  "time \<Rightarrow> time \<Rightarrow> int option \<Rightarrow> int option \<Rightarrow> token_limiter \<Rightarrow> token_limiter" where
  "record_usage t1 t2 prompt completion tk =
     (let unknown = (if prompt = None \<or> completion = None
                     then unknown_usage tk @ [t1] else unknown_usage tk);
          n = option_or prompt 0 + option_or completion 0;
          cutoff = t2 - 60;
          (usage, tot) =
            expire_usage cutoff (token_usage tk @ [(t1, n)]) (total_tokens_used tk + n)
      in tk\<lparr>token_usage := usage, total_tokens_used := tot,
            unknown_usage := dropWhile (\<lambda>t. t < cutoff) unknown\<rparr>)"

definition get_recent_usage :: "time \<Rightarrow> time \<Rightarrow> token_limiter \<Rightarrow> int" where
  "get_recent_usage now seconds tk =
     (let cutoff = now - seconds in
      sum_list (map snd (filter (\<lambda>(t, _). t \<ge> cutoff) (token_usage tk))))"

text \<open>The inner limiter's \<open>tokens_per_request\<close> is replaced for the one call, then put back.\<close>

definition set_need :: "int \<Rightarrow> limiter \<Rightarrow> limiter" where
  "set_need n l = l\<lparr>rl_config := (rl_config l)\<lparr>tokens_per_request := n\<rparr>\<rparr>"

definition token_allow :: "time \<Rightarrow> time \<Rightarrow> int option \<Rightarrow> token_limiter \<Rightarrow> bool \<times> token_limiter" where
  "token_allow t1 t2 estimated tk =
     (let l = tl_limiter tk in
      if \<not> rl_enabled (rl_config l) then (True, tk)
      else
        (let original = tokens_per_request (rl_config l);
             (ok, l') = rl_allow t1 t2 (set_need (option_or estimated original) l)
         in (ok, tk\<lparr>tl_limiter := set_need original l'\<rparr>)))"

definition token_aenter ::
  "(nat \<Rightarrow> time \<times> time \<times> time) \<Rightarrow> (nat \<Rightarrow> limiter \<Rightarrow> limiter) \<Rightarrow> time \<Rightarrow> token_limiter
   \<Rightarrow> token_limiter option" where
  "token_aenter clock env start tk =
     map_option (\<lambda>l. tk\<lparr>tl_limiter := l\<rparr>) (rl_aenter clock env start (tl_limiter tk))"

definition token_reset :: "time \<Rightarrow> token_limiter \<Rightarrow> token_limiter" where
  "token_reset now tk = \<lparr>tl_limiter = rl_reset now (tl_limiter tk), token_usage = [],
     total_tokens_used = 0, unknown_usage = []\<rparr>"

record token_stats =
  ts_stats :: rl_stats
  ts_total_tokens_used :: int
  ts_recent_usage_60s :: int
  ts_unknown_usage_calls_60s :: nat
  ts_usage_complete_60s :: bool

definition token_get_stats :: "time \<Rightarrow> time \<Rightarrow> token_limiter \<Rightarrow> token_stats" where
  "token_get_stats t1 t2 tk =
     (let unknown = length (filter (\<lambda>t. t \<ge> t1 - 60) (unknown_usage tk)) in
      \<lparr>ts_stats = rl_get_stats (tl_limiter tk), ts_total_tokens_used = total_tokens_used tk,
       ts_recent_usage_60s = get_recent_usage t2 60 tk,
       ts_unknown_usage_calls_60s = unknown, ts_usage_complete_60s = (unknown = 0)\<rparr>)"

section \<open>RequestRateLimiter and CombinedRateLimiter\<close>

definition default_request_config :: rl_config where
  "default_request_config = default_rl_config\<lparr>strategy := FIXED_WINDOW, max_requests := 100,
     window_seconds := 60, rl_enabled := True\<rparr>"

text \<open>A request limiter has no state of its own beside the limiter it wraps.\<close>

definition new_request_limiter :: "rl_config option \<Rightarrow> string \<Rightarrow> time \<Rightarrow> limiter" where
  "new_request_limiter cfg nm now =
     new_limiter (Some (option_or cfg default_request_config)) nm now"

record combined =
  cb_tokens :: token_limiter
  cb_requests :: limiter

definition new_combined ::
  "rl_config option \<Rightarrow> rl_config option \<Rightarrow> string \<Rightarrow> time \<Rightarrow> time \<Rightarrow> combined" where
  "new_combined tc rc nm t1 t2 =
     \<lparr>cb_tokens = new_token_limiter tc (nm @ ''_tokens'') t1,
      cb_requests = new_request_limiter rc (nm @ ''_requests'') t2\<rparr>"

definition combined_allow ::
  "time \<times> time \<Rightarrow> time \<times> time \<Rightarrow> int option \<Rightarrow> combined \<Rightarrow> bool \<times> combined" where
  "combined_allow ts us estimated c =
     (case token_allow (fst ts) (snd ts) estimated (cb_tokens c) of
        (False, tk) \<Rightarrow> (False, c\<lparr>cb_tokens := tk\<rparr>)
      | (True, tk) \<Rightarrow>
          (case rl_allow (fst us) (snd us) (cb_requests c) of
             (ok, l) \<Rightarrow> (ok, c\<lparr>cb_tokens := tk, cb_requests := l\<rparr>)))"

definition combined_aenter ::
  "(nat \<Rightarrow> time \<times> time \<times> time) \<Rightarrow> (nat \<Rightarrow> limiter \<Rightarrow> limiter) \<Rightarrow> time \<Rightarrow>
   (nat \<Rightarrow> time \<times> time \<times> time) \<Rightarrow> (nat \<Rightarrow> limiter \<Rightarrow> limiter) \<Rightarrow> time \<Rightarrow> combined
   \<Rightarrow> combined option" where
  "combined_aenter clock1 env1 start1 clock2 env2 start2 c =
     (case token_aenter clock1 env1 start1 (cb_tokens c) of
        None \<Rightarrow> None
      | Some tk \<Rightarrow>
          (case rl_aenter clock2 env2 start2 (cb_requests c) of
             None \<Rightarrow> None
           | Some l \<Rightarrow> Some (c\<lparr>cb_tokens := tk, cb_requests := l\<rparr>)))"

definition combined_record_usage ::
  "time \<Rightarrow> time \<Rightarrow> int option \<Rightarrow> int option \<Rightarrow> combined \<Rightarrow> combined" where
  "combined_record_usage t1 t2 p q c =
     c\<lparr>cb_tokens := record_usage t1 t2 p q (cb_tokens c)\<rparr>"

definition combined_reset :: "time \<Rightarrow> time \<Rightarrow> combined \<Rightarrow> combined" where
  "combined_reset t1 t2 c = \<lparr>cb_tokens = token_reset t1 (cb_tokens c),
     cb_requests = rl_reset t2 (cb_requests c)\<rparr>"

section \<open>The registry\<close>

datatype any_limiter = TokenL token_limiter | RequestL limiter | CombinedL combined

record rl_registry =
  limiters :: "(string \<times> any_limiter) list"
  reg_token_config :: rl_config
  reg_request_config :: rl_config

definition new_rl_registry :: rl_registry where
  "new_rl_registry = \<lparr>limiters = [], reg_token_config = default_token_config,
     reg_request_config = default_request_config\<rparr>"

text \<open>A limiter is reached by its key, so the key stands for the reference the code returns.\<close>

definition get_or_make :: "string \<Rightarrow> any_limiter \<Rightarrow> rl_registry \<Rightarrow> string \<times> rl_registry" where
  "get_or_make key fresh w =
     (case dict_get (limiters w) key of
        Some _ \<Rightarrow> (key, w)
      | None \<Rightarrow> (key, w\<lparr>limiters := dict_set key fresh (limiters w)\<rparr>))"

definition get_token_limiter ::
  "string \<Rightarrow> rl_config option \<times> time \<Rightarrow> rl_registry \<Rightarrow> string \<times> rl_registry" where
  "get_token_limiter nm a w =
     get_or_make (''token:'' @ nm)
       (TokenL (new_token_limiter (Some (option_or (fst a) (reg_token_config w))) nm (snd a))) w"

definition get_request_limiter ::
  "string \<Rightarrow> rl_config option \<times> time \<Rightarrow> rl_registry \<Rightarrow> string \<times> rl_registry" where
  "get_request_limiter nm a w =
     get_or_make (''request:'' @ nm)
       (RequestL (new_request_limiter (Some (option_or (fst a) (reg_request_config w))) nm (snd a)))
       w"

definition get_combined_limiter ::
  "string \<Rightarrow> rl_config option \<times> rl_config option \<times> time \<times> time \<Rightarrow> rl_registry
   \<Rightarrow> string \<times> rl_registry" where
  "get_combined_limiter nm a w =
     (case a of (tc, rc, t1, t2) \<Rightarrow>
        get_or_make (''combined:'' @ nm)
          (CombinedL (new_combined (Some (option_or tc (reg_token_config w)))
             (Some (option_or rc (reg_request_config w))) nm t1 t2)) w)"

fun reset_any :: "time \<Rightarrow> time \<Rightarrow> any_limiter \<Rightarrow> any_limiter" where
  "reset_any t1 t2 (TokenL tk) = TokenL (token_reset t1 tk)"
| "reset_any t1 t2 (RequestL l) = RequestL (rl_reset t1 l)"
| "reset_any t1 t2 (CombinedL c) = CombinedL (combined_reset t1 t2 c)"

definition rl_reset_all :: "(nat \<Rightarrow> time \<times> time) \<Rightarrow> rl_registry \<Rightarrow> rl_registry" where
  "rl_reset_all clock w =
     w\<lparr>limiters := map (\<lambda>(i, k, l). (k, reset_any (fst (clock i)) (snd (clock i)) l))
                     (enumerate 0 (limiters w))\<rparr>"

definition set_default_token_config :: "rl_config \<Rightarrow> rl_registry \<Rightarrow> rl_registry" where
  "set_default_token_config cfg w = w\<lparr>reg_token_config := cfg\<rparr>"

definition set_default_request_config :: "rl_config \<Rightarrow> rl_registry \<Rightarrow> rl_registry" where
  "set_default_request_config cfg w = w\<lparr>reg_request_config := cfg\<rparr>"

section \<open>The bucket stays within its bounds\<close>

datatype rl_event = Allow time time | ResetLimiter time

fun rl_step :: "limiter \<Rightarrow> rl_event \<Rightarrow> limiter" where
  "rl_step l (Allow t1 t2) = snd (rl_allow t1 t2 l)"
| "rl_step l (ResetLimiter t) = rl_reset t l"

definition bucket_config :: "rl_config \<Rightarrow> bool" where
  "bucket_config c \<longleftrightarrow> 0 \<le> max_tokens c \<and> 0 \<le> tokens_per_second c \<and> 0 \<le> tokens_per_request c"

definition limiter_good :: "limiter \<Rightarrow> bool" where
  "limiter_good l \<longleftrightarrow>
     (bucket_config (rl_config l) \<longrightarrow> 0 \<le> tokens l \<and> tokens l \<le> of_int (max_tokens (rl_config l))) \<and>
     (0 \<le> max_requests (rl_config l) \<longrightarrow>
        int (length (requests l)) \<le> max_requests (rl_config l)) \<and>
     0 \<le> allowed (rl_stats l) \<and> 0 \<le> rejected (rl_stats l)"

lemma update_tokens_sel [simp]:
  "rl_config (update_tokens t l) = rl_config l" "requests (update_tokens t l) = requests l"
  "rl_stats (update_tokens t l) = rl_stats l"
  "last_update (update_tokens t l) = max (last_update l) t"
  by (auto simp: update_tokens_def Let_def)

lemma update_tokens_bounds:
  assumes "bucket_config (rl_config l)" and "0 \<le> tokens l"
    and "tokens l \<le> of_int (max_tokens (rl_config l))"
  shows "0 \<le> tokens (update_tokens t l)"
    and "tokens (update_tokens t l) \<le> of_int (max_tokens (rl_config l))"
    and "tokens (update_tokens t l) \<le>
      tokens l + tokens_per_second (rl_config l) * (max (last_update l) t - last_update l)"
proof -
  have "0 < t - last_update l \<Longrightarrow> 0 \<le> (t - last_update l) * tokens_per_second (rl_config l)"
    using assms(1) by (simp add: bucket_config_def)
  then show "0 \<le> tokens (update_tokens t l)"
    "tokens (update_tokens t l) \<le> of_int (max_tokens (rl_config l))"
    using assms by (auto simp: update_tokens_def Let_def bucket_config_def)
  show "tokens (update_tokens t l) \<le>
      tokens l + tokens_per_second (rl_config l) * (max (last_update l) t - last_update l)"
    by (auto simp: update_tokens_def Let_def algebra_simps)
qed

lemma rl_allow_config [simp]: "rl_config (snd (rl_allow t1 t2 l)) = rl_config l"
  by (simp add: rl_allow_def allow_tokens_def allow_window_def reject_def cleanup_requests_def
      Let_def split: strategy.split)

lemma length_dropWhile_int: "int (length (dropWhile P xs)) \<le> int (length xs)"
  by (simp add: length_dropWhile_le)

lemma allow_good:
  assumes "limiter_good l"
  shows "limiter_good (snd (rl_allow t1 t2 l))"
proof -
  have "limiter_good (snd (allow_tokens t1 l))"
    using assms update_tokens_bounds [of l t1]
    by (auto simp: limiter_good_def allow_tokens_def reject_def Let_def bucket_config_def)
  moreover have "limiter_good (snd (allow_window t1 t2 l))"
    using assms
      length_dropWhile_int [of "\<lambda>r. r < t1 - window_seconds (rl_config l)" "requests l"]
    by (auto simp: limiter_good_def allow_window_def reject_def cleanup_requests_def Let_def)
  ultimately show ?thesis using assms by (simp add: rl_allow_def split: strategy.split)
qed

interpretation limiter: step_system rl_step limiter_good
proof
  show "limiter_good (rl_step l e)" if "limiter_good l" for l e
  proof (cases e)
    case (Allow t1 t2)
    with that show ?thesis by (simp add: allow_good)
  next
    case (ResetLimiter t)
    then show ?thesis
      by (simp add: limiter_good_def rl_reset_def fresh_rl_stats_def bucket_config_def)
  qed
qed

text \<open>however the limiter is used, at whatever clock readings (also ones that go backwards), the
  bucket never holds fewer than zero or more than \<open>max_tokens\<close> tokens and the window never more
  than \<open>max_requests\<close> time stamps.\<close>

theorem limiter_invariant: "limiter_good (foldl rl_step (new_limiter cfg nm now) es)"
  by (rule limiter.run_good)
    (simp add: limiter_good_def new_limiter_def fresh_rl_stats_def Let_def bucket_config_def)

section \<open>Rate bounds\<close>

text \<open>How many of the calls at the given clock readings are granted.\<close>

fun grants :: "(time \<times> time) list \<Rightarrow> limiter \<Rightarrow> nat" where
  "grants [] l = 0"
| "grants ((t1, t2) # ts) l =
     (if fst (rl_allow t1 t2 l) then 1 else 0) + grants ts (snd (rl_allow t1 t2 l))"

definition bucket_mode :: "limiter \<Rightarrow> bool" where
  "bucket_mode l \<longleftrightarrow> rl_enabled (rl_config l) \<and> strategy (rl_config l) = TOKEN_BUCKET \<and>
     bucket_config (rl_config l)"

lemma bucket_step:
  assumes "bucket_mode l" and "limiter_good l" and "l' = snd (rl_allow t1 t2 l)"
  shows "of_int (tokens_per_request (rl_config l)) * (if fst (rl_allow t1 t2 l) then 1 else 0)
      + tokens l' \<le> tokens l + tokens_per_second (rl_config l) * (last_update l' - last_update l)"
    and "last_update l' = max (last_update l) t1"
  using assms update_tokens_bounds [of l t1]
  by (auto simp: bucket_mode_def limiter_good_def rl_allow_def allow_tokens_def reject_def
      Let_def)

lemma bucket_run:
  assumes "bucket_mode l" and "limiter_good l" and "\<forall>(t1, t2)\<in>set ts. t1 \<le> T"
    and "last_update l \<le> T"
  shows "of_int (tokens_per_request (rl_config l)) * real (grants ts l)
      \<le> tokens l + tokens_per_second (rl_config l) * (T - last_update l)"
  using assms
proof (induction ts arbitrary: l)
  case Nil
  then show ?case by (auto simp: bucket_mode_def limiter_good_def bucket_config_def)
next
  case (Cons p ts)
  obtain t1 t2 where p: "p = (t1, t2)" by (cases p)
  define l' where "l' = snd (rl_allow t1 t2 l)"
  note st = bucket_step [OF Cons.prems(1,2) l'_def]
  have cfg: "rl_config l' = rl_config l" by (simp add: l'_def)
  have "of_int (tokens_per_request (rl_config l')) * real (grants ts l')
      \<le> tokens l' + tokens_per_second (rl_config l') * (T - last_update l')"
  proof (rule Cons.IH)
    show "bucket_mode l'" using Cons.prems(1) by (simp add: bucket_mode_def cfg)
    show "limiter_good l'" unfolding l'_def using Cons.prems(2) by (rule allow_good)
    show "last_update l' \<le> T" using Cons.prems(3,4) by (simp add: st(2) p)
  qed (use Cons.prems(3) in simp)
  with st(1) show ?case
    by (simp add: p cfg l'_def [symmetric] algebra_simps split: if_splits)
qed

text \<open>C18: the token bucket's rate bound: up to any time \<open>T\<close> the tokens handed out never exceed
  what was in the bucket plus the refill since its last update, hence at most \<open>max_tokens\<close> plus
  rate times time. Clock readings need not be ordered.\<close>

theorem bucket_rate_bound:
  assumes "bucket_mode l" and "limiter_good l" and "\<forall>(t1, t2)\<in>set ts. t1 \<le> T"
    and "last_update l \<le> T"
  shows "of_int (tokens_per_request (rl_config l)) * real (grants ts l)
      \<le> of_int (max_tokens (rl_config l)) + tokens_per_second (rl_config l) * (T - last_update l)"
  using bucket_run [OF assms] assms(1,2) by (auto simp: bucket_mode_def limiter_good_def)

theorem bucket_rate_bound_witness:
  "100 * real (grants (replicate 20 (1, 1)) (new_limiter None ''n'' 0)) \<le> 1000 + 100 * (1 - 0)"
  using bucket_rate_bound [of "new_limiter None ''n'' 0" "replicate 20 (1, 1)" 1]
    limiter_invariant [of None "''n''" 0 "[]"]
  by (simp add: new_limiter_def option_or_def default_rl_config_def bucket_mode_def
      bucket_config_def)

text \<open>The times at which window calls are granted (the time stamps the code stores).\<close>

fun window_grants :: "(time \<times> time) list \<Rightarrow> limiter \<Rightarrow> time list" where
  "window_grants [] l = []"
| "window_grants ((t1, t2) # ts) l =
     (if fst (rl_allow t1 t2 l) then [t2] else []) @ window_grants ts (snd (rl_allow t1 t2 l))"

definition window_mode :: "limiter \<Rightarrow> bool" where
  "window_mode l \<longleftrightarrow> rl_enabled (rl_config l) \<and> strategy (rl_config l) \<noteq> TOKEN_BUCKET \<and>
     0 \<le> max_requests (rl_config l)"

text \<open>
  The history of a limiter: all time stamps ever granted are those already dropped followed by
  those still stored, and any \<open>max_requests\<close> positions apart they lie more than the window apart.
\<close>

definition spaced :: "nat \<Rightarrow> real \<Rightarrow> time list \<Rightarrow> bool" where
  "spaced m w gs \<longleftrightarrow> (\<forall>i. i + m < length gs \<longrightarrow> gs ! i + w < gs ! (i + m))"

lemma spaced_snoc:
  assumes "spaced m w gs" and "length gs < m \<or> gs ! (length gs - m) + w < t" and "0 < m"
  shows "spaced m w (gs @ [t])"
  unfolding spaced_def
proof (intro allI impI)
  fix i assume "i + m < length (gs @ [t])"
  then consider "i + m < length gs" | "i + m = length gs" by fastforce
  then show "(gs @ [t]) ! i + w < (gs @ [t]) ! (i + m)"
  proof cases
    case 1
    with assms(1) show ?thesis by (simp add: spaced_def nth_append)
  next
    case 2
    then have "i = length gs - m" by simp
    with 2 assms(2,3) have "gs ! i + w < t" by auto
    with 2 assms(3) show ?thesis by (simp add: nth_append)
  qed
qed

definition history :: "time list \<Rightarrow> limiter \<Rightarrow> time \<Rightarrow> bool" where
  "history gs l now \<longleftrightarrow> (\<exists>old. gs = old @ requests l \<and>
     (\<forall>g\<in>set old. g < now - window_seconds (rl_config l)))"

lemma dropWhile_split:
  "\<exists>old. xs = old @ dropWhile P xs \<and> (\<forall>x\<in>set old. P x)"
  by (rule exI [of _ "takeWhile P xs"]) (auto dest: set_takeWhileD)

lemma cleanup_history:
  assumes "history gs l now" and "now \<le> t"
  shows "history gs (cleanup_requests t l) t"
proof -
  obtain old where old: "gs = old @ requests l"
      "\<forall>g\<in>set old. g < now - window_seconds (rl_config l)"
    using assms(1) by (auto simp: history_def)
  obtain old' where old': "requests l =
      old' @ dropWhile (\<lambda>r. r < t - window_seconds (rl_config l)) (requests l)"
      "\<forall>x\<in>set old'. x < t - window_seconds (rl_config l)"
    using dropWhile_split [of "requests l" "\<lambda>r. r < t - window_seconds (rl_config l)"] by auto
  have "gs = (old @ old') @ requests (cleanup_requests t l)"
    using old(1) old'(1) by (simp add: cleanup_requests_def Let_def)
  moreover have "\<forall>g\<in>set (old @ old'). g < t - window_seconds (rl_config l)"
    using old(2) old'(2) assms(2) by auto
  ultimately show ?thesis by (auto simp: history_def cleanup_requests_def Let_def)
qed

lemma grant_spaced:
  assumes "history gs l t" and "spaced m (window_seconds (rl_config l)) gs" and "t \<le> u"
    and "length (requests l) < m"
  shows "spaced m (window_seconds (rl_config l)) (gs @ [u])"
proof (rule spaced_snoc [OF assms(2)])
  obtain old where old: "gs = old @ requests l"
      "\<forall>g\<in>set old. g < t - window_seconds (rl_config l)"
    using assms(1) by (auto simp: history_def)
  show "length gs < m \<or> gs ! (length gs - m) + window_seconds (rl_config l) < u"
  proof (cases "length gs < m")
    case False
    then have "length gs - m < length old" using assms(4) old(1) by simp
    then have "gs ! (length gs - m) \<in> set old" by (simp add: old(1) nth_append)
    with old(2) assms(3) show ?thesis by fastforce
  qed simp
  show "0 < m" using assms(4) by simp
qed

fun clock_ok :: "time \<Rightarrow> (time \<times> time) list \<Rightarrow> bool" where
  "clock_ok now [] = True"
| "clock_ok now ((t1, t2) # ts) = (now \<le> t1 \<and> t1 \<le> t2 \<and> clock_ok t2 ts)"

lemma window_step:
  assumes "window_mode l" and "history gs l now"
    and "spaced (nat (max_requests (rl_config l))) (window_seconds (rl_config l)) gs"
    and "now \<le> t1" and "t1 \<le> t2" and "gs' = (if fst (rl_allow t1 t2 l) then gs @ [t2] else gs)"
  shows "history gs' (snd (rl_allow t1 t2 l)) t2"
    and "spaced (nat (max_requests (rl_config l))) (window_seconds (rl_config l)) gs'"
proof -
  define l1 where "l1 = cleanup_requests t1 l"
  have eq: "rl_allow t1 t2 l = allow_window t1 t2 l"
    using assms(1) by (auto simp: window_mode_def rl_allow_def split: strategy.split)
  have cfg: "rl_config l1 = rl_config l" by (simp add: l1_def cleanup_requests_def Let_def)
  have h: "history gs l1 t1" unfolding l1_def by (rule cleanup_history [OF assms(2,4)])
  obtain old where old: "gs = old @ requests l1" "\<forall>g\<in>set old. g < t1 - window_seconds (rl_config l)"
    using h cfg by (auto simp: history_def)
  have old2: "\<forall>g\<in>set old. g < t2 - window_seconds (rl_config l)" using old(2) assms(5) by force
  show "history gs' (snd (rl_allow t1 t2 l)) t2"
    using old(1) old2 assms(6) cfg unfolding eq allow_window_def l1_def [symmetric] history_def
    by (auto simp: Let_def reject_def)
  show "spaced (nat (max_requests (rl_config l))) (window_seconds (rl_config l)) gs'"
  proof (cases "fst (rl_allow t1 t2 l)")
    case True
    then have "length (requests l1) < nat (max_requests (rl_config l))"
      unfolding eq allow_window_def l1_def [symmetric] by (simp add: Let_def cfg split: if_splits)
    with grant_spaced [OF h _ assms(5)] assms(3,6) True cfg show ?thesis by simp
  qed (use assms in simp)
qed

lemma window_run_spaced:
  assumes "window_mode l" and "history gs l now" and "clock_ok now ts"
    and "spaced (nat (max_requests (rl_config l))) (window_seconds (rl_config l)) gs"
  shows "spaced (nat (max_requests (rl_config l))) (window_seconds (rl_config l))
    (gs @ window_grants ts l)"
  using assms
proof (induction ts arbitrary: l gs now)
  case Nil
  then show ?case by simp
next
  case (Cons p ts)
  obtain t1 t2 where p: "p = (t1, t2)" by (cases p)
  define gs' where "gs' = (if fst (rl_allow t1 t2 l) then gs @ [t2] else gs)"
  have ck: "now \<le> t1" "t1 \<le> t2" "clock_ok t2 ts" using Cons.prems(3) by (simp_all add: p)
  note st = window_step [OF Cons.prems(1,2,4) ck(1,2) gs'_def]
  have "window_mode (snd (rl_allow t1 t2 l))" using Cons.prems(1) by (simp add: window_mode_def)
  from Cons.IH [OF this st(1) ck(3)] st(2)
  have "spaced (nat (max_requests (rl_config l))) (window_seconds (rl_config l))
      (gs' @ window_grants ts (snd (rl_allow t1 t2 l)))" by simp
  then show ?case by (simp add: p gs'_def split: if_splits)
qed

text \<open>the window limit: for a fresh limiter in either window strategy and a clock that does not
  go backwards, any two granted calls that are \<open>max_requests\<close> grants apart are more than
  \<open>window_seconds\<close> apart, so no time span of that length ever holds more than \<open>max_requests\<close>
  grants (a log of time stamps, not a counter per fixed window).\<close>

theorem window_limit:
  assumes "window_mode l" and "requests l = []" and "clock_ok now ts"
    and "i + nat (max_requests (rl_config l)) < length (window_grants ts l)"
  shows "window_grants ts l ! i + window_seconds (rl_config l)
    < window_grants ts l ! (i + nat (max_requests (rl_config l)))"
proof -
  have "history [] l now" using assms(2) by (simp add: history_def)
  from window_run_spaced [OF assms(1) this assms(3)] assms(4) show ?thesis
    by (simp add: spaced_def)
qed

definition tiny_window :: limiter where
  "tiny_window = new_limiter (Some (default_request_config\<lparr>max_requests := 1\<rparr>)) ''w'' 0"

theorem window_limit_witness:
  "window_grants [(1, 1), (30, 30), (62, 62)] tiny_window = [1, 62] \<and> (1::real) + 60 < 62"
proof -
  have g: "window_grants [(1, 1), (30, 30), (62, 62)] tiny_window = [1, 62]" by code_simp
  have m: "nat (max_requests (rl_config tiny_window)) = 1" by code_simp
  have w: "window_seconds (rl_config tiny_window) = 60" by code_simp
  have "window_grants [(1, 1), (30, 30), (62, 62)] tiny_window ! 0
      + window_seconds (rl_config tiny_window)
      < window_grants [(1, 1), (30, 30), (62, 62)] tiny_window
          ! (0 + nat (max_requests (rl_config tiny_window)))"
  proof (rule window_limit [where now = 0])
    show "window_mode tiny_window" by code_simp
    show "requests tiny_window = []" by code_simp
  qed (simp_all add: g m del: window_grants.simps)
  with m w show ?thesis unfolding g by simp
qed

definition set_strategy :: "strategy \<Rightarrow> limiter \<Rightarrow> limiter" where
  "set_strategy s l = l\<lparr>rl_config := (rl_config l)\<lparr>strategy := s\<rparr>\<rparr>"

text \<open>the two window strategies are one: \<open>FIXED_WINDOW\<close> and \<open>SLIDING_WINDOW\<close> give the same
  decision and the same state (but for the strategy itself) on every limiter at every time,
  although they are documented as different algorithms.\<close>

theorem window_strategies_agree:
  "rl_allow t1 t2 (set_strategy SLIDING_WINDOW l) =
     map_prod id (set_strategy SLIDING_WINDOW) (rl_allow t1 t2 (set_strategy FIXED_WINDOW l))"
  by (simp add: rl_allow_def set_strategy_def allow_window_def cleanup_requests_def reject_def
      Let_def)

section \<open>Waiting\<close>

definition starved :: "limiter \<Rightarrow> bool" where
  "starved l \<longleftrightarrow> bucket_mode l \<and> limiter_good l \<and>
     max_tokens (rl_config l) < tokens_per_request (rl_config l)"

lemma starved_refuses:
  assumes "starved l"
  shows "\<not> fst (rl_allow t1 t2 l)" and "starved (snd (rl_allow t1 t2 l))"
proof -
  have "tokens (update_tokens t1 l) < of_int (tokens_per_request (rl_config l))"
    using assms update_tokens_bounds(2) [of l t1]
    by (auto simp: starved_def bucket_mode_def limiter_good_def intro: le_less_trans)
  then show "\<not> fst (rl_allow t1 t2 l)"
    using assms
    by (auto simp: starved_def bucket_mode_def rl_allow_def allow_tokens_def Let_def)
  show "starved (snd (rl_allow t1 t2 l))"
    using assms by (simp add: starved_def bucket_mode_def allow_good)
qed

lemma starved_loop:
  assumes ret: "wait_loop clock env timeout start k l = Some r"
    and "timeout = None" and "starved l" and "\<forall>k l. starved l \<longrightarrow> starved (env k l)"
  shows False
proof -
  have "timeout = None \<longrightarrow> starved l \<longrightarrow> (\<forall>k l. starved l \<longrightarrow> starved (env k l)) \<longrightarrow> False"
  proof (rule wait_loop.raw_induct [where P = "\<lambda>clock env timeout start k l r. timeout = None \<longrightarrow>
    starved l \<longrightarrow> (\<forall>k l. starved l \<longrightarrow> starved (env k l)) \<longrightarrow> False", OF _ ret], intro impI)
  fix f :: "(nat \<Rightarrow> time \<times> time \<times> time) \<Rightarrow> (nat \<Rightarrow> limiter \<Rightarrow> limiter) \<Rightarrow> time option \<Rightarrow> time \<Rightarrow>
    nat \<Rightarrow> limiter \<Rightarrow> (bool \<times> limiter) option"
  fix clock env timeout start k l r
  assume IH: "\<And>clock env timeout start k l r. f clock env timeout start k l = Some r \<Longrightarrow>
      timeout = None \<longrightarrow> starved l \<longrightarrow> (\<forall>k l. starved l \<longrightarrow> starved (env k l)) \<longrightarrow> False"
    and eq: "(let r = rl_allow (fst (clock k)) (fst (snd (clock k))) l in
      if fst r then Some (True, snd r)
      else if (case timeout of None \<Rightarrow> False | Some d \<Rightarrow> snd (snd (clock k)) - start \<ge> d)
      then Some (False, snd r)
      else f clock env timeout start (Suc k) (env k (snd r))) = Some r"
    and a: "timeout = None" "starved l" "\<forall>k l. starved l \<longrightarrow> starved (env k l)"
  from eq a starved_refuses(1) [OF a(2)]
  have "f clock env timeout start (Suc k)
      (env k (snd (rl_allow (fst (clock k)) (fst (snd (clock k))) l))) = Some r"
    by (simp add: Let_def)
  from IH [OF this] a starved_refuses(2) [OF a(2)] show False by blast
  qed
  with assms(2-) show False by blast
qed

text \<open>a request that needs more tokens than the bucket can ever hold is never granted, and
  waiting for it without a timeout never returns, whatever the clock shows and whatever other
  tasks do within the limiter's bounds. Entering \<open>async with limiter\<close> is such a wait.\<close>

theorem oversized_request_hangs:
  assumes "starved l" and "\<forall>k l. starved l \<longrightarrow> starved (env k l)"
  shows "\<not> fst (rl_allow t1 t2 l) \<and> wait_for_token clock env None start l = None \<and>
    rl_aenter clock env start l = None"
proof -
  have "wait_loop clock env None start 0 l = None"
    using starved_loop [OF _ refl assms] by (cases "wait_loop clock env None start 0 l") auto
  moreover have "rl_enabled (rl_config l)" using assms(1) by (simp add: starved_def bucket_mode_def)
  ultimately show ?thesis
    using starved_refuses(1) [OF assms(1)] by (simp add: wait_for_token_def rl_aenter_def)
qed

definition small_bucket :: limiter where
  "small_bucket = new_limiter (Some (default_rl_config\<lparr>max_tokens := 50\<rparr>)) ''s'' 0"

theorem oversized_request_hangs_witness:
  "rl_aenter (\<lambda>k. (real k, real k, real k)) (\<lambda>_ l. l) 0 small_bucket = None"
  using oversized_request_hangs [of small_bucket "\<lambda>_ l. l"]
    limiter_invariant [of "Some (default_rl_config\<lparr>max_tokens := 50\<rparr>)" "''s''" 0 "[]"]
  by (simp add: starved_def small_bucket_def new_limiter_def option_or_def default_rl_config_def
      bucket_mode_def bucket_config_def)

lemma wait_loop_timeout:
  assumes "n = k + i" and "d \<le> snd (snd (clock n)) - start"
  shows "wait_loop clock env (Some d) start k l \<noteq> None"
  using assms
proof (induction i arbitrary: k l)
  case 0
  then show ?case by (subst wait_loop.simps) (auto simp: Let_def)
next
  case (Suc i)
  then have "wait_loop clock env (Some d) start (Suc k) l' \<noteq> None" for l' by simp
  then show ?case by (subst wait_loop.simps) (auto simp: Let_def)
qed

text \<open>waiting with a timeout always returns: as soon as one reading of the clock after a refusal
  shows the timeout, the loop has returned by that round, whatever other tasks do to the limiter.\<close>

theorem wait_timeout_returns:
  assumes "d \<le> snd (snd (clock n)) - start"
  shows "\<exists>r. wait_for_token clock env (Some d) start l = Some r"
  using wait_loop_timeout [of n 0 n d clock start env l] assms
  by (auto simp: wait_for_token_def)

theorem wait_timeout_returns_witness:
  "\<exists>r. wait_for_token (\<lambda>k. (real k, real k, real k)) (\<lambda>_ l. l) (Some 3) 0 small_bucket = Some r"
  by (rule wait_timeout_returns [of 3 _ 3]) simp

text \<open>Refill seen by a waiting caller that has the limiter to itself, since time \<open>L\<close>.\<close>

definition refilled :: "time \<Rightarrow> limiter \<Rightarrow> bool" where
  "refilled L l \<longleftrightarrow> bucket_mode l \<and>
     min (of_int (max_tokens (rl_config l)))
       (tokens_per_second (rl_config l) * (last_update l - L)) \<le> tokens l"

lemma min_add_mono: "min m a \<le> x \<Longrightarrow> 0 \<le> d \<Longrightarrow> min m (a + d) \<le> min m (x + d)" for d :: real
  by (auto simp: min_def split: if_splits)

lemma refilled_update: "refilled L l \<Longrightarrow> refilled L (update_tokens t l)"
proof -
  assume r: "refilled L l"
  show ?thesis
  proof (cases "0 < t - last_update l")
    case True
    have "tokens_per_second (rl_config l) * (t - L) =
        tokens_per_second (rl_config l) * (last_update l - L)
          + (t - last_update l) * tokens_per_second (rl_config l)"
      by (simp add: algebra_simps)
    moreover have "0 \<le> (t - last_update l) * tokens_per_second (rl_config l)"
      using r True by (simp add: refilled_def bucket_mode_def bucket_config_def)
    moreover have "tokens (update_tokens t l) = min (of_int (max_tokens (rl_config l)))
        (tokens l + (t - last_update l) * tokens_per_second (rl_config l))"
      using True by (simp add: update_tokens_def Let_def)
    moreover have "last_update (update_tokens t l) = t" using True by simp
    ultimately show ?thesis
      using r min_add_mono [of _ "tokens_per_second (rl_config l) * (last_update l - L)" "tokens l"
          "(t - last_update l) * tokens_per_second (rl_config l)"]
      unfolding refilled_def bucket_mode_def update_tokens_sel(1) by simp
  next
    case False
    with r show ?thesis by (simp add: update_tokens_def)
  qed
qed

lemma refused_refilled:
  assumes "refilled L l" and "\<not> fst (rl_allow t1 t2 l)"
  shows "refilled L (snd (rl_allow t1 t2 l))"
  using assms refilled_update [OF assms(1), of t1]
  by (auto simp: refilled_def bucket_mode_def rl_allow_def allow_tokens_def reject_def Let_def
      split: if_splits)

lemma due_granted:
  assumes "refilled L l" and "tokens_per_request (rl_config l) \<le> max_tokens (rl_config l)"
    and "of_int (tokens_per_request (rl_config l)) \<le> tokens_per_second (rl_config l) * (t1 - L)"
  shows "fst (rl_allow t1 t2 l)"
proof -
  have "tokens_per_second (rl_config l) * (t1 - L)
      \<le> tokens_per_second (rl_config l) * (max (last_update l) t1 - L)"
    using assms(1)
    by (intro mult_left_mono) (auto simp: refilled_def bucket_mode_def bucket_config_def)
  then have "of_int (tokens_per_request (rl_config l)) \<le> tokens (update_tokens t1 l)"
    using refilled_update [OF assms(1), of t1] assms(2,3) by (auto simp: refilled_def)
  with assms(1) show ?thesis
    by (simp add: rl_allow_def refilled_def bucket_mode_def allow_tokens_def Let_def)
qed

lemma wait_loop_granted:
  assumes "n = k + i" and "refilled L l"
    and "tokens_per_request (rl_config l) \<le> max_tokens (rl_config l)"
    and "of_int (tokens_per_request (rl_config l))
      \<le> tokens_per_second (rl_config l) * (fst (clock n) - L)"
  shows "\<exists>l'. wait_loop clock (\<lambda>_ l. l) None start k l = Some (True, l')"
  using assms
proof (induction i arbitrary: k l)
  case 0
  then have "fst (rl_allow (fst (clock k)) (fst (snd (clock k))) l)"
    by (intro due_granted) simp_all
  then show ?case by (subst wait_loop.simps) (simp add: Let_def)
next
  case (Suc i)
  let ?r = "rl_allow (fst (clock k)) (fst (snd (clock k))) l"
  show ?case
  proof (cases "fst ?r")
    case True
    then show ?thesis by (subst wait_loop.simps) (simp add: Let_def)
  next
    case False
    then have "\<exists>l'. wait_loop clock (\<lambda>_ l. l) None start (Suc k) (snd ?r) = Some (True, l')"
      using Suc.prems by (intro Suc.IH) (simp_all add: refused_refilled)
    with False show ?thesis by (subst wait_loop.simps) (simp add: Let_def)
  qed
qed

text \<open>a caller alone on the bucket whose request fits is served: by the round whose clock shows
  that \<open>tokens_per_request\<close> tokens have been refilled since the last update, the wait without a
  timeout has returned \<open>True\<close>.\<close>

theorem wait_served:
  assumes "bucket_mode l" and "limiter_good l"
    and "tokens_per_request (rl_config l) \<le> max_tokens (rl_config l)"
    and "of_int (tokens_per_request (rl_config l))
      \<le> tokens_per_second (rl_config l) * (fst (clock n) - last_update l)"
  shows "\<exists>l'. wait_for_token clock (\<lambda>_ l. l) None start l = Some (True, l')"
proof -
  have "refilled (last_update l) l"
    using assms(1,2) by (auto simp: refilled_def bucket_mode_def limiter_good_def)
  from wait_loop_granted [where clock = clock and n = n and k = 0 and i = n, OF _ this assms(3,4)]
    assms(1) show ?thesis
    by (simp add: wait_for_token_def bucket_mode_def)
qed

theorem wait_served_witness:
  "\<exists>l'. wait_for_token (\<lambda>k. (real k, real k, real k)) (\<lambda>_ l. l) None 0
     (new_limiter None ''n'' 0) = Some (True, l')"
  by (rule wait_served [where n = 1])
    (use limiter_invariant [of None "''n''" 0 "[]"] in
      \<open>simp_all add: new_limiter_def option_or_def default_rl_config_def bucket_mode_def
        bucket_config_def\<close>)

section \<open>Token, request and combined limiters\<close>

datatype token_event =
    TokenAllow time time "int option"
  | Usage time time "int option" "int option"
  | TokenReset time

fun token_step :: "token_limiter \<Rightarrow> token_event \<Rightarrow> token_limiter" where
  "token_step tk (TokenAllow t1 t2 n) = snd (token_allow t1 t2 n tk)"
| "token_step tk (Usage t1 t2 p c) = record_usage t1 t2 p c tk"
| "token_step tk (TokenReset t) = token_reset t tk"

definition usage_good :: "token_limiter \<Rightarrow> bool" where
  "usage_good tk \<longleftrightarrow> total_tokens_used tk = sum_list (map snd (token_usage tk))"

lemma expire_usage_eq:
  "expire_usage w us n =
     (dropWhile (\<lambda>u. fst u < w) us,
      n - sum_list (map snd us) + sum_list (map snd (dropWhile (\<lambda>u. fst u < w) us)))"
  by (induction us arbitrary: n) (auto split: prod.splits)

lemma token_allow_sel [simp]:
  "token_usage (snd (token_allow t1 t2 n tk)) = token_usage tk"
  "total_tokens_used (snd (token_allow t1 t2 n tk)) = total_tokens_used tk"
  by (simp_all add: token_allow_def Let_def case_prod_beta)

interpretation usage: step_system token_step usage_good
proof
  show "usage_good (token_step tk e)" if "usage_good tk" for tk e
    using that by (cases e)
      (simp_all add: usage_good_def record_usage_def expire_usage_eq token_reset_def Let_def)
qed

text \<open>the running total of a token limiter is the sum of the usage entries it still holds, through
  every order of checks, recordings (missing counts included) and resets; a check puts the
  configured \<open>tokens_per_request\<close> back, so one caller's estimate never leaks into the next check.\<close>

theorem token_usage_total:
  "usage_good (foldl token_step (new_token_limiter cfg nm now) es) \<and>
   rl_config (tl_limiter (snd (token_allow t1 t2 n tk))) = rl_config (tl_limiter tk)"
proof
  show "usage_good (foldl token_step (new_token_limiter cfg nm now) es)"
    by (rule usage.run_good) (simp add: usage_good_def new_token_limiter_def)
  show "rl_config (tl_limiter (snd (token_allow t1 t2 n tk))) = rl_config (tl_limiter tk)"
    by (simp add: token_allow_def set_need_def Let_def case_prod_beta)
qed

text \<open>a combined check asks the token limiter first and spends its tokens even when the request
  limiter then refuses: with enough tokens and a full request window the call is refused and the
  bucket is short of the estimate.\<close>

theorem combined_refusal_spends:
  assumes "fst (token_allow t1 t2 n (cb_tokens c))"
    and "\<not> fst (rl_allow u1 u2 (cb_requests c))"
  shows "\<not> fst (combined_allow (t1, t2) (u1, u2) n c) \<and>
    cb_tokens (snd (combined_allow (t1, t2) (u1, u2) n c))
      = snd (token_allow t1 t2 n (cb_tokens c))"
  using assms
  by (auto simp: combined_allow_def split: prod.splits bool.splits)

theorem combined_refusal_spends_witness:
  "let c = new_combined None (Some (default_request_config\<lparr>max_requests := 0\<rparr>)) ''c'' 0 0;
       r = combined_allow (0, 0) (0, 0) (Some 700) c
   in \<not> fst r \<and> tokens (tl_limiter (cb_tokens (snd r))) = 300"
proof -
  define c where "c = new_combined None (Some (default_request_config\<lparr>max_requests := 0\<rparr>)) ''c'' 0 0"
  have t: "fst (token_allow 0 0 (Some 700) (cb_tokens c))" unfolding c_def by code_simp
  have r: "\<not> fst (rl_allow 0 0 (cb_requests c))" unfolding c_def by code_simp
  have k: "tokens (tl_limiter (snd (token_allow 0 0 (Some 700) (cb_tokens c)))) = 300"
    unfolding c_def by code_simp
  show ?thesis
    using combined_refusal_spends [OF t r] k unfolding c_def [symmetric] Let_def by simp
qed

section \<open>Registry\<close>

definition has_limiter :: "(string \<Rightarrow> string) \<Rightarrow> rl_registry \<Rightarrow> string \<Rightarrow> string option" where
  "has_limiter key w nm =
     (case dict_get (limiters w) (key nm) of None \<Rightarrow> None | Some _ \<Rightarrow> Some (key nm))"

lemma get_or_make_spec:
  "fst (get_or_make key fresh w) = key"
  "dict_get (limiters w) key = Some v \<Longrightarrow> get_or_make key fresh w = (key, w)"
  "\<exists>v. dict_get (limiters (snd (get_or_make key fresh w))) key = Some v"
  "k \<noteq> key \<Longrightarrow> dict_get (limiters (snd (get_or_make key fresh w))) k = dict_get (limiters w) k"
  by (simp_all add: get_or_make_def split: option.split)

lemmas get_limiter_defs = get_token_limiter_def get_request_limiter_def get_combined_limiter_def

interpretation token_registry:
  get_or_create get_token_limiter "has_limiter (\<lambda>nm. ''token:'' @ nm)" "\<lambda>_. True"
  by unfold_locales
    (auto simp: get_limiter_defs has_limiter_def get_or_make_spec split: option.splits)

interpretation request_registry:
  get_or_create get_request_limiter "has_limiter (\<lambda>nm. ''request:'' @ nm)" "\<lambda>_. True"
  by unfold_locales
    (auto simp: get_limiter_defs has_limiter_def get_or_make_spec split: option.splits)

interpretation combined_registry:
  get_or_create get_combined_limiter "has_limiter (\<lambda>nm. ''combined:'' @ nm)" "\<lambda>_. True"
  by unfold_locales
    (auto simp: get_limiter_defs has_limiter_def get_or_make_spec split: option.splits prod.splits)

end
