(* ===== verification/TaskGraph.thy ===== *)
theory TaskGraph
  imports Prelude "HOL-Library.Multiset"
begin

text \<open>
  \<open>harness/task_graph.py\<close>: the penetration task graph. A graph is the dictionary from task id
  to task in insertion order. A task's status is a string, as in the code; the five the
  module names are abbreviated. Free-form \<open>meta\<close> values are JSON values.
\<close>

section \<open>Data\<close>

abbreviation READY :: string where "READY \<equiv> ''ready''"
abbreviation BLOCKED :: string where "BLOCKED \<equiv> ''blocked''"
abbreviation DONE :: string where "DONE \<equiv> ''done''"
abbreviation FAILED :: string where "FAILED \<equiv> ''failed''"
abbreviation SKIPPED :: string where "SKIPPED \<equiv> ''skipped''"

definition attack_technique_map :: "(string \<times> string \<times> string) list" where
  "attack_technique_map =
    [(''sqli'', ''T1190'', ''Exploit Public-Facing Application''),
     (''xss'', ''T1189'', ''Drive-by Compromise''),
     (''stored_xss'', ''T1189'', ''Drive-by Compromise''),
     (''dom_xss'', ''T1189'', ''Drive-by Compromise''),
     (''idor'', ''T1078'', ''Valid Accounts''),
     (''bola'', ''T1078'', ''Valid Accounts''),
     (''authz'', ''T1078'', ''Valid Accounts''),
     (''missing_authentication'', ''T1190'', ''Exploit Public-Facing Application''),
     (''ssrf'', ''T1190'', ''Exploit Public-Facing Application''),
     (''xxe'', ''T1190'', ''Exploit Public-Facing Application''),
     (''command_injection'', ''T1059'', ''Command and Scripting Interpreter''),
     (''path_traversal'', ''T1083'', ''File and Directory Discovery''),
     (''deserialization'', ''T1190'', ''Exploit Public-Facing Application''),
     (''jwt_forge'', ''T1552'', ''Unsecured Credentials''),
     (''secret_disclosure'', ''T1552'', ''Unsecured Credentials''),
     (''reset_token'', ''T1110'', ''Brute Force''),
     (''rate_limit'', ''T1110'', ''Brute Force''),
     (''csrf'', ''T1204'', ''User Execution''),
     (''open_redirect'', ''T1204'', ''User Execution''),
     (''ssti'', ''T1190'', ''Exploit Public-Facing Application''),
     (''sequence'', ''T1078'', ''Valid Accounts''),
     (''privilege_escalation'', ''T1068'', ''Exploitation for Privilege Escalation''),
     (''toctou'', ''T1068'', ''Exploitation for Privilege Escalation''),
     (''recon'', ''T1595'', ''Active Scanning'')]"

definition attack_technique_for :: "string \<Rightarrow> (string \<times> string) option" where
  "attack_technique_for c = dict_get attack_technique_map (py_lower (py_strip c))"

definition severity_weight :: "(string \<times> real) list" where
  "severity_weight = [(''critical'', 4), (''high'', 3), (''medium'', 2), (''low'', 1),
     (''info'', 1 / 2)]"

type_synonym meta = "(string \<times> json) list"

text \<open>The text of a severity that is not a string is never one of the five names.\<close>

definition severity_of :: "meta \<Rightarrow> string" where
  "severity_of m = (case dict_get m ''severity'' of Some (JStr s) \<Rightarrow> s | _ \<Rightarrow> [])"

definition confidence_of :: "meta \<Rightarrow> real option" where
  "confidence_of m =
     (case dict_get m ''confidence'' of
        Some (JInt i) \<Rightarrow> Some (of_int i)
      | Some (JFloat x) \<Rightarrow> Some x
      | Some (JBool b) \<Rightarrow> Some (if b then 1 else 0)
      | _ \<Rightarrow> None)"

definition default_value :: "meta \<Rightarrow> real" where
  "default_value m =
     (let sev = py_lower (py_strip (severity_of m));
          weight = option_or (dict_get severity_weight sev) 1 in
      case confidence_of m of
        Some c \<Rightarrow> weight * (1 / 4 + 3 / 4 * max 0 (min 1 c))
      | None \<Rightarrow> weight)"

record task =
  tid :: string
  kind :: string
  target :: string
  reason :: string
  status :: string
  depends_on :: "string list"
  needs :: string
  optional :: bool
  source :: string
  meta :: meta
  attack_technique :: string
  attack_technique_name :: string
  evidence_ref :: string
  val :: real

type_synonym task_graph = "(string \<times> task) list"

datatype task_error = KeyError string | AttributeError | WrongType string

definition make_id :: "string \<Rightarrow> string \<Rightarrow> string" where
  "make_id k t = k @ '':'' @ t"

section \<open>Dictionary form\<close>

definition task_to_dict :: "task \<Rightarrow> (string \<times> json) list" where
  "task_to_dict t =
     [(''id'', JStr (tid t)), (''kind'', JStr (kind t)), (''target'', JStr (target t)),
      (''reason'', JStr (reason t)), (''status'', JStr (status t)),
      (''depends_on'', JList (map JStr (depends_on t))), (''needs'', JStr (needs t)),
      (''optional'', JBool (optional t)), (''source'', JStr (source t)),
      (''meta'', JObj (meta t)), (''attack_technique'', JStr (attack_technique t)),
      (''attack_technique_name'', JStr (attack_technique_name t)),
      (''evidence_ref'', JStr (evidence_ref t)), (''value'', JFloat (val t))]"

text \<open>
  Reading back: a missing key takes the code's default. A value of another JSON type than the
  field declares is an error of the model (Python would store it as it is).
\<close>

definition str_field :: "(string \<times> json) list \<Rightarrow> string \<Rightarrow> string \<Rightarrow> task_error + string" where
  "str_field d k dflt = (case dict_get d k of None \<Rightarrow> Inr dflt | Some (JStr s) \<Rightarrow> Inr s
     | Some _ \<Rightarrow> Inl (WrongType k))"

fun str_list :: "json list \<Rightarrow> string list option" where
  "str_list [] = Some []"
| "str_list (JStr s # js) = map_option ((#) s) (str_list js)"
| "str_list (_ # js) = None"

definition list_field :: "(string \<times> json) list \<Rightarrow> string \<Rightarrow> task_error + string list" where
  "list_field d k = (case dict_get d k of None \<Rightarrow> Inr []
     | Some (JList js) \<Rightarrow> (case str_list js of None \<Rightarrow> Inl (WrongType k) | Some xs \<Rightarrow> Inr xs)
     | Some _ \<Rightarrow> Inl (WrongType k))"

definition truthy :: "json \<Rightarrow> bool" where
  "truthy j = (case j of JNull \<Rightarrow> False | JBool b \<Rightarrow> b | JInt i \<Rightarrow> i \<noteq> 0 | JFloat x \<Rightarrow> x \<noteq> 0
     | JStr s \<Rightarrow> s \<noteq> [] | JList js \<Rightarrow> js \<noteq> [] | JObj kvs \<Rightarrow> kvs \<noteq> [])"

definition bool_field :: "(string \<times> json) list \<Rightarrow> string \<Rightarrow> bool" where
  "bool_field d k = (case dict_get d k of None \<Rightarrow> False | Some j \<Rightarrow> truthy j)"

definition meta_field :: "(string \<times> json) list \<Rightarrow> task_error + meta" where
  "meta_field d = (case dict_get d ''meta'' of None \<Rightarrow> Inr []
     | Some j \<Rightarrow> if \<not> truthy j then Inr []
         else (case j of JObj m \<Rightarrow> Inr m | _ \<Rightarrow> Inl (WrongType ''meta'')))"

definition value_field :: "(string \<times> json) list \<Rightarrow> task_error + real" where
  "value_field d = (case dict_get d ''value'' of None \<Rightarrow> Inr 0
     | Some j \<Rightarrow> if \<not> truthy j then Inr 0
         else (case j of JInt i \<Rightarrow> Inr (of_int i) | JFloat x \<Rightarrow> Inr x | JBool b \<Rightarrow> Inr 1
               | _ \<Rightarrow> Inl (WrongType ''value'')))"

definition bind_err :: "'e + 'a \<Rightarrow> ('a \<Rightarrow> 'e + 'b) \<Rightarrow> 'e + 'b" where
  "bind_err r f = (case r of Inl e \<Rightarrow> Inl e | Inr x \<Rightarrow> f x)"

definition task_from_dict :: "(string \<times> json) list \<Rightarrow> task_error + task" where
  "task_from_dict d =
     bind_err (case dict_get d ''id'' of None \<Rightarrow> Inl (KeyError ''id'')
               | Some (JStr s) \<Rightarrow> Inr s | Some _ \<Rightarrow> Inl (WrongType ''id'')) (\<lambda>i.
     bind_err (str_field d ''kind'' []) (\<lambda>k.
     bind_err (str_field d ''target'' []) (\<lambda>tg.
     bind_err (str_field d ''reason'' []) (\<lambda>r.
     bind_err (str_field d ''status'' READY) (\<lambda>st.
     bind_err (list_field d ''depends_on'') (\<lambda>deps.
     bind_err (str_field d ''needs'' []) (\<lambda>n.
     bind_err (str_field d ''source'' []) (\<lambda>src.
     bind_err (meta_field d) (\<lambda>m.
     bind_err (str_field d ''attack_technique'' []) (\<lambda>tec.
     bind_err (str_field d ''attack_technique_name'' []) (\<lambda>atn.
     bind_err (str_field d ''evidence_ref'' []) (\<lambda>ev.
     bind_err (value_field d) (\<lambda>v.
       Inr \<lparr>tid = i, kind = k, target = tg, reason = r, status = st, depends_on = deps,
            needs = n, optional = bool_field d ''optional'', source = src, meta = m,
            attack_technique = tec, attack_technique_name = atn, evidence_ref = ev,
            val = v\<rparr>)))))))))))))"

definition graph_to_dict :: "task_graph \<Rightarrow> (string \<times> json) list" where
  "graph_to_dict g = [(''tasks'', JObj (map (\<lambda>(i, t). (i, JObj (task_to_dict t))) g))]"

fun load_tasks :: "(string \<times> json) list \<Rightarrow> task_graph \<Rightarrow> task_error + task_graph" where
  "load_tasks [] g = Inr g"
| "load_tasks ((i, JObj td) # ts) g =
     bind_err (task_from_dict td) (\<lambda>t. load_tasks ts (dict_set i t g))"
| "load_tasks ((i, _) # ts) g = Inl (WrongType i)"

definition graph_from_dict :: "(string \<times> json) list \<Rightarrow> task_error + task_graph" where
  "graph_from_dict d =
     (case dict_get d ''tasks'' of
        None \<Rightarrow> Inr []
      | Some j \<Rightarrow> if \<not> truthy j then Inr []
          else (case j of JObj ts \<Rightarrow> load_tasks ts [] | _ \<Rightarrow> Inl (WrongType ''tasks'')))"

section \<open>Operations\<close>

definition satisfied :: "task option \<Rightarrow> bool" where
  "satisfied d =
     (case d of None \<Rightarrow> False
      | Some t \<Rightarrow> if status t = DONE then True
                 else if status t = SKIPPED then optional t else False)"

definition pending :: "task_graph \<Rightarrow> string \<Rightarrow> bool" where
  "pending g dep = (\<not> satisfied (dict_get g dep))"

text \<open>\<open>meta.get("vulnerability_class", "")\<close> must be a string, or falsy, to be stripped.\<close>

definition mapped_technique :: "meta \<Rightarrow> task_error + (string \<times> string) option" where
  "mapped_technique m =
     (case dict_get m ''vulnerability_class'' of
        None \<Rightarrow> Inr (attack_technique_for [])
      | Some (JStr s) \<Rightarrow> Inr (attack_technique_for s)
      | Some j \<Rightarrow> if truthy j then Inl AttributeError else Inr (attack_technique_for []))"

record add_args =
  a_reason :: string
  a_depends_on :: "string list"
  a_needs :: string
  a_optional :: bool
  a_source :: string
  a_meta :: meta
  a_attack_technique :: string
  a_evidence_ref :: string
  a_value :: "real option"

definition add_task :: "string \<Rightarrow> string \<Rightarrow> add_args \<Rightarrow> task_graph \<Rightarrow> task_error + task \<times> task_graph"
  where
  "add_task k tg a g =
     (let i = make_id k tg in
      case dict_get g i of
        Some existing \<Rightarrow> Inr (existing, g)
      | None \<Rightarrow>
          (let deps = a_depends_on a;
               st = (if list_ex (pending g) deps \<or> a_needs a \<noteq> [] then BLOCKED else READY) in
           bind_err (if a_attack_technique a \<noteq> [] then Inr (a_attack_technique a, [])
                     else bind_err (mapped_technique (a_meta a)) (\<lambda>m.
                       Inr (case m of Some p \<Rightarrow> p | None \<Rightarrow> ([], []))))
             (\<lambda>(technique, technique_name).
               let t = \<lparr>tid = i, kind = k, target = tg, reason = a_reason a, status = st,
                        depends_on = deps, needs = a_needs a, optional = a_optional a,
                        source = a_source a, meta = a_meta a, attack_technique = technique,
                        attack_technique_name = technique_name,
                        evidence_ref = list_or (a_evidence_ref a) (a_source a),
                        val = option_or (a_value a) (default_value (a_meta a))\<rparr>
               in Inr (t, dict_set i t g))))"

text \<open>\<open>_unlock\<close> walks the tasks in order and changes them as it goes.\<close>

definition promotable :: "task_graph \<Rightarrow> task \<Rightarrow> bool" where
  "promotable g t \<longleftrightarrow>
     status t = BLOCKED \<and> needs t = [] \<and> \<not> list_ex (pending g) (depends_on t)"

definition unlock_one :: "task_graph \<Rightarrow> string \<Rightarrow> task_graph" where
  "unlock_one g i =
     (case dict_get g i of
        None \<Rightarrow> g
      | Some t \<Rightarrow> if promotable g t then dict_set i (t\<lparr>status := READY\<rparr>) g else g)"

definition unlock :: "task_graph \<Rightarrow> task_graph" where
  "unlock g = foldl unlock_one g (map fst g)"

definition mark :: "string \<Rightarrow> string \<Rightarrow> task_graph \<Rightarrow> task_graph" where
  "mark i st g =
     (case dict_get g i of
        None \<Rightarrow> g
      | Some t \<Rightarrow> unlock (dict_set i (t\<lparr>status := st\<rparr>) g))"

definition mark_by :: "string \<Rightarrow> string \<Rightarrow> string \<Rightarrow> task_graph \<Rightarrow> task_graph" where
  "mark_by k tg st g = mark (make_id k tg) st g"

definition resolve_need :: "string \<Rightarrow> task_graph \<Rightarrow> task_graph" where
  "resolve_need i g =
     (case dict_get g i of
        None \<Rightarrow> g
      | Some t \<Rightarrow>
          (let g1 = dict_set i (t\<lparr>needs := []\<rparr>) g in
           if \<not> list_ex (pending g1) (depends_on t)
           then dict_set i (t\<lparr>needs := [], status := READY\<rparr>) g1 else g1))"

definition ready_tasks :: "task_graph \<Rightarrow> task list" where
  "ready_tasks g = filter (\<lambda>t. status t = READY) (map snd g)"

definition ready_by_value :: "task_graph \<Rightarrow> task list" where
  "ready_by_value g = sort_key (\<lambda>t. (- val t, tid t)) (ready_tasks g)"

definition blocked_tasks :: "task_graph \<Rightarrow> task list" where
  "blocked_tasks g = filter (\<lambda>t. status t = BLOCKED) (map snd g)"

definition failed_tasks :: "task_graph \<Rightarrow> task list" where
  "failed_tasks g = filter (\<lambda>t. status t = FAILED) (map snd g)"

section \<open>Round trip\<close>

lemma str_list_map [simp]: "str_list (map JStr xs) = Some xs"
  by (induction xs) simp_all

lemma bind_err_Inr [simp]: "bind_err (Inr x) f = f x"
  by (simp add: bind_err_def)

lemma task_dict_lookup [simp]:
  "dict_get (task_to_dict t) ''id'' = Some (JStr (tid t))"
  "dict_get (task_to_dict t) ''kind'' = Some (JStr (kind t))"
  "dict_get (task_to_dict t) ''target'' = Some (JStr (target t))"
  "dict_get (task_to_dict t) ''reason'' = Some (JStr (reason t))"
  "dict_get (task_to_dict t) ''status'' = Some (JStr (status t))"
  "dict_get (task_to_dict t) ''depends_on'' = Some (JList (map JStr (depends_on t)))"
  "dict_get (task_to_dict t) ''needs'' = Some (JStr (needs t))"
  "dict_get (task_to_dict t) ''optional'' = Some (JBool (optional t))"
  "dict_get (task_to_dict t) ''source'' = Some (JStr (source t))"
  "dict_get (task_to_dict t) ''meta'' = Some (JObj (meta t))"
  "dict_get (task_to_dict t) ''attack_technique'' = Some (JStr (attack_technique t))"
  "dict_get (task_to_dict t) ''attack_technique_name'' = Some (JStr (attack_technique_name t))"
  "dict_get (task_to_dict t) ''evidence_ref'' = Some (JStr (evidence_ref t))"
  "dict_get (task_to_dict t) ''value'' = Some (JFloat (val t))"
  by (simp_all add: task_to_dict_def)

lemma task_roundtrip: "task_from_dict (task_to_dict t) = Inr t"
  by (simp add: task_from_dict_def str_field_def list_field_def meta_field_def value_field_def
      bool_field_def truthy_def)

lemma load_tasks_append:
  assumes "distinct (map fst g @ map fst h)"
  shows "load_tasks (map (\<lambda>(i, t). (i, JObj (task_to_dict t))) h) g = Inr (g @ h)"
  using assms
proof (induction h arbitrary: g)
  case Nil
  then show ?case by simp
next
  case (Cons p h)
  obtain i t where p: "p = (i, t)" by (cases p)
  with Cons.prems have "dict_set i t g = g @ [(i, t)]" by (intro dict_set_new) auto
  with Cons p show ?case by (simp add: task_roundtrip)
qed

text \<open>saving a task graph and loading it back gives the same graph: every task with every field,
  in the same order.\<close>

theorem graph_roundtrip:
  assumes "distinct (map fst g)"
  shows "graph_from_dict (graph_to_dict g) = Inr g"
  using load_tasks_append [of "[]" g] assms
  by (simp add: graph_from_dict_def graph_to_dict_def truthy_def)

definition demo_task :: "string \<Rightarrow> string list \<Rightarrow> string \<Rightarrow> task" where
  "demo_task i deps st = \<lparr>tid = i, kind = ''analyze'', target = i, reason = [], status = st,
     depends_on = deps, needs = [], optional = False, source = [], meta = [],
     attack_technique = [], attack_technique_name = [], evidence_ref = [], val = 1\<rparr>"

theorem graph_roundtrip_witness:
  "graph_from_dict (graph_to_dict [(''a'', demo_task ''a'' [] READY)]) =
     Inr [(''a'', demo_task ''a'' [] READY)]"
  by (rule graph_roundtrip) simp

section \<open>Promotion\<close>

text \<open>What one simultaneous promotion would do.\<close>

definition promote_all :: "task_graph \<Rightarrow> task_graph" where
  "promote_all g = map (\<lambda>(i, t). (i, if promotable g t then t\<lparr>status := READY\<rparr> else t)) g"

text \<open>Making a blocked task ready satisfies nobody.\<close>

lemma satisfied_iff:
  "satisfied x \<longleftrightarrow> (\<exists>p. x = Some p \<and> (status p = DONE \<or> status p = SKIPPED \<and> optional p))"
  by (auto simp: satisfied_def split: option.splits)

lemma not_satisfied_iff:
  "\<not> satisfied x \<longleftrightarrow>
     (\<forall>p. x = Some p \<longrightarrow> status p \<noteq> DONE \<and> \<not> (status p = SKIPPED \<and> optional p))"
  by (auto simp: satisfied_iff)

definition same_satisfied :: "task_graph \<Rightarrow> task_graph \<Rightarrow> bool" where
  "same_satisfied g h \<longleftrightarrow> (\<forall>i. satisfied (dict_get g i) = satisfied (dict_get h i))"

lemma same_pending: "same_satisfied g h \<Longrightarrow> pending g = pending h"
  by (simp add: same_satisfied_def pending_def fun_eq_iff)

lemma same_promotable: "same_satisfied g h \<Longrightarrow> promotable g = promotable h"
  by (simp add: promotable_def same_pending fun_eq_iff)

lemma unlock_one_same: "same_satisfied (unlock_one g i) g"
  unfolding same_satisfied_def
proof
  fix j
  show "satisfied (dict_get (unlock_one g i) j) = satisfied (dict_get g j)"
    by (cases "j = i")
      (auto simp: unlock_one_def promotable_def satisfied_def split: option.splits)
qed

lemma keys_dict_set: "dict_get g i = Some t \<Longrightarrow> map fst (dict_set i v g) = map fst g"
  by (simp add: update_keys) (metis map_of_SomeD fst_conv imageI)

lemma keys_unlock_one [simp]: "map fst (unlock_one g i) = map fst g"
  by (simp add: unlock_one_def keys_dict_set split: option.split)

lemma unlock_fold:
  "same_satisfied (foldl unlock_one g is) g \<and> map fst (foldl unlock_one g is) = map fst g"
proof (induction "is" arbitrary: g)
  case Nil
  then show ?case by (simp add: same_satisfied_def)
next
  case (Cons i "is")
  from Cons [of "unlock_one g i"] unlock_one_same [of g i] show ?case
    by (simp add: same_satisfied_def)
qed

lemma unlock_one_get:
  "dict_get (unlock_one g i) j =
     (if j = i then map_option (\<lambda>t. if promotable g t then t\<lparr>status := READY\<rparr> else t) (dict_get g i)
      else dict_get g j)"
  by (auto simp: unlock_one_def split: option.split)

lemma promoted_not_promotable: "\<not> promotable g (t\<lparr>status := READY\<rparr>)"
  by (simp add: promotable_def)

lemma unlock_fold_get:
  "dict_get (foldl unlock_one g is) j =
     (if j \<in> set is
      then map_option (\<lambda>t. if promotable g t then t\<lparr>status := READY\<rparr> else t) (dict_get g j)
      else dict_get g j)"
proof (induction "is" arbitrary: g)
  case Nil
  then show ?case by simp
next
  case (Cons i "is")
  have p: "promotable (unlock_one g i) = promotable g"
    using same_promotable [OF unlock_one_same] .
  show ?case
    by (cases "dict_get g j")
      (auto simp: Cons p unlock_one_get promoted_not_promotable)
qed

lemma dict_rebuild:
  assumes "distinct (map fst g)"
  shows "map (\<lambda>k. (k, the (dict_get g k))) (map fst g) = g"
proof -
  have "map (\<lambda>p. (fst p, the (dict_get g (fst p)))) g = g"
  proof (rule map_idI)
    fix p assume "p \<in> set g"
    then have "dict_get g (fst p) = Some (snd p)" using assms by (simp add: map_of_is_SomeI)
    then show "(fst p, the (dict_get g (fst p))) = p" by simp
  qed
  then show ?thesis by (simp add: comp_def)
qed

lemma dict_ext:
  assumes "map fst g = map fst h" and "distinct (map fst g)" and "dict_get g = dict_get h"
  shows "g = h"
  using dict_rebuild [of g] dict_rebuild [of h] assms by simp

lemma promote_all_get:
  "dict_get (promote_all g) j =
     map_option (\<lambda>t. if promotable g t then t\<lparr>status := READY\<rparr> else t) (dict_get g j)"
proof -
  have "dict_get (map (\<lambda>(i, t). (i, f t)) h) j = map_option f (dict_get h j)"
    for f :: "task \<Rightarrow> task" and h
    by (induction h) auto
  then show ?thesis by (simp add: promote_all_def)
qed

text \<open>the promotion loop, which changes the tasks while it walks over them, does what one
  simultaneous promotion of the graph it started from does: exactly the blocked tasks without a
  human prerequisite whose dependencies are all satisfied become ready, in no order-dependent way,
  and no further round would change anything.\<close>

theorem unlock_simultaneous:
  assumes "distinct (map fst g)"
  shows "unlock g = promote_all g \<and> unlock (unlock g) = unlock g"
proof -
  have u: "unlock h = promote_all h" if "distinct (map fst h)" for h
  proof (rule dict_ext)
    show "map fst (unlock h) = map fst (promote_all h)"
      using unlock_fold [of h "map fst h"] by (simp add: unlock_def promote_all_def case_prod_beta)
    show "distinct (map fst (unlock h))"
      using that unlock_fold [of h "map fst h"] by (simp add: unlock_def)
    show "dict_get (unlock h) = dict_get (promote_all h)"
    proof
      fix j
      show "dict_get (unlock h) j = dict_get (promote_all h) j"
        unfolding unlock_def unlock_fold_get promote_all_get
        using map_of_eq_None_iff [of h j] by (cases "j \<in> fst ` set h") auto
    qed
  qed
  have "distinct (map fst (unlock g))" "same_satisfied (unlock g) g"
    using assms unlock_fold [of g "map fst g"] by (simp_all add: unlock_def)
  moreover from this have "promote_all (unlock g) = unlock g"
    unfolding u [OF assms] by (auto simp: promote_all_def same_promotable promoted_not_promotable)
  ultimately show ?thesis by (simp add: u assms)
qed

theorem unlock_simultaneous_witness:
  "unlock [(''b'', demo_task ''b'' [''a''] BLOCKED), (''a'', demo_task ''a'' [] DONE)] =
     [(''b'', demo_task ''b'' [''a''] READY), (''a'', demo_task ''a'' [] DONE)]"
proof -
  let ?g = "[(''b'', demo_task ''b'' [''a''] BLOCKED), (''a'', demo_task ''a'' [] DONE)]"
  have "unlock ?g = promote_all ?g" using unlock_simultaneous [of ?g] by simp
  also have "\<dots> = [(''b'', demo_task ''b'' [''a''] READY), (''a'', demo_task ''a'' [] DONE)]"
    by (simp add: promote_all_def promotable_def pending_def satisfied_def demo_task_def)
  finally show ?thesis .
qed

section \<open>Any sequence of operations\<close>

text \<open>The operations of the graph, with any arguments, in any order; an \<open>add\<close> that raises changes nothing.\<close>

datatype graph_op = Add string string add_args | Mark string string | ResolveNeed string

fun apply_op :: "graph_op \<Rightarrow> task_graph \<Rightarrow> task_graph" where
  "apply_op (Add k tg a) g = (case add_task k tg a g of Inl e \<Rightarrow> g | Inr (t, h) \<Rightarrow> h)"
| "apply_op (Mark i st) g = mark i st g"
| "apply_op (ResolveNeed i) g = resolve_need i g"

definition waits :: "task_graph \<Rightarrow> task \<Rightarrow> bool" where
  "waits g t \<longleftrightarrow> needs t \<noteq> [] \<or> list_ex (pending g) (depends_on t)"

definition graph_good :: "task_graph \<Rightarrow> bool" where
  "graph_good g \<longleftrightarrow> distinct (map fst g) \<and> (\<forall>i t. dict_get g i = Some t \<longrightarrow> status t = BLOCKED \<longrightarrow> waits g t)"

lemma waits_same: "same_satisfied g h \<Longrightarrow> waits g = waits h"
  by (simp add: waits_def same_pending fun_eq_iff)

lemma add_task_cases:
  assumes "add_task k tg a g = Inr (t, g')"
  obtains (old) "g' = g" "dict_get g (make_id k tg) = Some t"
  | (new) "dict_get g (make_id k tg) = None" "g' = dict_set (make_id k tg) t g"
      "depends_on t = a_depends_on a" "needs t = a_needs a"
      "status t = (if list_ex (pending g) (depends_on t) \<or> needs t \<noteq> [] then BLOCKED else READY)"
  using assms
  by (auto simp: add_task_def bind_err_def Let_def split: option.splits sum.splits if_splits)

lemma add_new_same:
  assumes "dict_get g i = None" "status t = BLOCKED \<or> status t = READY"
  shows "same_satisfied (dict_set i t g) g"
  using assms by (auto simp: same_satisfied_def satisfied_def dict_get_set)

text \<open>After \<open>mark\<close>, the graph is the one with the new status, promoted.\<close>

lemma mark_promotes:
  assumes "dict_get g i = Some t" "distinct (map fst g)" and g1_def: "g1 = dict_set i (t\<lparr>status := st\<rparr>) g"
  shows "mark i st g = promote_all g1" "same_satisfied (mark i st g) g1" "distinct (map fst (mark i st g))"
proof -
  have d: "distinct (map fst g1)" using assms(2) by (simp add: g1_def distinct_keys_set)
  show "mark i st g = promote_all g1" using assms(1) unlock_simultaneous [OF d] by (simp add: mark_def g1_def)
  then show "distinct (map fst (mark i st g))" using d by (simp add: promote_all_def case_prod_beta comp_def)
  show "same_satisfied (mark i st g) g1"
    using assms(1) unlock_fold [of g1 "map fst g1"] by (simp add: mark_def g1_def unlock_def)
qed

lemma add_keeps: "graph_good g \<Longrightarrow> graph_good (apply_op (Add k tg a) g)"
proof (cases "add_task k tg a g")
  case (Inr r)
  assume g: "graph_good g"
  obtain t h where r: "r = (t, h)" by (cases r)
  from Inr[unfolded r] show ?thesis
  proof (cases rule: add_task_cases)
    case old
    then show ?thesis using g Inr r by simp
  next
    case new
    then have "waits h = waits g" using add_new_same[of g "make_id k tg" t] by (intro waits_same) auto
    then show ?thesis using g Inr r new by (auto simp: graph_good_def dict_get_set distinct_keys_set waits_def)
  qed
qed simp

text \<open>After a mark nothing is stuck, whatever was before.\<close>

lemma mark_good: "distinct (map fst g) \<Longrightarrow> dict_get g i = Some t \<Longrightarrow> graph_good (mark i st g)"
proof -
  assume "distinct (map fst g)" and Some: "dict_get g i = Some t"
  note this(1)
  note m = mark_promotes[OF Some this refl, of st]
  let ?g1 = "dict_set i (t\<lparr>status := st\<rparr>) g"
  have "waits ?g1 z" if z: "dict_get (promote_all ?g1) j = Some z" "status z = BLOCKED" for j z
  proof -
    obtain u where "z = (if promotable ?g1 u then u\<lparr>status := READY\<rparr> else u)" using z(1) by (auto simp: promote_all_get)
    then show ?thesis using z(2) by (cases "promotable ?g1 u") (auto simp: waits_def promotable_def)
  qed
  then show ?thesis using m(3) unfolding graph_good_def waits_same[OF m(2)] by (auto simp: m(1))
qed

lemma mark_keeps: "graph_good g \<Longrightarrow> graph_good (mark i st g)"
  by (cases "dict_get g i") (simp add: mark_def, simp add: mark_good graph_good_def[of g])

lemma resolve_keeps: "graph_good g \<Longrightarrow> graph_good (resolve_need i g)"
proof (cases "dict_get g i")
  case (Some t)
  assume g: "graph_good g"
  define g1 where "g1 = dict_set i (t\<lparr>needs := []\<rparr>) g"
  have same: "same_satisfied g1 g" using Some by (auto simp: same_satisfied_def satisfied_def g1_def dict_get_set)
  have good1: "graph_good g1" if "list_ex (pending g1) (depends_on t)"
    using g that Some unfolding graph_good_def waits_same[OF same]
    by (auto simp: g1_def dict_get_set distinct_keys_set waits_def same_pending[OF same, unfolded g1_def])
  show ?thesis
  proof (cases "list_ex (pending g1) (depends_on t)")
    case True
    then show ?thesis using good1 Some by (simp add: resolve_need_def g1_def[symmetric] Let_def)
  next
    case False
    define h where "h = dict_set i (t\<lparr>needs := [], status := READY\<rparr>) g1"
    have "pending h d" if "pending g d" for d
      using that Some by (auto simp: pending_def satisfied_def h_def g1_def dict_get_set split: if_splits)
    then have more: "waits h u" if "waits g u" for u using that by (auto simp: waits_def list_ex_iff)
    have "graph_good h" using g more by (auto simp: graph_good_def h_def g1_def dict_get_set distinct_keys_set)
    then show ?thesis using False Some by (simp add: resolve_need_def g1_def[symmetric] h_def Let_def)
  qed
qed (simp add: resolve_need_def)

interpretation graph: step_system "\<lambda>g e. apply_op e g" graph_good
proof
  show "graph_good (apply_op e g)" if "graph_good g" for g e
    using that by (cases e) (simp_all only: apply_op.simps(2,3) add_keeps mark_keeps resolve_keeps)
qed

text \<open>What makes a task ready.\<close>

lemma made_ready:
  assumes "distinct (map fst g)" "dict_get (apply_op e g) i = Some t" "status t = READY" "e \<noteq> Mark i READY"
    and was: "\<And>u. dict_get g i = Some u \<Longrightarrow> status u \<noteq> READY"
  shows "needs t = [] \<and> (\<forall>d \<in> set (depends_on t). d \<noteq> i \<longrightarrow> \<not> pending (apply_op e g) d)"
proof (cases e)
  case (Add k tg a)
  then obtain u h where a: "add_task k tg a g = Inr (u, h)" using assms(2,3) was by (cases "add_task k tg a g") auto
  then show ?thesis
  proof (cases rule: add_task_cases)
    case old
    then show ?thesis using assms(2,3) was a Add by simp
  next
    case new
    then have "pending h = pending g" using add_new_same[of g "make_id k tg" u] by (intro same_pending) auto
    then show ?thesis using assms(2,3) was a Add new by (auto simp: dict_get_set list_ex_iff split: if_splits)
  qed
next
  case (Mark j st)
  show ?thesis
  proof (cases "dict_get g j")
    case None
    then show ?thesis using assms(2,3) was Mark by (simp add: mark_def)
  next
    case (Some v)
    note m = mark_promotes[OF Some assms(1) refl, of st]
    let ?g1 = "dict_set j (v\<lparr>status := st\<rparr>) g"
    obtain u where u: "dict_get ?g1 i = Some u" "t = (if promotable ?g1 u then u\<lparr>status := READY\<rparr> else u)"
      using assms(2) Mark by (auto simp: m(1) promote_all_get)
    have "promotable ?g1 u" using u assms(3,4) was Mark by (auto simp: dict_get_set split: if_splits)
    then show ?thesis using u(2) Mark same_pending[OF m(2)] by (auto simp: promotable_def list_ex_iff)
  qed
next
  case (ResolveNeed j)
  show ?thesis
  proof (cases "dict_get g j")
    case None
    then show ?thesis using assms(2,3) was ResolveNeed by (simp add: resolve_need_def)
  next
    case (Some v)
    let ?g1 = "dict_set j (v\<lparr>needs := []\<rparr>) g"
    show ?thesis using assms(2,3) was ResolveNeed Some
      by (auto simp: resolve_need_def Let_def list_ex_iff pending_def dict_get_set split: if_splits)
  qed
qed

lemma run_never_stuck: "graph_good (foldl (\<lambda>g e. apply_op e g) [] es)"
  by (rule graph.run_good) (simp add: graph_good_def)

text \<open>C23: on any graph, also one whose tasks the callers have edited or reopened, and for any operation with any id and status: where no
  task was stuck none is afterwards, and after a mark none is whatever was before, where a \<open>blocked\<close> task that is not stuck
  waits for an open human prerequisite or for a dependency that is neither done nor skipped and optional; and a task that was not
  \<open>ready\<close> is only made so, other than by an explicit mark of this very task, when it has no open human prerequisite and all its
  dependencies (but for itself) have succeeded: a failed, unknown or skipped mandatory dependency never unblocks anyone.\<close>

theorem graph_invariant:
  assumes "distinct (map fst g)" and "h = apply_op e g" and "dict_get h i = Some t"
  shows "(status t = BLOCKED \<and> ((\<forall>j u. dict_get g j = Some u \<and> status u = BLOCKED \<longrightarrow> waits g u) \<or>
        (\<exists>j st. e = Mark j st \<and> dict_get g j \<noteq> None)) \<longrightarrow>
      needs t \<noteq> [] \<or> (\<exists>d\<in>set (depends_on t). \<forall>p. dict_get h d = Some p \<longrightarrow>
         status p \<noteq> DONE \<and> \<not> (status p = SKIPPED \<and> optional p))) \<and>
    (status t = READY \<and> (\<forall>u. dict_get g i = Some u \<longrightarrow> status u \<noteq> READY) \<and> e \<noteq> Mark i READY \<longrightarrow> needs t = [] \<and>
      (\<forall>d\<in>set (depends_on t) - {i}. \<exists>p. dict_get h d = Some p \<and>
         (status p = DONE \<or> status p = SKIPPED \<and> optional p)))"
proof -
  have "graph_good h" if "(\<forall>j u. dict_get g j = Some u \<and> status u = BLOCKED \<longrightarrow> waits g u) \<or> (\<exists>j st. e = Mark j st \<and> dict_get g j \<noteq> None)"
    using that
  proof
    assume "\<forall>j u. dict_get g j = Some u \<and> status u = BLOCKED \<longrightarrow> waits g u"
    then have "graph_good g" using assms(1) by (simp add: graph_good_def)
    then show ?thesis using graph.step_good[of g e] assms(2) by simp
  next
    assume "\<exists>j st. e = Mark j st \<and> dict_get g j \<noteq> None"
    then show ?thesis using mark_good[OF assms(1)] assms(2) by auto
  qed
  moreover have "needs t = [] \<and> (\<forall>d \<in> set (depends_on t). d \<noteq> i \<longrightarrow> \<not> pending h d)"
    if "status t = READY" "\<forall>u. dict_get g i = Some u \<longrightarrow> status u \<noteq> READY" "e \<noteq> Mark i READY"
    using made_ready[OF assms(1) assms(3)[unfolded assms(2)] that(1,3)] that(2) assms(2) by simp
  ultimately show ?thesis
    unfolding satisfied_iff [symmetric] not_satisfied_iff [symmetric]
    using assms(3) by (auto simp: graph_good_def waits_def pending_def list_ex_iff)
qed

definition plain_args :: "string list \<Rightarrow> add_args" where
  "plain_args deps = \<lparr>a_reason = [], a_depends_on = deps, a_needs = [], a_optional = False,
     a_source = [], a_meta = [], a_attack_technique = ''T1190'', a_evidence_ref = [],
     a_value = Some 1\<rparr>"

definition demo_graph :: task_graph where
  "demo_graph = (case add_task ''b'' ''x'' (plain_args [''a:x'']) [] of Inr (_, g) \<Rightarrow> g | _ \<Rightarrow> [])"

theorem graph_invariant_witness:
  "map_option status (dict_get demo_graph ''b:x'') = Some BLOCKED \<and>
   \<not> list_ex (\<lambda>(i, p). i = ''a:x'' \<and> status p = DONE) demo_graph"
proof -
  obtain t where a: "add_task ''b'' ''x'' (plain_args [''a:x'']) [] = Inr (t, [(''b:x'', t)])"
      and t: "status t = BLOCKED" "needs t = []" "depends_on t = [''a:x'']"
    by (simp add: add_task_def plain_args_def make_id_def Let_def pending_def satisfied_def)
  then have g: "demo_graph = [(''b:x'', t)]" "apply_op (Add ''b'' ''x'' (plain_args [''a:x''])) [] = [(''b:x'', t)]"
    by (simp_all add: demo_graph_def)
  from graph_invariant [of "[]" "[(''b:x'', t)]" "Add ''b'' ''x'' (plain_args [''a:x''])" "''b:x''" t] t show ?thesis by (simp add: g)
qed

text \<open>\<open>resolve_need\<close> looks at the dependencies only, not at the task's own status: called on a
  task that is already done it makes it ready again, and a ready task that depends on it is left
  with an unsatisfied dependency.\<close>

theorem resolve_need_reopens_done:
  "let g = [(''a'', demo_task ''a'' [] DONE), (''b'', demo_task ''b'' [''a''] READY)];
       h = resolve_need ''a'' g
   in map_option status (dict_get h ''a'') = Some READY \<and>
      map_option status (dict_get h ''b'') = Some READY \<and>
      satisfied (dict_get g ''a'') \<and> \<not> satisfied (dict_get h ''a'')"
  by (simp add: resolve_need_def demo_task_def satisfied_def Let_def)

section \<open>Adding and ordering\<close>

text \<open>adding is idempotent: a second add of the same kind and target returns the stored task
  and leaves the graph as it is, whatever the second call's arguments, and an added task keeps
  every other task.\<close>

theorem add_idempotent:
  assumes "add_task k tg a g = Inr (t, h)"
  shows "add_task k tg a' h = Inr (t, h) \<and>
    (\<forall>i. i \<noteq> make_id k tg \<longrightarrow> dict_get h i = dict_get g i)"
  using assms
proof (cases rule: add_task_cases)
  case old
  then show ?thesis by (simp add: add_task_def)
next
  case new
  then show ?thesis by (simp add: add_task_def)
qed

theorem add_idempotent_witness:
  "\<exists>t. add_task ''b'' ''x'' (plain_args []) demo_graph = Inr (t, demo_graph)"
proof -
  obtain t where a: "add_task ''b'' ''x'' (plain_args [''a:x'']) [] = Inr (t, [(''b:x'', t)])"
    by (simp add: add_task_def plain_args_def make_id_def Let_def)
  then have "demo_graph = [(''b:x'', t)]" by (simp add: demo_graph_def)
  with add_idempotent [OF a, of "plain_args []"] show ?thesis by auto
qed

text \<open>the value-ordered walk offers exactly the ready tasks, the highest value first and equal
  values by id, so the order does not depend on insertion order.\<close>

theorem ready_by_value_order:
  "mset (ready_by_value g) = mset (ready_tasks g) \<and>
   sorted_wrt (\<lambda>s t. val t < val s \<or> val s = val t \<and> tid s \<le> tid t) (ready_by_value g)"
proof
  show "mset (ready_by_value g) = mset (ready_tasks g)" by (simp add: ready_by_value_def)
  have "sorted (map (\<lambda>t. (- val t, tid t)) (ready_by_value g))"
    by (simp add: ready_by_value_def)
  then show "sorted_wrt (\<lambda>s t. val t < val s \<or> val s = val t \<and> tid s \<le> tid t) (ready_by_value g)"
    unfolding sorted_map by (rule sorted_wrt_mono_rel [rotated]) (auto simp: less_eq_prod_def)
qed

end
