(* ===== verification/WorkQueue.thy ===== *)
theory WorkQueue
  imports Prelude "HOL-Library.Multiset"
begin

text \<open>
  \<open>harness/work_queue.py\<close> over the \<open>work_items\<close> functions of \<open>harness/store.py\<close>. The table
  is the list of its rows in insertion order; every store function runs in one
  \<open>BEGIN IMMEDIATE\<close> transaction, so it is one atomic step. JSON columns hold the values
  themselves (the store dumps and loads them), and rows the query leaves tied keep the table's
  order. A \<open>WorkItem\<close> has the columns of its row.
\<close>

section \<open>Data\<close>

record work_item =
  item_id :: string
  engagement_id :: string
  w_case_ref :: string
  capability :: string
  principal :: string
  payload :: "(string \<times> json) list"
  priority :: int
  w_depends_on :: "string list"
  budget_reservation :: real
  w_status :: string
  attempt :: int
  max_attempts :: int
  lease_owner :: string
  lease_expiry :: time
  result_ref :: string
  last_error :: string
  created_at :: time
  updated_at :: time

type_synonym work_table = "work_item list"

abbreviation PENDING :: string where "PENDING \<equiv> ''pending''"
abbreviation LEASED :: string where "LEASED \<equiv> ''leased''"
abbreviation W_DONE :: string where "W_DONE \<equiv> ''done''"
abbreviation DEAD :: string where "DEAD \<equiv> ''dead''"

definition budget_statuses :: "string list" where
  "budget_statuses = [PENDING, LEASED, W_DONE]"

text \<open>
  \<open>digest\<close> is the hexadecimal SHA-256 of the compact, key-sorted JSON text of its argument.
\<close>

definition compute_item_id ::
  "(json \<Rightarrow> string) \<Rightarrow> string \<Rightarrow> string \<Rightarrow> string \<Rightarrow> string \<Rightarrow> (string \<times> json) list \<Rightarrow> string" where
  "compute_item_id digest eng cref cap prin pl =
     ''wi:'' @ take 16 (digest (JObj [(''capability'', JStr cap), (''case_ref'', JStr cref),
        (''engagement_id'', JStr eng), (''payload'', JObj pl), (''principal'', JStr prin)]))"

section \<open>The store's functions\<close>

definition find_row :: "work_table \<Rightarrow> string \<Rightarrow> work_item option" where
  "find_row tab i = find (\<lambda>r. item_id r = i) tab"

text \<open>\<open>UPDATE ... WHERE p\<close> and its row count.\<close>

definition sql_update :: "(work_item \<Rightarrow> bool) \<Rightarrow> (work_item \<Rightarrow> work_item) \<Rightarrow> work_table \<Rightarrow> work_table"
  where "sql_update p f tab = map (\<lambda>r. if p r then f r else r) tab"

definition rowcount :: "(work_item \<Rightarrow> bool) \<Rightarrow> work_table \<Rightarrow> nat" where
  "rowcount p tab = length (filter p tab)"

definition engagement_budget_reserved :: "string \<Rightarrow> work_table \<Rightarrow> real" where
  "engagement_budget_reserved e tab =
     sum_list (map budget_reservation
       (filter (\<lambda>r. engagement_id r = e \<and> List.member budget_statuses (w_status r)) tab))"

definition enqueue_work_item :: "work_item \<Rightarrow> real option \<Rightarrow> work_table \<Rightarrow> string \<times> work_table" where
  "enqueue_work_item item cap tab =
     (if find_row tab (item_id item) \<noteq> None then (''duplicate'', tab)
      else if (case cap of None \<Rightarrow> False
               | Some c \<Rightarrow> engagement_budget_reserved (engagement_id item) tab
                            + budget_reservation item > c + 1 / 1000000000)
      then (''budget_exceeded'', tab)
      else (''inserted'',
            tab @ [item\<lparr>w_status := PENDING, lease_owner := [], lease_expiry := 0,
                        result_ref := [], last_error := [], updated_at := created_at item\<rparr>]))"

definition list_work_items :: "string option \<Rightarrow> string option \<Rightarrow> work_table \<Rightarrow> work_item list" where
  "list_work_items e st tab =
     sort_key (\<lambda>r. (- priority r, created_at r))
       (filter (\<lambda>r. (case e of None \<Rightarrow> True | Some x \<Rightarrow> engagement_id r = x) \<and>
                    (case st of None \<Rightarrow> True | Some s \<Rightarrow> w_status r = s)) tab)"

definition expired :: "time \<Rightarrow> string option \<Rightarrow> work_item \<Rightarrow> bool" where
  "expired now e r \<longleftrightarrow> (case e of None \<Rightarrow> True | Some x \<Rightarrow> engagement_id r = x) \<and>
     w_status r = LEASED \<and> lease_expiry r \<le> now"

definition unlease :: "time \<Rightarrow> work_item \<Rightarrow> work_item" where
  "unlease now r = r\<lparr>w_status := PENDING, lease_owner := [], lease_expiry := 0, updated_at := now\<rparr>"

definition reclaim_expired_leases :: "time \<Rightarrow> string option \<Rightarrow> work_table \<Rightarrow> nat \<times> work_table" where
  "reclaim_expired_leases now e tab =
     (rowcount (expired now e) tab, sql_update (expired now e) (unlease now) tab)"

definition done_ids :: "string \<Rightarrow> work_table \<Rightarrow> string list" where
  "done_ids e tab = map item_id (filter (\<lambda>r. engagement_id r = e \<and> w_status r = W_DONE) tab)"

definition candidates :: "string \<Rightarrow> work_table \<Rightarrow> work_item list" where
  "candidates e tab = sort_key (\<lambda>r. (- priority r, created_at r))
     (filter (\<lambda>r. engagement_id r = e \<and> w_status r = PENDING) tab)"

definition runnable :: "string list \<Rightarrow> work_item \<Rightarrow> bool" where
  "runnable dn r = list_all (List.member dn) (w_depends_on r)"

definition lease_next_work_item ::
  "string \<Rightarrow> string \<Rightarrow> time \<Rightarrow> real \<Rightarrow> work_table \<Rightarrow> work_item option \<times> work_table" where
  "lease_next_work_item e worker now lease_seconds tab0 =
     (let tab = sql_update (expired now (Some e)) (unlease now) tab0 in
      case find (runnable (done_ids e tab)) (candidates e tab) of
        None \<Rightarrow> (None, tab)
      | Some chosen \<Rightarrow>
          (let tab' = sql_update (\<lambda>r. item_id r = item_id chosen)
                 (\<lambda>r. r\<lparr>w_status := LEASED, lease_owner := worker,
                         lease_expiry := now + lease_seconds, attempt := attempt chosen + 1,
                         updated_at := now\<rparr>) tab
           in (find_row tab' (item_id chosen), tab')))"

definition complete_work_item ::
  "string \<Rightarrow> string \<Rightarrow> time \<Rightarrow> work_table \<Rightarrow> bool \<times> work_table" where
  "complete_work_item i res now tab =
     (let p = (\<lambda>r. item_id r = i \<and> w_status r = LEASED) in
      (rowcount p tab = 1,
       sql_update p (\<lambda>r. r\<lparr>w_status := W_DONE, result_ref := res, lease_owner := [],
                          lease_expiry := 0, updated_at := now\<rparr>) tab))"

definition fail_work_item ::
  "string \<Rightarrow> string \<Rightarrow> time \<Rightarrow> work_table \<Rightarrow> string \<times> work_table" where
  "fail_work_item i err now tab =
     (case find_row tab i of
        None \<Rightarrow> (''missing'', tab)
      | Some r \<Rightarrow>
          if w_status r \<noteq> LEASED then (w_status r, tab)
          else (let new = (if attempt r < max_attempts r then PENDING else DEAD) in
            (new, sql_update (\<lambda>r. item_id r = i)
                    (\<lambda>r. r\<lparr>w_status := new, lease_owner := [], lease_expiry := 0,
                            last_error := err, updated_at := now\<rparr>) tab)))"

section \<open>The queue of one engagement\<close>

record work_queue =
  wq_engagement :: string
  wq_worker :: string
  wq_lease_seconds :: real
  wq_default_max_attempts :: int
  wq_budget_cap :: "real option"

datatype wq_error = ValueError

definition new_work_queue ::
  "string \<Rightarrow> string \<Rightarrow> real \<Rightarrow> int \<Rightarrow> real option \<Rightarrow> wq_error + work_queue" where
  "new_work_queue e worker secs attempts cap =
     (if e = [] then Inl ValueError
      else Inr \<lparr>wq_engagement = e, wq_worker = worker, wq_lease_seconds = secs,
                wq_default_max_attempts = attempts, wq_budget_cap = cap\<rparr>)"

record enqueue_args =
  e_capability :: string
  e_case_ref :: string
  e_principal :: string
  e_payload :: "(string \<times> json) list"
  e_priority :: int
  e_depends_on :: "string list"
  e_budget :: real
  e_max_attempts :: "int option"

definition proposed_item ::
  "(json \<Rightarrow> string) \<Rightarrow> work_queue \<Rightarrow> enqueue_args \<Rightarrow> time \<Rightarrow> work_item" where
  "proposed_item digest q a now =
     \<lparr>item_id = compute_item_id digest (wq_engagement q) (e_case_ref a) (e_capability a)
                  (e_principal a) (e_payload a),
      engagement_id = wq_engagement q, w_case_ref = e_case_ref a,
      capability = e_capability a, principal = e_principal a, payload = e_payload a,
      priority = e_priority a, w_depends_on = e_depends_on a, budget_reservation = e_budget a,
      w_status = PENDING, attempt = 0,
      max_attempts = option_or (e_max_attempts a) (wq_default_max_attempts q),
      lease_owner = [], lease_expiry = 0, result_ref = [], last_error = [],
      created_at = now, updated_at = now\<rparr>"

definition wq_enqueue ::
  "(json \<Rightarrow> string) \<Rightarrow> work_queue \<Rightarrow> enqueue_args \<Rightarrow> time \<Rightarrow> work_table
   \<Rightarrow> work_item option \<times> work_table" where
  "wq_enqueue digest q a now tab =
     (let item = proposed_item digest q a now in
      case enqueue_work_item item (wq_budget_cap q) tab of (res, tab') \<Rightarrow>
        (if res = ''budget_exceeded'' then (None, tab')
         else (find_row tab' (item_id item), tab')))"

definition wq_lease :: "work_queue \<Rightarrow> time \<Rightarrow> work_table \<Rightarrow> work_item option \<times> work_table" where
  "wq_lease q now tab =
     lease_next_work_item (wq_engagement q) (wq_worker q) now (wq_lease_seconds q) tab"

definition wq_complete :: "work_queue \<Rightarrow> string \<Rightarrow> string \<Rightarrow> time \<Rightarrow> work_table \<Rightarrow> bool \<times> work_table"
  where "wq_complete q i res now tab = complete_work_item i res now tab"

definition wq_fail :: "work_queue \<Rightarrow> string \<Rightarrow> string \<Rightarrow> time \<Rightarrow> work_table \<Rightarrow> string \<times> work_table"
  where "wq_fail q i err now tab = fail_work_item i err now tab"

definition wq_reclaim :: "work_queue \<Rightarrow> time \<Rightarrow> work_table \<Rightarrow> nat \<times> work_table" where
  "wq_reclaim q now tab = reclaim_expired_leases now (Some (wq_engagement q)) tab"

definition wq_items :: "work_queue \<Rightarrow> string option \<Rightarrow> work_table \<Rightarrow> work_item list" where
  "wq_items q st tab = list_work_items (Some (wq_engagement q)) st tab"

definition wq_remaining_budget :: "work_queue \<Rightarrow> work_table \<Rightarrow> real option" where
  "wq_remaining_budget q tab =
     (case wq_budget_cap q of None \<Rightarrow> None
      | Some c \<Rightarrow> Some (c - engagement_budget_reserved (wq_engagement q) tab))"

datatype wq_event =
    Enqueue work_queue enqueue_args time
  | Lease work_queue time
  | Complete work_queue string string time
  | Fail work_queue string string time
  | Reclaim work_queue time

fun wq_step :: "(json \<Rightarrow> string) \<Rightarrow> work_table \<Rightarrow> wq_event \<Rightarrow> work_table" where
  "wq_step digest tab (Enqueue q a now) = snd (wq_enqueue digest q a now tab)"
| "wq_step digest tab (Lease q now) = snd (wq_lease q now tab)"
| "wq_step digest tab (Complete q i res now) = snd (wq_complete q i res now tab)"
| "wq_step digest tab (Fail q i err now) = snd (wq_fail q i err now tab)"
| "wq_step digest tab (Reclaim q now) = snd (wq_reclaim q now tab)"

section \<open>Rows and updates\<close>

lemma sql_update_nth [simp]: "length (sql_update p f tab) = length tab"
  by (simp add: sql_update_def)

lemma set_sql_update: "set (sql_update p f tab) = (\<lambda>r. if p r then f r else r) ` set tab"
  by (simp add: sql_update_def)

lemma sql_update_ids:
  assumes "\<And>r. item_id (f r) = item_id r"
  shows "map item_id (sql_update p f tab) = map item_id tab"
  using assms by (auto simp: sql_update_def)

lemma find_row_update:
  assumes "\<And>r. item_id (f r) = item_id r"
  shows "find_row (sql_update p f tab) i =
    map_option (\<lambda>r. if p r then f r else r) (find_row tab i)"
  using assms by (induction tab) (auto simp: find_row_def sql_update_def)

lemma find_row_Some: "find_row tab i = Some r \<Longrightarrow> r \<in> set tab \<and> item_id r = i"
  by (auto simp: find_row_def find_Some_iff)

lemma find_row_None: "find_row tab i = None \<longleftrightarrow> i \<notin> item_id ` set tab"
  by (auto simp: find_row_def find_None_iff)

lemma find_row_member:
  "distinct (map item_id tab) \<Longrightarrow> r \<in> set tab \<Longrightarrow> find_row tab (item_id r) = Some r"
  by (induction tab) (auto simp: find_row_def)

lemma find_row_append:
  "find_row (tab @ tab') i = (case find_row tab i of None \<Rightarrow> find_row tab' i | Some r \<Rightarrow> Some r)"
  by (induction tab) (auto simp: find_row_def split: option.split)

lemma find_sorted_least:
  "sorted (map f xs) \<Longrightarrow> find P xs = Some x \<Longrightarrow> y \<in> set xs \<Longrightarrow> P y \<Longrightarrow> f x \<le> f y"
  by (induction xs) (auto split: if_splits)

section \<open>The life cycle of a row\<close>

text \<open>The columns that make a row's identity and its enqueue-time parameters.\<close>

definition same_identity :: "work_item \<Rightarrow> work_item \<Rightarrow> bool" where
  "same_identity r s \<longleftrightarrow> s = r\<lparr>w_status := w_status s, attempt := attempt s,
     lease_owner := lease_owner s, lease_expiry := lease_expiry s, result_ref := result_ref s,
     last_error := last_error s, updated_at := updated_at s\<rparr>"

lemma same_identity_cols:
  "same_identity r s \<Longrightarrow> item_id s = item_id r \<and> engagement_id s = engagement_id r \<and>
     priority s = priority r \<and> max_attempts s = max_attempts r \<and>
     budget_reservation s = budget_reservation r \<and> created_at s = created_at r \<and>
     w_depends_on s = w_depends_on r"
  by (cases r; cases s) (simp add: same_identity_def)

lemma same_identity_refl: "same_identity r r"
  by (simp add: same_identity_def)

lemma same_identity_trans: "same_identity r s \<Longrightarrow> same_identity s t \<Longrightarrow> same_identity r t"
  by (cases r; cases s; cases t) (simp add: same_identity_def)

text \<open>
  The specification: a pending row may be leased, spending an attempt; a leased row may be
  handed back, completed, or, once its attempts are spent, buried.
\<close>

inductive row_move :: "work_item \<Rightarrow> work_item \<Rightarrow> bool" where
  leased: "same_identity r s \<Longrightarrow> w_status r = PENDING \<Longrightarrow> w_status s = LEASED \<Longrightarrow>
    attempt s = attempt r + 1 \<Longrightarrow> row_move r s"
| handed_back: "same_identity r s \<Longrightarrow> w_status r = LEASED \<Longrightarrow> w_status s = PENDING \<Longrightarrow>
    attempt s = attempt r \<Longrightarrow> lease_owner s = [] \<Longrightarrow> lease_expiry s = 0 \<Longrightarrow> row_move r s"
| completed: "same_identity r s \<Longrightarrow> w_status r = LEASED \<Longrightarrow> w_status s = W_DONE \<Longrightarrow>
    attempt s = attempt r \<Longrightarrow> lease_owner s = [] \<Longrightarrow> lease_expiry s = 0 \<Longrightarrow> row_move r s"
| buried: "same_identity r s \<Longrightarrow> w_status r = LEASED \<Longrightarrow> w_status s = DEAD \<Longrightarrow>
    attempt s = attempt r \<Longrightarrow> max_attempts r \<le> attempt r \<Longrightarrow>
    lease_owner s = [] \<Longrightarrow> lease_expiry s = 0 \<Longrightarrow> row_move r s"

inductive_cases row_moveE: "row_move r s"

lemma row_move_identity: "row_move r s \<Longrightarrow> same_identity r s"
  by (erule row_moveE)

lemma row_moves_identity: "row_move\<^sup>*\<^sup>* r s \<Longrightarrow> same_identity r s"
  by (induction rule: rtranclp_induct)
    (blast intro: same_identity_refl same_identity_trans row_move_identity)+

text \<open>What every row satisfies.\<close>

definition row_ok :: "work_item \<Rightarrow> bool" where
  "row_ok r \<longleftrightarrow> w_status r \<in> {PENDING, LEASED, W_DONE, DEAD} \<and> 0 \<le> attempt r
     \<and> (w_status r \<noteq> LEASED \<longrightarrow> lease_owner r = [] \<and> lease_expiry r = 0)
     \<and> (w_status r \<noteq> PENDING \<longrightarrow> 1 \<le> attempt r)
     \<and> (w_status r = DEAD \<longrightarrow> max_attempts r \<le> attempt r)"

lemma row_move_ok: "row_move r s \<Longrightarrow> row_ok r \<Longrightarrow> row_ok s"
  by (erule row_moveE) (auto simp: row_ok_def dest: same_identity_cols)

lemma row_moves_ok: "row_move\<^sup>*\<^sup>* r s \<Longrightarrow> row_ok r \<Longrightarrow> row_ok s"
  by (induction rule: rtranclp_induct) (auto intro: row_move_ok)

lemma row_move_final:
  "row_move r s \<Longrightarrow> w_status r = W_DONE \<or> w_status r = DEAD \<Longrightarrow> False"
  by (erule row_moveE) auto

lemma row_moves_final:
  "row_move\<^sup>*\<^sup>* r s \<Longrightarrow> w_status r = W_DONE \<or> w_status r = DEAD \<Longrightarrow> s = r"
  by (erule converse_rtranclpE) (auto dest: row_move_final)

definition table_ok :: "work_table \<Rightarrow> bool" where
  "table_ok tab \<longleftrightarrow> distinct (map item_id tab) \<and> list_all row_ok tab"

text \<open>The rows that were there move along the life cycle; at most one fresh row is appended.\<close>

definition table_move :: "work_table \<Rightarrow> work_table \<Rightarrow> bool" where
  "table_move tab tab' \<longleftrightarrow> (\<exists>new. list_all2 row_move\<^sup>*\<^sup>* tab (take (length tab) tab') \<and>
     drop (length tab) tab' = new \<and> length new \<le> 1 \<and>
     (\<forall>r \<in> set new. w_status r = PENDING \<and> attempt r = 0 \<and> lease_owner r = [] \<and>
        lease_expiry r = 0 \<and> item_id r \<notin> item_id ` set tab))"

lemma table_moveI:
  "list_all2 row_move\<^sup>*\<^sup>* tab tab' \<Longrightarrow> table_move tab tab'"
  unfolding table_move_def by (frule list_all2_lengthD) simp

lemma table_move_refl: "table_move tab tab"
  by (rule table_moveI) (simp add: list_all2_same)

lemma list_all2_sql_update:
  assumes "\<And>r. r \<in> set tab \<Longrightarrow> p r \<Longrightarrow> row_move r (f r)"
  shows "list_all2 row_move\<^sup>*\<^sup>* tab (sql_update p f tab)"
  using assms by (induction tab) (auto simp: sql_update_def)

lemma list_all2_moves_trans:
  "list_all2 row_move\<^sup>*\<^sup>* xs ys \<Longrightarrow> list_all2 row_move\<^sup>*\<^sup>* ys zs \<Longrightarrow> list_all2 row_move\<^sup>*\<^sup>* xs zs"
  by (rule list_all2_trans[of "row_move\<^sup>*\<^sup>*"]) auto

lemma list_all2_moves_ids:
  "list_all2 row_move\<^sup>*\<^sup>* xs ys \<Longrightarrow> map item_id ys = map item_id xs"
  by (induction rule: list_all2_induct)
    (auto dest!: row_moves_identity same_identity_cols)

lemma list_all2_moves_ok: "list_all2 row_move\<^sup>*\<^sup>* xs ys \<Longrightarrow> list_all row_ok xs \<Longrightarrow> list_all row_ok ys"
  by (induction rule: list_all2_induct) (auto dest: row_moves_ok)

lemma table_move_ok:
  assumes m: "table_move tab tab'" and ok: "table_ok tab"
  shows "table_ok tab'"
proof -
  obtain new where l: "list_all2 row_move\<^sup>*\<^sup>* tab (take (length tab) tab')"
    and new: "drop (length tab) tab' = new" "length new \<le> 1"
    and fresh: "\<forall>r \<in> set new. w_status r = PENDING \<and> attempt r = 0 \<and> lease_owner r = [] \<and>
        lease_expiry r = 0 \<and> item_id r \<notin> item_id ` set tab"
    using m unfolding table_move_def by blast
  have split: "tab' = take (length tab) tab' @ new"
    using new append_take_drop_id by metis
  have ids: "map item_id tab' = map item_id tab @ map item_id new"
    by (subst split) (simp add: list_all2_moves_ids[OF l])
  have "distinct (map item_id new)" using new(2) by (cases new) auto
  moreover have "set (map item_id tab) \<inter> set (map item_id new) = {}"
  proof -
    have "item_id r \<notin> item_id ` set tab" if "r \<in> set new" for r
      using fresh that by blast
    then show ?thesis by (auto simp del: image_eqI) (metis imageI)
  qed
  ultimately have "distinct (map item_id tab')"
    using ok unfolding ids distinct_append by (simp add: table_ok_def)
  moreover have "list_all row_ok (take (length tab) tab')"
    using l ok by (simp add: table_ok_def list_all2_moves_ok)
  with fresh have "list_all row_ok tab'"
    by (subst split) (auto simp: list_all_iff row_ok_def)
  ultimately show ?thesis by (simp add: table_ok_def)
qed

lemma table_move_ids: "table_move tab tab' \<Longrightarrow> set (map item_id tab) \<subseteq> set (map item_id tab')"
  unfolding table_move_def using list_all2_moves_ids set_take_subset
  by (metis image_mono list.set_map)

lemma table_move_find:
  assumes "table_move tab tab'" and "find_row tab i = Some r"
  obtains s where "find_row tab' i = Some s" and "row_move\<^sup>*\<^sup>* r s"
proof -
  have "list_all2 row_move\<^sup>*\<^sup>* xs ys \<Longrightarrow> find_row xs i = Some r \<Longrightarrow>
      \<exists>s. find_row ys i = Some s \<and> row_move\<^sup>*\<^sup>* r s" for xs ys
    by (induction rule: list_all2_induct)
      (auto simp: find_row_def dest!: row_moves_identity same_identity_cols split: if_splits)
  with assms obtain s where "find_row (take (length tab) tab') i = Some s" "row_move\<^sup>*\<^sup>* r s"
    unfolding table_move_def by blast
  then have "find_row tab' i = Some s"
    using find_row_append[of "take (length tab) tab'" "drop (length tab) tab'" i] by simp
  with \<open>row_move\<^sup>*\<^sup>* r s\<close> show ?thesis using that by blast
qed

section \<open>Every operation follows the life cycle\<close>

lemma unlease_move: "expired now e r \<Longrightarrow> row_move r (unlease now r)"
  by (rule handed_back) (auto simp: expired_def unlease_def same_identity_def)

lemma reclaim_moves:
  "list_all2 row_move\<^sup>*\<^sup>* tab (sql_update (expired now e) (unlease now) tab)"
  by (rule list_all2_sql_update) (rule unlease_move)

lemma reclaim_keeps_ids:
  "map item_id (sql_update (expired now e) (unlease now) tab) = map item_id tab"
  by (rule sql_update_ids) (simp add: unlease_def)

lemma enqueue_table_move:
  "item_id item = i \<Longrightarrow> attempt item = 0 \<Longrightarrow> table_move tab (snd (enqueue_work_item item cap tab))"
  unfolding enqueue_work_item_def
  by (auto simp: table_move_refl) (simp_all add: table_move_def list_all2_same find_row_None)

lemma candidates_set:
  "set (candidates e tab) = {r \<in> set tab. engagement_id r = e \<and> w_status r = PENDING}"
  by (auto simp: candidates_def)

text \<open>What \<open>lease_next_work_item\<close> chooses, and what it writes.\<close>

definition reclaimed :: "string \<Rightarrow> time \<Rightarrow> work_table \<Rightarrow> work_table" where
  "reclaimed e now tab = sql_update (expired now (Some e)) (unlease now) tab"

definition lease_stamp :: "string \<Rightarrow> time \<Rightarrow> real \<Rightarrow> work_item \<Rightarrow> work_item" where
  "lease_stamp worker now secs r = r\<lparr>w_status := LEASED, lease_owner := worker,
     lease_expiry := now + secs, attempt := attempt r + 1, updated_at := now\<rparr>"

lemma reclaimed_ok: "table_ok tab \<Longrightarrow> table_ok (reclaimed e now tab)"
  unfolding reclaimed_def by (rule table_move_ok[OF table_moveI[OF reclaim_moves]])

lemma lease_none:
  assumes "find (runnable (done_ids e (reclaimed e now tab))) (candidates e (reclaimed e now tab)) = None"
  shows "lease_next_work_item e worker now secs tab = (None, reclaimed e now tab)"
  using assms by (simp add: lease_next_work_item_def reclaimed_def Let_def)

lemma lease_some:
  assumes ok: "table_ok tab"
    and f: "find (runnable (done_ids e (reclaimed e now tab))) (candidates e (reclaimed e now tab)) = Some c"
  shows "lease_next_work_item e worker now secs tab =
    (Some (lease_stamp worker now secs c),
     sql_update (\<lambda>r. item_id r = item_id c) (lease_stamp worker now secs) (reclaimed e now tab))"
proof -
  let ?t = "reclaimed e now tab"
  have ok': "table_ok ?t" using ok by (rule reclaimed_ok)
  have c: "c \<in> set ?t" using f by (auto simp: find_Some_iff simp flip: in_set_conv_nth
      dest!: nth_mem simp: candidates_set)
  have "\<And>r. r \<in> set ?t \<Longrightarrow> item_id r = item_id c \<Longrightarrow> r = c"
    using ok' c by (auto simp: table_ok_def distinct_map inj_on_def)
  then have upd: "sql_update (\<lambda>r. item_id r = item_id c)
      (\<lambda>r. r\<lparr>w_status := LEASED, lease_owner := worker, lease_expiry := now + secs,
             attempt := attempt c + 1, updated_at := now\<rparr>) ?t
    = sql_update (\<lambda>r. item_id r = item_id c) (lease_stamp worker now secs) ?t"
    by (auto simp: sql_update_def lease_stamp_def)
  have row: "find_row ?t (item_id c) = Some c"
    using ok' c by (simp add: table_ok_def find_row_member)
  have "find_row (sql_update (\<lambda>r. item_id r = item_id c) (lease_stamp worker now secs) ?t) (item_id c)
      = Some (lease_stamp worker now secs c)"
    by (subst find_row_update) (simp_all add: lease_stamp_def row)
  then show ?thesis
    using f upd by (simp add: lease_next_work_item_def Let_def flip: reclaimed_def)
qed

lemma chosen_candidate:
  assumes "find P (candidates e tab) = Some c"
  shows "c \<in> set tab" and "engagement_id c = e" and "w_status c = PENDING" and "P c"
proof -
  have "c \<in> set (candidates e tab)" "P c"
    using assms by (auto simp: find_Some_iff)
  then show "c \<in> set tab" "engagement_id c = e" "w_status c = PENDING" "P c"
    by (auto simp: candidates_set)
qed

lemma lease_stamp_move: "w_status c = PENDING \<Longrightarrow> row_move c (lease_stamp w now secs c)"
  by (rule leased) (auto simp: lease_stamp_def same_identity_def)

lemma lease_table_move:
  assumes ok: "table_ok tab"
  shows "table_move tab (snd (lease_next_work_item e worker now secs tab))"
proof (cases "find (runnable (done_ids e (reclaimed e now tab))) (candidates e (reclaimed e now tab))")
  case None
  then show ?thesis
    using reclaim_moves[of tab now "Some e"] by (simp add: lease_none reclaimed_def table_moveI)
next
  case (Some c)
  let ?t = "reclaimed e now tab"
  have "row_move r (lease_stamp worker now secs r)" if "r \<in> set ?t" "item_id r = item_id c" for r
  proof -
    have "r = c" using that reclaimed_ok[OF ok, of e now] chosen_candidate(1)[OF Some]
      by (auto simp: table_ok_def distinct_map inj_on_def)
    then show ?thesis using chosen_candidate(3)[OF Some] by (simp add: lease_stamp_move)
  qed
  then have "list_all2 row_move\<^sup>*\<^sup>* ?t
      (sql_update (\<lambda>r. item_id r = item_id c) (lease_stamp worker now secs) ?t)"
    by (rule list_all2_sql_update)
  with reclaim_moves[of tab now "Some e"] have "list_all2 row_move\<^sup>*\<^sup>* tab
      (sql_update (\<lambda>r. item_id r = item_id c) (lease_stamp worker now secs) ?t)"
    unfolding reclaimed_def by (rule list_all2_moves_trans)
  then show ?thesis using lease_some[OF ok Some, of worker secs] by (simp add: table_moveI)
qed

lemma complete_table_move: "table_move tab (snd (complete_work_item i res now tab))"
  unfolding complete_work_item_def Let_def snd_conv
  by (rule table_moveI, rule list_all2_sql_update, rule completed) (auto simp: same_identity_def)

lemma fail_table_move:
  assumes ok: "table_ok tab"
  shows "table_move tab (snd (fail_work_item i err now tab))"
proof (cases "find_row tab i")
  case None
  then show ?thesis by (simp add: fail_work_item_def table_move_refl)
next
  case (Some r)
  have uniq: "s = r" if "s \<in> set tab" "item_id s = i" for s
    using ok that find_row_Some[OF Some] by (auto simp: table_ok_def distinct_map inj_on_def)
  show ?thesis
  proof (cases "w_status r = LEASED")
    case False
    with Some show ?thesis by (simp add: fail_work_item_def table_move_refl)
  next
    case True
    let ?new = "if attempt r < max_attempts r then PENDING else DEAD"
    let ?f = "\<lambda>r. r\<lparr>w_status := ?new, lease_owner := [], lease_expiry := 0, last_error := err,
      updated_at := now\<rparr>"
    have move: "row_move r (?f r)"
    proof (cases "attempt r < max_attempts r")
      case lt: True
      show ?thesis by (rule handed_back) (auto simp: lt True same_identity_def)
    next
      case ge: False
      show ?thesis by (rule buried) (use ge in \<open>auto simp: True same_identity_def\<close>)
    qed
    have "list_all2 row_move\<^sup>*\<^sup>* tab (sql_update (\<lambda>s. item_id s = i) ?f tab)"
      by (rule list_all2_sql_update) (use uniq move in auto)
    then show ?thesis
      using Some True by (simp add: fail_work_item_def Let_def table_moveI)
  qed
qed

lemma step_table_move: "table_ok tab \<Longrightarrow> table_move tab (wq_step digest tab ev)"
proof (cases ev)
  case (Enqueue q a now)
  have "table_move tab (snd (enqueue_work_item (proposed_item digest q a now) cap tab))" for cap
    by (rule enqueue_table_move) (simp_all add: proposed_item_def)
  then show ?thesis
    unfolding Enqueue by (simp add: wq_enqueue_def Let_def split: prod.split) (metis snd_conv)
next
  case (Reclaim q now)
  then show ?thesis
    using reclaim_moves by (simp add: wq_reclaim_def reclaim_expired_leases_def table_moveI)
qed (simp_all add: wq_lease_def wq_complete_def wq_fail_def lease_table_move
       complete_table_move fail_table_move)

interpretation queue_table: step_system "wq_step digest" table_ok for digest
  by unfold_locales (rule table_move_ok[OF step_table_move])

section \<open>Properties\<close>

lemma run_table_ok: "table_ok (foldl (wq_step digest) [] evs)"
  by (rule queue_table.run_good) (simp add: table_ok_def)

lemma run_moves:
  "table_ok tab \<Longrightarrow> find_row tab i = Some r \<Longrightarrow>
     \<exists>s. find_row (foldl (wq_step digest) tab evs) i = Some s \<and> row_move\<^sup>*\<^sup>* r s"
proof (induction evs arbitrary: tab r)
  case Nil
  then show ?case by auto
next
  case (Cons ev evs)
  obtain s where s: "find_row (wq_step digest tab ev) i = Some s" "row_move\<^sup>*\<^sup>* r s"
    using table_move_find[OF step_table_move[OF Cons.prems(1)] Cons.prems(2)] by blast
  have "table_ok (wq_step digest tab ev)" by (rule queue_table.step_good[OF Cons.prems(1)])
  from Cons.IH[OF this s(1)] s(2) show ?case by (auto intro: rtranclp_trans)
qed

lemma run_moves_from_start:
  "find_row (foldl (wq_step digest) [] evs) i = Some r \<Longrightarrow>
     \<exists>s. find_row (foldl (wq_step digest) [] (evs @ later)) i = Some s \<and> row_move\<^sup>*\<^sup>* r s"
  using run_moves[OF run_table_ok] by (simp add: foldl_append)

text \<open>Whatever sequence of enqueues, leases, completions, failures and reclaims the workers of
  any engagements run on an empty table, item ids stay unique, statuses stay among the four, only a
  leased row has an owner or an expiry, every row that left \<open>pending\<close> has spent an attempt, and a
  dead row has used all its attempts.\<close>

theorem queue_table_invariant: "table_ok (foldl (wq_step digest) [] evs)"
  by (rule queue_table.run_good) (simp add: table_ok_def)

text \<open>C10: Durability: a row that was ever enqueued is never lost, and whatever happens later it
  only moved along the life cycle (lease, hand back, complete, bury), so its identity columns never
  change; once it is done or dead no operation of any queue changes it again.\<close>

theorem queue_lifecycle:
  assumes "find_row (foldl (wq_step digest) [] evs) i = Some r"
  shows "(\<exists>s. find_row (foldl (wq_step digest) [] (evs @ later)) i = Some s \<and> row_move\<^sup>*\<^sup>* r s
      \<and> same_identity r s)
    \<and> (w_status r = W_DONE \<or> w_status r = DEAD \<longrightarrow>
        find_row (foldl (wq_step digest) [] (evs @ later)) i = Some r)"
  using run_moves_from_start[OF assms, of later] row_moves_final row_moves_identity by metis

text \<open>The lease.\<close>

lemma lease_result:
  assumes ok: "table_ok tab"
  shows "fst (wq_lease q now tab) =
    map_option (lease_stamp (wq_worker q) now (wq_lease_seconds q))
      (find (runnable (done_ids (wq_engagement q) (reclaimed (wq_engagement q) now tab)))
         (candidates (wq_engagement q) (reclaimed (wq_engagement q) now tab)))"
  unfolding wq_lease_def
  by (cases "find (runnable (done_ids (wq_engagement q) (reclaimed (wq_engagement q) now tab)))
         (candidates (wq_engagement q) (reclaimed (wq_engagement q) now tab))")
    (simp_all add: lease_none lease_some[OF ok])

definition can_run :: "string \<Rightarrow> work_table \<Rightarrow> work_item \<Rightarrow> bool" where
  "can_run e tab r \<longleftrightarrow> r \<in> set tab \<and> engagement_id r = e \<and> w_status r = PENDING \<and>
     (\<forall>d \<in> set (w_depends_on r). \<exists>s \<in> set tab. item_id s = d \<and> engagement_id s = e \<and> w_status s = W_DONE)"

lemma can_run_iff:
  "can_run e tab r \<longleftrightarrow> r \<in> set (candidates e tab) \<and> runnable (done_ids e tab) r"
  by (auto simp: can_run_def candidates_set runnable_def done_ids_def list_all_iff
      image_iff)

lemma lease_best_candidate:
  assumes "find (runnable (done_ids e tab)) (candidates e tab) = Some c"
  shows "can_run e tab c" and "can_run e tab s \<Longrightarrow> priority s \<le> priority c"
    and "can_run e tab s \<Longrightarrow> priority s = priority c \<Longrightarrow> created_at c \<le> created_at s"
proof -
  show "can_run e tab c"
    using assms by (auto simp: can_run_iff find_Some_iff)
  have le: "(- priority c, created_at c) \<le> (- priority s, created_at s)" if "can_run e tab s"
    by (rule find_sorted_least[OF _ assms])
      (use that in \<open>simp_all add: can_run_iff candidates_def\<close>)
  show "can_run e tab s \<Longrightarrow> priority s \<le> priority c"
    and "can_run e tab s \<Longrightarrow> priority s = priority c \<Longrightarrow> created_at c \<le> created_at s"
    using le by auto
qed

text \<open>C11: A lease first hands the engagement's expired leases back. It then returns nothing exactly
  when no pending row of that engagement has all its dependencies done; otherwise it returns such a
  row of highest priority, the oldest among those, stamped with the worker, the expiry and one more
  attempt, and that row is what the table now holds.\<close>

theorem lease_picks_best:
  assumes "table_ok tab" and "t = reclaimed (wq_engagement q) now tab"
  shows "case wq_lease q now tab of
      (None, tab') \<Rightarrow> tab' = t \<and> \<not> (\<exists>r. can_run (wq_engagement q) t r)
    | (Some r, tab') \<Rightarrow> find_row tab' (item_id r) = Some r \<and>
        (\<exists>c. can_run (wq_engagement q) t c \<and>
           r = lease_stamp (wq_worker q) now (wq_lease_seconds q) c \<and>
           (\<forall>s. can_run (wq_engagement q) t s \<longrightarrow> priority s < priority c \<or>
              priority s = priority c \<and> created_at c \<le> created_at s))"
proof (cases "find (runnable (done_ids (wq_engagement q) t)) (candidates (wq_engagement q) t)")
  case None
  then have "\<not> (\<exists>r. can_run (wq_engagement q) t r)"
    by (auto simp: can_run_iff find_None_iff)
  then show ?thesis
    using None assms(2) by (simp add: wq_lease_def lease_none)
next
  case (Some c)
  let ?r = "lease_stamp (wq_worker q) now (wq_lease_seconds q)"
  have "find_row t (item_id c) = Some c"
    using reclaimed_ok[OF assms(1)] chosen_candidate(1)[OF Some] assms(2)
    by (simp add: table_ok_def find_row_member)
  then have "find_row (sql_update (\<lambda>r. item_id r = item_id c) ?r t) (item_id c) = Some (?r c)"
    by (subst find_row_update) (simp_all add: lease_stamp_def)
  moreover have "item_id (?r c) = item_id c" by (simp add: lease_stamp_def)
  moreover have "\<forall>s. can_run (wq_engagement q) t s \<longrightarrow> priority s < priority c \<or>
              priority s = priority c \<and> created_at c \<le> created_at s"
    using lease_best_candidate(2,3)[OF Some] by force
  ultimately show ?thesis
    using Some lease_some[OF assms(1)] lease_best_candidate(1)[OF Some] assms(2)
    by (auto simp: wq_lease_def)
qed

lemma lease_result_id:
  assumes "table_ok tab" and "fst (wq_lease q now tab) = Some s"
  shows "\<exists>c. c \<in> set (reclaimed (wq_engagement q) now tab) \<and> w_status c = PENDING \<and>
    engagement_id c = wq_engagement q \<and> item_id c = item_id s"
proof -
  obtain c where c: "find (runnable (done_ids (wq_engagement q) (reclaimed (wq_engagement q) now tab)))
      (candidates (wq_engagement q) (reclaimed (wq_engagement q) now tab)) = Some c"
    and s: "s = lease_stamp (wq_worker q) now (wq_lease_seconds q) c"
    using assms(2) unfolding lease_result[OF assms(1)] by auto
  then show ?thesis
    using chosen_candidate[OF c] by (auto simp: lease_stamp_def)
qed

lemma reclaimed_keeps_live:
  "find_row tab i = Some r \<Longrightarrow> \<not> expired now (Some e) r \<Longrightarrow> find_row (reclaimed e now tab) i = Some r"
  unfolding reclaimed_def by (subst find_row_update) (simp_all add: unlease_def)

text \<open>C12: A lease that has not expired is exclusive: whatever engagement and worker they belong to,
  an enqueue, a lease or a reclaim at a time before its expiry leaves the leased row as it is, and
  the lease does not hand that item out.\<close>

theorem live_lease_exclusive:
  assumes ok: "table_ok tab" and r: "find_row tab i = Some r" "w_status r = LEASED"
    and live: "now < lease_expiry r"
  shows "find_row (wq_step digest tab (Enqueue q a now)) i = Some r
    \<and> find_row (wq_step digest tab (Reclaim q now)) i = Some r
    \<and> find_row (wq_step digest tab (Lease q now)) i = Some r
    \<and> (\<forall>s. fst (wq_lease q now tab) = Some s \<longrightarrow> item_id s \<noteq> i)"
proof -
  have ne: "\<not> expired now e r" for e using live by (simp add: expired_def)
  let ?t = "reclaimed (wq_engagement q) now tab"
  have t: "find_row ?t i = Some r" using r(1) ne by (rule reclaimed_keeps_live)
  have okt: "table_ok ?t" using ok by (rule reclaimed_ok)
  have other: "item_id c \<noteq> i" if "c \<in> set ?t" "w_status c = PENDING" for c
    using that t r(2) okt find_row_member[of ?t c] by (auto simp: table_ok_def)
  have lease: "find_row (snd (wq_lease q now tab)) i = Some r"
  proof (cases "find (runnable (done_ids (wq_engagement q) ?t)) (candidates (wq_engagement q) ?t)")
    case None
    then show ?thesis by (simp add: wq_lease_def lease_none t)
  next
    case (Some c)
    then have "item_id c \<noteq> i" using chosen_candidate[OF Some] other by blast
    then show ?thesis
      using t find_row_Some[OF t] unfolding wq_lease_def lease_some[OF ok Some] snd_conv
      by (subst find_row_update) (auto simp: lease_stamp_def)
  qed
  have "find_row (wq_step digest tab (Enqueue q a now)) i = Some r"
    using r(1) by (auto simp: wq_enqueue_def enqueue_work_item_def Let_def find_row_append)
  moreover have "find_row (wq_step digest tab (Reclaim q now)) i = Some r"
    using t by (simp add: wq_reclaim_def reclaim_expired_leases_def reclaimed_def)
  moreover have "item_id s \<noteq> i" if "fst (wq_lease q now tab) = Some s" for s
    using lease_result_id[OF ok that] other by auto
  ultimately show ?thesis using lease by simp
qed

lemma filter_sql_update:
  assumes "\<And>r. Q (f r) = Q r" and "\<And>r. Q r \<Longrightarrow> \<not> p r"
  shows "filter Q (sql_update p f tab) = filter Q tab"
  using assms by (induction tab) (auto simp: sql_update_def)

text \<open>Engagements are isolated: an enqueue, a lease or a reclaim of one engagement's queue
  leaves the rows and the held budget of every other engagement as they are, and a lease only
  returns items of its own engagement.\<close>

theorem engagement_isolation:
  assumes ok: "table_ok tab" and ev: "ev \<in> {Enqueue q a now, Lease q now, Reclaim q now}"
    and e: "e \<noteq> wq_engagement q"
  shows "filter (\<lambda>r. engagement_id r = e) (wq_step digest tab ev)
      = filter (\<lambda>r. engagement_id r = e) tab
    \<and> engagement_budget_reserved e (wq_step digest tab ev) = engagement_budget_reserved e tab
    \<and> (\<forall>s. fst (wq_lease q now tab) = Some s \<longrightarrow> engagement_id s = wq_engagement q)"
proof -
  let ?Q = "\<lambda>r. engagement_id r = e"
  let ?t = "reclaimed (wq_engagement q) now tab"
  have t: "filter ?Q ?t = filter ?Q tab"
    unfolding reclaimed_def by (rule filter_sql_update) (use e in \<open>auto simp: unlease_def expired_def\<close>)
  have uniq: "r = c" if "r \<in> set ?t" "c \<in> set ?t" "item_id r = item_id c" for r c
    using reclaimed_ok[OF ok] that by (auto simp: table_ok_def distinct_map inj_on_def)
  have lease: "filter ?Q (snd (wq_lease q now tab)) = filter ?Q tab"
  proof (cases "find (runnable (done_ids (wq_engagement q) ?t)) (candidates (wq_engagement q) ?t)")
    case None
    then show ?thesis by (simp add: wq_lease_def lease_none t)
  next
    case (Some c)
    note c = chosen_candidate(1,2)[OF Some]
    have "filter ?Q (sql_update (\<lambda>r. item_id r = item_id c) f ?t) = filter ?Q ?t"
      if "\<And>r. engagement_id (f r) = engagement_id r" for f
    proof -
      have "sql_update (\<lambda>r. item_id r = item_id c) f ?t = sql_update (\<lambda>r. r = c) f ?t"
        using uniq c(1) by (auto simp: sql_update_def)
      moreover have "filter ?Q (sql_update (\<lambda>r. r = c) f ?t) = filter ?Q ?t"
        by (rule filter_sql_update) (use that c(2) e in auto)
      ultimately show ?thesis by simp
    qed
    then show ?thesis
      using t unfolding wq_lease_def lease_some[OF ok Some] snd_conv by (simp add: lease_stamp_def)
  qed
  have rows: "filter ?Q (wq_step digest tab ev) = filter ?Q tab"
    using ev e t lease
    by (auto simp: wq_enqueue_def enqueue_work_item_def proposed_item_def Let_def
        wq_reclaim_def reclaim_expired_leases_def reclaimed_def)
  have split: "filter (\<lambda>r. engagement_id r = e \<and> List.member budget_statuses (w_status r)) x
     = filter (\<lambda>r. List.member budget_statuses (w_status r)) (filter ?Q x)" for x
    by (simp add: conj_commute)
  have "fst (wq_lease q now tab) = Some s \<Longrightarrow> engagement_id s = wq_engagement q" for s
    unfolding lease_result[OF ok] by (auto dest: chosen_candidate(2) simp: lease_stamp_def)
  with rows show ?thesis
    unfolding engagement_budget_reserved_def split by simp
qed

text \<open>The budget.\<close>

definition held :: "string \<Rightarrow> work_item \<Rightarrow> real" where
  "held e r = (if engagement_id r = e \<and> List.member budget_statuses (w_status r)
     then budget_reservation r else 0)"

lemma reserved_held: "engagement_budget_reserved e tab = sum_list (map (held e) tab)"
  by (induction tab) (auto simp: engagement_budget_reserved_def held_def)

lemma row_move_held:
  assumes m: "row_move r s" and pos: "engagement_id r = e \<Longrightarrow> 0 \<le> budget_reservation r"
  shows "held e s \<le> held e r"
proof -
  have "engagement_id s = engagement_id r" "budget_reservation s = budget_reservation r"
    using row_move_identity[OF m] by (simp_all add: same_identity_cols)
  with m pos show ?thesis
    by (cases rule: row_moveE) (auto simp: held_def budget_statuses_def)
qed

lemma row_moves_held:
  "row_move\<^sup>*\<^sup>* r s \<Longrightarrow> (engagement_id r = e \<Longrightarrow> 0 \<le> budget_reservation r) \<Longrightarrow> held e s \<le> held e r"
proof (induction rule: rtranclp_induct)
  case base
  then show ?case by simp
next
  case (step s t)
  have "same_identity r s" by (rule row_moves_identity[OF step(1)])
  then have "held e t \<le> held e s"
    using step(2,4) by (intro row_move_held) (auto dest: same_identity_cols)
  with step show ?case by simp
qed

definition budget_ok :: "string \<Rightarrow> real \<Rightarrow> work_table \<Rightarrow> bool" where
  "budget_ok e c tab \<longleftrightarrow> engagement_budget_reserved e tab \<le> c + 1 / 1000000000 \<and>
     list_all (\<lambda>r. engagement_id r = e \<longrightarrow> 0 \<le> budget_reservation r) tab"

lemma budget_ok_moves:
  assumes "list_all2 row_move\<^sup>*\<^sup>* tab tab'" and ok: "budget_ok e c tab"
  shows "budget_ok e c tab'"
proof -
  have "sum_list (map (held e) tab') \<le> sum_list (map (held e) tab)
      \<and> list_all (\<lambda>r. engagement_id r = e \<longrightarrow> 0 \<le> budget_reservation r) tab'"
    using assms(1) ok[unfolded budget_ok_def, THEN conjunct2]
  proof (induction rule: list_all2_induct)
    case Nil
    then show ?case by simp
  next
    case (Cons r rs s ss)
    then have "held e s \<le> held e r" by (intro row_moves_held) auto
    moreover have "engagement_id s = e \<longrightarrow> 0 \<le> budget_reservation s"
      using Cons row_moves_identity[OF Cons(1)] by (simp add: same_identity_cols)
    ultimately show ?case using Cons by auto
  qed
  with ok show ?thesis unfolding budget_ok_def reserved_held by linarith
qed

text \<open>All queues of engagement \<open>e\<close> are configured with the cap \<open>c\<close> and reserve no negative amount.\<close>

fun capped :: "string \<Rightarrow> real \<Rightarrow> wq_event \<Rightarrow> bool" where
  "capped e c (Enqueue q a now) \<longleftrightarrow>
     (wq_engagement q = e \<longrightarrow> wq_budget_cap q = Some c \<and> 0 \<le> e_budget a)"
| "capped e c _ \<longleftrightarrow> True"

lemma step_budget_ok:
  assumes tab: "table_ok tab" and b: "budget_ok e c tab" and ev: "capped e c ev"
  shows "budget_ok e c (wq_step digest tab ev)"
proof (cases "\<exists>q a now. ev = Enqueue q a now")
  case True
  then obtain q a now where e: "ev = Enqueue q a now" by blast
  show ?thesis
    using b ev unfolding e
    by (auto simp: wq_enqueue_def enqueue_work_item_def Let_def budget_ok_def proposed_item_def
        reserved_held held_def split: if_splits option.splits)
next
  case False
  then have "length (wq_step digest tab ev) = length tab"
    by (cases ev) (auto simp: wq_lease_def lease_next_work_item_def wq_complete_def
        complete_work_item_def wq_fail_def fail_work_item_def wq_reclaim_def Let_def
        reclaim_expired_leases_def split: option.split)
  then have "list_all2 row_move\<^sup>*\<^sup>* tab (wq_step digest tab ev)"
    using step_table_move[OF tab, of digest ev] by (auto simp: table_move_def)
  with b show ?thesis by (blast intro: budget_ok_moves)
qed

lemma run_budget_ok:
  "table_ok tab \<Longrightarrow> budget_ok e c tab \<Longrightarrow> list_all (capped e c) evs \<Longrightarrow>
     budget_ok e c (foldl (wq_step digest) tab evs)"
  by (induction evs arbitrary: tab) (simp_all add: step_budget_ok queue_table.step_good)

text \<open>C13: The budget cap: when every queue of an engagement carries the cap \<open>c\<close> and reservations
  are not negative, then after any run, in which other engagements do as they like, what the
  engagement holds is at most the cap (plus the code's rounding margin), and so what
  \<open>remaining_budget\<close> reports is never below minus that margin.\<close>

theorem budget_cap_respected:
  assumes "0 \<le> c" and "list_all (capped e c) evs"
  shows "engagement_budget_reserved e (foldl (wq_step digest) [] evs) \<le> c + 1 / 1000000000
    \<and> (\<forall>q. wq_engagement q = e \<and> wq_budget_cap q = Some c \<longrightarrow>
         (\<exists>b. wq_remaining_budget q (foldl (wq_step digest) [] evs) = Some b \<and> - 1 / 1000000000 \<le> b))"
proof -
  have "budget_ok e c (foldl (wq_step digest) [] evs)"
    using assms by (intro run_budget_ok)
      (simp_all add: table_ok_def budget_ok_def engagement_budget_reserved_def)
  then show ?thesis by (auto simp: budget_ok_def wq_remaining_budget_def)
qed

text \<open>Enqueueing is idempotent: proposing the same work again (same capability, case,
  principal and payload, whatever the priority, the dependencies, the budget or the time) changes
  nothing and returns the row of the first proposal.\<close>

theorem enqueue_idempotent:
  assumes "wq_enqueue digest q a now tab = (Some r, tab')"
    and "e_capability a' = e_capability a" "e_case_ref a' = e_case_ref a"
    and "e_principal a' = e_principal a" "e_payload a' = e_payload a"
  shows "wq_enqueue digest q a' now' tab' = (Some r, tab')"
  using assms
  by (auto simp: wq_enqueue_def enqueue_work_item_def proposed_item_def Let_def find_row_append
      find_row_def split: if_splits option.splits)

text \<open>\<open>complete\<close> and \<open>fail\<close> check neither the engagement nor the owner: on a leased row
  any queue's completion succeeds and makes it done with that caller's result, and any queue's
  failure takes it away, though the class promises that all its operations are scoped to its
  engagement and that a stale worker's completion returns False.\<close>

theorem completion_ignores_owner:
  assumes "table_ok tab" and r: "find_row tab i = Some r" "w_status r = LEASED"
  shows "fst (wq_complete q i res now tab)
    \<and> map_option (\<lambda>s. (w_status s, result_ref s, engagement_id s))
        (find_row (snd (wq_complete q i res now tab)) i) = Some (W_DONE, res, engagement_id r)
    \<and> fst (wq_fail q i err now tab) = (if attempt r < max_attempts r then PENDING else DEAD)"
proof -
  have "filter (\<lambda>s. item_id s = i \<and> w_status s = LEASED) tab = [r]"
    using assms by (induction tab)
      (auto simp: table_ok_def find_row_def filter_empty_conv image_iff split: if_splits)
  then have "fst (wq_complete q i res now tab)"
    by (simp add: wq_complete_def complete_work_item_def Let_def rowcount_def)
  then show ?thesis
    using r find_row_Some[OF r(1)]
    by (auto simp: wq_complete_def complete_work_item_def Let_def find_row_update wq_fail_def
        fail_work_item_def)
qed

text \<open>The crash loop.\<close>

lemma lease_single:
  assumes "table_ok [r]" and "engagement_id r = wq_engagement q" and "w_depends_on r = []"
    and "w_status r = PENDING \<or> w_status r = LEASED \<and> lease_expiry r \<le> now"
  shows "\<exists>s. wq_step digest [r] (Lease q now) = [s] \<and> same_identity r s \<and> w_status s = LEASED \<and>
    lease_expiry s = now + wq_lease_seconds q \<and> attempt s = attempt r + 1"
proof -
  define u where "u = (if expired now (Some (wq_engagement q)) r then unlease now r else r)"
  have t: "reclaimed (wq_engagement q) now [r] = [u]"
    by (simp add: reclaimed_def sql_update_def u_def)
  have u: "w_status u = PENDING" "engagement_id u = wq_engagement q" "w_depends_on u = []"
    "attempt u = attempt r" "same_identity r u"
    using assms by (auto simp: u_def expired_def unlease_def same_identity_def)
  have "find (runnable (done_ids (wq_engagement q) [u])) (candidates (wq_engagement q) [u]) = Some u"
    using u by (simp add: candidates_def runnable_def)
  then have "wq_step digest [r] (Lease q now) = [lease_stamp (wq_worker q) now (wq_lease_seconds q) u]"
    using lease_some[OF assms(1), of "wq_engagement q" now u] t
    by (simp add: wq_lease_def sql_update_def)
  moreover have "same_identity r (lease_stamp (wq_worker q) now (wq_lease_seconds q) u)"
    by (rule same_identity_trans[OF u(5)]) (simp add: same_identity_def lease_stamp_def)
  ultimately show ?thesis using u by (auto simp: lease_stamp_def)
qed

text \<open>Attempts are bounded only where workers live to report: an item whose worker dies each
  time is leased again on every expiry, so after \<open>n\<close> such leases its attempt counter is \<open>n\<close>
  higher, whatever its \<open>max_attempts\<close>; it never becomes dead.\<close>

theorem crash_loop_unbounded:
  assumes "table_ok [r]" and "engagement_id r = wq_engagement q" and "w_depends_on r = []"
    and "w_status r = PENDING"
  shows "\<exists>s. foldl (wq_step digest) [r] (map (\<lambda>k. Lease q (start + real k * wq_lease_seconds q)) [0..<n]) = [s]
    \<and> attempt s = attempt r + int n \<and> max_attempts s = max_attempts r \<and> w_status s \<noteq> DEAD"
proof -
  have "\<exists>s. foldl (wq_step digest) [r] (map (\<lambda>k. Lease q (start + real k * wq_lease_seconds q)) [0..<n]) = [s]
    \<and> same_identity r s \<and> attempt s = attempt r + int n \<and>
      (if n = 0 then w_status s = PENDING else w_status s = LEASED \<and>
         lease_expiry s = start + real n * wq_lease_seconds q)"
  proof (induction n)
    case 0
    then show ?case using assms(4) by (simp add: same_identity_refl)
  next
    case (Suc n)
    then obtain s where s: "foldl (wq_step digest) [r]
        (map (\<lambda>k. Lease q (start + real k * wq_lease_seconds q)) [0..<n]) = [s]"
      and i: "same_identity r s" "attempt s = attempt r + int n"
      and st: "if n = 0 then w_status s = PENDING else w_status s = LEASED \<and>
         lease_expiry s = start + real n * wq_lease_seconds q" by blast
    have ok: "table_ok [s]"
      using queue_table.run_good[OF assms(1)] unfolding s[symmetric] .
    have cols: "engagement_id s = wq_engagement q" "w_depends_on s = []"
      using same_identity_cols[OF i(1)] assms by auto
    obtain s' where "wq_step digest [s] (Lease q (start + real n * wq_lease_seconds q)) = [s']"
      and "same_identity s s'" "w_status s' = LEASED" "attempt s' = attempt s + 1"
      and "lease_expiry s' = start + real n * wq_lease_seconds q + wq_lease_seconds q"
      using lease_single[OF ok cols, of "start + real n * wq_lease_seconds q" digest] st
      by (auto split: if_splits)
    then show ?case
      using s i same_identity_trans[OF i(1)] by (auto simp: algebra_simps)
  qed
  then obtain s where s: "foldl (wq_step digest) [r]
      (map (\<lambda>k. Lease q (start + real k * wq_lease_seconds q)) [0..<n]) = [s]"
    "same_identity r s" "attempt s = attempt r + int n"
    and "w_status s = PENDING \<or> w_status s = LEASED" by (metis (lifting))
  then have "w_status s \<noteq> DEAD" by auto
  with s same_identity_cols[OF s(2)] show ?thesis by blast
qed

section \<open>Concrete runs\<close>

text \<open>A digest that distinguishes items by their capability is enough here.\<close>

definition sample_digest :: "json \<Rightarrow> string" where
  "sample_digest j = (case j of JObj ((k, JStr s) # kvs) \<Rightarrow> s | _ \<Rightarrow> [])"

definition sample_queue :: "string \<Rightarrow> string \<Rightarrow> work_queue" where
  "sample_queue e w = \<lparr>wq_engagement = e, wq_worker = w, wq_lease_seconds = 300,
     wq_default_max_attempts = 1, wq_budget_cap = Some 10\<rparr>"

definition sample_args :: "string \<Rightarrow> int \<Rightarrow> enqueue_args" where
  "sample_args c p = \<lparr>e_capability = c, e_case_ref = [], e_principal = [], e_payload = [],
     e_priority = p, e_depends_on = [], e_budget = 4, e_max_attempts = None\<rparr>"

definition sample_run :: "wq_event list" where
  "sample_run = [Enqueue (sample_queue ''e1'' ''w1'') (sample_args ''scan'' 0) 0,
     Enqueue (sample_queue ''e1'' ''w1'') (sample_args ''report'' 5) 1,
     Enqueue (sample_queue ''e2'' ''w9'') (sample_args ''probe'' 9) 2,
     Lease (sample_queue ''e1'' ''w1'') 10]"

abbreviation sample_table :: work_table where
  "sample_table \<equiv> foldl (wq_step sample_digest) [] sample_run"

definition sample_row :: work_item where
  "sample_row = the (find_row sample_table ''wi:report'')"

lemma sample_row: "find_row sample_table ''wi:report'' = Some sample_row"
  by code_simp

lemma sample_row_leased: "w_status sample_row = LEASED \<and> lease_expiry sample_row = 310 \<and>
    lease_owner sample_row = ''w1'' \<and> engagement_id sample_row = ''e1''"
  by code_simp

theorem queue_lifecycle_witness:
  "\<exists>s. find_row (foldl (wq_step sample_digest) []
     (sample_run @ [Complete (sample_queue ''e1'' ''w1'') ''wi:report'' ''r'' 20])) ''wi:report'' = Some s
     \<and> row_move\<^sup>*\<^sup>* sample_row s"
  using queue_lifecycle[OF sample_row] by blast

lemma sample_table_ok: "table_ok sample_table"
  by (rule queue_table.run_good) (simp add: table_ok_def)

theorem lease_picks_best_witness:
  "case wq_lease (sample_queue ''e1'' ''w2'') 500 sample_table of
      (None, tab') \<Rightarrow> False
    | (Some r, tab') \<Rightarrow> item_id r = ''wi:report'' \<and> attempt r = 2 \<and> lease_owner r = ''w2'' \<and>
        find_row tab' (item_id r) = Some r"
proof -
  have "fst (wq_lease (sample_queue ''e1'' ''w2'') 500 sample_table) \<noteq> None \<and>
    item_id (the (fst (wq_lease (sample_queue ''e1'' ''w2'') 500 sample_table))) = ''wi:report'' \<and>
    attempt (the (fst (wq_lease (sample_queue ''e1'' ''w2'') 500 sample_table))) = 2 \<and>
    lease_owner (the (fst (wq_lease (sample_queue ''e1'' ''w2'') 500 sample_table))) = ''w2''"
    by code_simp
  with lease_picks_best[OF sample_table_ok refl, of "sample_queue ''e1'' ''w2''" 500]
  show ?thesis by (auto split: option.splits)
qed

theorem live_lease_exclusive_witness:
  "find_row (wq_step sample_digest sample_table (Lease (sample_queue ''e1'' ''w2'') 20))
     ''wi:report'' = Some sample_row
   \<and> map_option item_id (fst (wq_lease (sample_queue ''e1'' ''w2'') 20 sample_table))
       = Some ''wi:scan''"
proof
  show "find_row (wq_step sample_digest sample_table (Lease (sample_queue ''e1'' ''w2'') 20))
     ''wi:report'' = Some sample_row"
    using live_lease_exclusive[OF sample_table_ok sample_row, of 20] sample_row_leased by simp
  show "map_option item_id (fst (wq_lease (sample_queue ''e1'' ''w2'') 20 sample_table))
       = Some ''wi:scan''" by code_simp
qed

theorem engagement_isolation_witness:
  "engagement_budget_reserved ''e2''
     (wq_step sample_digest sample_table (Lease (sample_queue ''e1'' ''w2'') 500)) = 4"
proof -
  have "engagement_budget_reserved ''e2'' sample_table = 4" by code_simp
  then show ?thesis
    using engagement_isolation[OF sample_table_ok, of "Lease (sample_queue ''e1'' ''w2'') 500"
        "sample_queue ''e1'' ''w2''" "sample_args [] 0" 500 "''e2''" sample_digest]
    by (simp add: sample_queue_def)
qed

theorem budget_cap_respected_witness:
  "engagement_budget_reserved ''e1'' (foldl (wq_step sample_digest) []
      (sample_run @ [Enqueue (sample_queue ''e1'' ''w1'') (sample_args ''verify'' 0) 30]))
     \<le> 10 + 1 / 1000000000
   \<and> fst (wq_enqueue sample_digest (sample_queue ''e1'' ''w1'') (sample_args ''verify'' 0) 30 sample_table)
     = None"
proof
  have "list_all (capped ''e1'' 10)
      (sample_run @ [Enqueue (sample_queue ''e1'' ''w1'') (sample_args ''verify'' 0) 30])"
    by (simp add: sample_run_def sample_queue_def sample_args_def)
  then show "engagement_budget_reserved ''e1'' (foldl (wq_step sample_digest) []
      (sample_run @ [Enqueue (sample_queue ''e1'' ''w1'') (sample_args ''verify'' 0) 30]))
     \<le> 10 + 1 / 1000000000"
    by (intro budget_cap_respected[THEN conjunct1]) simp_all
  show "fst (wq_enqueue sample_digest (sample_queue ''e1'' ''w1'') (sample_args ''verify'' 0) 30 sample_table)
     = None" by code_simp
qed

theorem enqueue_idempotent_witness:
  "wq_enqueue sample_digest (sample_queue ''e1'' ''w1'') (sample_args ''scan'' 7) 99
     (snd (wq_enqueue sample_digest (sample_queue ''e1'' ''w1'') (sample_args ''scan'' 0) 0 []))
   = wq_enqueue sample_digest (sample_queue ''e1'' ''w1'') (sample_args ''scan'' 0) 0 []"
proof -
  let ?e = "wq_enqueue sample_digest (sample_queue ''e1'' ''w1'') (sample_args ''scan'' 0) 0 []"
  have "fst ?e = Some (the (fst ?e))" by code_simp
  then have "?e = (Some (the (fst ?e)), snd ?e)" by (metis prod.collapse)
  from enqueue_idempotent[OF this, of "sample_args ''scan'' 7" 99] this
  show ?thesis by (simp add: sample_args_def)
qed

theorem completion_ignores_owner_witness:
  "fst (wq_complete (sample_queue ''e2'' ''w9'') ''wi:report'' ''forged'' 20 sample_table)"
  using completion_ignores_owner[OF sample_table_ok sample_row] sample_row_leased by blast

definition sample_item :: work_item where
  "sample_item = proposed_item sample_digest (sample_queue ''e1'' ''w1'') (sample_args ''scan'' 0) 0"

theorem crash_loop_unbounded_witness:
  "\<exists>s. foldl (wq_step sample_digest) [sample_item]
      (map (\<lambda>k. Lease (sample_queue ''e1'' ''w1'') (0 + real k * 300)) [0..<7]) = [s]
    \<and> attempt s = 7 \<and> max_attempts s = 1 \<and> w_status s \<noteq> DEAD"
proof -
  have "table_ok [sample_item]" "w_status sample_item = PENDING" "w_depends_on sample_item = []"
    "engagement_id sample_item = wq_engagement (sample_queue ''e1'' ''w1'')"
    "attempt sample_item = 0" "max_attempts sample_item = 1"
    by (simp_all add: sample_item_def table_ok_def row_ok_def proposed_item_def sample_args_def
        sample_queue_def option_or_def)
  from crash_loop_unbounded[OF this(1,4,3,2), of sample_digest 0 7] this(5,6)
  show ?thesis by (simp add: sample_queue_def del: upt_rec_numeral)
qed

end
