(* ===== verification/ExchangeCache.thy ===== *)
theory ExchangeCache
  imports Prelude "HOL-Library.Multiset"
begin

text \<open>
  \<open>harness/cache.py\<close>: the cache of analysis results and its sibling, the cross-run cache of
  pre-proof hypotheses, over one SQLite file. A table is the list of its rows in row order;
  \<open>INSERT OR REPLACE\<close> removes the row of that key and adds a new last row. Responses are
  opaque ('r): a row holds the response its JSON text reads back as, or None where the text no
  longer validates. \<open>digest\<close> is the hexadecimal SHA-256 of the key-sorted JSON text.
\<close>

section \<open>Statistics\<close>

record cache_stats =
  hits :: int
  misses :: int
  bypasses :: int
  evictions :: int

definition zero_stats :: cache_stats where
  "zero_stats = \<lparr>hits = 0, misses = 0, bypasses = 0, evictions = 0\<rparr>"

definition hit_rate :: "cache_stats \<Rightarrow> real" where
  "hit_rate s = (let n = hits s + misses s in
     if n = 0 then 0 else of_int (hits s) / of_int n * 100)"

definition total_requests :: "cache_stats \<Rightarrow> int" where
  "total_requests s = hits s + misses s + bypasses s"

definition stats_to_dict :: "cache_stats \<Rightarrow> (string \<times> json) list" where
  "stats_to_dict s =
     [(''hits'', JInt (hits s)), (''misses'', JInt (misses s)), (''bypasses'', JInt (bypasses s)),
      (''evictions'', JInt (evictions s)),
      (''hit_rate_percent'', JFloat (of_int (py_round (hit_rate s * 100)) / 100)),
      (''total_requests'', JInt (total_requests s))]"

section \<open>Entries\<close>

type_synonym prompts = "(string \<times> string) list"

record 'r cache_row =
  c_hash :: string
  c_response :: "'r option"
  c_created :: time
  c_ttl :: real
  c_model :: string
  c_prompts :: prompts
  c_access :: int

definition is_expired :: "time \<Rightarrow> time \<Rightarrow> real \<Rightarrow> bool" where
  "is_expired now created ttl \<longleftrightarrow> now > created + ttl"

definition prompts_differ :: "prompts \<Rightarrow> prompts \<Rightarrow> bool" where
  "prompts_differ recorded current = list_ex (\<lambda>(agent, version).
     case dict_get recorded agent of None \<Rightarrow> False | Some v \<Rightarrow> v \<noteq> version) current"

definition is_stale :: "string \<Rightarrow> prompts \<Rightarrow> 'r cache_row \<Rightarrow> bool" where
  "is_stale model current r \<longleftrightarrow> c_model r \<noteq> model \<or> prompts_differ (c_prompts r) current"

text \<open>The fields of a finding the hypothesis cache looks at; the rest of a report is opaque JSON.\<close>

record finding =
  f_proof_id :: string
  f_case_id :: string
  f_confirmed :: bool
  f_confirmed_by_leg :: string
  f_oracle_verified :: bool
  f_oracle_capsule_id :: string
  f_oracle_reason :: string
  f_verification_state :: string
  f_rest :: json

record report =
  r_findings :: "finding list"
  r_rest :: json

record hypothesis =
  h_reports :: "report list"
  h_dispatch :: "string list"
  h_reason :: string
  h_stage_outcomes :: "json list"
  h_reviewed :: int
  h_rejected :: int

record hyp_row =
  h_hash :: string
  h_payload :: "hypothesis option"
  h_created :: time
  h_ttl :: real
  h_model :: string
  h_prompts :: prompts
  h_fingerprint :: string
  h_access :: int

definition hyp_is_stale :: "string \<Rightarrow> prompts \<Rightarrow> string \<Rightarrow> hyp_row \<Rightarrow> bool" where
  "hyp_is_stale model current fp r \<longleftrightarrow>
     h_model r \<noteq> model \<or> h_fingerprint r \<noteq> fp \<or> prompts_differ (h_prompts r) current"

definition hypothesis_has_authority :: "report list \<Rightarrow> bool" where
  "hypothesis_has_authority reports = list_ex (\<lambda>r. list_ex (\<lambda>f.
     f_proof_id f \<noteq> [] \<or> f_case_id f \<noteq> [] \<or> f_confirmed f \<or> f_confirmed_by_leg f \<noteq> []
     \<or> f_oracle_verified f \<or> f_oracle_capsule_id f \<noteq> [] \<or> f_oracle_reason f \<noteq> []
     \<or> f_verification_state f \<noteq> ''candidate'') (r_findings r)) reports"

section \<open>The cache\<close>

record 'r db =
  cache_entries :: "'r cache_row list"
  db_stats :: cache_stats
  hypothesis_entries :: "hyp_row list"

definition empty_db :: "'r db" where
  "empty_db = \<lparr>cache_entries = [], db_stats = zero_stats, hypothesis_entries = []\<rparr>"

record 'r cache =
  c_db :: "'r db"
  c_ttl_seconds :: real
  c_max_size :: int
  c_stats :: cache_stats
  c_hyp_stats :: cache_stats
  c_enabled :: bool
  c_bypass_token :: "string option"

text \<open>\<open>__init__\<close> on the database file's contents: creating tables and counters that exist does nothing.\<close>

definition open_cache :: "'r db \<Rightarrow> real \<Rightarrow> int \<Rightarrow> bool \<Rightarrow> string option \<Rightarrow> 'r cache" where
  "open_cache d ttl max_size enabled token =
     \<lparr>c_db = d, c_ttl_seconds = ttl, c_max_size = max_size, c_stats = zero_stats,
      c_hyp_stats = zero_stats, c_enabled = enabled, c_bypass_token = token\<rparr>"

record exchange =
  x_url :: string
  x_method :: string
  x_request_headers :: "(string \<times> string) list"
  x_request_body :: string
  x_response_status :: "int option"
  x_response_headers :: "(string \<times> string) list"
  x_response_body :: string
  x_analyst_note :: string
  x_capture_id :: string
  x_captured_at :: "time option"

definition volatile_header_names :: "string list" where
  "volatile_header_names =
     [''date'', ''age'', ''etag'', ''x-request-id'', ''x-correlation-id'', ''traceparent'',
      ''tracestate'', ''cf-ray'', ''server-timing'', ''via'', ''x-amzn-trace-id'', ''x-runtime'',
      ''x-response-time'']"

definition strip_volatile_headers :: "(string \<times> string) list \<Rightarrow> (string \<times> string) list" where
  "strip_volatile_headers hs =
     sort (filter (\<lambda>(k, v). \<not> List.member volatile_header_names (py_lower k)) hs)"

definition header_json :: "(string \<times> string) list \<Rightarrow> json" where
  "header_json hs = JList (map (\<lambda>(k, v). JList [JStr k, JStr v]) hs)"

definition compute_exchange_hash :: "(json \<Rightarrow> string) \<Rightarrow> exchange \<Rightarrow> string \<Rightarrow> string" where
  "compute_exchange_hash digest x namespace = digest (JObj
     [(''namespace'', JStr namespace), (''url'', JStr (x_url x)), (''method'', JStr (x_method x)),
      (''request_headers'', header_json (strip_volatile_headers (x_request_headers x))),
      (''request_body'', JStr (x_request_body x)),
      (''response_status'', (case x_response_status x of None \<Rightarrow> JNull | Some n \<Rightarrow> JInt n)),
      (''response_headers'', header_json (strip_volatile_headers (x_response_headers x))),
      (''response_body'', JStr (x_response_body x)),
      (''analyst_note'', JStr (x_analyst_note x))])"

text \<open>The counters of the full-response cache change together with their stored copy.\<close>

definition save_stats :: "'r cache \<Rightarrow> 'r cache" where
  "save_stats c = c\<lparr>c_db := (c_db c)\<lparr>db_stats := c_stats c\<rparr>\<rparr>"

definition load_stats :: "'r cache \<Rightarrow> 'r cache" where
  "load_stats c = c\<lparr>c_stats := db_stats (c_db c)\<rparr>"

definition bump :: "(cache_stats \<Rightarrow> cache_stats) \<Rightarrow> 'r cache \<Rightarrow> 'r cache" where
  "bump f c = save_stats (c\<lparr>c_stats := f (c_stats c)\<rparr>)"

definition bump_hyp :: "(cache_stats \<Rightarrow> cache_stats) \<Rightarrow> 'r cache \<Rightarrow> 'r cache" where
  "bump_hyp f c = c\<lparr>c_hyp_stats := f (c_hyp_stats c)\<rparr>"

definition hit :: "cache_stats \<Rightarrow> cache_stats" where "hit s = s\<lparr>hits := hits s + 1\<rparr>"
definition miss :: "cache_stats \<Rightarrow> cache_stats" where "miss s = s\<lparr>misses := misses s + 1\<rparr>"
definition bypassed :: "cache_stats \<Rightarrow> cache_stats" where
  "bypassed s = s\<lparr>bypasses := bypasses s + 1\<rparr>"
definition evict :: "int \<Rightarrow> cache_stats \<Rightarrow> cache_stats" where
  "evict n s = s\<lparr>evictions := evictions s + n\<rparr>"

definition upd_entries :: "('r cache_row list \<Rightarrow> 'r cache_row list) \<Rightarrow> 'r cache \<Rightarrow> 'r cache" where
  "upd_entries f c = c\<lparr>c_db := (c_db c)\<lparr>cache_entries := f (cache_entries (c_db c))\<rparr>\<rparr>"

definition upd_hyps :: "(hyp_row list \<Rightarrow> hyp_row list) \<Rightarrow> 'r cache \<Rightarrow> 'r cache" where
  "upd_hyps f c = c\<lparr>c_db := (c_db c)\<lparr>hypothesis_entries := f (hypothesis_entries (c_db c))\<rparr>\<rparr>"

definition delete_row :: "('a \<Rightarrow> string) \<Rightarrow> string \<Rightarrow> 'a list \<Rightarrow> 'a list" where
  "delete_row key h rows = filter (\<lambda>r. key r \<noteq> h) rows"

definition insert_or_replace :: "('a \<Rightarrow> string) \<Rightarrow> 'a \<Rightarrow> 'a list \<Rightarrow> 'a list" where
  "insert_or_replace key r rows = delete_row key (key r) rows @ [r]"

text \<open>\<open>DELETE ... WHERE exchange_hash IN (SELECT ... ORDER BY created_at ASC LIMIT n)\<close>.\<close>

definition delete_oldest :: "('a \<Rightarrow> string) \<Rightarrow> ('a \<Rightarrow> time) \<Rightarrow> int \<Rightarrow> 'a list \<Rightarrow> 'a list" where
  "delete_oldest key created n rows =
     (let victims = map key (take (nat n) (sort_key created rows)) in
      filter (\<lambda>r. \<not> List.member victims (key r)) rows)"

definition delete_count :: "int \<Rightarrow> int" where
  "delete_count max_size = max 1 (max_size div 10)"

definition evict_if_needed :: "'r cache \<Rightarrow> 'r cache" where
  "evict_if_needed c =
     (if int (length (cache_entries (c_db c))) \<ge> c_max_size c
      then bump (evict (delete_count (c_max_size c)))
             (upd_entries (delete_oldest c_hash c_created (delete_count (c_max_size c))) c)
      else c)"

definition evict_hypothesis_if_needed :: "'r cache \<Rightarrow> 'r cache" where
  "evict_hypothesis_if_needed c =
     (if int (length (hypothesis_entries (c_db c))) \<ge> c_max_size c
      then bump_hyp (evict (delete_count (c_max_size c)))
             (upd_hyps (delete_oldest h_hash h_created (delete_count (c_max_size c))) c)
      else c)"

section \<open>Lookups and stores\<close>

definition cache_get ::
  "(json \<Rightarrow> string) \<Rightarrow> exchange \<Rightarrow> string \<Rightarrow> prompts \<Rightarrow> bool \<Rightarrow> string \<Rightarrow> time \<Rightarrow> 'r cache
   \<Rightarrow> 'r option \<times> 'r cache" where
  "cache_get digest x model current bypass namespace now c =
     (if \<not> c_enabled c \<or> bypass then (None, bump bypassed c)
      else (let h = compute_exchange_hash digest x namespace in
        case find (\<lambda>r. c_hash r = h) (cache_entries (c_db c)) of
          None \<Rightarrow> (None, bump miss c)
        | Some r \<Rightarrow>
            (case c_response r of
               None \<Rightarrow> (None, bump miss c)
             | Some resp \<Rightarrow>
                 if is_expired now (c_created r) (c_ttl r) \<or> is_stale model current r
                 then (None, bump (evict 1 \<circ> miss) (upd_entries (delete_row c_hash h) c))
                 else (Some resp, bump hit (upd_entries
                        (map (\<lambda>s. if c_hash s = h then s\<lparr>c_access := c_access s + 1\<rparr> else s)) c)))))"

definition cache_put ::
  "(json \<Rightarrow> string) \<Rightarrow> exchange \<Rightarrow> 'r \<Rightarrow> string \<Rightarrow> prompts \<Rightarrow> string \<Rightarrow> time \<Rightarrow> 'r cache \<Rightarrow> 'r cache"
  where
  "cache_put digest x resp model versions namespace now c =
     (if \<not> c_enabled c then c
      else upd_entries (insert_or_replace c_hash
             \<lparr>c_hash = compute_exchange_hash digest x namespace, c_response = Some resp,
              c_created = now, c_ttl = c_ttl_seconds c, c_model = model, c_prompts = versions,
              c_access = 0\<rparr>) (evict_if_needed c))"

definition get_hypothesis ::
  "(json \<Rightarrow> string) \<Rightarrow> exchange \<Rightarrow> string \<Rightarrow> prompts \<Rightarrow> string \<Rightarrow> bool \<Rightarrow> string \<Rightarrow> time \<Rightarrow> 'r cache
   \<Rightarrow> hypothesis option \<times> 'r cache" where
  "get_hypothesis digest x model current fp bypass namespace now c =
     (if \<not> c_enabled c \<or> bypass then (None, bump_hyp bypassed c)
      else (let h = compute_exchange_hash digest x namespace in
        case find (\<lambda>r. h_hash r = h) (hypothesis_entries (c_db c)) of
          None \<Rightarrow> (None, bump_hyp miss c)
        | Some r \<Rightarrow>
            (case h_payload r of
               None \<Rightarrow> (None, bump_hyp miss c)
             | Some p \<Rightarrow>
                 if hypothesis_has_authority (h_reports p)
                    \<or> is_expired now (h_created r) (h_ttl r) \<or> hyp_is_stale model current fp r
                 then (None, bump_hyp (evict 1 \<circ> miss) (upd_hyps (delete_row h_hash h) c))
                 else (Some p, upd_hyps
                        (map (\<lambda>s. if h_hash s = h then s\<lparr>h_access := h_access s + 1\<rparr> else s))
                        (bump_hyp hit c)))))"

definition put_hypothesis ::
  "(json \<Rightarrow> string) \<Rightarrow> exchange \<Rightarrow> hypothesis \<Rightarrow> string \<Rightarrow> prompts \<Rightarrow> string \<Rightarrow> string \<Rightarrow> time \<Rightarrow> 'r cache
   \<Rightarrow> 'r cache" where
  "put_hypothesis digest x p model versions fp namespace now c =
     (if \<not> c_enabled c \<or> hypothesis_has_authority (h_reports p) then c
      else upd_hyps (insert_or_replace h_hash
             \<lparr>h_hash = compute_exchange_hash digest x namespace, h_payload = Some p,
              h_created = now, h_ttl = c_ttl_seconds c, h_model = model, h_prompts = versions,
              h_fingerprint = fp, h_access = 0\<rparr>) (evict_hypothesis_if_needed c))"

section \<open>Maintenance\<close>

definition cache_clear :: "'r cache \<Rightarrow> 'r cache" where
  "cache_clear c =
     (let n = length (cache_entries (c_db c)) + length (hypothesis_entries (c_db c)) in
      bump (evict (int n)) (upd_hyps (\<lambda>_. []) (upd_entries (\<lambda>_. []) c)))"

definition cache_stats_of :: "'r cache \<Rightarrow> cache_stats \<times> 'r cache" where
  "cache_stats_of c = (let c' = load_stats c in (c_stats c', c'))"

definition hypothesis_stats :: "'r cache \<Rightarrow> cache_stats" where
  "hypothesis_stats c = c_hyp_stats c"

definition exchange_size :: "'r cache \<Rightarrow> nat" where
  "exchange_size c = length (cache_entries (c_db c))"

definition hypothesis_size :: "'r cache \<Rightarrow> nat" where
  "hypothesis_size c = length (hypothesis_entries (c_db c))"

definition cache_size :: "'r cache \<Rightarrow> nat" where
  "cache_size c = exchange_size c + hypothesis_size c"

definition set_enabled :: "bool \<Rightarrow> 'r cache \<Rightarrow> 'r cache" where
  "set_enabled b c = c\<lparr>c_enabled := b\<rparr>"

definition is_enabled :: "'r cache \<Rightarrow> bool" where
  "is_enabled c = c_enabled c"

text \<open>The module's global cache, over the default database file's contents.\<close>

definition get_cache :: "'r db \<Rightarrow> 'r cache option \<Rightarrow> 'r cache" where
  "get_cache file slot = option_or slot (open_cache file 86400 10000 True None)"

definition init_cache :: "'r db \<Rightarrow> real \<Rightarrow> int \<Rightarrow> bool \<Rightarrow> string option \<Rightarrow> 'r cache option \<Rightarrow> 'r cache option"
  where "init_cache file ttl max_size enabled token slot = Some (open_cache file ttl max_size enabled token)"

section \<open>Rows, deletion and eviction\<close>

lemma delete_row_set: "set (delete_row key h rows) = {r \<in> set rows. key r \<noteq> h}"
  by (auto simp: delete_row_def)

lemma distinct_map_filter_key: "distinct (map key rows) \<Longrightarrow> distinct (map key (filter P rows))"
  by (induction rows) auto

lemma insert_or_replace_distinct:
  "distinct (map key rows) \<Longrightarrow> distinct (map key (insert_or_replace key r rows))"
  by (auto simp: insert_or_replace_def delete_row_def distinct_map_filter_key)

lemma insert_or_replace_length: "length (insert_or_replace key r rows) \<le> length rows + 1"
  by (simp add: insert_or_replace_def delete_row_def)

lemma insert_or_replace_set: "set (insert_or_replace key r rows) \<subseteq> insert r (set rows)"
  by (auto simp: insert_or_replace_def delete_row_def)

lemma insert_or_replace_find: "find (\<lambda>s. key s = key r) (insert_or_replace key r rows) = Some r"
proof -
  have "find (\<lambda>s. key s = k) (filter (\<lambda>s. key s \<noteq> k) rows @ [r]) = find (\<lambda>s. key s = k) [r]" for k
    by (induction rows) auto
  then show ?thesis by (simp add: insert_or_replace_def delete_row_def)
qed

lemma insert_or_replace_find_other:
  "h \<noteq> key r \<Longrightarrow> find (\<lambda>s. key s = h) (insert_or_replace key r rows) = find (\<lambda>s. key s = h) rows"
  by (induction rows) (auto simp: insert_or_replace_def delete_row_def)

lemma delete_oldest_length:
  assumes "distinct (map key rows)" and "rows \<noteq> []" and "1 \<le> n"
  shows "length (delete_oldest key created n rows) < length rows"
proof -
  define s where "s = sort_key created rows"
  have "s \<noteq> []" using assms(2) by (metis s_def length_0_conv length_sort)
  then obtain v vs where s: "s = v # vs" by (cases s) auto
  then have "v \<in> set rows" by (metis list.set_intros(1) s_def set_sort)
  moreover have "key v \<in> set (map key (take (nat n) s))"
    using s assms(3) by (cases "nat n") auto
  ultimately show ?thesis
    unfolding delete_oldest_def Let_def s_def[symmetric]
    by (intro length_filter_less[of v]) auto
qed

lemma delete_oldest_distinct:
  "distinct (map key rows) \<Longrightarrow> distinct (map key (delete_oldest key created n rows))"
  by (simp add: delete_oldest_def Let_def distinct_map_filter_key)

lemma delete_oldest_subset: "set (delete_oldest key created n rows) \<subseteq> set rows"
  by (auto simp: delete_oldest_def Let_def)

text \<open>Making room and inserting: keys stay unique and the size stays within the bound.\<close>

definition bounded :: "('a \<Rightarrow> string) \<Rightarrow> int \<Rightarrow> 'a list \<Rightarrow> bool" where
  "bounded key m rows \<longleftrightarrow> distinct (map key rows) \<and> int (length rows) \<le> max 1 m"

definition room :: "('a \<Rightarrow> string) \<Rightarrow> ('a \<Rightarrow> time) \<Rightarrow> int \<Rightarrow> 'a list \<Rightarrow> 'a list" where
  "room key created m rows =
     (if int (length rows) \<ge> m then delete_oldest key created (delete_count m) rows else rows)"

lemma bounded_insert:
  assumes "bounded key m rows"
  shows "bounded key m (insert_or_replace key r (room key created m rows))"
proof -
  have d: "distinct (map key rows)" and l: "int (length rows) \<le> max 1 m"
    using assms by (simp_all add: bounded_def)
  have "int (length (room key created m rows)) + 1 \<le> max 1 m"
  proof (cases "int (length rows) \<ge> m \<and> rows \<noteq> []")
    case True
    then have "length (delete_oldest key created (delete_count m) rows) < length rows"
      using d by (intro delete_oldest_length) (simp_all add: delete_count_def)
    with True l show ?thesis by (simp add: room_def)
  next
    case False
    then show ?thesis using l by (auto simp: room_def delete_oldest_def Let_def)
  qed
  moreover have "distinct (map key (room key created m rows))"
    using d by (simp add: room_def delete_oldest_distinct)
  ultimately show ?thesis
    using insert_or_replace_length[of key r "room key created m rows"]
    by (simp add: bounded_def insert_or_replace_distinct)
qed

lemma bounded_filter: "bounded key m rows \<Longrightarrow> bounded key m (filter P rows)"
  unfolding bounded_def
  by (auto simp: distinct_map_filter_key intro: order_trans[OF of_nat_mono[OF length_filter_le]])

lemma bounded_map: "(\<And>r. key (f r) = key r) \<Longrightarrow> bounded key m (map f rows) = bounded key m rows"
  by (simp add: bounded_def comp_def)

lemma evict_entries: "cache_entries (c_db (evict_if_needed c))
    = room c_hash c_created (c_max_size c) (cache_entries (c_db c))"
  by (simp add: evict_if_needed_def room_def bump_def save_stats_def upd_entries_def)

lemma evict_hyps: "hypothesis_entries (c_db (evict_hypothesis_if_needed c))
    = room h_hash h_created (c_max_size c) (hypothesis_entries (c_db c))"
  by (simp add: evict_hypothesis_if_needed_def room_def bump_hyp_def upd_hyps_def)

lemmas cache_upd_defs = bump_def bump_hyp_def save_stats_def load_stats_def upd_entries_def upd_hyps_def

lemmas stat_defs = hit_def miss_def bypassed_def evict_def

section \<open>Runs\<close>

datatype 'r cache_event =
    Get exchange string prompts bool string time
  | Put exchange 'r string prompts string time
  | GetHypothesis exchange string prompts string bool string time
  | PutHypothesis exchange hypothesis string prompts string string time
  | Clear
  | Stats
  | SetEnabled bool

fun cache_step :: "(json \<Rightarrow> string) \<Rightarrow> 'r cache \<Rightarrow> 'r cache_event \<Rightarrow> 'r cache" where
  "cache_step digest c (Get x m ps b ns now) = snd (cache_get digest x m ps b ns now c)"
| "cache_step digest c (Put x r m ps ns now) = cache_put digest x r m ps ns now c"
| "cache_step digest c (GetHypothesis x m ps fp b ns now) =
     snd (get_hypothesis digest x m ps fp b ns now c)"
| "cache_step digest c (PutHypothesis x p m ps fp ns now) = put_hypothesis digest x p m ps fp ns now c"
| "cache_step digest c Clear = cache_clear c"
| "cache_step digest c Stats = snd (cache_stats_of c)"
| "cache_step digest c (SetEnabled b) = set_enabled b c"

text \<open>
  Keys unique, both tables within the size, no stored hypothesis with proof authority, the stored
  counters equal to those in memory.
\<close>

definition cache_ok :: "'r cache \<Rightarrow> bool" where
  "cache_ok c \<longleftrightarrow> bounded c_hash (c_max_size c) (cache_entries (c_db c))
     \<and> bounded h_hash (c_max_size c) (hypothesis_entries (c_db c))
     \<and> list_all (\<lambda>r. case h_payload r of None \<Rightarrow> True
         | Some p \<Rightarrow> \<not> hypothesis_has_authority (h_reports p)) (hypothesis_entries (c_db c))
     \<and> db_stats (c_db c) = c_stats c"

lemma room_subset: "set (room key created m rows) \<subseteq> set rows"
  by (auto simp: room_def dest: delete_oldest_subset[THEN subsetD])

lemma evict_other [simp]:
  "c_max_size (evict_if_needed c) = c_max_size c"
  "hypothesis_entries (c_db (evict_if_needed c)) = hypothesis_entries (c_db c)"
  "c_max_size (evict_hypothesis_if_needed c) = c_max_size c"
  "cache_entries (c_db (evict_hypothesis_if_needed c)) = cache_entries (c_db c)"
  "c_stats (evict_hypothesis_if_needed c) = c_stats c"
  "db_stats (c_db (evict_hypothesis_if_needed c)) = db_stats (c_db c)"
  by (simp_all add: evict_if_needed_def evict_hypothesis_if_needed_def cache_upd_defs)

lemma evict_saved:
  "db_stats (c_db c) = c_stats c \<Longrightarrow> db_stats (c_db (evict_if_needed c)) = c_stats (evict_if_needed c)"
  by (simp add: evict_if_needed_def cache_upd_defs)

lemma cache_get_ok: "cache_ok c \<Longrightarrow> cache_ok (snd (cache_get digest x m ps b ns now c))"
  unfolding cache_get_def Let_def
  by (simp split: option.split)
    (auto simp: cache_ok_def cache_upd_defs bounded_map delete_row_def bounded_filter)

lemma get_hypothesis_ok:
  "cache_ok c \<Longrightarrow> cache_ok (snd (get_hypothesis digest x m ps fp b ns now c))"
  unfolding get_hypothesis_def Let_def
  by (simp split: option.split)
    (auto simp: cache_ok_def cache_upd_defs bounded_map delete_row_def bounded_filter list_all_iff)

lemma cache_put_ok: "cache_ok c \<Longrightarrow> cache_ok (cache_put digest x r m ps ns now c)"
  by (auto simp: cache_ok_def cache_put_def upd_entries_def evict_entries evict_saved
      intro: bounded_insert)

lemma put_hypothesis_ok: "cache_ok c \<Longrightarrow> cache_ok (put_hypothesis digest x p m ps fp ns now c)"
  by (auto simp: cache_ok_def put_hypothesis_def upd_hyps_def evict_hyps list_all_iff
      intro: bounded_insert
      dest!: insert_or_replace_set[THEN subsetD] room_subset[THEN subsetD])

lemma cache_step_ok: "cache_ok c \<Longrightarrow> cache_ok (cache_step digest c e)"
proof (cases e)
  case Clear
  assume "cache_ok c"
  then show ?thesis
    unfolding Clear by (simp add: cache_ok_def cache_clear_def Let_def cache_upd_defs bounded_def)
next
  case Stats
  assume "cache_ok c"
  then show ?thesis
    unfolding Stats by (simp add: cache_ok_def cache_stats_of_def Let_def cache_upd_defs)
next
  case (SetEnabled b)
  assume "cache_ok c"
  then show ?thesis unfolding SetEnabled by (simp add: cache_ok_def set_enabled_def)
qed (simp_all add: cache_get_ok cache_put_ok get_hypothesis_ok put_hypothesis_ok)

interpretation exchange_cache: step_system "cache_step digest" cache_ok for digest
  by unfold_locales (rule cache_step_ok)

lemma open_cache_ok: "cache_ok (open_cache empty_db ttl m en tok)"
  by (simp add: cache_ok_def open_cache_def empty_db_def bounded_def)

section \<open>Properties\<close>

fun is_get :: "'r cache_event \<Rightarrow> bool" where
  "is_get (Get x m ps b ns now) \<longleftrightarrow> True"
| "is_get _ \<longleftrightarrow> False"

lemma put_stats:
  "total_requests (c_stats (cache_put digest x r m ps ns now c)) = total_requests (c_stats c)"
  by (simp add: cache_put_def evict_if_needed_def cache_upd_defs stat_defs total_requests_def)

lemma put_hypothesis_stats: "c_stats (put_hypothesis digest x p m ps fp ns now c) = c_stats c"
  by (simp add: put_hypothesis_def evict_hypothesis_if_needed_def cache_upd_defs)

lemma get_stats: "total_requests (c_stats (snd (cache_get digest x m ps b ns now c))) =
    total_requests (c_stats c) + 1"
  by (simp add: cache_get_def Let_def cache_upd_defs stat_defs total_requests_def split: option.split)

lemma get_hypothesis_stats: "c_stats (snd (get_hypothesis digest x m ps fp b ns now c)) = c_stats c"
  by (simp add: get_hypothesis_def Let_def cache_upd_defs split: option.split)

lemma clear_stats: "total_requests (c_stats (cache_clear c)) = total_requests (c_stats c)"
  by (simp add: cache_clear_def Let_def cache_upd_defs stat_defs total_requests_def)

lemma step_requests:
  assumes "cache_ok c"
  shows "total_requests (c_stats (cache_step digest c e)) =
    total_requests (c_stats c) + (if is_get e then 1 else 0)"
  using assms
  by (cases e) (simp_all add: get_stats put_stats put_hypothesis_stats get_hypothesis_stats
      clear_stats set_enabled_def cache_stats_of_def load_stats_def Let_def cache_ok_def)

lemma run_requests:
  "cache_ok c \<Longrightarrow> total_requests (c_stats (foldl (cache_step digest) c es)) =
     total_requests (c_stats c) + int (length (filter is_get es))"
proof (induction es arbitrary: c)
  case Nil
  then show ?case by simp
next
  case (Cons e es)
  have "cache_ok (cache_step digest c e)" by (rule exchange_cache.step_good[OF Cons.prems])
  from Cons.IH[OF this] show ?case by (simp add: step_requests[OF Cons.prems])
qed

text \<open>C14: After any sequence of lookups, stores, clears and switches on a new cache, keys are unique
  and each table has at most \<open>max(1, max_size)\<close> rows, no stored hypothesis carries proof or
  confirmation authority, the stored counters are those in memory, and hits, misses and bypasses
  add up to the number of lookups made.\<close>

theorem cache_invariant:
  "cache_ok (foldl (cache_step digest) (open_cache empty_db ttl m en tok) es)
   \<and> total_requests (c_stats (foldl (cache_step digest) (open_cache empty_db ttl m en tok) es)) =
       int (length (filter is_get es))"
proof
  show "cache_ok (foldl (cache_step digest) (open_cache empty_db ttl m en tok) es)"
    by (rule exchange_cache.run_good[OF open_cache_ok])
  show "total_requests (c_stats (foldl (cache_step digest) (open_cache empty_db ttl m en tok) es)) =
       int (length (filter is_get es))"
    unfolding run_requests[OF open_cache_ok]
    by (simp add: open_cache_def zero_stats_def total_requests_def)
qed

lemma find_key:
  "distinct (map key rows) \<Longrightarrow> find (\<lambda>r. key r = h) rows = Some r \<longleftrightarrow> r \<in> set rows \<and> key r = h"
  by (induction rows) auto

lemma find_key_None: "find (\<lambda>r. key r = h) rows = None \<longleftrightarrow> h \<notin> key ` set rows"
  by (auto simp: find_None_iff)

definition valid_row :: "string \<Rightarrow> prompts \<Rightarrow> time \<Rightarrow> 'r cache_row \<Rightarrow> bool" where
  "valid_row model current now r \<longleftrightarrow> now \<le> c_created r + c_ttl r \<and> c_model r = model \<and>
     (\<forall>(agent, version) \<in> set current. \<forall>v. dict_get (c_prompts r) agent = Some v \<longrightarrow> v = version)"

lemma valid_row_iff:
  "valid_row model current now r \<longleftrightarrow>
     \<not> (is_expired now (c_created r) (c_ttl r) \<or> is_stale model current r)"
  by (auto simp: valid_row_def is_expired_def is_stale_def prompts_differ_def list_ex_iff
      split: option.splits)

text \<open>A lookup returns a response exactly when the cache is on, the caller does not bypass it,
  and the table has a readable row for this exchange and namespace that is not expired, was made
  with the same model, and recorded no other version of any current prompt; an expired or stale
  row it meets is deleted.\<close>

theorem get_serves_valid_rows:
  assumes "cache_ok c" and "h = compute_exchange_hash digest x ns"
  shows "(fst (cache_get digest x model current b ns now c) = Some resp \<longleftrightarrow>
      c_enabled c \<and> \<not> b \<and> (\<exists>r \<in> set (cache_entries (c_db c)). c_hash r = h \<and>
        c_response r = Some resp \<and> valid_row model current now r))
    \<and> (c_enabled c \<and> \<not> b \<longrightarrow> (\<forall>r \<in> set (cache_entries (c_db c)). c_hash r = h \<and>
        c_response r \<noteq> None \<and> \<not> valid_row model current now r \<longrightarrow>
        h \<notin> c_hash ` set (cache_entries (c_db (snd (cache_get digest x model current b ns now c))))))"
proof -
  let ?rows = "cache_entries (c_db c)"
  have d: "distinct (map c_hash ?rows)" using assms(1) by (simp add: cache_ok_def bounded_def)
  show ?thesis
  proof (cases "c_enabled c \<and> \<not> b")
    case False
    then show ?thesis by (auto simp: cache_get_def)
  next
    case on: True
    show ?thesis
    proof (cases "find (\<lambda>r. c_hash r = h) ?rows")
      case None
      then show ?thesis
        using on assms(2) unfolding cache_get_def Let_def
        by (simp add: cache_upd_defs) (auto simp: find_None_iff)
    next
      case (Some r)
      have ex: "(\<exists>s \<in> set ?rows. c_hash s = h \<and> P s) = P r" for P
        using Some find_key[OF d] by (metis option.inject)
      have all: "(\<forall>s \<in> set ?rows. c_hash s = h \<and> P s \<longrightarrow> Q) = (P r \<longrightarrow> Q)" for P Q
        using ex[of P] by blast
      show ?thesis
        unfolding ex all using Some on assms(2) unfolding cache_get_def Let_def valid_row_iff
        by (auto simp: cache_upd_defs delete_row_def split: option.split)
    qed
  qed
qed

text \<open>Two captures of the same traffic, up to transport noise and capture metadata.\<close>

definition significant_headers :: "(string \<times> string) list \<Rightarrow> (string \<times> string) multiset" where
  "significant_headers hs =
     filter_mset (\<lambda>(k, v). \<not> List.member volatile_header_names (py_lower k)) (mset hs)"

definition same_traffic :: "exchange \<Rightarrow> exchange \<Rightarrow> bool" where
  "same_traffic x y \<longleftrightarrow> x_url x = x_url y \<and> x_method x = x_method y
     \<and> significant_headers (x_request_headers x) = significant_headers (x_request_headers y)
     \<and> x_request_body x = x_request_body y \<and> x_response_status x = x_response_status y
     \<and> significant_headers (x_response_headers x) = significant_headers (x_response_headers y)
     \<and> x_response_body x = x_response_body y \<and> x_analyst_note x = x_analyst_note y"

lemma strip_volatile_mset:
  "significant_headers hs = significant_headers hs' \<Longrightarrow>
     strip_volatile_headers hs = strip_volatile_headers hs'"
proof -
  assume "significant_headers hs = significant_headers hs'"
  then have "mset (strip_volatile_headers hs) = mset (strip_volatile_headers hs')"
    by (simp add: strip_volatile_headers_def significant_headers_def mset_filter)
  moreover have "sort (strip_volatile_headers hs) = strip_volatile_headers hs" for hs
    unfolding strip_volatile_headers_def by (rule sorted_sort_id[OF sorted_sort])
  ultimately show ?thesis
    using properties_for_sort[of "strip_volatile_headers hs'" "strip_volatile_headers hs"]
    by (simp add: strip_volatile_headers_def)
qed

lemma same_traffic_hash:
  "same_traffic x y \<Longrightarrow> compute_exchange_hash digest x ns = compute_exchange_hash digest y ns"
  unfolding same_traffic_def compute_exchange_hash_def
  using strip_volatile_mset[of "x_request_headers x" "x_request_headers y"]
    strip_volatile_mset[of "x_response_headers x" "x_response_headers y"] by simp

text \<open>What is stored is found: after a store, a lookup of the same traffic, up to the order of
  headers, the volatile ones and the capture metadata, in the same namespace, with the same model
  and agreeing prompt versions, within the time to live, returns the stored response.\<close>

theorem put_then_get:
  assumes "c_enabled c" and "same_traffic x y"
    and "t \<le> t0 + c_ttl_seconds c" and "\<not> prompts_differ versions current"
  shows "fst (cache_get digest y model current False ns t
      (cache_put digest x resp model versions ns t0 c)) = Some resp"
proof -
  let ?row = "\<lparr>c_hash = compute_exchange_hash digest x ns, c_response = Some resp, c_created = t0,
    c_ttl = c_ttl_seconds c, c_model = model, c_prompts = versions, c_access = 0\<rparr>"
  have "find (\<lambda>r. c_hash r = c_hash ?row) (insert_or_replace c_hash ?row rows) = Some ?row" for rows
    by (rule insert_or_replace_find)
  moreover have "c_enabled (evict_if_needed c)"
    using assms(1) by (simp add: evict_if_needed_def cache_upd_defs)
  ultimately show ?thesis
    using assms same_traffic_hash[OF assms(2), of digest ns]
    by (simp add: cache_get_def cache_put_def upd_entries_def Let_def is_expired_def is_stale_def)
qed

lemma get_hypothesis_served:
  assumes "fst (get_hypothesis digest x model current fp b ns now c) = Some p"
  shows "c_enabled c \<and> \<not> b \<and> (\<exists>r \<in> set (hypothesis_entries (c_db c)).
      h_hash r = compute_exchange_hash digest x ns \<and> h_payload r = Some p \<and>
      \<not> hypothesis_has_authority (h_reports p) \<and> \<not> is_expired now (h_created r) (h_ttl r) \<and>
      \<not> hyp_is_stale model current fp r)"
proof (cases "find (\<lambda>r. h_hash r = compute_exchange_hash digest x ns) (hypothesis_entries (c_db c))")
  case None
  with assms show ?thesis by (simp add: get_hypothesis_def Let_def split: if_splits)
next
  case (Some r)
  then have "r \<in> set (hypothesis_entries (c_db c)) \<and> h_hash r = compute_exchange_hash digest x ns"
    by (auto simp: find_Some_iff)
  then show ?thesis
    using assms Some
    by (auto simp: get_hypothesis_def Let_def split: if_splits option.splits)
qed

text \<open>Proof authority never crosses runs: whatever the table holds, a row with authority
  included, a hypothesis lookup returns only a payload none of whose findings has a proof, a case, a
  confirmation or an oracle verdict, unexpired and made with the same model, configuration and
  prompt versions; and a store of a payload with authority changes nothing.\<close>

theorem hypothesis_carries_no_authority:
  "(case fst (get_hypothesis digest x model current fp b ns now c) of
      None \<Rightarrow> True
    | Some p \<Rightarrow> \<not> hypothesis_has_authority (h_reports p) \<and>
        (\<exists>r \<in> set (hypothesis_entries (c_db c)). h_payload r = Some p \<and>
           h_hash r = compute_exchange_hash digest x ns \<and> now \<le> h_created r + h_ttl r \<and>
           h_model r = model \<and> h_fingerprint r = fp \<and> \<not> prompts_differ (h_prompts r) current))
   \<and> (hypothesis_has_authority (h_reports q) \<longrightarrow>
        put_hypothesis digest x q model versions fp ns now c = c)"
proof (cases "fst (get_hypothesis digest x model current fp b ns now c)")
  case None
  then show ?thesis by (simp add: put_hypothesis_def)
next
  case (Some p)
  from get_hypothesis_served[OF Some] Some show ?thesis
    by (auto simp: put_hypothesis_def is_expired_def hyp_is_stale_def)
qed

text \<open>A restart loses the stored counters: a cache opened on a file that already holds counters
  starts its own at zero and writes them over the stored ones with its first lookup, so after that
  lookup the file claims exactly one request, however many it had recorded.\<close>

theorem restart_loses_stats:
  "total_requests (db_stats (c_db (snd (cache_get digest x model current b ns now
      (open_cache d ttl m en tok))))) = 1"
  by (simp add: cache_get_def Let_def cache_upd_defs open_cache_def zero_stats_def stat_defs
      total_requests_def split: option.split)

section \<open>Concrete runs\<close>

text \<open>A digest that keeps the URL and the body is enough here.\<close>

definition cache_digest :: "json \<Rightarrow> string" where
  "cache_digest j = (case j of
     JObj (a # (k, JStr u) # b # (k2, JList hs) # rest) \<Rightarrow> u @ replicate (length hs) (CHR ''h'')
   | _ \<Rightarrow> [])"

definition sample_exchange :: "(string \<times> string) list \<Rightarrow> exchange" where
  "sample_exchange hs = \<lparr>x_url = ''http://t/a'', x_method = ''GET'', x_request_headers = hs,
     x_request_body = [], x_response_status = Some 200, x_response_headers = [],
     x_response_body = ''ok'', x_analyst_note = [], x_capture_id = [], x_captured_at = None\<rparr>"

definition sample_cache :: "nat cache" where
  "sample_cache = cache_put cache_digest
     (sample_exchange [(''Cookie'', ''s=1''), (''Date'', ''Mon'')]) 7 ''m1'' [(''idor'', ''v1'')] ''run1'' 0
     (open_cache empty_db 60 2 True None)"

lemma sample_cache_ok: "cache_ok sample_cache"
  unfolding sample_cache_def by (rule cache_put_ok[OF open_cache_ok])

theorem get_serves_valid_rows_witness:
  "fst (cache_get cache_digest (sample_exchange [(''Cookie'', ''s=1'')]) ''m1'' [(''idor'', ''v1'')]
      False ''run1'' 60 sample_cache) = Some 7
   \<and> fst (cache_get cache_digest (sample_exchange [(''Cookie'', ''s=1'')]) ''m1'' [(''idor'', ''v2'')]
      False ''run1'' 60 sample_cache) \<noteq> Some 7"
proof
  let ?h = "compute_exchange_hash cache_digest (sample_exchange [(''Cookie'', ''s=1'')]) ''run1''"
  let ?row = "\<lparr>c_hash = ?h, c_response = Some 7, c_created = 0, c_ttl = 60, c_model = ''m1'',
    c_prompts = [(''idor'', ''v1'')], c_access = 0\<rparr>"
  have rows: "cache_entries (c_db sample_cache) = [?row]" by code_simp
  have en: "c_enabled sample_cache" by code_simp
  show "fst (cache_get cache_digest (sample_exchange [(''Cookie'', ''s=1'')]) ''m1'' [(''idor'', ''v1'')]
      False ''run1'' 60 sample_cache) = Some 7"
    using get_serves_valid_rows[OF sample_cache_ok refl, THEN conjunct1] en
    by (simp add: rows valid_row_def)
  show "fst (cache_get cache_digest (sample_exchange [(''Cookie'', ''s=1'')]) ''m1'' [(''idor'', ''v2'')]
      False ''run1'' 60 sample_cache) \<noteq> Some 7"
    using get_serves_valid_rows[OF sample_cache_ok refl, THEN conjunct1] en
    by (simp add: rows valid_row_def)
qed

theorem put_then_get_witness:
  "fst (cache_get cache_digest (sample_exchange [(''ETag'', ''x''), (''Cookie'', ''s=1'')]) ''m1''
      [(''idor'', ''v1'')] False ''run1'' 60 sample_cache) = Some 7"
  unfolding sample_cache_def
proof (rule put_then_get)
  show "same_traffic (sample_exchange [(''Cookie'', ''s=1''), (''Date'', ''Mon'')])
      (sample_exchange [(''ETag'', ''x''), (''Cookie'', ''s=1'')])"
  proof -
    have "py_lower ''Cookie'' = ''cookie''" "py_lower ''Date'' = ''date''" "py_lower ''ETag'' = ''etag''"
      by code_simp+
    then show ?thesis
      by (simp add: same_traffic_def sample_exchange_def significant_headers_def
          volatile_header_names_def)
  qed
qed (simp_all add: open_cache_def prompts_differ_def)

definition sample_payload :: "string \<Rightarrow> hypothesis" where
  "sample_payload proof = \<lparr>h_reports = [\<lparr>r_findings = [\<lparr>f_proof_id = proof, f_case_id = [],
     f_confirmed = False, f_confirmed_by_leg = [], f_oracle_verified = False,
     f_oracle_capsule_id = [], f_oracle_reason = [], f_verification_state = ''candidate'',
     f_rest = JNull\<rparr>], r_rest = JNull\<rparr>], h_dispatch = [''idor''], h_reason = [],
     h_stage_outcomes = [], h_reviewed = 1, h_rejected = 0\<rparr>"

theorem hypothesis_carries_no_authority_witness:
  "put_hypothesis cache_digest (sample_exchange []) (sample_payload ''p1'') ''m1'' [] ''fp'' [] 0
     sample_cache = sample_cache
   \<and> fst (get_hypothesis cache_digest (sample_exchange []) ''m1'' [] ''fp'' False [] 10
       (put_hypothesis cache_digest (sample_exchange []) (sample_payload []) ''m1'' [] ''fp'' [] 0
         sample_cache)) = Some (sample_payload [])"
proof
  have "hypothesis_has_authority (h_reports (sample_payload ''p1''))" by code_simp
  then show "put_hypothesis cache_digest (sample_exchange []) (sample_payload ''p1'') ''m1'' [] ''fp'' [] 0
     sample_cache = sample_cache"
    using hypothesis_carries_no_authority by blast
  show "fst (get_hypothesis cache_digest (sample_exchange []) ''m1'' [] ''fp'' False [] 10
       (put_hypothesis cache_digest (sample_exchange []) (sample_payload []) ''m1'' [] ''fp'' [] 0
         sample_cache)) = Some (sample_payload [])"
    by code_simp
qed

end
