(* ===== verification/Url.thy ===== *)
theory Url
  imports Prelude
begin

text \<open>
  The parts of Python's standard library the scope and policy code rests on: \<open>str.split\<close> and
  \<open>partition\<close>, \<open>ipaddress.ip_address\<close> and \<open>ip_network\<close>, \<open>urllib.parse.urlsplit\<close>
  with its \<open>hostname\<close> and \<open>port\<close>, \<open>unquote\<close>, \<open>unquote_plus\<close> and
  \<open>posixpath.normpath\<close>, as Python 3.11 has them. A string is the list of the bytes of its
  UTF-8 encoding; a \<open>ValueError\<close> is None.
\<close>

section \<open>Splitting\<close>

fun split_on :: "char \<Rightarrow> string \<Rightarrow> string list" where
  "split_on c [] = [[]]"
| "split_on c (x # xs) = (if x = c then [] # split_on c xs
     else (case split_on c xs of [] \<Rightarrow> [[x]] | w # ws \<Rightarrow> (x # w) # ws))"

fun join_with :: "string \<Rightarrow> string list \<Rightarrow> string" where
  "join_with sep [] = []"
| "join_with sep [w] = w"
| "join_with sep (w # v # ws) = w @ sep @ join_with sep (v # ws)"

text \<open>\<open>s.partition(c)\<close>: what precedes the first \<open>c\<close>, whether there is one, and the rest.\<close>

definition partition_at :: "char \<Rightarrow> string \<Rightarrow> string \<times> bool \<times> string" where
  "partition_at c s = (takeWhile (\<lambda>x. x \<noteq> c) s, List.member s c, tl (dropWhile (\<lambda>x. x \<noteq> c) s))"

text \<open>\<open>s.rpartition(c)[2]\<close>: what follows the last \<open>c\<close>, or all of \<open>s\<close>.\<close>

definition after_last :: "char \<Rightarrow> string \<Rightarrow> string" where
  "after_last c s = rev (takeWhile (\<lambda>x. x \<noteq> c) (rev s))"

definition starts_with :: "string \<Rightarrow> string \<Rightarrow> bool" where
  "starts_with p s = (take (length p) s = p)"

definition ends_with :: "string \<Rightarrow> string \<Rightarrow> bool" where
  "ends_with p s = starts_with (rev p) (rev s)"

fun contains_str :: "string \<Rightarrow> string \<Rightarrow> bool" where
  "contains_str p [] = (p = [])"
| "contains_str p (x # xs) = (starts_with p (x # xs) \<or> contains_str p xs)"

section \<open>Numbers\<close>

definition code :: "char \<Rightarrow> nat" where "code c = of_char c"

definition is_digit :: "char \<Rightarrow> bool" where
  "is_digit c = (48 \<le> code c \<and> code c \<le> 57)"

definition is_lower :: "char \<Rightarrow> bool" where
  "is_lower c = (97 \<le> code c \<and> code c \<le> 122)"

definition is_alpha :: "char \<Rightarrow> bool" where
  "is_alpha c = (is_lower c \<or> 65 \<le> code c \<and> code c \<le> 90)"

definition hex_value :: "char \<Rightarrow> nat option" where
  "hex_value c = (let n = code c in
     if is_digit c then Some (n - 48)
     else if 97 \<le> n \<and> n \<le> 102 then Some (n - 87)
     else if 65 \<le> n \<and> n \<le> 70 then Some (n - 55) else None)"

definition is_hex :: "char \<Rightarrow> bool" where "is_hex c = (hex_value c \<noteq> None)"

text \<open>\<open>s.isdigit() and s.isascii()\<close>\<close>

definition all_digits :: "string \<Rightarrow> bool" where
  "all_digits s = (s \<noteq> [] \<and> list_all is_digit s)"

definition int_of_digits :: "string \<Rightarrow> nat" where
  "int_of_digits s = foldl (\<lambda>n c. n * 10 + (code c - 48)) 0 s"

definition int_of_hex :: "string \<Rightarrow> nat" where
  "int_of_hex s = foldl (\<lambda>n c. n * 16 + option_or (hex_value c) 0) 0 s"

definition digit_char :: "nat \<Rightarrow> char" where
  "digit_char d = char_of (if d < 10 then 48 + d else 87 + d)"

fun dec_str :: "nat \<Rightarrow> string" where
  "dec_str n = (if n < 10 then [digit_char n] else dec_str (n div 10) @ [digit_char (n mod 10)])"

fun hex_str :: "nat \<Rightarrow> string" where
  "hex_str n = (if n < 16 then [digit_char n] else hex_str (n div 16) @ [digit_char (n mod 16)])"

declare dec_str.simps [simp del] hex_str.simps [simp del]

section \<open>IP addresses\<close>

datatype ip_addr = V4 nat | V6 nat "string option"

definition parse_octet :: "string \<Rightarrow> nat option" where
  "parse_octet s =
     (if \<not> all_digits s \<or> length s > 3 \<or> s \<noteq> ''0'' \<and> hd s = CHR ''0'' \<or> int_of_digits s > 255
      then None else Some (int_of_digits s))"

fun all_some :: "'a option list \<Rightarrow> 'a list option" where
  "all_some [] = Some []"
| "all_some (x # xs) = (case x of None \<Rightarrow> None | Some v \<Rightarrow> map_option ((#) v) (all_some xs))"

definition from_base :: "nat \<Rightarrow> nat list \<Rightarrow> nat" where
  "from_base b ds = foldl (\<lambda>n d. n * b + d) 0 ds"

definition parse_v4 :: "string \<Rightarrow> nat option" where
  "parse_v4 s = (let os = split_on CHR ''.'' s in
     if length os \<noteq> 4 then None else map_option (from_base 256) (all_some (map parse_octet os)))"

definition parse_hextet :: "string \<Rightarrow> nat option" where
  "parse_hextet s = (if s = [] \<or> \<not> list_all is_hex s \<or> length s > 4 then None else Some (int_of_hex s))"

text \<open>The indices strictly inside the list whose part is empty.\<close>

definition inner_gaps :: "string list \<Rightarrow> nat list" where
  "inner_gaps parts = filter (\<lambda>i. parts ! i = []) [1..<length parts - 1]"

definition v6_parts :: "string \<Rightarrow> string list option" where
  "v6_parts s = (let parts = split_on CHR '':'' s in
     if length parts < 3 then None
     else if List.member (last parts) CHR ''.'' then
       (case parse_v4 (last parts) of None \<Rightarrow> None
        | Some n \<Rightarrow> Some (butlast parts @ [hex_str (n div 65536 mod 65536), hex_str (n mod 65536)]))
     else Some parts)"

definition parse_v6 :: "string \<Rightarrow> nat option" where
  "parse_v6 s = (case v6_parts s of None \<Rightarrow> None
    | Some parts \<Rightarrow>
       if length parts > 9 then None
       else (case inner_gaps parts of
          [] \<Rightarrow> if length parts \<noteq> 8 \<or> hd parts = [] \<or> last parts = [] then None
                else map_option (from_base 65536) (all_some (map parse_hextet parts))
        | [i] \<Rightarrow>
            (let hi = (if hd parts = [] then i - 1 else i);
                 lo0 = length parts - i - 1;
                 lo = (if last parts = [] then lo0 - 1 else lo0) in
             if hd parts = [] \<and> hi \<noteq> 0 \<or> last parts = [] \<and> lo \<noteq> 0 \<or> hi + lo \<ge> 8 then None
             else (case (all_some (map parse_hextet (take hi parts)),
                         all_some (map parse_hextet (drop (length parts - lo) parts))) of
                (Some his, Some los) \<Rightarrow>
                  Some (from_base 65536 (his @ replicate (8 - (hi + lo)) 0 @ los))
              | _ \<Rightarrow> None))
        | _ \<Rightarrow> None))"

definition ip_address :: "string \<Rightarrow> ip_addr option" where
  "ip_address s =
     (if List.member s CHR ''/'' then None
      else (case parse_v4 s of
         Some n \<Rightarrow> Some (V4 n)
       | None \<Rightarrow>
           (case partition_at CHR ''%'' s of (addr, sep, zone) \<Rightarrow>
              if sep \<and> (zone = [] \<or> List.member zone CHR ''%'') then None
              else map_option (\<lambda>n. V6 n (if sep then Some zone else None)) (parse_v6 addr))))"

definition to_base :: "nat \<Rightarrow> nat \<Rightarrow> nat \<Rightarrow> nat list" where
  "to_base b k n = map (\<lambda>i. n div b ^ i mod b) (rev [0..<k])"

text \<open>The longest run of zero hextets, the first of them on a tie: its start and length.\<close>

fun zero_run :: "nat list \<Rightarrow> nat" where
  "zero_run [] = 0"
| "zero_run (x # xs) = (if x = 0 then Suc (zero_run xs) else 0)"

definition best_run :: "nat list \<Rightarrow> nat \<times> nat" where
  "best_run hs = foldl (\<lambda>(s, l) i. if zero_run (drop i hs) > l then (i, zero_run (drop i hs)) else (s, l))
     (0, 0) [0..<length hs]"

definition compress_hextets :: "nat list \<Rightarrow> string list" where
  "compress_hextets hs = (case best_run hs of (s, l) \<Rightarrow>
     if l > 1 then
       (if s = 0 then [[]] else []) @ map hex_str (take s hs) @ [[]]
       @ map hex_str (drop (s + l) hs) @ (if s + l = length hs then [[]] else [])
     else map hex_str hs)"

definition ip_str :: "ip_addr \<Rightarrow> string" where
  "ip_str a = (case a of
     V4 n \<Rightarrow> join_with ''.'' (map dec_str (to_base 256 4 n))
   | V6 n zone \<Rightarrow> join_with '':'' (compress_hextets (to_base 65536 8 n))
       @ (case zone of None \<Rightarrow> [] | Some z \<Rightarrow> CHR ''%'' # z))"

text \<open>\<open>ip_network(value, strict=False)\<close>: the version's width, the network bits and the prefix length.\<close>

record ip_network =
  net_width :: nat
  net_address :: nat
  net_prefix :: nat

definition prefix_of :: "nat \<Rightarrow> string \<Rightarrow> nat option" where
  "prefix_of w s =
     (if all_digits s \<and> int_of_digits s \<le> w then Some (int_of_digits s)
      else if w \<noteq> 32 then None
      else (case parse_v4 s of
         None \<Rightarrow> None
       | Some m \<Rightarrow>
           (case find (\<lambda>p. m = 2 ^ 32 - 2 ^ (32 - p)) [0..<33] of
              Some p \<Rightarrow> Some p
            | None \<Rightarrow> find (\<lambda>p. m = 2 ^ (32 - p) - 1) [0..<33])))"

definition ip_network_of :: "string \<Rightarrow> ip_network option" where
  "ip_network_of s = (let ps = split_on CHR ''/'' s in
     if length ps > 2 then None
     else (case ip_address (hd ps) of
        None \<Rightarrow> None
      | Some a \<Rightarrow>
          (case a of
             V4 n \<Rightarrow> (case if length ps = 2 then prefix_of 32 (ps ! 1) else Some 32 of
                 None \<Rightarrow> None
               | Some p \<Rightarrow> Some \<lparr>net_width = 32, net_address = n div 2 ^ (32 - p) * 2 ^ (32 - p), net_prefix = p\<rparr>)
           | V6 n z \<Rightarrow> (case if length ps = 2 then prefix_of 128 (ps ! 1) else Some 128 of
                 None \<Rightarrow> None
               | Some p \<Rightarrow> Some \<lparr>net_width = 128, net_address = n div 2 ^ (128 - p) * 2 ^ (128 - p), net_prefix = p\<rparr>))))"

definition in_network :: "ip_addr \<Rightarrow> ip_network \<Rightarrow> bool" where
  "in_network a net = (case a of
     V4 n \<Rightarrow> net_width net = 32 \<and>
       n div 2 ^ (32 - net_prefix net) * 2 ^ (32 - net_prefix net) = net_address net
   | V6 n z \<Rightarrow> net_width net = 128 \<and>
       n div 2 ^ (128 - net_prefix net) * 2 ^ (128 - net_prefix net) = net_address net)"

section \<open>\<open>urlsplit\<close>\<close>

record split_url =
  u_scheme :: string
  u_netloc :: string
  u_path :: string
  u_query :: string
  u_fragment :: string

definition is_scheme_char :: "char \<Rightarrow> bool" where
  "is_scheme_char c = (is_alpha c \<or> is_digit c \<or> List.member ''+-.'' c)"

text \<open>\<open>_check_bracketed_host\<close>\<close>

definition bracketed_host_ok :: "string \<Rightarrow> bool" where
  "bracketed_host_ok h =
     (if starts_with ''v'' h
      then (case partition_at CHR ''.'' (tl h) of (ver, dot, rest) \<Rightarrow>
              ver \<noteq> [] \<and> list_all is_hex ver \<and> dot \<and> rest \<noteq> [] \<and> \<not> List.member rest CHR 0x0A)
      else (case ip_address h of Some (V6 n z) \<Rightarrow> True | _ \<Rightarrow> False))"

definition split_scheme :: "string \<Rightarrow> string \<times> string" where
  "split_scheme url = (case partition_at CHR '':'' url of (pre, colon, rest) \<Rightarrow>
     if colon \<and> pre \<noteq> [] \<and> is_alpha (hd pre) \<and> list_all is_scheme_char pre
     then (py_lower pre, rest) else ([], url))"

definition not_delim :: "char \<Rightarrow> bool" where
  "not_delim c = (\<not> List.member ''/?#'' c)"

definition split_netloc :: "string \<Rightarrow> string \<times> string" where
  "split_netloc url = (if starts_with ''//'' url
     then (takeWhile not_delim (drop 2 url), dropWhile not_delim (drop 2 url)) else ([], url))"

definition brackets_ok :: "string \<Rightarrow> bool" where
  "brackets_ok netloc =
     (List.member netloc CHR ''['' = List.member netloc CHR '']'' \<and>
      (List.member netloc CHR ''['' \<longrightarrow>
        bracketed_host_ok (fst (partition_at CHR '']'' (snd (snd (partition_at CHR ''['' netloc)))))))"

text \<open>
  For URLs without control characters, whitespace and non-ASCII characters in the authority, which
  the callers here have refused or do not pass: the stripping of such characters and the check of
  the normalised authority then do nothing.
\<close>

definition urlsplit :: "string \<Rightarrow> split_url option" where
  "urlsplit url = (case split_scheme url of (scheme, rest) \<Rightarrow>
     (case split_netloc rest of (netloc, tail) \<Rightarrow>
        if \<not> brackets_ok netloc then None
        else (case partition_at CHR ''#'' tail of (body, h, fragment) \<Rightarrow>
           (case partition_at CHR ''?'' body of (path, q, query) \<Rightarrow>
              Some \<lparr>u_scheme = scheme, u_netloc = netloc, u_path = path, u_query = query,
                    u_fragment = fragment\<rparr>))))"

text \<open>\<open>_hostinfo\<close>: the host part and the port text, if there is one.\<close>

definition hostinfo :: "string \<Rightarrow> string \<times> string option" where
  "hostinfo netloc = (let info = after_last CHR ''@'' netloc in
     case partition_at CHR ''['' info of (pre, open_bracket, bracketed) \<Rightarrow>
       (let (host, port) =
          (if open_bracket
           then (case partition_at CHR '']'' bracketed of (host, b, after) \<Rightarrow>
                   (host, snd (snd (partition_at CHR '':'' after))))
           else (case partition_at CHR '':'' info of (host, b, port) \<Rightarrow> (host, port)))
        in (host, if port = [] then None else Some port)))"

text \<open>\<open>parsed.hostname or ""\<close>; a zone after a percent sign keeps its case.\<close>

definition url_hostname :: "string \<Rightarrow> string" where
  "url_hostname netloc = (case partition_at CHR ''%'' (fst (hostinfo netloc)) of
     (name, pct, zone) \<Rightarrow> py_lower name @ (if pct then CHR ''%'' # zone else []))"

datatype url_port = NoPort | Port nat | BadPort

definition url_port_of :: "string \<Rightarrow> url_port" where
  "url_port_of netloc = (case snd (hostinfo netloc) of
     None \<Rightarrow> NoPort
   | Some s \<Rightarrow> if all_digits s \<and> int_of_digits s \<le> 65535 then Port (int_of_digits s) else BadPort)"

section \<open>Percent decoding and path normalisation\<close>

fun unquote_bytes :: "string \<Rightarrow> string" where
  "unquote_bytes (p # a # b # rest) =
     (if p = CHR ''%'' \<and> is_hex a \<and> is_hex b
      then char_of (option_or (hex_value a) 0 * 16 + option_or (hex_value b) 0) # unquote_bytes rest
      else p # unquote_bytes (a # b # rest))"
| "unquote_bytes s = s"

definition is_continuation :: "char \<Rightarrow> bool" where
  "is_continuation c = (128 \<le> code c \<and> code c \<le> 191)"

text \<open>Whether the bytes are valid UTF-8.\<close>

fun utf8_valid :: "string \<Rightarrow> bool" where
  "utf8_valid [] = True"
| "utf8_valid (a # s) =
     (if code a < 128 then utf8_valid s
      else if 194 \<le> code a \<and> code a \<le> 223 then
        (case s of b # s' \<Rightarrow> is_continuation b \<and> utf8_valid s' | _ \<Rightarrow> False)
      else if 224 \<le> code a \<and> code a \<le> 239 then
        (case s of b # c # s' \<Rightarrow> is_continuation b \<and> is_continuation c \<and>
             (code a = 224 \<longrightarrow> 160 \<le> code b) \<and> (code a = 237 \<longrightarrow> code b \<le> 159) \<and> utf8_valid s'
         | _ \<Rightarrow> False)
      else if 240 \<le> code a \<and> code a \<le> 244 then
        (case s of b # c # d # s' \<Rightarrow> is_continuation b \<and> is_continuation c \<and> is_continuation d \<and>
             (code a = 240 \<longrightarrow> 144 \<le> code b) \<and> (code a = 244 \<longrightarrow> code b \<le> 143) \<and> utf8_valid s'
         | _ \<Rightarrow> False)
      else False)"

text \<open>The maximal runs of ASCII and of non-ASCII bytes, which \<open>unquote\<close> decodes one by one.\<close>

fun ascii_runs :: "string \<Rightarrow> string list" where
  "ascii_runs [] = []"
| "ascii_runs (c # s) = (case ascii_runs s of
     (d # w) # ws \<Rightarrow> if (code c < 128) = (code d < 128) then (c # d # w) # ws else [c] # (d # w) # ws
   | ws \<Rightarrow> [c] # ws)"

definition unquote_strict :: "string \<Rightarrow> string option" where
  "unquote_strict s =
     (if \<not> List.member s CHR ''%'' then Some s
      else (let runs = map unquote_bytes (ascii_runs s) in
        if list_all utf8_valid runs then Some (concat runs) else None))"

text \<open>\<open>unquote_plus\<close> with its default replacement of invalid sequences, on ASCII bytes.\<close>

definition unquote_plus :: "string \<Rightarrow> string" where
  "unquote_plus s = unquote_bytes (map (\<lambda>c. if c = CHR ''+'' then CHR '' '' else c) s)"

fun norm_comps :: "bool \<Rightarrow> string list \<Rightarrow> string list \<Rightarrow> string list" where
  "norm_comps rooted acc [] = rev acc"
| "norm_comps rooted acc (c # cs) =
     (if c = [] \<or> c = ''.'' then norm_comps rooted acc cs
      else if c \<noteq> ''..'' \<or> \<not> rooted \<and> acc = [] \<or> acc \<noteq> [] \<and> hd acc = ''..''
      then norm_comps rooted (c # acc) cs
      else norm_comps rooted (tl acc) cs)"

definition normpath :: "string \<Rightarrow> string" where
  "normpath p =
     (if p = [] then ''.''
      else (let n = (if starts_with ''//'' p \<and> \<not> starts_with ''///'' p then 2
                     else if starts_with ''/'' p then 1 else (0::nat));
                path = replicate n (CHR ''/'') @
                  join_with ''/'' (norm_comps (n \<noteq> 0) [] (split_on CHR ''/'' p))
            in if path = [] then ''.'' else path))"

section \<open>Facts about the string functions\<close>

lemma split_on_nonempty: "split_on c s \<noteq> []"
  by (induction s) (auto split: list.split)

lemma split_on_no_sep: "w \<in> set (split_on c s) \<Longrightarrow> c \<notin> set w"
  by (induction s arbitrary: w) (auto split: if_splits list.splits)

lemma split_on_sub: "x \<in> set w \<Longrightarrow> w \<in> set (split_on c s) \<Longrightarrow> x \<in> set s"
  by (induction s arbitrary: w) (fastforce split: if_splits list.splits)+

lemma split_on_cover: "x \<in> set s \<Longrightarrow> x = c \<or> (\<exists>w \<in> set (split_on c s). x \<in> set w)"
proof (induction s)
  case (Cons y s)
  obtain w ws where "split_on c s = w # ws" using split_on_nonempty by (cases "split_on c s") auto
  with Cons show ?case by auto
qed simp

lemma split_on_word: "c \<notin> set w \<Longrightarrow> split_on c w = [w]"
  by (induction w) auto

lemma split_on_append: "c \<notin> set w \<Longrightarrow> split_on c (w @ c # s) = w # split_on c s"
  by (induction w) auto

lemma split_join:
  "list_all (\<lambda>w. c \<notin> set w) ws \<Longrightarrow> ws \<noteq> [] \<Longrightarrow> split_on c (join_with [c] ws) = ws"
  by (induction "[c]" ws rule: join_with.induct) (auto simp: split_on_word split_on_append)

lemma split_on_map:
  "(\<And>x. f x = c \<longleftrightarrow> x = c) \<Longrightarrow> split_on c (map f s) = map (map f) (split_on c s)"
  by (induction s) (auto split: list.split)

lemma join_chars: "x \<in> set (join_with sep ws) \<Longrightarrow> x \<in> set sep \<or> (\<exists>w \<in> set ws. x \<in> set w)"
  by (induction sep ws rule: join_with.induct) auto

lemma join_sep: "2 \<le> length ws \<Longrightarrow> set sep \<subseteq> set (join_with sep ws)"
  by (induction sep ws rule: join_with.induct) auto

lemma partition_at_none: "c \<notin> set s \<Longrightarrow> partition_at c s = (s, False, [])"
  by (induction s) (auto simp: partition_at_def)

lemma partition_at_some: "c \<notin> set w \<Longrightarrow> partition_at c (w @ c # s) = (w, True, s)"
  by (induction w) (auto simp: partition_at_def)

lemma after_last_none: "c \<notin> set s \<Longrightarrow> after_last c s = s"
proof -
  assume "c \<notin> set s"
  then have "takeWhile (\<lambda>x. x \<noteq> c) (rev s) = rev s" by (auto simp: takeWhile_eq_all_conv)
  then show ?thesis unfolding after_last_def by (simp only: rev_rev_ident)
qed

section \<open>Facts about numerals and addresses\<close>

lemma code_char_of: "n < 256 \<Longrightarrow> code (char_of n) = n"
  by (simp add: code_def)

lemma digit_char_code: "d < 16 \<Longrightarrow> code (digit_char d) = (if d < 10 then 48 + d else 87 + d)"
  by (simp add: digit_char_def code_char_of)

lemma dec_str_digits: "list_all is_digit (dec_str n)"
proof (induction n rule: dec_str.induct)
  case (1 n)
  then show ?case
    by (subst dec_str.simps) (auto simp: digit_char_code is_digit_def[of "digit_char _"])
qed

lemma dec_str_nonempty: "dec_str n \<noteq> []"
  by (subst dec_str.simps) auto

lemma dec_str_value: "int_of_digits (dec_str n) = n"
proof (induction n rule: dec_str.induct)
  case (1 n)
  have d: "code (digit_char (n mod 10)) - 48 = n mod 10" by (simp add: digit_char_code)
  show ?case
  proof (cases "n < 10")
    case True
    then show ?thesis
      by (subst dec_str.simps) (simp add: int_of_digits_def digit_char_code)
  next
    case False
    then have "int_of_digits (dec_str (n div 10)) = n div 10" using 1 by simp
    then show ?thesis
      using False d by (subst dec_str.simps) (simp add: int_of_digits_def)
  qed
qed

lemma hex_str_chars: "c \<in> set (hex_str n) \<Longrightarrow> is_digit c \<or> is_lower c"
proof (induction n rule: hex_str.induct)
  case (1 n)
  then show ?case
    by (subst (asm) (2) hex_str.simps)
      (auto simp: is_digit_def is_lower_def digit_char_code split: if_splits)
qed

lemma to_base_Suc: "to_base b (Suc k) n = to_base b k (n div b) @ [n mod b]"
proof -
  have "rev [0..<Suc k] = map Suc (rev [0..<k]) @ [0]"
    by (subst upt_conv_Cons) (simp_all add: map_Suc_upt flip: rev_map)
  then show ?thesis
    unfolding to_base_def by (simp add: div_mult2_eq)
qed

lemma to_base_value: "n < b ^ k \<Longrightarrow> from_base b (to_base b k n) = n"
proof (induction k arbitrary: n)
  case 0
  then show ?case by (simp add: from_base_def to_base_def)
next
  case (Suc k)
  then have "n div b < b ^ k" by (simp add: less_mult_imp_div_less mult.commute)
  from Suc.IH[OF this] show ?case by (simp add: to_base_Suc) (simp add: from_base_def)
qed

end
