(* ===== verification/ScopeLock.thy ===== *)
theory ScopeLock
  imports Url
begin

text \<open>
  \<open>harness/scope_lock.py\<close>: one parser for URLs and one for the entries of \<open>allowed_hosts\<close>,
  and the membership check every sender asks. Strings are ASCII: for an ASCII host name the IDNA
  codec only bounds the lengths of its labels.
\<close>

section \<open>Host names\<close>

definition default_ports :: "(string \<times> nat) list" where
  "default_ports = [(''http'', 80), (''https'', 443)]"

text \<open>\<open>[a-z0-9](?:[a-z0-9-]{0,61}[a-z0-9])?\<close>\<close>

definition label_char :: "char \<Rightarrow> bool" where
  "label_char c = (is_lower c \<or> is_digit c)"

definition label_ok :: "string \<Rightarrow> bool" where
  "label_ok s = (s \<noteq> [] \<and> label_char (hd s) \<and> label_char (last s) \<and> length s \<le> 63 \<and>
     list_all (\<lambda>c. label_char c \<or> c = CHR ''-'') s)"

text \<open>\<open>value.encode("idna").decode("ascii")\<close> of an ASCII string that is not empty\<close>

definition idna_ascii :: "string \<Rightarrow> string option" where
  "idna_ascii s =
     (if \<not> list_all (\<lambda>c. code c < 128) s then None
      else (let labels = split_on CHR ''.'' s in
        if list_all (\<lambda>l. 0 < length l \<and> length l < 64) (butlast labels) \<and> length (last labels) < 64
        then Some s else None))"

definition host_name :: "string \<Rightarrow> string option" where
  "host_name v =
     (if v = [] \<or> List.member v CHR ''%'' then None
      else (case ip_address v of
         Some a \<Rightarrow> Some (ip_str a)
       | None \<Rightarrow>
           (case idna_ascii v of None \<Rightarrow> None
            | Some e \<Rightarrow>
                (let host = py_lower e;
                     labels = split_on CHR ''.'' (if ends_with ''.'' host then butlast host else host) in
                 if length host > 254 \<or> \<not> list_all label_ok labels then None else Some host))))"

section \<open>URLs\<close>

record scope_url =
  s_scheme :: string
  s_host :: string
  s_port :: nat
  s_explicit :: bool

definition origin :: "scope_url \<Rightarrow> string" where
  "origin u =
     (let host = (if List.member (s_host u) CHR '':'' then ''['' @ s_host u @ '']'' else s_host u);
          port = (if Some (s_port u) = dict_get default_ports (s_scheme u) then []
                  else CHR '':'' # dec_str (s_port u))
      in s_scheme u @ ''://'' @ host @ port)"

definition bad_char :: "char \<Rightarrow> bool" where
  "bad_char c = (is_space c \<or> code c < 32 \<or> code c = 127)"

definition parse_scope_url :: "string \<Rightarrow> scope_url option" where
  "parse_scope_url url =
     (if url = [] \<or> list_ex bad_char url \<or> List.member url CHR 0x5C then None
      else (case urlsplit url of None \<Rightarrow> None
       | Some p \<Rightarrow>
          (let scheme = py_lower (u_scheme p); netloc = u_netloc p in
           case dict_get default_ports scheme of None \<Rightarrow> None
           | Some dport \<Rightarrow>
              if netloc = [] \<or> List.member netloc CHR ''@'' \<or> ends_with '':'' netloc then None
              else (case (host_name (url_hostname netloc), url_port_of netloc) of
                 (_, BadPort) \<Rightarrow> None
               | (None, _) \<Rightarrow> None
               | (Some host, NoPort) \<Rightarrow>
                   Some \<lparr>s_scheme = scheme, s_host = host, s_port = dport, s_explicit = False\<rparr>
               | (Some host, Port n) \<Rightarrow>
                   if 1 \<le> n then
                     Some \<lparr>s_scheme = scheme, s_host = host, s_port = n, s_explicit = True\<rparr>
                   else None))))"

section \<open>Scope entries\<close>

record scope_entry =
  e_host :: "string option"
  e_scheme :: "string option"
  e_port :: "nat option"
  e_network :: "ip_network option"
  e_subdomains :: bool

definition host_entry :: "string \<Rightarrow> string option \<Rightarrow> nat option \<Rightarrow> bool \<Rightarrow> scope_entry" where
  "host_entry h scheme port subs =
     \<lparr>e_host = Some h, e_scheme = scheme, e_port = port, e_network = None, e_subdomains = subs\<rparr>"

text \<open>\<open>rest.isdigit()\<close> accepts ASCII digits only, the strings being ASCII.\<close>

definition port_ok :: "nat option \<Rightarrow> bool" where
  "port_ok p = (case p of None \<Rightarrow> True | Some n \<Rightarrow> 1 \<le> n \<and> n \<le> 65535)"

definition checked_entry :: "string option \<Rightarrow> nat option \<Rightarrow> scope_entry option" where
  "checked_entry host port = (case host of None \<Rightarrow> None
     | Some h \<Rightarrow> if h \<noteq> [] \<and> port_ok port then Some (host_entry h None port False) else None)"

definition strict_entry :: "string \<Rightarrow> scope_entry option" where
  "strict_entry value =
     (if List.member value CHR ''['' \<or> List.member value CHR '']'' then
        (if \<not> starts_with ''['' value \<or> \<not> List.member value CHR '']'' then None
         else (case partition_at CHR '']'' (tl value) of (raw_host, b, rest) \<Rightarrow>
            if \<not> starts_with '':'' rest \<or> \<not> all_digits (tl rest) then None
            else checked_entry (host_name raw_host) (Some (int_of_digits (tl rest)))))
      else if length (filter (\<lambda>c. c = CHR '':'') value) = 1 then
        (case partition_at CHR '':'' value of (raw_host, b, raw_port) \<Rightarrow>
           if \<not> all_digits raw_port then None
           else checked_entry (host_name raw_host) (Some (int_of_digits raw_port)))
      else if List.member value CHR '':'' then None
      else checked_entry (host_name value) None)"

definition extended_entry :: "string option \<Rightarrow> string \<Rightarrow> bool \<Rightarrow> scope_entry option" where
  "extended_entry scheme value wildcard =
     (if List.member value CHR ''['' \<or> List.member value CHR '']'' then None
      else (case urlsplit (''//'' @ value) of None \<Rightarrow> None
       | Some p \<Rightarrow>
          if u_path p \<noteq> [] \<or> u_query p \<noteq> [] \<or> u_fragment p \<noteq> [] \<or> List.member (u_netloc p) CHR ''@''
             \<or> u_netloc p = [] \<or> ends_with '':'' (u_netloc p) then None
          else (case (host_name (url_hostname (u_netloc p)), url_port_of (u_netloc p)) of
             (_, BadPort) \<Rightarrow> None
           | (None, _) \<Rightarrow> None
           | (Some host, port) \<Rightarrow>
               (let n = (case port of Port k \<Rightarrow> Some k | _ \<Rightarrow> None) in
                if host = [] \<or> \<not> port_ok n \<or> wildcard \<and> ip_address host \<noteq> None then None
                else Some (host_entry host scheme n wildcard)))))"

text \<open>The part of \<open>parse_scope_entry\<close> after the scheme.\<close>

definition entry_value :: "bool \<Rightarrow> string option \<Rightarrow> string \<Rightarrow> scope_entry option" where
  "entry_value extended scheme value =
     (if List.member value CHR ''/'' then
        (if \<not> extended then None
         else map_option (\<lambda>n. \<lparr>e_host = None, e_scheme = scheme, e_port = None,
                e_network = Some n, e_subdomains = False\<rparr>) (ip_network_of value))
      else (case ip_address value of
         Some a \<Rightarrow> Some (host_entry (ip_str a) scheme None False)
       | None \<Rightarrow>
          (let wildcard = starts_with ''*.'' value in
           if wildcard \<and> \<not> extended then None
           else (let v = (if wildcard then drop 2 value else value) in
             if List.member v CHR ''*'' then None
             else if \<not> extended then strict_entry v
             else extended_entry scheme v wildcard))))"

text \<open>\<open>value.split("://", 1)\<close>\<close>

fun split_marker :: "string \<Rightarrow> string \<Rightarrow> string \<times> string" where
  "split_marker p [] = ([], [])"
| "split_marker p (c # s) = (if starts_with p (c # s) then ([], drop (length p) (c # s))
     else (case split_marker p s of (a, b) \<Rightarrow> (c # a, b)))"

definition parse_scope_entry :: "bool \<Rightarrow> string option \<Rightarrow> scope_entry option" where
  "parse_scope_entry extended raw = (case raw of None \<Rightarrow> None
     | Some entry \<Rightarrow>
        if entry = [] \<or> entry \<noteq> py_strip entry \<or> list_ex bad_char entry
           \<or> List.member entry CHR 0x5C \<or> List.member entry CHR ''@'' then None
        else if contains_str ''://'' entry then
          (if \<not> extended then None
           else (case split_marker ''://'' entry of (scheme, value) \<Rightarrow>
              if dict_get default_ports (py_lower scheme) = None then None
              else entry_value extended (Some (py_lower scheme)) value))
        else entry_value extended None entry)"

section \<open>The check\<close>

text \<open>The configured value: absent, a container of strings, or anything else.\<close>

datatype scope_config = Unset | Entries "string list" | Malformed

definition configured_entries :: "scope_config \<Rightarrow> string option list" where
  "configured_entries v = (case v of Unset \<Rightarrow> [] | Entries es \<Rightarrow> map Some es | Malformed \<Rightarrow> [None])"

definition entry_admits :: "scope_url \<Rightarrow> scope_entry \<Rightarrow> bool" where
  "entry_admits target e =
     (if (case e_scheme e of None \<Rightarrow> False | Some s \<Rightarrow> s_scheme target \<noteq> s)
         \<or> (case e_port e of None \<Rightarrow> False | Some p \<Rightarrow> s_port target \<noteq> p \<or> \<not> s_explicit target)
      then False
      else (case e_network e of
         Some net \<Rightarrow> (case ip_address (s_host target) of None \<Rightarrow> False | Some a \<Rightarrow> in_network a net)
       | None \<Rightarrow>
          (case e_host e of None \<Rightarrow> False
           | Some h \<Rightarrow> s_host target = h \<or> e_subdomains e \<and> ends_with (CHR ''.'' # h) (s_host target))))"

definition scope_matches ::
  "string \<Rightarrow> scope_config \<Rightarrow> bool \<Rightarrow> bool \<Rightarrow> string list option \<Rightarrow> bool" where
  "scope_matches url allowed extended allow_unset allowed_schemes =
     (case parse_scope_url url of None \<Rightarrow> False
      | Some target \<Rightarrow>
         if (case allowed_schemes of None \<Rightarrow> False | Some ss \<Rightarrow> \<not> List.member ss (s_scheme target))
         then False
         else (let entries = configured_entries allowed in
           if entries = [] then allow_unset
           else list_ex (\<lambda>raw. case parse_scope_entry extended raw of
                  None \<Rightarrow> False | Some e \<Rightarrow> entry_admits target e) entries))"

definition host_of :: "string \<Rightarrow> string" where
  "host_of url = (case parse_scope_url url of None \<Rightarrow> [] | Some u \<Rightarrow> s_host u)"

definition host_in_scope :: "string \<Rightarrow> scope_config \<Rightarrow> bool \<Rightarrow> bool" where
  "host_in_scope url allowed active_mode = scope_matches url allowed False (\<not> active_mode) None"

section \<open>Canonical hosts\<close>

definition host_char :: "char \<Rightarrow> bool" where
  "host_char c = (label_char c \<or> List.member ''-.:'' c)"

lemma char_lower_dot: "char_lower c = CHR ''.'' \<longleftrightarrow> c = CHR ''.''"
  by (cases "c = CHR ''.''") (auto simp: char_lower_def Let_def dest: arg_cong[of _ _ "of_char :: char \<Rightarrow> nat"])

lemma ip_str_v4_chars: "x \<in> set (ip_str (V4 n)) \<Longrightarrow> is_digit x \<or> x = CHR ''.''"
  using join_chars[of x "''.''"] dec_str_digits by (fastforce simp: ip_str_def list_all_iff)

lemma compress_length: "length hs = 8 \<Longrightarrow> 2 \<le> length (compress_hextets hs)"
  by (cases "best_run hs") (auto simp: compress_hextets_def)

lemma ip_str_v6_colon: "CHR '':'' \<in> set (ip_str (V6 n z))"
proof -
  have "2 \<le> length (compress_hextets (to_base 65536 8 n))"
    by (rule compress_length) (simp add: to_base_def)
  from join_sep[OF this, of "'':''"] show ?thesis by (auto simp: ip_str_def)
qed

lemma compress_chars: "w \<in> set (compress_hextets hs) \<Longrightarrow> x \<in> set w \<Longrightarrow> is_digit x \<or> is_lower x"
  by (cases "best_run hs")
    (auto simp: compress_hextets_def dest: hex_str_chars in_set_takeD in_set_dropD split: if_splits)

lemma ip_str_v6_chars: "x \<in> set (ip_str (V6 n None)) \<Longrightarrow> is_digit x \<or> is_lower x \<or> x = CHR '':''"
  using join_chars[of x "'':''"] compress_chars by (fastforce simp: ip_str_def)

lemma ip_address_zone: "CHR ''%'' \<notin> set v \<Longrightarrow> ip_address v = Some (V6 n z) \<Longrightarrow> z = None"
  by (auto simp: ip_address_def partition_at_none split: option.splits if_splits)

lemma ip_str_nonempty: "ip_str a \<noteq> []"
proof (cases a)
  case (V4 n)
  have "set ''.'' \<subseteq> set (join_with ''.'' (map dec_str (to_base 256 4 n)))"
    by (rule join_sep) (simp add: to_base_def)
  then show ?thesis by (auto simp: V4 ip_str_def)
next
  case (V6 n z)
  then show ?thesis using ip_str_v6_colon[of n z] by auto
qed

lemma label_ok_chars: "label_ok w \<Longrightarrow> x \<in> set w \<Longrightarrow> label_char x \<or> x = CHR ''-''"
  by (auto simp: label_ok_def list_all_iff)

lemma host_name_chars:
  assumes "host_name v = Some h"
  shows "h \<noteq> [] \<and> (\<forall>x \<in> set h. host_char x)"
proof (cases "ip_address v")
  case (Some a)
  then have h: "h = ip_str a" and nz: "CHR ''%'' \<notin> set v"
    using assms by (auto simp: host_name_def split: if_splits)
  have "\<forall>x \<in> set h. host_char x"
  proof (cases a)
    case (V4 n)
    then show ?thesis using h ip_str_v4_chars by (auto simp: host_char_def label_char_def)
  next
    case (V6 n z)
    then have "z = None" using ip_address_zone[OF nz] Some by simp
    then show ?thesis using h V6 ip_str_v6_chars by (auto simp: host_char_def label_char_def)
  qed
  then show ?thesis using h ip_str_nonempty by simp
next
  case None
  then obtain e where e: "v \<noteq> []" "idna_ascii v = Some e" "h = py_lower e"
    and labels: "list_all label_ok (split_on CHR ''.'' (if ends_with ''.'' h then butlast h else h))"
    using assms by (auto simp: host_name_def Let_def split: if_splits option.splits)
  have "e = v" using e(2) by (auto simp: idna_ascii_def Let_def split: if_splits)
  have "host_char x" if x: "x \<in> set h" for x
  proof -
    have "x = CHR ''.'' \<or> x \<in> set (if ends_with ''.'' h then butlast h else h)"
    proof (cases "ends_with ''.'' h")
      case True
      then obtain b where "h = b @ ''.''"
        by (cases h rule: rev_cases) (auto simp: ends_with_def starts_with_def)
      then show ?thesis using x True by auto
    qed (use x in simp)
    with split_on_cover[of x "if ends_with ''.'' h then butlast h else h" "CHR ''.''"] labels
    show ?thesis
      by (auto simp: list_all_iff host_char_def dest: label_ok_chars)
  qed
  with e \<open>e = v\<close> show ?thesis by (auto simp: py_lower_def)
qed

section \<open>What an accepted URL is\<close>

lemma parse_scope_url_cases:
  assumes "parse_scope_url url = Some s"
  obtains p dport where "\<not> list_ex bad_char url" and "CHR 0x5C \<notin> set url" and "urlsplit url = Some p"
    and "dict_get default_ports (s_scheme s) = Some dport" and "s_scheme s = py_lower (u_scheme p)"
    and "CHR ''@'' \<notin> set (u_netloc p)" and "host_name (url_hostname (u_netloc p)) = Some (s_host s)"
    and "(url_port_of (u_netloc p) = NoPort \<and> s_port s = dport \<and> \<not> s_explicit s)
      \<or> (url_port_of (u_netloc p) = Port (s_port s) \<and> 1 \<le> s_port s \<and> s_explicit s)"
  using assms
  by (auto simp: parse_scope_url_def Let_def split: if_splits option.splits url_port.splits)

lemma url_port_bound: "url_port_of n = Port k \<Longrightarrow> k \<le> 65535"
  by (auto simp: url_port_of_def split: option.splits if_splits)

lemma default_ports_cases:
  "dict_get default_ports s = Some d \<Longrightarrow> s = ''http'' \<and> d = 80 \<or> s = ''https'' \<and> d = 443"
  by (auto simp: default_ports_def split: if_splits)

section \<open>What a strict entry is\<close>

text \<open>An exact host, perhaps with one port: no scheme, no network, no subdomains.\<close>

definition exact_form :: "scope_entry \<Rightarrow> bool" where
  "exact_form e \<longleftrightarrow> e_host e \<noteq> None \<and> e_scheme e = None \<and> e_network e = None \<and>
     \<not> e_subdomains e \<and> port_ok (e_port e)"

lemma checked_entry_form: "checked_entry host port = Some e \<Longrightarrow> exact_form e"
  by (auto simp: checked_entry_def exact_form_def host_entry_def split: option.splits if_splits)

lemma strict_entry_form: "strict_entry v = Some e \<Longrightarrow> exact_form e"
  by (auto simp: strict_entry_def split: if_splits prod.splits dest: checked_entry_form)

lemma strict_parse_form:
  assumes "parse_scope_entry False raw = Some e"
  shows "exact_form e"
proof -
  obtain v where "entry_value False None v = Some e"
    using assms by (auto simp: parse_scope_entry_def split: option.splits if_splits)
  moreover have "exact_form (host_entry h None None False)" for h
    by (simp add: exact_form_def host_entry_def port_ok_def)
  ultimately show ?thesis
    by (auto simp: entry_value_def Let_def split: option.splits if_splits dest: strict_entry_form)
qed

section \<open>Canonical hosts are their own canonical form\<close>

lemma char_lower_digit: "is_digit (char_lower c) = is_digit c"
  by (auto simp: char_lower_def Let_def is_digit_def code_def)

lemma char_lower_of_digit: "is_digit c \<Longrightarrow> char_lower c = c"
  by (auto simp: char_lower_def Let_def is_digit_def code_def)

lemma code_char_lower: "code c < 128 \<Longrightarrow> code (char_lower c) < 128"
  by (auto simp: char_lower_def Let_def code_def)

lemma parse_octet_lower: "parse_octet (map char_lower w) = parse_octet w"
proof (cases "all_digits w")
  case True
  then have "map char_lower w = w"
    by (auto simp: all_digits_def list_all_iff char_lower_of_digit map_idI)
  then show ?thesis by simp
next
  case False
  then have "\<not> all_digits (map char_lower w)"
    by (auto simp: all_digits_def list_all_iff char_lower_digit)
  with False show ?thesis by (simp add: parse_octet_def)
qed

lemma parse_v4_lower: "parse_v4 (py_lower w) = parse_v4 w"
proof -
  have "split_on CHR ''.'' (map char_lower w) = map (map char_lower) (split_on CHR ''.'' w)"
    by (rule split_on_map) (simp add: char_lower_dot)
  then show ?thesis by (simp add: parse_v4_def py_lower_def Let_def comp_def parse_octet_lower)
qed

lemma no_colon_not_v6: "CHR '':'' \<notin> set w \<Longrightarrow> parse_v6 w = None"
  by (simp add: parse_v6_def v6_parts_def split_on_word)

lemma name_address:
  assumes "CHR ''%'' \<notin> set w" and "CHR '':'' \<notin> set w"
  shows "ip_address w = (if CHR ''/'' \<in> set w then None else map_option V4 (parse_v4 w))"
  using assms by (simp add: ip_address_def partition_at_none no_colon_not_v6 split: option.split)

lemma dec_str_head: "n \<noteq> 0 \<Longrightarrow> hd (dec_str n) \<noteq> CHR ''0''"
proof (induction n rule: dec_str.induct)
  case (1 n)
  show ?case
  proof (cases "n < 10")
    case True
    then have "code (hd (dec_str n)) = 48 + n"
      by (subst dec_str.simps) (simp add: digit_char_code)
    then show ?thesis using "1.prems" by (auto simp: code_def)
  next
    case False
    then show ?thesis using 1 by (subst dec_str.simps) (simp add: dec_str_nonempty)
  qed
qed

lemma dec_str_length: "n < 1000 \<Longrightarrow> length (dec_str n) \<le> 3"
  by (simp add: dec_str.simps[of n] dec_str.simps[of "n div 10"] dec_str.simps[of "n div 10 div 10"])

lemma dec_str_zero: "dec_str 0 = ''0''"
  by code_simp

lemma parse_octet_dec: "d < 256 \<Longrightarrow> parse_octet (dec_str d) = Some d"
proof (cases "d = 0")
  case True
  have "parse_octet (dec_str 0) = Some 0" by code_simp
  with True show ?thesis by simp
next
  case False
  assume "d < 256"
  with False dec_str_length[of d] dec_str_head[of d] show ?thesis
    by (simp add: parse_octet_def all_digits_def dec_str_digits dec_str_nonempty dec_str_value)
qed

lemma all_some_map: "(\<And>x. x \<in> set xs \<Longrightarrow> f x = Some (g x)) \<Longrightarrow> all_some (map f xs) = Some (map g xs)"
  by (induction xs) auto

lemma parse_v4_str: "n < 2 ^ 32 \<Longrightarrow> parse_v4 (ip_str (V4 n)) = Some n"
proof -
  assume n: "n < 2 ^ 32"
  let ?ds = "to_base 256 4 n"
  have "list_all (\<lambda>w. CHR ''.'' \<notin> set w) (map dec_str ?ds)"
    using dec_str_digits by (fastforce simp: list_all_iff is_digit_def code_def)
  moreover have "map dec_str ?ds \<noteq> []" by (simp add: to_base_def)
  ultimately have "split_on CHR ''.'' (ip_str (V4 n)) = map dec_str ?ds"
    unfolding ip_str_def ip_addr.case by (rule split_join)
  moreover have "all_some (map (parse_octet \<circ> dec_str) ?ds) = Some (map (\<lambda>d. d) ?ds)"
    by (rule all_some_map) (auto simp: to_base_def parse_octet_dec)
  moreover have "from_base 256 ?ds = n" by (rule to_base_value) (use n in simp)
  moreover have "length ?ds = 4" by (simp add: to_base_def)
  ultimately show ?thesis by (simp add: parse_v4_def)
qed

lemma from_base_bound: "list_all (\<lambda>d. d < b) ds \<Longrightarrow> from_base b ds < b ^ length ds"
proof (induction ds rule: rev_induct)
  case (snoc d ds)
  then have "from_base b ds + 1 \<le> b ^ length ds" "d < b" by auto
  then have "from_base b ds * b + d < (from_base b ds + 1) * b" by simp
  also have "\<dots> \<le> b ^ length ds * b" by (rule mult_le_mono1) fact
  finally show ?case by (simp add: from_base_def mult.commute)
qed (simp add: from_base_def)

lemma all_some_length: "all_some xs = Some ys \<Longrightarrow> length ys = length xs \<and> map Some ys = xs"
  by (induction xs arbitrary: ys) (auto split: option.splits)

lemma parse_v4_bound: "parse_v4 s = Some n \<Longrightarrow> n < 2 ^ 32"
proof -
  assume "parse_v4 s = Some n"
  then obtain ds where ds: "all_some (map parse_octet (split_on CHR ''.'' s)) = Some ds"
    "n = from_base 256 ds" "length (split_on CHR ''.'' s) = 4"
    by (auto simp: parse_v4_def Let_def split: if_splits)
  have l: "length ds = 4" "map Some ds = map parse_octet (split_on CHR ''.'' s)"
    using all_some_length[OF ds(1)] ds(3) by auto
  have "d < 256" if "d \<in> set ds" for d
  proof -
    have "Some d \<in> set (map parse_octet (split_on CHR ''.'' s))"
      using that unfolding l(2)[symmetric] by simp
    then show ?thesis by (auto simp: parse_octet_def split: if_splits)
  qed
  with from_base_bound[of 256 ds] ds(2) l(1) show ?thesis by (simp add: list_all_iff)
qed

lemma idna_lower: "idna_ascii w = Some e \<Longrightarrow> idna_ascii (py_lower w) = Some (py_lower w)"
proof -
  assume a: "idna_ascii w = Some e"
  have s: "split_on CHR ''.'' (map char_lower w) = map (map char_lower) (split_on CHR ''.'' w)"
    by (rule split_on_map) (simp add: char_lower_dot)
  have ne: "split_on CHR ''.'' w \<noteq> []" by (rule split_on_nonempty)
  show ?thesis
    using a unfolding idna_ascii_def py_lower_def Let_def s
    by (auto simp: list_all_iff code_char_lower last_map[OF ne] simp flip: map_butlast
        split: if_splits)
qed

lemma host_name_fix:
  assumes h: "host_name v = Some h" and nc: "CHR '':'' \<notin> set h"
  shows "host_name h = Some h"
proof (cases "ip_address v")
  case (Some a)
  then have ha: "h = ip_str a" and nz: "CHR ''%'' \<notin> set v"
    using h by (auto simp: host_name_def split: if_splits)
  then obtain n where a: "a = V4 n" using nc ip_str_v6_colon by (cases a) auto
  then have "parse_v4 v = Some n"
    using Some by (auto simp: ip_address_def split: if_splits option.splits prod.splits)
  from parse_v4_str[OF parse_v4_bound[OF this]] have p: "parse_v4 h = Some n" by (simp add: ha a)
  have chars: "\<forall>x \<in> set h. host_char x" "h \<noteq> []" using host_name_chars[OF h] by auto
  then have "CHR ''%'' \<notin> set h" "CHR ''/'' \<notin> set h"
    by (auto simp: host_char_def label_char_def is_lower_def is_digit_def code_def)
  with p nc chars(2) show ?thesis by (simp add: host_name_def name_address) (simp add: ha a)
next
  case None
  then obtain e where e: "v \<noteq> []" "CHR ''%'' \<notin> set v" "idna_ascii v = Some e" "h = py_lower e"
    and labels: "list_all label_ok (split_on CHR ''.'' (if ends_with ''.'' h then butlast h else h))"
    and len: "length h \<le> 254"
    using h by (auto simp: host_name_def Let_def split: if_splits option.splits)
  have ev: "e = v" using e(3) by (auto simp: idna_ascii_def Let_def split: if_splits)
  have chars: "\<forall>x \<in> set h. host_char x" "h \<noteq> []" using host_name_chars[OF h] by auto
  then have nz: "CHR ''%'' \<notin> set h" "CHR ''/'' \<notin> set h"
    by (auto simp: host_char_def label_char_def is_lower_def is_digit_def code_def)
  have lower: "char_lower c = x \<Longrightarrow> \<not> is_lower x \<Longrightarrow> c = x" for c x
    by (auto simp: char_lower_def Let_def is_lower_def code_def split: if_splits)
  have "CHR ''/'' \<notin> set v" using nz(2) e(4) ev
    by (force simp: py_lower_def char_lower_def)
  moreover have "CHR '':'' \<notin> set v" using nc e(4) ev
    by (force simp: py_lower_def char_lower_def)
  ultimately have "parse_v4 v = None" using None e(2) by (simp add: name_address)
  then have "parse_v4 h = None" using e(4) ev by (simp add: parse_v4_lower)
  then have "ip_address h = None" using nz nc by (simp add: name_address)
  moreover have "idna_ascii h = Some h" using idna_lower[OF e(3)] e(4) ev by simp
  moreover have "py_lower h = h" using e(4) by (simp add: py_lower_idem)
  ultimately show ?thesis using labels len nz chars(2) by (simp add: host_name_def Let_def)
qed

section \<open>Properties\<close>

lemma accepted_url_lemma:
  assumes "parse_scope_url url = Some s"
  shows "s_scheme s \<in> {''http'', ''https''} \<and> 1 \<le> s_port s \<and> s_port s \<le> 65535
    \<and> (\<not> s_explicit s \<longrightarrow> dict_get default_ports (s_scheme s) = Some (s_port s))
    \<and> s_host s \<noteq> [] \<and> (\<forall>x \<in> set (s_host s). host_char x)
    \<and> (\<forall>p. urlsplit url = Some p \<longrightarrow> CHR ''@'' \<notin> set (u_netloc p))"
proof -
  obtain p dport where p: "urlsplit url = Some p" "CHR ''@'' \<notin> set (u_netloc p)"
    and d: "dict_get default_ports (s_scheme s) = Some dport"
    and h: "host_name (url_hostname (u_netloc p)) = Some (s_host s)"
    and port: "(url_port_of (u_netloc p) = NoPort \<and> s_port s = dport \<and> \<not> s_explicit s)
      \<or> (url_port_of (u_netloc p) = Port (s_port s) \<and> 1 \<le> s_port s \<and> s_explicit s)"
    using assms by (rule parse_scope_url_cases)
  show ?thesis
    using host_name_chars[OF h] default_ports_cases[OF d] port d p
      url_port_bound[of "u_netloc p" "s_port s"] by auto
qed

text \<open>C7: An accepted URL has one of the two web schemes, a port between 1 and 65535 that is the
  scheme's own where none was written, and a host in canonical spelling: not empty, made of lower
  case letters, digits, hyphens, dots and colons only, so that no user info, zone, bracket, escape
  or upper case letter gets past the parser; and its authority has no user info at all.\<close>

theorem accepted_url_canonical:
  assumes "parse_scope_url url = Some s"
  shows "s_scheme s \<in> {''http'', ''https''} \<and> 1 \<le> s_port s \<and> s_port s \<le> 65535
    \<and> (\<not> s_explicit s \<longrightarrow> dict_get default_ports (s_scheme s) = Some (s_port s))
    \<and> s_host s \<noteq> [] \<and> (\<forall>x \<in> set (s_host s). host_char x)
    \<and> (\<forall>p. urlsplit url = Some p \<longrightarrow> CHR ''@'' \<notin> set (u_netloc p))"
  using assms by (rule accepted_url_lemma)

text \<open>C6: The exact-host profile: a URL is in scope exactly when it parses and either nothing is
  configured and the run is passive, or one configured entry, read strictly, names this very host
  and, where it names a port, the URL spells out this very port. Wildcards, networks, schemes and
  suffixes never match; with an active run and no scope, or with a malformed scope value, nothing
  does.\<close>

theorem host_in_scope_exact:
  "(host_in_scope url allowed active \<longleftrightarrow>
     (\<exists>s. parse_scope_url url = Some s \<and>
        (configured_entries allowed = [] \<and> \<not> active
         \<or> (\<exists>raw \<in> set (configured_entries allowed). \<exists>e. parse_scope_entry False raw = Some e \<and>
              e_host e = Some (s_host s) \<and>
              (e_port e = None \<or> e_port e = Some (s_port s) \<and> s_explicit s)))))
   \<and> \<not> host_in_scope url Malformed active"
proof -
  have "(case parse_scope_entry False raw of None \<Rightarrow> False | Some e \<Rightarrow> entry_admits s e) \<longleftrightarrow>
      (\<exists>e. parse_scope_entry False raw = Some e \<and> e_host e = Some (s_host s) \<and>
         (e_port e = None \<or> e_port e = Some (s_port s) \<and> s_explicit s))" for raw s
  proof (cases "parse_scope_entry False raw")
    case (Some e)
    then have "exact_form e" by (rule strict_parse_form)
    with Some show ?thesis
      by (cases "e_port e") (auto simp: entry_admits_def exact_form_def)
  qed simp
  note eq = this
  have m: "\<not> host_in_scope url Malformed active"
    by (simp add: host_in_scope_def scope_matches_def configured_entries_def parse_scope_entry_def
        split: option.split)
  then show ?thesis
    unfolding host_in_scope_def scope_matches_def eq list_ex_iff Let_def option.case if_False
    by (cases "parse_scope_url url"; cases "configured_entries allowed = []") auto
qed

lemma host_char_not:
  "host_char x \<Longrightarrow> x \<noteq> CHR ''@'' \<and> x \<noteq> CHR ''/'' \<and> x \<noteq> CHR ''%'' \<and> x \<noteq> CHR ''['' \<and>
     x \<noteq> CHR '']'' \<and> x \<noteq> CHR ''?'' \<and> x \<noteq> CHR ''#'' \<and> x \<noteq> CHR 0x5C \<and> \<not> bad_char x"
  by (auto simp: host_char_def label_char_def is_lower_def is_digit_def code_def bad_char_def
      is_space_def Let_def)

lemma digit_host_char: "is_digit x \<Longrightarrow> host_char x"
  by (simp add: host_char_def label_char_def)

definition port_suffix :: "scope_url \<Rightarrow> string" where
  "port_suffix s = (if Some (s_port s) = dict_get default_ports (s_scheme s) then []
     else CHR '':'' # dec_str (s_port s))"

lemma port_suffix_chars: "x \<in> set (port_suffix s) \<Longrightarrow> host_char x"
  using dec_str_digits[of "s_port s"]
  by (auto simp: port_suffix_def list_all_iff digit_host_char split: if_splits)
    (simp add: host_char_def)

lemma urlsplit_origin:
  assumes sch: "sch = ''http'' \<or> sch = ''https''" and n: "\<forall>x \<in> set n. host_char x"
  shows "urlsplit (sch @ ''://'' @ n) = Some \<lparr>u_scheme = sch, u_netloc = n, u_path = [],
    u_query = [], u_fragment = []\<rparr>"
proof -
  have "partition_at CHR '':'' (sch @ CHR '':'' # ''//'' @ n) = (sch, True, ''//'' @ n)"
    by (rule partition_at_some) (use sch in auto)
  moreover have "list_all is_scheme_char sch \<and> is_alpha (hd sch) \<and> py_lower sch = sch \<and> sch \<noteq> []"
    using sch by (elim disjE; hypsubst; code_simp)
  ultimately have sp: "split_scheme (sch @ ''://'' @ n) = (sch, ''//'' @ n)"
    by (simp add: split_scheme_def)
  have "\<forall>x \<in> set n. not_delim x" using n host_char_not by (auto simp: not_delim_def)
  then have "takeWhile not_delim n = n" "dropWhile not_delim n = []"
    by (auto simp: takeWhile_eq_all_conv)
  then have "split_netloc (''//'' @ n) = (n, [])"
    by (simp add: split_netloc_def starts_with_def)
  moreover have "brackets_ok n" using n host_char_not by (auto simp: brackets_ok_def)
  ultimately show ?thesis using sp by (simp add: urlsplit_def partition_at_none)
qed

lemma hostinfo_plain:
  assumes h: "\<forall>x \<in> set h. host_char x" "CHR '':'' \<notin> set h" and p: "\<forall>x \<in> set p. is_digit x"
  shows "hostinfo h = (h, None)"
    and "hostinfo (h @ CHR '':'' # p) = (h, if p = [] then None else Some p)"
proof -
  have "CHR ''@'' \<notin> set h" "CHR ''['' \<notin> set h" using h host_char_not by auto
  moreover have "CHR ''@'' \<notin> set p" "CHR ''['' \<notin> set p"
    using p by (auto simp: is_digit_def code_def)
  ultimately show "hostinfo h = (h, None)"
    and "hostinfo (h @ CHR '':'' # p) = (h, if p = [] then None else Some p)"
    using h(2) by (simp_all add: hostinfo_def after_last_none partition_at_none partition_at_some)
qed

lemma py_lower_host: "host_name v = Some h \<Longrightarrow> CHR '':'' \<notin> set h \<Longrightarrow> py_lower h = h"
proof -
  assume h: "host_name v = Some h" and nc: "CHR '':'' \<notin> set h"
  have "char_lower x = x" if "x \<in> set h" for x
    using host_name_chars[OF h] that
    by (auto simp: host_char_def label_char_def char_lower_def Let_def is_lower_def is_digit_def
        code_def)
  then show ?thesis by (simp add: py_lower_def map_idI)
qed

lemma origin_split: "CHR '':'' \<notin> set (s_host s) \<Longrightarrow> origin s = s_scheme s @ ''://'' @ (s_host s @ port_suffix s)"
  by (simp add: origin_def port_suffix_def)

text \<open>The canonical origin of an accepted URL (host name or IPv4 address) is accepted again and
  has the same scheme, host and port; only the port it leaves implicit, the scheme's own, is no
  longer explicit.\<close>

theorem origin_round_trip:
  assumes s: "parse_scope_url url = Some s" and nc: "CHR '':'' \<notin> set (s_host s)"
  shows "parse_scope_url (origin s) =
    Some (s\<lparr>s_explicit := (dict_get default_ports (s_scheme s) \<noteq> Some (s_port s))\<rparr>)"
proof -
  obtain p dport where "urlsplit url = Some p"
    and d: "dict_get default_ports (s_scheme s) = Some dport"
    and h: "host_name (url_hostname (u_netloc p)) = Some (s_host s)"
    using parse_scope_url_cases[OF s] by blast
  note acc = accepted_url_lemma[OF s]
  let ?n = "s_host s @ port_suffix s"
  have sch: "s_scheme s = ''http'' \<or> s_scheme s = ''https''" using acc by auto
  have chars: "\<forall>x \<in> set ?n. host_char x" using acc port_suffix_chars by auto
  have us: "urlsplit (origin s) = Some \<lparr>u_scheme = s_scheme s, u_netloc = ?n, u_path = [],
      u_query = [], u_fragment = []\<rparr>"
    unfolding origin_split[OF nc] by (rule urlsplit_origin[OF sch chars])
  have digits: "\<forall>x \<in> set (dec_str (s_port s)). is_digit x"
    using dec_str_digits[of "s_port s"] by (simp add: list_all_iff)
  have hi: "hostinfo ?n = (s_host s, if Some (s_port s) = dict_get default_ports (s_scheme s)
      then None else Some (dec_str (s_port s)))"
    using hostinfo_plain[OF _ nc digits] acc by (simp add: port_suffix_def dec_str_nonempty)
  have "CHR ''%'' \<notin> set (s_host s)" using acc host_char_not by auto
  then have uh: "url_hostname ?n = s_host s"
    by (simp add: url_hostname_def hi partition_at_none py_lower_host[OF h nc])
  have up: "url_port_of ?n = (if Some (s_port s) = dict_get default_ports (s_scheme s)
      then NoPort else Port (s_port s))"
    using acc digits by (simp add: url_port_of_def hi all_digits_def list_all_iff dec_str_nonempty
        dec_str_value)
  have low: "py_lower (s_scheme s) = s_scheme s"
    using sch by (elim disjE) (simp_all, code_simp+)
  have url: "origin s \<noteq> []" "\<not> list_ex bad_char (origin s)" "CHR 0x5C \<notin> set (origin s)"
  proof -
    have "\<forall>x \<in> set (s_scheme s @ ''://''). \<not> bad_char x \<and> x \<noteq> CHR 0x5C"
      using sch by (elim disjE) (simp_all add: bad_char_def is_space_def code_def Let_def)
    then show "\<not> list_ex bad_char (origin s)" "CHR 0x5C \<notin> set (origin s)"
      using chars host_char_not unfolding origin_split[OF nc] list_ex_iff by auto
    show "origin s \<noteq> []" unfolding origin_split[OF nc] by simp
  qed
  have last: "\<not> ends_with '':'' ?n"
  proof -
    have "is_digit (last (dec_str (s_port s)))" using digits dec_str_nonempty last_in_set by blast
    then have "last (dec_str (s_port s)) \<noteq> CHR '':''" by (auto simp: is_digit_def code_def)
    moreover have "s_host s \<noteq> []" using acc by blast
    moreover from this have "last (s_host s) \<noteq> CHR '':''" using nc last_in_set by metis
    ultimately have "last ?n \<noteq> CHR '':''"
      by (simp add: port_suffix_def dec_str_nonempty last_append)
    then show ?thesis using acc by (cases ?n rule: rev_cases) (auto simp: ends_with_def starts_with_def)
  qed
  have "CHR ''@'' \<notin> set ?n" using chars host_char_not by auto
  then show ?thesis
    using url last acc d
    by (simp add: parse_scope_url_def us low uh up Let_def host_name_fix[OF h nc])
qed

section \<open>Concrete runs\<close>

lemma sample_url: "parse_scope_url ''HTTP://Shop.Example/cart?x'' =
    Some \<lparr>s_scheme = ''http'', s_host = ''shop.example'', s_port = 80, s_explicit = False\<rparr>"
  by code_simp

theorem accepted_url_canonical_witness:
  "list_all host_char ''shop.example''"
  using accepted_url_canonical[OF sample_url] unfolding list_all_iff by simp

theorem host_in_scope_exact_witness:
  "host_in_scope ''HTTP://Shop.Example/cart?x'' (Entries [''a.test'', ''shop.example'']) True
   \<and> \<not> host_in_scope ''HTTP://Shop.Example/cart?x'' (Entries [''example'', ''*.example'']) True"
proof
  have e: "parse_scope_entry False (Some ''shop.example'') =
      Some (host_entry ''shop.example'' None None False)" by code_simp
  show "host_in_scope ''HTTP://Shop.Example/cart?x'' (Entries [''a.test'', ''shop.example'']) True"
    using host_in_scope_exact[THEN conjunct1] e
    by (auto simp: sample_url configured_entries_def host_entry_def)
  have "parse_scope_entry False (Some ''example'') = Some (host_entry ''example'' None None False)"
    "parse_scope_entry False (Some ''*.example'') = None" by code_simp+
  then show "\<not> host_in_scope ''HTTP://Shop.Example/cart?x'' (Entries [''example'', ''*.example'']) True"
    using host_in_scope_exact[THEN conjunct1]
    by (simp add: sample_url configured_entries_def host_entry_def)
qed

theorem origin_round_trip_witness:
  "parse_scope_url (origin \<lparr>s_scheme = ''http'', s_host = ''shop.example'', s_port = 80,
      s_explicit = False\<rparr>) =
    Some \<lparr>s_scheme = ''http'', s_host = ''shop.example'', s_port = 80, s_explicit = False\<rparr>"
proof -
  have "dict_get default_ports ''http'' = Some 80" by code_simp
  with origin_round_trip[OF sample_url] show ?thesis by simp
qed

end
