(* ===== verification/RequestPolicy.thy ===== *)
theory RequestPolicy
  imports ScopeLock
begin

text \<open>
  \<open>harness/target_request_policy.py\<close>: which target URLs may not be fetched at all. Paths are
  compared in a canonical form, reached by decoding at most four times and normalising.
\<close>

section \<open>Canonical paths\<close>

text \<open>\<open>re.search(r'%(?![0-9a-fA-F]{2})', path)\<close>\<close>

fun bad_percent :: "string \<Rightarrow> bool" where
  "bad_percent [] = False"
| "bad_percent (c # s) =
     (c = CHR ''%'' \<and> (case s of a # b # s' \<Rightarrow> \<not> (is_hex a \<and> is_hex b) | _ \<Rightarrow> True) \<or> bad_percent s)"

text \<open>The loop, with the number of rounds left.\<close>

fun decode_rounds :: "nat \<Rightarrow> string \<Rightarrow> string option" where
  "decode_rounds 0 path = None"
| "decode_rounds (Suc n) path =
     (if bad_percent path then None
      else (case unquote_strict path of
          None \<Rightarrow> None
        | Some decoded \<Rightarrow> if decoded = path then Some path else decode_rounds n decoded))"

definition is_control :: "char \<Rightarrow> bool" where
  "is_control c = (code c < 32 \<or> code c = 127)"

definition lstrip_slash :: "string \<Rightarrow> string" where
  "lstrip_slash s = dropWhile (\<lambda>c. c = CHR ''/'') s"

definition canonical_path :: "string \<Rightarrow> string option" where
  "canonical_path path =
     (if \<not> starts_with ''/'' path \<or> List.member path CHR 0x5C then None
      else (case decode_rounds 4 path of
          None \<Rightarrow> None
        | Some p \<Rightarrow>
            if List.member p CHR 0x5C \<or> list_ex is_control p then None
            else Some (CHR ''/'' # lstrip_slash (normpath (CHR ''/'' # lstrip_slash p)))))"

section \<open>The policy\<close>

record request_policy =
  captured_only :: bool
  excluded_path_prefixes :: "string list"

definition default_policy :: request_policy where
  "default_policy = \<lparr>captured_only = False, excluded_path_prefixes = []\<rparr>"

datatype policy_error = ValueError string

text \<open>\<open>path.rstrip('/') or '/'\<close>\<close>

definition rstrip_slash :: "string \<Rightarrow> string" where
  "rstrip_slash s = (let r = rev (dropWhile (\<lambda>c. c = CHR ''/'') (rev s)) in if r = [] then ''/'' else r)"

definition normalize_prefix :: "json \<Rightarrow> policy_error + string" where
  "normalize_prefix p = (case p of
     JStr s \<Rightarrow>
       (if List.member s CHR ''?'' \<or> List.member s CHR ''#''
        then Inl (ValueError ''excluded path prefix must be an absolute path'')
        else (case canonical_path s of
            None \<Rightarrow> Inl (ValueError ''excluded path prefix is malformed'')
          | Some c \<Rightarrow> Inr (rstrip_slash c)))
   | _ \<Rightarrow> Inl (ValueError ''excluded path prefix must be an absolute path''))"

fun normalize_all :: "json list \<Rightarrow> policy_error + string list" where
  "normalize_all [] = Inr []"
| "normalize_all (p # ps) = (case normalize_prefix p of
     Inl e \<Rightarrow> Inl e
   | Inr s \<Rightarrow> (case normalize_all ps of Inl e \<Rightarrow> Inl e | Inr ss \<Rightarrow> Inr (s # ss)))"

definition get_or :: "(string \<times> json) list \<Rightarrow> string \<Rightarrow> json \<Rightarrow> json" where
  "get_or d k v = option_or (dict_get d k) v"

definition policy_from_config :: "(string \<times> json) list \<Rightarrow> policy_error + request_policy" where
  "policy_from_config config = (case get_or config ''transport'' (JObj []) of
     JObj transport \<Rightarrow>
       (case get_or transport ''captured_only'' (JBool False) of
          JBool captured \<Rightarrow>
            (case get_or config ''operating_profile'' (JStr ''none'') of
               JStr profile \<Rightarrow>
                 (case get_or transport ''excluded_path_prefixes'' (JList []) of
                    JList pfxs \<Rightarrow>
                      (case normalize_all pfxs of
                         Inl e \<Rightarrow> Inl e
                       | Inr normalized \<Rightarrow>
                           Inr \<lparr>captured_only =
                                  (captured \<or> py_lower (py_strip profile) = ''passive-only''),
                                excluded_path_prefixes = sort (remdups normalized)\<rparr>)
                  | _ \<Rightarrow> Inl (ValueError ''transport.excluded_path_prefixes must be a list''))
             | _ \<Rightarrow> Inl (ValueError ''operating_profile must be a string''))
        | _ \<Rightarrow> Inl (ValueError ''transport.captured_only must be a boolean''))
   | _ \<Rightarrow> Inl (ValueError ''transport must be a mapping''))"

definition excluded :: "request_policy \<Rightarrow> string \<Rightarrow> bool" where
  "excluded pol path = list_ex (\<lambda>p. p = ''/'' \<or> path = p \<or> starts_with (p @ ''/'') path)
     (excluded_path_prefixes pol)"

definition denial_reason :: "request_policy \<Rightarrow> string \<Rightarrow> string" where
  "denial_reason pol url =
     (if captured_only pol
      then ''captured-only operation: target fetching is blocked; supplied traffic remains untested''
      else if parse_scope_url url = None then ''malformed target URL''
      else (case (case urlsplit url of None \<Rightarrow> None
                  | Some p \<Rightarrow> canonical_path (list_or (u_path p) ''/'')) of
          None \<Rightarrow> ''ambiguous target path''
        | Some path \<Rightarrow>
            if excluded pol path then ''target endpoint excluded by path policy; no request sent''
            else []))"

definition policy_status :: "request_policy \<Rightarrow> (string \<times> json) list" where
  "policy_status pol =
     [(''captured_only'', JBool (captured_only pol)),
      (''target_fetching'', JStr (if captured_only pol then ''blocked''
                                  else ''subject to scope/gate/endpoint policy'')),
      (''excluded_path_prefixes'', JList (map JStr (excluded_path_prefixes pol))),
      (''capture_analysis'',
        JStr ''supplied data only; blocked fetching is not a negative test result'')]"

section \<open>What a canonical path looks like\<close>

text \<open>A path that decoding does not change, and that has no stray percent sign, has none at all.\<close>

lemma unquote_bytes_length: "length (unquote_bytes s) \<le> length s"
  by (induction s rule: unquote_bytes.induct) auto

lemma unquote_bytes_shrinks:
  "\<not> bad_percent s \<Longrightarrow> CHR ''%'' \<in> set s \<Longrightarrow> length (unquote_bytes s) < length s"
proof (induction s rule: unquote_bytes.induct)
  case (1 p a b rest)
  show ?case
  proof (cases "p = CHR ''%'' \<and> is_hex a \<and> is_hex b")
    case True
    then show ?thesis using unquote_bytes_length[of rest] by simp
  next
    case False
    with 1 show ?thesis by auto
  qed
qed (auto split: list.splits)

lemma concat_ascii_runs: "concat (ascii_runs s) = s"
  by (induction s rule: ascii_runs.induct) (auto split: list.split if_splits)

lemma hex_not_percent: "is_hex c \<Longrightarrow> c \<noteq> CHR ''%'' \<and> code c < 128"
  by (auto simp: is_hex_def hex_value_def Let_def is_digit_def code_def split: if_splits)

lemma ascii_runs_head: "\<exists>w ws. ascii_runs (c # s) = (c # w) # ws"
  by (auto split: list.split)

lemma runs_not_bad: "\<not> bad_percent s \<Longrightarrow> r \<in> set (ascii_runs s) \<Longrightarrow> \<not> bad_percent r"
proof (induction s arbitrary: r)
  case Nil
  then show ?case by simp
next
  case (Cons c s)
  have nb: "\<not> bad_percent s" using Cons.prems(1) by simp
  show ?case
  proof (cases s)
    case Nil
    with Cons.prems show ?thesis by auto
  next
    case s: (Cons a t)
    obtain w ws where runs: "ascii_runs s = (a # w) # ws"
      unfolding s using ascii_runs_head by blast
    have whole: "\<not> bad_percent (a # w)" using Cons.IH[OF nb, of "a # w"] runs by simp
    show ?thesis
    proof (cases "c = CHR ''%''")
      case False
      then show ?thesis
        using Cons.prems(2) Cons.IH[OF nb, of r] runs whole
        by (simp del: bad_percent.simps(2) split: if_splits)
          (auto simp: bad_percent.simps(2)[of c])
    next
      case True
      then obtain b t' where t: "t = b # t'" and h: "is_hex a" "is_hex b"
        using Cons.prems(1) s by (auto split: list.splits)
      obtain v vs where bruns: "ascii_runs (b # t') = (b # v) # vs"
        using ascii_runs_head by blast
      have "ascii_runs s = (a # b # v) # vs"
        unfolding s t using bruns h[THEN hex_not_percent] by simp
      with runs have "w = b # v" by simp
      then show ?thesis
        using Cons.prems(2) Cons.IH[OF nb, of r] runs whole h True h[THEN hex_not_percent]
        by (simp del: bad_percent.simps(2) split: if_splits)
          (auto simp: bad_percent.simps(2)[of c] code_def)
    qed
  qed
qed

lemma decoded_no_percent:
  assumes "unquote_strict s = Some s" and "\<not> bad_percent s"
  shows "CHR ''%'' \<notin> set s"
proof
  assume pct: "CHR ''%'' \<in> set s"
  then have eq: "concat (map unquote_bytes (ascii_runs s)) = s"
    using assms(1) by (auto simp: unquote_strict_def Let_def split: if_splits)
  have le: "length (concat (map unquote_bytes rs)) \<le> length (concat rs)" for rs
    by (induction rs) (auto intro: add_mono unquote_bytes_length)
  have lt: "length (concat (map unquote_bytes rs)) < length (concat rs)"
    if "r \<in> set rs" "CHR ''%'' \<in> set r" "\<not> bad_percent r" for r rs
    using that
  proof (induction rs)
    case (Cons q qs)
    then show ?case
      using unquote_bytes_shrinks[of r] unquote_bytes_length[of q] le[of qs]
      by (auto simp del: length_concat)
  qed simp
  obtain r where "r \<in> set (ascii_runs s)" "CHR ''%'' \<in> set r"
    using pct concat_ascii_runs[of s] by (metis UN_iff set_concat)
  with lt runs_not_bad[OF assms(2)] have "length (concat (map unquote_bytes (ascii_runs s))) < length (concat (ascii_runs s))"
    by blast
  then show False unfolding eq concat_ascii_runs by simp
qed

lemma decode_rounds_no_percent: "decode_rounds n p = Some q \<Longrightarrow> CHR ''%'' \<notin> set q"
  by (induction n arbitrary: p) (auto split: if_splits option.splits dest: decoded_no_percent)

lemma no_percent_decoded:
  assumes "CHR ''%'' \<notin> set s"
  shows "decode_rounds (Suc n) s = Some s"
proof -
  have "\<not> bad_percent s" using assms by (induction s) auto
  then show ?thesis using assms by (simp add: unquote_strict_def)
qed

text \<open>Normalised components: none is empty, a dot or a double dot, none contains a slash.\<close>

definition plain_comp :: "string \<Rightarrow> bool" where
  "plain_comp c \<longleftrightarrow> c \<noteq> [] \<and> c \<noteq> ''.'' \<and> c \<noteq> ''..'' \<and> CHR ''/'' \<notin> set c"

lemma norm_comps_plain:
  "list_all plain_comp acc \<Longrightarrow> (\<And>c. c \<in> set cs \<Longrightarrow> CHR ''/'' \<notin> set c) \<Longrightarrow>
     list_all plain_comp (norm_comps True acc cs)"
proof (induction cs arbitrary: acc)
  case Nil
  then show ?case by (simp add: list_all_iff)
next
  case (Cons c cs)
  have hd: "acc \<noteq> [] \<Longrightarrow> hd acc \<noteq> ''..''"
    using Cons.prems(1) by (cases acc) (auto simp: plain_comp_def)
  have tl: "list_all plain_comp (tl acc)" using Cons.prems(1) by (cases acc) auto
  have IH: "list_all plain_comp acc' \<Longrightarrow> list_all plain_comp (norm_comps True acc' cs)" for acc'
    using Cons by simp
  have "c \<noteq> [] \<Longrightarrow> c \<noteq> ''.'' \<Longrightarrow> c \<noteq> ''..'' \<Longrightarrow> plain_comp c"
    using Cons.prems(2)[of c] by (simp add: plain_comp_def)
  then show ?case
    using Cons.prems(1) hd IH tl by (cases "c = ''..''"; cases "c = []"; cases "c = ''.''") auto
qed

lemma set_tl: "x \<in> set (tl xs) \<Longrightarrow> x \<in> set xs"
  by (cases xs) auto

lemma norm_comps_sub:
  "c \<in> set (norm_comps rooted acc cs) \<Longrightarrow> c \<in> set acc \<or> c \<in> set cs"
  by (induction rooted acc cs rule: norm_comps.induct) (auto split: if_splits dest: set_tl)

lemma norm_comps_id: "list_all plain_comp cs \<Longrightarrow> norm_comps True acc cs = rev acc @ cs"
  by (induction cs arbitrary: acc) (auto simp: plain_comp_def)

definition path_of :: "string list \<Rightarrow> string" where
  "path_of cs = CHR ''/'' # join_with ''/'' cs"

definition path_comps :: "string \<Rightarrow> string list" where
  "path_comps p = filter (\<lambda>c. c \<noteq> []) (split_on CHR ''/'' p)"

lemma join_no_leading:
  "list_all plain_comp cs \<Longrightarrow> lstrip_slash (join_with ''/'' cs) = join_with ''/'' cs"
  by (induction "''/''" cs rule: join_with.induct)
    (auto simp: lstrip_slash_def plain_comp_def neq_Nil_conv)

lemma plain_no_slash: "list_all plain_comp cs \<Longrightarrow> list_all (\<lambda>w. CHR ''/'' \<notin> set w) cs"
  by (auto simp: list_all_iff plain_comp_def)

lemma path_of_split:
  "list_all plain_comp cs \<Longrightarrow> split_on CHR ''/'' (path_of cs) = [] # (if cs = [] then [[]] else cs)"
  by (auto simp: path_of_def split_join plain_no_slash)

lemma path_of_comps: "list_all plain_comp cs \<Longrightarrow> path_comps (path_of cs) = cs"
  by (auto simp: path_comps_def path_of_split list_all_iff plain_comp_def intro!: filter_True)

lemma path_of_inj:
  "list_all plain_comp cs \<Longrightarrow> list_all plain_comp ds \<Longrightarrow> path_of cs = path_of ds \<Longrightarrow> cs = ds"
  by (metis path_of_comps)

lemma normpath_rooted:
  assumes "\<not> starts_with ''/'' r"
  shows "normpath (CHR ''/'' # r) = path_of (norm_comps True [] (split_on CHR ''/'' (CHR ''/'' # r)))"
  using assms by (auto simp: normpath_def path_of_def starts_with_def)

lemma lstrip_no_slash: "\<not> starts_with ''/'' (lstrip_slash s)"
proof -
  have "lstrip_slash s \<noteq> [] \<Longrightarrow> hd (lstrip_slash s) \<noteq> CHR ''/''"
    unfolding lstrip_slash_def by (rule hd_dropWhile)
  then show ?thesis by (cases "lstrip_slash s") (auto simp: starts_with_def)
qed

lemma lstrip_path_of: "list_all plain_comp cs \<Longrightarrow> lstrip_slash (path_of cs) = join_with ''/'' cs"
  using join_no_leading[of cs] by (simp add: path_of_def lstrip_slash_def)

lemma lstrip_sub: "x \<in> set (lstrip_slash s) \<Longrightarrow> x \<in> set s"
  by (simp add: lstrip_slash_def) (meson set_dropWhileD)

lemma canonical_form:
  assumes "canonical_path p = Some c"
  shows "\<exists>cs. list_all plain_comp cs \<and> c = path_of cs \<and>
    (\<forall>x \<in> set c. x \<noteq> CHR ''%'' \<and> x \<noteq> CHR 0x5C \<and> \<not> is_control x)"
proof -
  obtain q where q: "decode_rounds 4 p = Some q" "CHR 0x5C \<notin> set q" "\<not> list_ex is_control q"
    and c: "c = CHR ''/'' # lstrip_slash (normpath (CHR ''/'' # lstrip_slash q))"
    using assms by (auto simp: canonical_path_def split: if_splits option.splits)
  define cs where "cs = norm_comps True [] (split_on CHR ''/'' (CHR ''/'' # lstrip_slash q))"
  have plain: "list_all plain_comp cs"
    unfolding cs_def by (rule norm_comps_plain) (auto dest: split_on_no_sep)
  have cp: "c = path_of cs"
    unfolding c normpath_rooted[OF lstrip_no_slash] cs_def[symmetric] lstrip_path_of[OF plain]
    by (simp add: path_of_def)
  have "x = CHR ''/'' \<or> x \<in> set q" if "x \<in> set c" for x
  proof (cases "x = CHR ''/''")
    case False
    then obtain w where w: "w \<in> set cs" "x \<in> set w"
      using \<open>x \<in> set c\<close> join_chars[of x "''/''" cs] by (auto simp: cp path_of_def)
    then have "w \<in> set (split_on CHR ''/'' (CHR ''/'' # lstrip_slash q))"
      using norm_comps_sub by (force simp: cs_def)
    from split_on_sub[OF w(2) this] False show ?thesis by (auto dest: lstrip_sub)
  qed simp
  moreover have "\<forall>x \<in> set q. x \<noteq> CHR ''%'' \<and> x \<noteq> CHR 0x5C \<and> \<not> is_control x"
    using q decode_rounds_no_percent[OF q(1)] by (auto simp: list_ex_iff)
  moreover have "\<not> is_control CHR ''/''" by code_simp
  ultimately have "\<forall>x \<in> set c. x \<noteq> CHR ''%'' \<and> x \<noteq> CHR 0x5C \<and> \<not> is_control x"
    by fastforce
  with plain cp show ?thesis by blast
qed

lemma canonical_fix:
  assumes "list_all plain_comp cs"
    and "\<forall>x \<in> set (path_of cs). x \<noteq> CHR ''%'' \<and> x \<noteq> CHR 0x5C \<and> \<not> is_control x"
  shows "canonical_path (path_of cs) = Some (path_of cs)"
proof -
  let ?c = "path_of cs"
  have d: "decode_rounds 4 ?c = Some ?c"
  proof -
    have "(4::nat) = Suc 3" by simp
    then show ?thesis using no_percent_decoded[of ?c 3] assms(2) by metis
  qed
  have l: "CHR ''/'' # lstrip_slash ?c = ?c"
    by (simp add: lstrip_path_of[OF assms(1)]) (simp add: path_of_def)
  have "norm_comps True [] (split_on CHR ''/'' ?c) = cs"
    unfolding path_of_split[OF assms(1)] using norm_comps_id[OF assms(1), of "[]"] by auto
  moreover have "normpath ?c = path_of (norm_comps True [] (split_on CHR ''/'' ?c))"
    using normpath_rooted[OF lstrip_no_slash, of ?c] l by simp
  ultimately have n: "normpath ?c = ?c" by simp
  have "starts_with ''/'' ?c" by (simp add: path_of_def starts_with_def)
  moreover have "CHR 0x5C \<notin> set ?c" using assms(2) by blast
  moreover have "\<not> list_ex is_control ?c" using assms(2) unfolding list_ex_iff by blast
  ultimately show ?thesis by (simp only: canonical_path_def d option.case l n) simp
qed

lemma canonical_path_idem: "canonical_path p = Some c \<Longrightarrow> canonical_path c = Some c"
  using canonical_form canonical_fix by blast

section \<open>Exclusion by components\<close>

lemma rev_dropWhile_last:
  "s \<noteq> [] \<Longrightarrow> last s \<noteq> x \<Longrightarrow> rev (dropWhile (\<lambda>c. c = x) (rev s)) = s"
  by (cases s rule: rev_cases) auto

lemma join_last:
  "list_all plain_comp cs \<Longrightarrow> cs \<noteq> [] \<Longrightarrow>
     join_with ''/'' cs \<noteq> [] \<and> last (join_with ''/'' cs) \<noteq> CHR ''/''"
proof (induction "''/''" cs rule: join_with.induct)
  case (2 w)
  then show ?case by (cases w rule: rev_cases) (auto simp: plain_comp_def)
qed auto

lemma rstrip_path_of: "list_all plain_comp cs \<Longrightarrow> rstrip_slash (path_of cs) = path_of cs"
proof (cases "cs = []")
  case True
  then show ?thesis by (simp add: rstrip_slash_def path_of_def)
next
  case False
  assume "list_all plain_comp cs"
  from join_last[OF this False] have "last (path_of cs) \<noteq> CHR ''/''" "path_of cs \<noteq> []"
    by (simp_all add: path_of_def)
  then show ?thesis unfolding rstrip_slash_def by (simp add: rev_dropWhile_last Let_def)
qed

lemma normalize_prefix_form:
  "normalize_prefix j = Inr q \<Longrightarrow> \<exists>qs. list_all plain_comp qs \<and> q = path_of qs"
proof (cases j)
  case (JStr s)
  assume a: "normalize_prefix j = Inr q"
  then obtain c where c: "canonical_path s = Some c" and q: "q = rstrip_slash c"
    unfolding normalize_prefix_def JStr json.case by (simp split: if_splits option.splits)
  obtain cs where "list_all plain_comp cs" "c = path_of cs"
    using canonical_form[OF c] by blast
  then show ?thesis using q by (auto simp only: rstrip_path_of)
qed (simp_all add: normalize_prefix_def)

lemma normalize_all_form:
  "normalize_all ps = Inr ss \<Longrightarrow> q \<in> set ss \<Longrightarrow> \<exists>qs. list_all plain_comp qs \<and> q = path_of qs"
proof (induction ps arbitrary: ss)
  case Nil
  then show ?case by simp
next
  case (Cons p ps)
  then obtain s ss' where s: "normalize_prefix p = Inr s" "normalize_all ps = Inr ss'" "ss = s # ss'"
    by (auto split: sum.splits)
  then show ?case
    using Cons.IH[OF s(2)] Cons.prems(2) normalize_prefix_form[OF s(1)] by auto
qed

lemma policy_from_config_prefixes:
  assumes "policy_from_config cfg = Inr pol"
  obtains ps ss where "normalize_all ps = Inr ss"
    and "excluded_path_prefixes pol = sort (remdups ss)"
proof (cases "get_or cfg ''transport'' (JObj [])")
  case tr: (JObj tr)
  show ?thesis
  proof (cases "get_or tr ''captured_only'' (JBool False)")
    case cap: (JBool cap)
    show ?thesis
    proof (cases "get_or cfg ''operating_profile'' (JStr ''none'')")
      case prof: (JStr prof)
      show ?thesis
      proof (cases "get_or tr ''excluded_path_prefixes'' (JList [])")
        case ps: (JList ps)
        obtain ss where "normalize_all ps = Inr ss"
          using assms by (cases "normalize_all ps") (simp_all add: policy_from_config_def tr cap prof ps)
        then show ?thesis
          using that[of ps ss] assms by (auto simp: policy_from_config_def tr cap prof ps)
      qed (use assms in \<open>simp_all add: policy_from_config_def tr cap prof\<close>)
    qed (use assms in \<open>simp_all add: policy_from_config_def tr cap\<close>)
  qed (use assms in \<open>simp_all add: policy_from_config_def tr\<close>)
qed (use assms in \<open>simp_all add: policy_from_config_def\<close>)

lemma policy_prefixes_form:
  "policy_from_config cfg = Inr pol \<Longrightarrow> q \<in> set (excluded_path_prefixes pol) \<Longrightarrow>
     \<exists>qs. list_all plain_comp qs \<and> q = path_of qs"
  by (erule policy_from_config_prefixes) (simp add: normalize_all_form)

lemma join_append:
  "ws \<noteq> [] \<Longrightarrow> vs \<noteq> [] \<Longrightarrow> join_with sep (ws @ vs) = join_with sep ws @ sep @ join_with sep vs"
proof (induction sep ws rule: join_with.induct)
  case (2 sep w)
  then show ?case by (cases vs) auto
qed auto

lemma path_under_iff:
  assumes q: "list_all plain_comp qs" and c: "list_all plain_comp cs"
  shows "(path_of qs = ''/'' \<or> path_of cs = path_of qs \<or> starts_with (path_of qs @ ''/'') (path_of cs))
    \<longleftrightarrow> prefix qs cs"
proof
  assume "prefix qs cs"
  then obtain vs where vs: "cs = qs @ vs" by (auto simp: prefix_def)
  show "path_of qs = ''/'' \<or> path_of cs = path_of qs \<or> starts_with (path_of qs @ ''/'') (path_of cs)"
  proof (cases "qs = [] \<or> vs = []")
    case True
    with vs show ?thesis by (auto simp: path_of_def)
  next
    case False
    with vs show ?thesis by (simp add: path_of_def join_append starts_with_def)
  qed
next
  assume a: "path_of qs = ''/'' \<or> path_of cs = path_of qs \<or> starts_with (path_of qs @ ''/'') (path_of cs)"
  show "prefix qs cs"
  proof (cases "qs = []")
    case True
    then show ?thesis by simp
  next
    case False
    have "path_of qs \<noteq> ''/''" using join_last[OF q False] by (simp add: path_of_def)
    with a consider "path_of cs = path_of qs" | r where "path_of cs = path_of qs @ ''/'' @ r"
      unfolding starts_with_def by (metis append.assoc append_take_drop_id)
    then show ?thesis
    proof cases
      case 1
      then show ?thesis using path_of_inj[OF c q] by simp
    next
      case (2 r)
      have split: "split_on CHR ''/'' (s @ CHR ''/'' # t) = split_on CHR ''/'' s @ split_on CHR ''/'' t" for s t
        by (induction s) (auto split: list.splits simp: split_on_nonempty)
      have "cs = path_comps (path_of cs)" by (simp add: path_of_comps[OF c])
      also have "\<dots> = path_comps (path_of qs) @ filter (\<lambda>c. c \<noteq> []) (split_on CHR ''/'' r)"
        unfolding 2 path_comps_def append_Cons append_Nil split filter_append ..
      finally have "cs = qs @ filter (\<lambda>c. c \<noteq> []) (split_on CHR ''/'' r)"
        unfolding path_of_comps[OF q] .
      then show ?thesis by (metis prefixI)
    qed
  qed
qed

section \<open>Properties\<close>

text \<open>C8: The canonical path is a normal form: whatever the encoding of the path, a path that is
  accepted comes out rooted, with components that are neither empty nor dots, without percent
  signs, backslashes or control characters, and canonicalising it again (as a server decoding once
  more would) changes nothing.\<close>

theorem canonical_path_normal_form:
  assumes "canonical_path p = Some c"
  shows "canonical_path c = Some c
    \<and> c = path_of (path_comps c) \<and> list_all plain_comp (path_comps c)
    \<and> CHR ''%'' \<notin> set c \<and> CHR 0x5C \<notin> set c \<and> \<not> list_ex is_control c"
proof -
  obtain cs where cs: "list_all plain_comp cs" "c = path_of cs"
    and chars: "\<forall>x \<in> set c. x \<noteq> CHR ''%'' \<and> x \<noteq> CHR 0x5C \<and> \<not> is_control x"
    using canonical_form[OF assms] by blast
  have "path_comps c = cs" unfolding cs(2) by (rule path_of_comps[OF cs(1)])
  moreover have "\<not> list_ex is_control c" using chars by (auto simp: list_ex_iff)
  moreover have "canonical_path c = Some c" by (rule canonical_path_idem[OF assms])
  ultimately show ?thesis using cs chars by blast
qed

text \<open>C9: Exclusions hold for every spelling of a path: a policy made from a configuration raises no objection to a URL
  exactly when the policy is not captured-only, the URL is well formed, it has a path with a canonical form (a URL that cannot
  be split, or whose path has no canonical form, is refused), and no excluded prefix is, component by component, a prefix of
  that form.\<close>

theorem excluded_endpoints_refused:
  assumes "policy_from_config cfg = Inr pol"
  shows "denial_reason pol url = [] \<longleftrightarrow> \<not> captured_only pol \<and> parse_scope_url url \<noteq> None \<and>
     (case Option.bind (urlsplit url) (\<lambda>p. canonical_path (list_or (u_path p) ''/'')) of
        None \<Rightarrow> False
      | Some path \<Rightarrow> \<not> (\<exists>q \<in> set (excluded_path_prefixes pol). prefix (path_comps q) (path_comps path)))"
proof -
  have "excluded pol path \<longleftrightarrow> (\<exists>q \<in> set (excluded_path_prefixes pol). prefix (path_comps q) (path_comps path))"
    if path: "Option.bind (urlsplit url) (\<lambda>p. canonical_path (list_or (u_path p) ''/'')) = Some path" for path
  proof -
    obtain p where "canonical_path p = Some path" using path by (auto simp: bind_eq_Some_conv)
    then obtain cs where cs: "list_all plain_comp cs" "path = path_of cs" using canonical_form by blast
    have "(q = ''/'' \<or> path = q \<or> starts_with (q @ ''/'') path) \<longleftrightarrow> prefix (path_comps q) (path_comps path)"
      if q: "q \<in> set (excluded_path_prefixes pol)" for q
    proof -
      obtain qs where qs: "list_all plain_comp qs" "q = path_of qs"
        using policy_prefixes_form[OF assms q] by blast
      show ?thesis
        unfolding qs(2) cs(2) path_of_comps[OF qs(1)] path_of_comps[OF cs(1)]
        by (rule path_under_iff[OF qs(1) cs(1)])
    qed
    then show ?thesis by (auto simp: excluded_def list_ex_iff)
  qed
  then show ?thesis by (auto simp: denial_reason_def split: option.split)
qed

section \<open>Concrete runs\<close>

theorem canonical_path_normal_form_witness:
  "canonical_path ''/a/%252e%252E//%61dmin/./x'' = Some ''/admin/x''
   \<and> canonical_path ''/admin/x'' = Some ''/admin/x''"
proof
  show c: "canonical_path ''/a/%252e%252E//%61dmin/./x'' = Some ''/admin/x''" by code_simp
  show "canonical_path ''/admin/x'' = Some ''/admin/x''"
    using canonical_path_normal_form[OF c] by blast
qed

definition sample_policy_config :: "(string \<times> json) list" where
  "sample_policy_config =
     [(''transport'', JObj [(''excluded_path_prefixes'', JList [JStr ''/admin/''])])]"

theorem excluded_endpoints_refused_witness:
  "denial_reason \<lparr>captured_only = False, excluded_path_prefixes = [''/admin'']\<rparr>
     ''http://t/a/%2e%2e/%2561dmin/users'' \<noteq> []"
proof -
  have cfg: "policy_from_config sample_policy_config =
      Inr \<lparr>captured_only = False, excluded_path_prefixes = [''/admin'']\<rparr>" by code_simp
  have u: "urlsplit ''http://t/a/%2e%2e/%2561dmin/users'' =
      Some \<lparr>u_scheme = ''http'', u_netloc = ''t'', u_path = ''/a/%2e%2e/%2561dmin/users'',
            u_query = [], u_fragment = []\<rparr>" by code_simp
  have c: "canonical_path (list_or (u_path \<lparr>u_scheme = ''http'', u_netloc = ''t'',
      u_path = ''/a/%2e%2e/%2561dmin/users'', u_query = [], u_fragment = []\<rparr>) ''/'')
    = Some ''/admin/users''" by code_simp
  have "prefix (path_comps ''/admin'') (path_comps ''/admin/users'')" by code_simp
  with excluded_endpoints_refused[OF cfg, of "''http://t/a/%2e%2e/%2561dmin/users''"] u c show ?thesis by auto
qed

end
