(* ===== verification/Regex.thy ===== *)
theory Regex
  imports Url
begin

text \<open>
  The fragment of Python's \<open>re\<close> the patterns of the components are written in, matched on ASCII text: a
  pattern maps a position to the positions a match from there can end at. A position is the text
  before it, reversed, and the text after it.
\<close>

datatype rx =
    Eps
  | CharSet "char \<Rightarrow> bool"
  | Seq rx rx
  | Alt rx rx
  | Star rx
  | WordBoundary
  | EndOfText
  | NotAhead rx
  | NotBehind "char \<Rightarrow> bool"

type_synonym position = "string \<times> string"

definition is_word :: "char \<Rightarrow> bool" where
  "is_word c = (is_alpha c \<or> is_digit c \<or> c = CHR ''_'')"

lemma is_word_code [code]:
  "is_word (Char b0 b1 b2 b3 b4 b5 b6 b7) =
     (\<not> b7 \<and> (if b6 then (b0 \<or> b1 \<or> b2 \<or> b3 \<or> b4) \<and>
            (\<not> (b4 \<and> b3 \<and> (b2 \<or> b1 \<and> b0)) \<or> b0 \<and> b1 \<and> b2 \<and> b3 \<and> b4 \<and> \<not> b5)
          else b5 \<and> b4 \<and> (b3 \<longrightarrow> \<not> b2 \<and> \<not> b1)))"
  by (cases b7; cases b6; cases b5; cases b4; cases b3; cases b2; cases b1; cases b0)
    (simp_all add: is_word_def is_alpha_def is_lower_def is_digit_def code_def)

definition word_at :: "string \<Rightarrow> bool" where
  "word_at s = (case s of [] \<Rightarrow> False | c # _ \<Rightarrow> is_word c)"

text \<open>At most \<open>n\<close> rounds, each of which must consume something.\<close>

fun star_ends :: "(position \<Rightarrow> position list) \<Rightarrow> nat \<Rightarrow> position \<Rightarrow> position list" where
  "star_ends f 0 p = [p]"
| "star_ends f (Suc n) p =
     p # concat (map (star_ends f n) (filter (\<lambda>q. length (snd q) < length (snd p)) (f p)))"

primrec ends :: "rx \<Rightarrow> position \<Rightarrow> position list" where
  "ends Eps = (\<lambda>p. [p])"
| "ends (CharSet P) = (\<lambda>p. case snd p of [] \<Rightarrow> [] | x # a \<Rightarrow> if P x then [(x # fst p, a)] else [])"
| "ends (Seq r s) = (\<lambda>p. concat (map (ends s) (ends r p)))"
| "ends (Alt r s) = (\<lambda>p. ends r p @ ends s p)"
| "ends (Star r) = (\<lambda>p. star_ends (ends r) (length (snd p)) p)"
| "ends WordBoundary = (\<lambda>p. if word_at (fst p) \<noteq> word_at (snd p) then [p] else [])"
| "ends EndOfText = (\<lambda>p. if snd p = [] \<or> snd p = [CHR 0x0A] then [p] else [])"
| "ends (NotAhead r) = (\<lambda>p. if ends r p = [] then [p] else [])"
| "ends (NotBehind P) = (\<lambda>p. case fst p of [] \<Rightarrow> [p] | c # _ \<Rightarrow> if P c then [] else [p])"

definition search :: "rx \<Rightarrow> string \<Rightarrow> bool" where
  "search r s = list_ex (\<lambda>i. ends r (rev (take i s), drop i s) \<noteq> []) [0..<length s + 1]"

text \<open>Case-insensitive literals, \<open>x+\<close>, \<open>\s\<close>, \<open>\w\<close> and the dot.\<close>

definition chr_i :: "char \<Rightarrow> rx" where
  "chr_i c = CharSet (\<lambda>x. char_lower x = char_lower c)"

fun lit :: "string \<Rightarrow> rx" where
  "lit [] = Eps"
| "lit (c # s) = Seq (chr_i c) (lit s)"

definition plus :: "rx \<Rightarrow> rx" where "plus r = Seq r (Star r)"

definition space :: rx where "space = CharSet is_space"
definition word :: rx where "word = CharSet is_word"
definition dot :: rx where "dot = CharSet (\<lambda>c. c \<noteq> CHR 0x0A)"

fun seqs :: "rx list \<Rightarrow> rx" where
  "seqs [] = Eps"
| "seqs (r # rs) = Seq r (seqs rs)"

section \<open>What a pattern surely matches\<close>

lemma ends_seq: "q \<in> set (ends r p) \<Longrightarrow> q' \<in> set (ends s q) \<Longrightarrow> q' \<in> set (ends (Seq r s) p)"
  by auto

lemma ends_lit: "py_lower d = py_lower s \<Longrightarrow> (rev d @ b, a) \<in> set (ends (lit s) (b, d @ a))"
proof (induction s arbitrary: d b)
  case Nil
  then show ?case by (simp add: py_lower_def)
next
  case (Cons c s)
  then obtain x d' where d: "d = x # d'" and x: "char_lower x = char_lower c" "py_lower d' = py_lower s"
    by (auto simp: py_lower_def)
  from Cons.IH[OF x(2), of "x # b"] x(1) show ?case by (simp add: d chr_i_def)
qed

lemma ends_star:
  "list_all P w \<Longrightarrow> length w \<le> n \<Longrightarrow>
     (rev w @ b, a) \<in> set (star_ends (ends (CharSet P)) n (b, w @ a))"
proof (induction w arbitrary: b n)
  case Nil
  then show ?case by (cases n) auto
next
  case (Cons x w)
  then obtain m where n: "n = Suc m" by (cases n) auto
  from Cons.IH[of m "x # b"] Cons.prems n show ?case by simp
qed

lemma ends_plus:
  "list_all P w \<Longrightarrow> w \<noteq> [] \<Longrightarrow> (rev w @ b, a) \<in> set (ends (plus (CharSet P)) (b, w @ a))"
proof (cases w)
  case (Cons x v)
  assume "list_all P w"
  then have "(rev v @ x # b, a) \<in> set (star_ends (ends (CharSet P)) (length (v @ a)) (x # b, v @ a))"
    using Cons by (intro ends_star) simp_all
  then show ?thesis using Cons \<open>list_all P w\<close> by (simp add: plus_def)
qed simp

lemma search_at:
  assumes "q \<in> set (ends r (rev a, b))"
  shows "search r (a @ b)"
proof -
  have "ends r (rev (take (length a) (a @ b)), drop (length a) (a @ b)) \<noteq> []" using assms by auto
  then show ?thesis
    unfolding search_def list_ex_iff
    by (intro bexI[of _ "length a"]) (simp_all add: less_Suc_eq_le)
qed

end
