(* ===== verification/SafetyGate.thy ===== *)
theory SafetyGate
  imports RequestPolicy Regex
begin

text \<open>
  \<open>harness/safety_gate.py\<close>: the checkpoint every active send asks. The order of the checks is the
  code's: scope, endpoint policy, destructive patterns, method, operator flags, the finding's budget
  of mutating sends. Texts of reasons are values of a datatype that keep the numbers they report;
  text to classify is ASCII.
\<close>

section \<open>Configuration\<close>

definition safe_methods :: "string list" where
  "safe_methods = [''GET'', ''HEAD'', ''OPTIONS'', ''TRACE'']"

definition mutating_methods :: "string list" where
  "mutating_methods = [''POST'', ''PUT'', ''PATCH'', ''DELETE'']"

definition hard_max_burst :: int where "hard_max_burst = 20"
definition hard_max_mutating :: int where "hard_max_mutating = 20"

definition default_ceiling_by_check :: "(string \<times> int) list" where
  "default_ceiling_by_check = [(''second_order_plant'', 2)]"

definition hard_deny_patterns :: "rx list" where
  "hard_deny_patterns =
     [seqs [WordBoundary, lit ''DROP'', plus space, lit ''TABLE'', WordBoundary],
      seqs [WordBoundary, lit ''DROP'', plus space, lit ''DATABASE'', WordBoundary],
      seqs [WordBoundary, lit ''TRUNCATE'', plus space, lit ''TABLE'', WordBoundary],
      seqs [WordBoundary, lit ''ALTER'', plus space, lit ''TABLE'', WordBoundary, Star dot,
            WordBoundary, lit ''DROP'', WordBoundary],
      seqs [WordBoundary, lit ''DELETE'', plus space, lit ''FROM'', plus space, plus word, Star space,
            Alt (lit '';'') EndOfText],
      seqs [WordBoundary, lit ''UPDATE'', plus space, plus word, plus space, lit ''SET'', WordBoundary,
            NotAhead (seqs [Star dot, WordBoundary, lit ''WHERE'', WordBoundary])],
      seqs [WordBoundary, lit ''shutdown'', Star space, lit ''/'', Alt (lit ''r'') (lit ''s''), WordBoundary],
      seqs [WordBoundary, lit ''rm'', plus space, lit ''-rf'', plus space, lit ''/''],
      seqs [WordBoundary, lit ''format'', plus space, CharSet is_alpha, lit '':''],
      seqs [WordBoundary, lit ''xp_cmdshell'', WordBoundary]]"

datatype tier = SAFE | MUTATING | HARD_DENIED | OUT_OF_SCOPE

datatype reason =
    ScopeRefused
  | PolicyRefused string
  | DestructivePattern
  | SafeMethod
  | NeedsActive
  | NeedsMutatingReplay
  | CeilingReached int int string
  | MutatingAuthorized
  | BurstsDisabled
  | BurstBudgetExhausted int int string int
  | BurstAuthorized int int

record decision =
  allowed :: bool
  d_tier :: tier
  d_reason :: reason
  allowed_burst_size :: int

definition deny :: "tier \<Rightarrow> reason \<Rightarrow> decision" where
  "deny t r = \<lparr>allowed = False, d_tier = t, d_reason = r, allowed_burst_size = 1\<rparr>"

definition permit :: "tier \<Rightarrow> reason \<Rightarrow> decision" where
  "permit t r = \<lparr>allowed = True, d_tier = t, d_reason = r, allowed_burst_size = 1\<rparr>"

record gate_config =
  active_enabled :: bool
  allow_mutating_replay :: bool
  max_burst_size :: int
  max_mutating :: int
  ceiling_by_check :: "(string \<times> int) list"
  allowed_hosts :: scope_config
  target_policy :: request_policy

definition default_gate_config :: gate_config where
  "default_gate_config = \<lparr>active_enabled = False, allow_mutating_replay = False, max_burst_size = 1,
     max_mutating = 1, ceiling_by_check = default_ceiling_by_check, allowed_hosts = Unset,
     target_policy = default_policy\<rparr>"

text \<open>
  \<open>from_dict\<close>; the two flags are what \<open>parse_validators_flags\<close> (a pydantic model) returns, None
  where it raises. A value absent from the section is None.
\<close>

definition gate_config_from ::
  "(bool \<times> bool) option \<Rightarrow> int option \<Rightarrow> int option \<Rightarrow> (string \<times> int) list \<Rightarrow> scope_config
   \<Rightarrow> request_policy option \<Rightarrow> gate_config option" where
  "gate_config_from flags burst mutating by_check hosts policy =
     (case flags of None \<Rightarrow> None
      | Some (active, replay) \<Rightarrow>
          Some \<lparr>active_enabled = active, allow_mutating_replay = replay,
                max_burst_size = option_or burst 1, max_mutating = option_or mutating 1,
                ceiling_by_check = foldl (\<lambda>d (k, v). dict_set k v d) default_ceiling_by_check by_check,
                allowed_hosts = hosts, target_policy = option_or policy default_policy\<rparr>)"

section \<open>The gate\<close>

record audit_entry =
  a_time :: time
  a_validator :: string
  a_method :: string
  a_url :: string
  a_tier :: tier
  a_allowed :: bool
  a_reason :: reason
  a_burst :: int

record gate =
  g_config :: gate_config
  audit_log :: "audit_entry list"
  mutating_counts :: "(string \<times> int) list"

definition new_gate :: "gate_config \<Rightarrow> gate" where
  "new_gate cfg = \<lparr>g_config = cfg, audit_log = [], mutating_counts = []\<rparr>"

definition mutating_ceiling :: "gate_config \<Rightarrow> string option \<Rightarrow> int" where
  "mutating_ceiling cfg validator =
     min (option_or (dict_get (ceiling_by_check cfg) (option_or validator [])) (max_mutating cfg))
       hard_max_mutating"

definition used :: "gate \<Rightarrow> string \<Rightarrow> int" where
  "used g f = option_or (dict_get (mutating_counts g) f) 0"

definition reserve_mutating ::
  "string option \<Rightarrow> int \<Rightarrow> string option \<Rightarrow> gate \<Rightarrow> (bool \<times> int \<times> int) \<times> gate" where
  "reserve_mutating finding n validator g = (case finding of
     None \<Rightarrow> ((True, 0, 0), g)
   | Some f \<Rightarrow>
       if f = [] \<or> n \<le> 0 then ((True, 0, 0), g)
       else (let ceil = mutating_ceiling (g_config g) validator in
         if used g f + n > ceil then ((False, used g f, ceil), g)
         else ((True, used g f, ceil),
               g\<lparr>mutating_counts := dict_set f (used g f + n) (mutating_counts g)\<rparr>)))"

definition mutating_headroom :: "string option \<Rightarrow> string option \<Rightarrow> gate \<Rightarrow> int \<times> int \<times> int" where
  "mutating_headroom finding validator g =
     (let ceil = mutating_ceiling (g_config g) validator;
          u = (case finding of None \<Rightarrow> 0 | Some f \<Rightarrow> if f = [] then 0 else used g f)
      in (max (ceil - u) 0, u, ceil))"

definition reset_finding_budget :: "string option \<Rightarrow> gate \<Rightarrow> gate" where
  "reset_finding_budget finding g = (case finding of
     None \<Rightarrow> g\<lparr>mutating_counts := []\<rparr>
   | Some f \<Rightarrow> g\<lparr>mutating_counts := dict_pop f (mutating_counts g)\<rparr>)"

definition char_upper :: "char \<Rightarrow> char" where
  "char_upper c = (if is_lower c then char_of (code c - 32) else c)"

definition py_upper :: "string \<Rightarrow> string" where "py_upper s = map char_upper s"

definition destructive :: "string \<Rightarrow> bool" where
  "destructive t = list_ex (\<lambda>r. search r t) hard_deny_patterns"

definition classify :: "string \<Rightarrow> string option \<Rightarrow> string option \<Rightarrow> tier" where
  "classify meth body url =
     (let cands = filter (\<lambda>t. t \<noteq> []) (map (\<lambda>c. option_or c []) [body, url]) in
      if list_ex destructive (cands @ map unquote_plus cands) then HARD_DENIED
      else if List.member safe_methods (py_upper meth) then SAFE
      else if List.member mutating_methods (py_upper meth) then MUTATING
      else MUTATING)"

definition log_decision ::
  "time \<Rightarrow> string \<Rightarrow> string \<Rightarrow> string \<Rightarrow> int \<Rightarrow> decision \<Rightarrow> gate \<Rightarrow> decision \<times> gate" where
  "log_decision now v meth url burst d g =
     (d, g\<lparr>audit_log := audit_log g @
        [\<lparr>a_time = now, a_validator = v, a_method = meth, a_url = url, a_tier = d_tier d,
          a_allowed = allowed d, a_reason = d_reason d, a_burst = burst\<rparr>]\<rparr>)"

definition authorize ::
  "time \<Rightarrow> string \<Rightarrow> string \<Rightarrow> string \<Rightarrow> string option \<Rightarrow> string option \<Rightarrow> int \<Rightarrow> gate \<Rightarrow> decision \<times> gate"
  where
  "authorize now v meth url body finding n g =
     (let cfg = g_config g in
      if \<not> host_in_scope url (allowed_hosts cfg) (active_enabled cfg)
      then log_decision now v meth url 1 (deny OUT_OF_SCOPE ScopeRefused) g
      else (let restriction = denial_reason (target_policy cfg) url in
        if restriction \<noteq> []
        then log_decision now v meth url 1 (deny HARD_DENIED (PolicyRefused restriction)) g
        else (let t = classify meth body (Some url) in
          case t of
            HARD_DENIED \<Rightarrow> log_decision now v meth url 1 (deny t DestructivePattern) g
          | SAFE \<Rightarrow> log_decision now v meth url 1 (permit t SafeMethod) g
          | _ \<Rightarrow>
              if \<not> active_enabled cfg
              then log_decision now v meth url 1 (deny t NeedsActive) g
              else if \<not> allow_mutating_replay cfg
              then log_decision now v meth url 1 (deny t NeedsMutatingReplay) g
              else (case reserve_mutating finding n (Some v) g of ((ok, u, ceil), g') \<Rightarrow>
                 log_decision now v meth url 1
                   (if ok then permit t MutatingAuthorized
                    else deny t (CeilingReached u ceil (option_or finding []))) g'))))"

definition authorize_burst ::
  "time \<Rightarrow> string \<Rightarrow> string \<Rightarrow> string \<Rightarrow> int \<Rightarrow> string option \<Rightarrow> string option \<Rightarrow> gate \<Rightarrow> decision \<times> gate"
  where
  "authorize_burst now v meth url requested body finding g =
     (case authorize now v meth url body None 1 g of (base, g1) \<Rightarrow>
        if \<not> allowed base then (base, g1)
        else (let burst = min (min requested (max_burst_size (g_config g1))) hard_max_burst in
          if burst < 1 then log_decision now v meth url 1 (deny (d_tier base) BurstsDisabled) g1
          else (case (if d_tier base = MUTATING then reserve_mutating finding burst (Some v) g1
                      else ((True, 0, 0), g1)) of ((ok, u, ceil), g2) \<Rightarrow>
             if \<not> ok
             then log_decision now v meth url 1
                    (deny (d_tier base) (BurstBudgetExhausted u ceil (option_or finding []) burst)) g2
             else log_decision now v meth url burst
                    ((permit (d_tier base) (BurstAuthorized burst requested))
                       \<lparr>allowed_burst_size := burst\<rparr>) g2)))"

text \<open>
  \<open>GatedAsyncClient.request\<close> outside a run: the decision that blocks the send, or what is handed to
  the HTTP client. \<open>content\<close> is None unless it is text.
\<close>

definition gated_request ::
  "time \<Rightarrow> string \<Rightarrow> string \<Rightarrow> string \<Rightarrow> string option \<Rightarrow> gate
   \<Rightarrow> (decision + (string \<times> string \<times> string option)) \<times> gate" where
  "gated_request now v meth url content g =
     (case authorize now v meth url content None 1 g of (d, g') \<Rightarrow>
        (if allowed d then Inr (meth, url, content) else Inl d, g'))"

section \<open>The gate in force\<close>

text \<open>Gates are objects: a reference is an index into \<open>gates\<close>.\<close>

record gate_world =
  gates :: "gate list"
  ambient_gate :: "nat option"
  default_gate :: "nat option"

definition push_gate :: "nat \<Rightarrow> gate_world \<Rightarrow> nat option \<times> gate_world" where
  "push_gate r w = (ambient_gate w, w\<lparr>ambient_gate := Some r\<rparr>)"

definition pop_gate :: "nat option \<Rightarrow> gate_world \<Rightarrow> gate_world" where
  "pop_gate previous w = w\<lparr>ambient_gate := previous\<rparr>"

text \<open>The body of a \<open>with gate_scope(gate)\<close> block, which pops also when it raises.\<close>

definition gate_scope :: "nat \<Rightarrow> (gate_world \<Rightarrow> ('e + 'a) \<times> gate_world) \<Rightarrow> gate_world \<Rightarrow> ('e + 'a) \<times> gate_world"
  where
  "gate_scope r body w = (case push_gate r w of (previous, w1) \<Rightarrow>
     (case body w1 of (res, w2) \<Rightarrow> (res, pop_gate previous w2)))"

definition get_default_gate :: "gate_config \<Rightarrow> gate_world \<Rightarrow> nat \<times> gate_world" where
  "get_default_gate cfg w = (case ambient_gate w of
     Some r \<Rightarrow> (r, w)
   | None \<Rightarrow> (case default_gate w of
       Some r \<Rightarrow> (r, w)
     | None \<Rightarrow> (length (gates w),
         w\<lparr>gates := gates w @ [new_gate cfg], default_gate := Some (length (gates w))\<rparr>)))"

definition reset_default_gate :: "gate_world \<Rightarrow> gate_world" where
  "reset_default_gate w = w\<lparr>default_gate := None\<rparr>"

section \<open>What each call does to the gate\<close>

definition within_budget :: "gate \<Rightarrow> string \<Rightarrow> string option \<Rightarrow> int \<Rightarrow> bool" where
  "within_budget g v finding n = (case finding of None \<Rightarrow> True
     | Some f \<Rightarrow> f = [] \<or> n \<le> 0 \<or> used g f + n \<le> mutating_ceiling (g_config g) (Some v))"

lemma reserve_ok: "fst (fst (reserve_mutating finding n (Some v) g)) = within_budget g v finding n"
  by (auto simp: reserve_mutating_def within_budget_def Let_def split: option.split)

lemma reserve_config: "g_config (snd (reserve_mutating finding n v g)) = g_config g"
  by (simp add: reserve_mutating_def Let_def split: option.split)

lemma reserve_log: "audit_log (snd (reserve_mutating finding n v g)) = audit_log g"
  by (simp add: reserve_mutating_def Let_def split: option.split)

lemma reserve_used:
  "used (snd (reserve_mutating finding n (Some v) g)) f =
     used g f + (if finding = Some f \<and> f \<noteq> [] \<and> 0 < n \<and> within_budget g v finding n then n else 0)"
  by (auto simp: reserve_mutating_def within_budget_def used_def Let_def option_or_def update_conv'
      split: option.split)

lemma log_decision_simps [simp]:
  "fst (log_decision now v m url b d g) = d"
  "g_config (snd (log_decision now v m url b d g)) = g_config g"
  "used (snd (log_decision now v m url b d g)) f = used g f"
  "mutating_counts (snd (log_decision now v m url b d g)) = mutating_counts g"
  "audit_log (snd (log_decision now v m url b d g)) = audit_log g @
     [\<lparr>a_time = now, a_validator = v, a_method = m, a_url = url, a_tier = d_tier d,
       a_allowed = allowed d, a_reason = d_reason d, a_burst = b\<rparr>]"
  by (simp_all add: log_decision_def used_def)

lemma deny_permit_simps [simp]:
  "allowed (deny t r) = False" "allowed (permit t r) = True" "d_tier (deny t r) = t"
  "d_tier (permit t r) = t" "allowed_burst_size (deny t r) = 1" "allowed_burst_size (permit t r) = 1"
  by (simp_all add: deny_def permit_def)

lemma classify_not_scope: "classify m b u \<noteq> OUT_OF_SCOPE"
  by (simp add: classify_def Let_def)

text \<open>The checks before the mutating budget.\<close>

definition clear :: "gate \<Rightarrow> string \<Rightarrow> bool" where
  "clear g url \<longleftrightarrow> host_in_scope url (allowed_hosts (g_config g)) (active_enabled (g_config g)) \<and>
     denial_reason (target_policy (g_config g)) url = []"

definition replay_on :: "gate \<Rightarrow> bool" where
  "replay_on g \<longleftrightarrow> active_enabled (g_config g) \<and> allow_mutating_replay (g_config g)"

lemma authorize_mutating:
  assumes "clear g url" and "classify m body (Some url) = MUTATING" and "replay_on g"
  shows "authorize now v m url body finding n g =
    (case reserve_mutating finding n (Some v) g of ((ok, u, ceil), g') \<Rightarrow>
       log_decision now v m url 1 (if ok then permit MUTATING MutatingAuthorized
         else deny MUTATING (CeilingReached u ceil (option_or finding []))) g')"
  using assms by (simp add: authorize_def Let_def clear_def replay_on_def)

lemma authorize_other:
  assumes "\<not> (clear g url \<and> classify m body (Some url) = MUTATING \<and> replay_on g)"
  shows "\<exists>d. authorize now v m url body finding n g = log_decision now v m url 1 d g \<and>
    (allowed d \<longleftrightarrow> clear g url \<and> classify m body (Some url) = SAFE) \<and> (allowed d \<longrightarrow> d_tier d = SAFE)
    \<and> allowed_burst_size d = 1"
proof (cases "clear g url")
  case False
  then show ?thesis by (auto simp: authorize_def Let_def clear_def)
next
  case True
  then show ?thesis
    using assms classify_not_scope[of m body "Some url"]
    by (cases "classify m body (Some url)")
      (auto simp: authorize_def Let_def clear_def replay_on_def)
qed

lemma authorize_allowed:
  "allowed (fst (authorize now v m url body finding n g)) \<longleftrightarrow> clear g url \<and>
     (classify m body (Some url) = SAFE \<or> classify m body (Some url) = MUTATING \<and> replay_on g \<and>
        within_budget g v finding n)"
proof (cases "clear g url \<and> classify m body (Some url) = MUTATING \<and> replay_on g")
  case True
  then show ?thesis
    using reserve_ok[of finding n v g] by (cases "reserve_mutating finding n (Some v) g") (auto simp: authorize_mutating split: prod.splits)
next
  case False
  then show ?thesis using authorize_other[OF False, of now v finding n] by auto
qed

lemma authorize_tier:
  "allowed (fst (authorize now v m url body finding n g)) \<Longrightarrow>
     d_tier (fst (authorize now v m url body finding n g)) = classify m body (Some url)
     \<and> allowed_burst_size (fst (authorize now v m url body finding n g)) = 1"
proof (cases "clear g url \<and> classify m body (Some url) = MUTATING \<and> replay_on g")
  case True
  assume "allowed (fst (authorize now v m url body finding n g))"
  then show ?thesis using True by (cases "reserve_mutating finding n (Some v) g") (auto simp: authorize_mutating split: prod.splits)
next
  case False
  assume "allowed (fst (authorize now v m url body finding n g))"
  then show ?thesis using authorize_other[OF False, of now v finding n] by auto
qed

lemma authorize_config: "g_config (snd (authorize now v m url body finding n g)) = g_config g"
proof (cases "clear g url \<and> classify m body (Some url) = MUTATING \<and> replay_on g")
  case True
  then show ?thesis
    using reserve_config[of finding n "Some v" g] by (cases "reserve_mutating finding n (Some v) g") (auto simp: authorize_mutating split: prod.splits)
next
  case False
  then show ?thesis using authorize_other[OF False, of now v finding n] by auto
qed

lemma authorize_used:
  "used (snd (authorize now v m url body finding n g)) f = used g f +
     (if allowed (fst (authorize now v m url body finding n g)) \<and> classify m body (Some url) = MUTATING
         \<and> finding = Some f \<and> f \<noteq> [] \<and> 0 < n then n else 0)"
proof (cases "clear g url \<and> classify m body (Some url) = MUTATING \<and> replay_on g")
  case True
  then show ?thesis
    using reserve_used[of finding n v g f] reserve_ok[of finding n v g]
    by (cases "reserve_mutating finding n (Some v) g") (auto simp: authorize_mutating split: prod.splits)
next
  case False
  then show ?thesis
    using authorize_other[OF False, of now v finding n] by auto
qed

lemma authorize_log:
  "audit_log (snd (authorize now v m url body finding n g)) = audit_log g @
     [\<lparr>a_time = now, a_validator = v, a_method = m, a_url = url,
       a_tier = d_tier (fst (authorize now v m url body finding n g)),
       a_allowed = allowed (fst (authorize now v m url body finding n g)),
       a_reason = d_reason (fst (authorize now v m url body finding n g)), a_burst = 1\<rparr>]"
proof (cases "clear g url \<and> classify m body (Some url) = MUTATING \<and> replay_on g")
  case True
  then show ?thesis
    using reserve_log[of finding n "Some v" g] by (cases "reserve_mutating finding n (Some v) g") (auto simp: authorize_mutating split: prod.splits)
next
  case False
  then show ?thesis using authorize_other[OF False, of now v finding n] by auto
qed

section \<open>Bursts\<close>

definition burst_size :: "gate \<Rightarrow> int \<Rightarrow> int" where
  "burst_size g requested = min (min requested (max_burst_size (g_config g))) hard_max_burst"

lemma authorize_burst_cases:
  obtains (base) "\<not> allowed (fst (authorize now v m url body None 1 g))"
      and "authorize_burst now v m url req body finding g = authorize now v m url body None 1 g"
  | (disabled) "allowed (fst (authorize now v m url body None 1 g))" and "burst_size g req < 1"
      and "authorize_burst now v m url req body finding g =
        log_decision now v m url 1 (deny (d_tier (fst (authorize now v m url body None 1 g))) BurstsDisabled)
          (snd (authorize now v m url body None 1 g))"
  | (spent) u ceil where "allowed (fst (authorize now v m url body None 1 g))" and "1 \<le> burst_size g req"
      and "classify m body (Some url) = MUTATING" and "\<not> within_budget g v finding (burst_size g req)"
      and "authorize_burst now v m url req body finding g =
        log_decision now v m url 1 (deny MUTATING (BurstBudgetExhausted u ceil (option_or finding []) (burst_size g req)))
          (snd (authorize now v m url body None 1 g))"
  | (granted) g2 where "allowed (fst (authorize now v m url body None 1 g))" and "1 \<le> burst_size g req"
      and "\<And>f. used g2 f = used g f + (if classify m body (Some url) = MUTATING \<and> finding = Some f \<and> f \<noteq> []
        then burst_size g req else 0)"
      and "g_config g2 = g_config g"
      and "classify m body (Some url) = MUTATING \<longrightarrow> within_budget g v finding (burst_size g req)"
      and "authorize_burst now v m url req body finding g =
        log_decision now v m url (burst_size g req)
          ((permit (classify m body (Some url)) (BurstAuthorized (burst_size g req) req))
             \<lparr>allowed_burst_size := burst_size g req\<rparr>) g2"
proof -
  obtain d g1 where a: "authorize now v m url body None 1 g = (d, g1)" by (cases "authorize now v m url body None 1 g")
  have cfg: "g_config g1 = g_config g" using authorize_config[of now v m url body None 1 g] a by simp
  have bg: "burst_size g1 req = burst_size g req" by (simp add: burst_size_def cfg)
  have u1: "used g1 f = used g f" for f
    using authorize_used[of now v m url body None 1 g f] a by simp
  have wb: "within_budget g1 v finding n = within_budget g v finding n" for n
    by (simp add: within_budget_def u1 cfg split: option.split)
  show ?thesis
  proof (cases "allowed d")
    case False
    then show ?thesis using base a by (simp add: authorize_burst_def)
  next
    case al: True
    have t: "d_tier d = classify m body (Some url)"
      using authorize_tier[of now v m url body None 1 g] a al by simp
    show ?thesis
    proof (cases "burst_size g req < 1")
      case True
      then show ?thesis
        using disabled a al cfg by (simp add: authorize_burst_def burst_size_def Let_def)
    next
      case bs: False
      show ?thesis
      proof (cases "classify m body (Some url) = MUTATING")
        case mut: True
        obtain ok u ceil g2 where r: "reserve_mutating finding (burst_size g req) (Some v) g1 = ((ok, u, ceil), g2)"
          by (cases "reserve_mutating finding (burst_size g req) (Some v) g1") auto
        have ok: "ok = within_budget g v finding (burst_size g req)"
          using reserve_ok[of finding "burst_size g req" v g1] r wb by simp
        show ?thesis
        proof (cases ok)
          case True
          show ?thesis
            by (rule granted[of g2])
              (use a al bs t mut r ok True cfg reserve_used[of finding "burst_size g req" v g1]
                reserve_config[of finding "burst_size g req" "Some v" g1] u1 wb in
               \<open>simp_all add: authorize_burst_def burst_size_def[symmetric] Let_def cfg bg\<close>)
        next
          case False
          have "g2 = g1" using r False
            by (auto simp: reserve_mutating_def Let_def split: option.splits if_splits)
          then show ?thesis
            by (intro spent[of u ceil])
              (use a al bs t mut r ok False cfg in
               \<open>simp_all add: authorize_burst_def burst_size_def[symmetric] Let_def cfg bg\<close>)
        qed
      next
        case nm: False
        show ?thesis
          by (rule granted[of g1])
            (use a al bs t nm cfg u1 in
             \<open>simp_all add: authorize_burst_def burst_size_def[symmetric] Let_def cfg bg\<close>)
      qed
    qed
  qed
qed

section \<open>Runs\<close>

datatype gate_event =
    Authorize time string string string "string option" "string option" int
  | Burst time string string string int "string option" "string option"

fun gate_step :: "gate \<Rightarrow> gate_event \<Rightarrow> gate" where
  "gate_step g (Authorize now v m url body finding n) = snd (authorize now v m url body finding n g)"
| "gate_step g (Burst now v m url req body finding) = snd (authorize_burst now v m url req body finding g)"

text \<open>The mutating sends for a finding that an event's decision permits.\<close>

definition permitted :: "string \<Rightarrow> decision \<Rightarrow> string option \<Rightarrow> int \<Rightarrow> int" where
  "permitted f d finding n = (if allowed d \<and> d_tier d = MUTATING \<and> finding = Some f then max 0 n else 0)"

fun sends :: "string \<Rightarrow> gate \<Rightarrow> gate_event \<Rightarrow> int" where
  "sends f g (Authorize now v m url body finding n) =
     permitted f (fst (authorize now v m url body finding n g)) finding n"
| "sends f g (Burst now v m url req body finding) =
     (let d = fst (authorize_burst now v m url req body finding g) in
      permitted f d finding (allowed_burst_size d))"

fun total_sends :: "string \<Rightarrow> gate \<Rightarrow> gate_event list \<Rightarrow> int" where
  "total_sends f g [] = 0"
| "total_sends f g (e # es) = sends f g e + total_sends f (gate_step g e) es"

lemma gate_step_config: "g_config (gate_step g e) = g_config g"
proof (cases e)
  case (Burst now v m url req body finding)
  show ?thesis
    unfolding Burst gate_step.simps
    by (rule authorize_burst_cases[of now v m url body g req finding])
      (simp_all add: authorize_config)
qed (simp add: authorize_config)

text \<open>The counter of a finding goes up by exactly what was permitted for it, within the ceiling.\<close>

lemma gate_step_used:
  assumes f: "f \<noteq> []"
  shows "used (gate_step g e) f = used g f + sends f g e
    \<and> (sends f g e = 0 \<or> (\<exists>v. used (gate_step g e) f \<le> mutating_ceiling (g_config g) (Some v)))"
proof (cases e)
  case (Authorize now v m url body finding n)
  let ?d = "fst (authorize now v m url body finding n g)"
  have s: "sends f g e = (if allowed ?d \<and> classify m body (Some url) = MUTATING \<and> finding = Some f
      then max 0 n else 0)"
    using authorize_tier[of now v m url body finding n g] unfolding Authorize
    by (auto simp: permitted_def)
  have u: "used (gate_step g e) f = used g f + sends f g e"
    unfolding s unfolding Authorize gate_step.simps authorize_used using f by auto
  moreover have "used g f + sends f g e \<le> mutating_ceiling (g_config g) (Some v)"
    if "sends f g e \<noteq> 0"
    using that f s authorize_allowed[of now v m url body finding n g]
    by (auto simp: within_budget_def max_def split: if_splits)
  ultimately show ?thesis by metis
next
  case (Burst now v m url req body finding)
  show ?thesis
    unfolding Burst gate_step.simps sends.simps
  proof (rule authorize_burst_cases[of now v m url body g req finding], goal_cases)
    case 1
    then show ?case by (simp add: authorize_used permitted_def)
  next
    case 2
    then show ?case by (simp add: authorize_used permitted_def)
  next
    case (3 u ceil)
    then show ?case by (simp add: authorize_used permitted_def)
  next
    case (4 g2)
    then show ?case using f
      by (auto simp: permitted_def within_budget_def Let_def)
  qed
qed

text \<open>A gate for which nothing is reserved beyond a bound that all its ceilings respect.\<close>

definition capped_at :: "int \<Rightarrow> string \<Rightarrow> gate \<Rightarrow> bool" where
  "capped_at B f g \<longleftrightarrow> f \<noteq> [] \<and> (\<forall>v. mutating_ceiling (g_config g) v \<le> B) \<and> used g f \<le> B"

lemma capped_at_step: "capped_at B f g \<Longrightarrow> capped_at B f (gate_step g e)"
  using gate_step_used[of f g e] unfolding capped_at_def gate_step_config
  by (metis add.right_neutral order_trans)

interpretation gate: step_system gate_step "capped_at B f" for B f
  by unfold_locales (rule capped_at_step)

lemma total_sends_used: "f \<noteq> [] \<Longrightarrow> used (foldl gate_step g es) f = used g f + total_sends f g es"
  by (induction es arbitrary: g) (simp_all add: gate_step_used)

section \<open>Properties\<close>

text \<open>C3: A single request is authorised exactly when the URL is in scope and no endpoint policy
  objects, no destructive pattern is found in the body or the URL, raw or decoded, and the method is
  a safe one or else active testing and mutating replay are both on and the finding's budget has
  room; and each call appends exactly one audit entry, with the decision it returned.\<close>

theorem authorization_iff:
  "(allowed (fst (authorize now v m url body finding n g)) \<longleftrightarrow>
      host_in_scope url (allowed_hosts (g_config g)) (active_enabled (g_config g)) \<and>
      denial_reason (target_policy (g_config g)) url = [] \<and>
      (classify m body (Some url) = SAFE \<or>
       classify m body (Some url) = MUTATING \<and> active_enabled (g_config g) \<and>
       allow_mutating_replay (g_config g) \<and> within_budget g v finding n))
   \<and> map a_allowed (audit_log (snd (authorize now v m url body finding n g))) =
       map a_allowed (audit_log g) @ [allowed (fst (authorize now v m url body finding n g))]"
  unfolding authorize_log authorize_allowed clear_def replay_on_def by auto

text \<open>C4: The budget of a finding: in any sequence of single and burst authorisations on a new gate,
  whatever the configuration, the mutating sends permitted for one finding never exceed the hard
  ceiling of 20, nor any bound that the configured ceilings respect.\<close>

theorem mutating_budget:
  assumes "f \<noteq> []" and "0 \<le> B" and "\<forall>v. mutating_ceiling cfg v \<le> B"
  shows "total_sends f (new_gate cfg) es \<le> min B hard_max_mutating"
proof -
  have "mutating_ceiling cfg v \<le> min B hard_max_mutating" for v
    using assms(3) by (simp add: mutating_ceiling_def)
  then have "capped_at (min B hard_max_mutating) f (new_gate cfg)"
    using assms by (simp add: capped_at_def new_gate_def used_def option_or_def hard_max_mutating_def)
  from gate.run_good[OF this] have "used (foldl gate_step (new_gate cfg) es) f \<le> min B hard_max_mutating"
    by (simp add: capped_at_def)
  then show ?thesis
    using total_sends_used[OF assms(1), of "new_gate cfg" es]
    by (simp add: new_gate_def used_def option_or_def)
qed

text \<open>A permitted burst has at least one request and no more than were asked for, than the
  operator allows and than the hard ceiling of 20; and it is only permitted where a single request
  is.\<close>

theorem burst_bounded:
  assumes "allowed (fst (authorize_burst now v m url req body finding g))"
  shows "1 \<le> allowed_burst_size (fst (authorize_burst now v m url req body finding g))
    \<and> allowed_burst_size (fst (authorize_burst now v m url req body finding g)) =
        min req (min (max_burst_size (g_config g)) hard_max_burst)
    \<and> allowed (fst (authorize now v m url body None 1 g))"
  using assms
  by (cases rule: authorize_burst_cases[of now v m url body g req finding])
    (simp_all add: burst_size_def min.assoc)

lemma destructive_drop:
  assumes d: "py_lower d = ''drop''" and t: "py_lower t = ''table''"
    and w: "list_all is_space w" "w \<noteq> []" and a: "\<not> word_at (rev a)" and b: "\<not> word_at b"
  shows "destructive (a @ d @ w @ t @ b)"
proof -
  have wd: "word_at (d @ x)" for x
  proof -
    obtain c d' where "d = c # d'" "char_lower c = CHR ''d''" using d by (auto simp: py_lower_def)
    moreover from this have "is_word c"
      by (auto simp: char_lower_def Let_def is_word_def is_alpha_def is_lower_def code_def split: if_splits)
    ultimately show ?thesis by (simp add: word_at_def)
  qed
  have wt: "word_at (rev t @ x)" for x
  proof -
    have "char_lower (last t) = CHR ''e''" "t \<noteq> []"
      using t by (auto simp: py_lower_def last_map[symmetric])
    moreover from this have "is_word (last t)"
      by (auto simp: char_lower_def Let_def is_word_def is_alpha_def is_lower_def code_def split: if_splits)
    ultimately show ?thesis by (cases t rule: rev_cases) (simp_all add: word_at_def)
  qed
  let ?p1 = "(rev d @ rev a, w @ t @ b)" and ?p2 = "(rev w @ rev d @ rev a, t @ b)"
  let ?p3 = "(rev t @ rev w @ rev d @ rev a, b)"
  have "(rev a, d @ w @ t @ b) \<in> set (ends WordBoundary (rev a, d @ w @ t @ b))"
    using a wd by simp
  moreover have "?p1 \<in> set (ends (lit ''DROP'') (rev a, d @ w @ t @ b))"
    by (rule ends_lit) (use d in \<open>simp add: py_lower_def, code_simp\<close>)
  moreover have "?p2 \<in> set (ends (plus space) ?p1)"
    unfolding space_def using w by (rule ends_plus)
  moreover have "?p3 \<in> set (ends (lit ''TABLE'') ?p2)"
    by (rule ends_lit) (use t in \<open>simp add: py_lower_def, code_simp\<close>)
  moreover have "?p3 \<in> set (ends WordBoundary ?p3)" using wt b by simp
  moreover have "?p3 \<in> set (ends Eps ?p3)" by simp
  ultimately have "?p3 \<in> set (ends (hd hard_deny_patterns) (rev a, d @ w @ t @ b))"
    unfolding hard_deny_patterns_def list.sel seqs.simps by (meson ends_seq)
  then have "search (hd hard_deny_patterns) (a @ d @ w @ t @ b)" by (rule search_at)
  then show ?thesis by (simp add: destructive_def hard_deny_patterns_def)
qed

text \<open>C5: A \<open>DROP TABLE\<close> in any letter case, with any white space between the words and no word
  character around them, in the body or its form-decoded version, is never authorised: not under any
  configuration, method, finding or burst.\<close>

theorem drop_table_never_authorized:
  assumes "py_lower d = ''drop''" and "py_lower t = ''table''"
    and "list_all is_space w" and "w \<noteq> []" and "\<not> word_at (rev a)" and "\<not> word_at b"
    and "a @ d @ w @ t @ b \<in> {body, unquote_plus body}"
  shows "\<not> allowed (fst (authorize now v m url (Some body) finding n g))
    \<and> \<not> allowed (fst (authorize_burst now v m url req (Some body) finding g))"
proof -
  have D: "destructive (a @ d @ w @ t @ b)"
    using assms by (intro destructive_drop)
  have "a @ d @ w @ t @ b \<noteq> []" using assms(4) by simp
  with assms(7) have "body \<noteq> []" by (auto simp: unquote_plus_def)
  with D assms(7) have "classify m (Some body) (Some url) = HARD_DENIED"
    by (auto simp: classify_def Let_def option_or_def)
  then have "\<not> allowed (fst (authorize now v m url (Some body) finding n g))" for finding n
    by (simp add: authorize_allowed)
  then show ?thesis
    by (cases rule: authorize_burst_cases[of now v m url "Some body" g req finding]) simp_all
qed

text \<open>A refused burst leaves a permission in the audit log: where the single request is
  authorised but the burst is not, the log gains two entries, the first of which says that a request
  which was never sent was allowed.\<close>

theorem refused_burst_logged_as_allowed:
  assumes "allowed (fst (authorize now v m url body None 1 g))"
    and "\<not> allowed (fst (authorize_burst now v m url req body finding g))"
  shows "map a_allowed (audit_log (snd (authorize_burst now v m url req body finding g))) =
    map a_allowed (audit_log g) @ [True, False]"
  using assms
  by (cases rule: authorize_burst_cases[of now v m url body g req finding])
    (simp_all add: authorize_log)

text \<open>The ambient gate.\<close>

interpretation ambient_gate_slot: ambient_slot push_gate pop_gate ambient_gate Some
  by unfold_locales (simp_all add: push_gate_def pop_gate_def)

text \<open>A scope installs its gate for its body and takes it away again: inside, every caller gets
  that gate whatever configuration it passes; afterwards, whether the body returned or raised, the
  gate in force is the one from before.\<close>

theorem gate_scope_restores:
  "fst (get_default_gate cfg (snd (push_gate r w))) = r
   \<and> ambient_gate (snd (gate_scope r body w)) = ambient_gate w"
proof
  show "fst (get_default_gate cfg (snd (push_gate r w))) = r"
    by (simp add: get_default_gate_def push_gate_def)
  show "ambient_gate (snd (gate_scope r body w)) = ambient_gate w"
    using ambient_gate_slot.push_pop_current[of r w "snd (body (snd (push_gate r w)))"]
    by (simp add: gate_scope_def case_prod_beta)
qed

section \<open>Concrete runs\<close>

definition sample_gate_config :: gate_config where
  "sample_gate_config = \<lparr>active_enabled = True, allow_mutating_replay = True, max_burst_size = 5,
     max_mutating = 3, ceiling_by_check = default_ceiling_by_check,
     allowed_hosts = Entries [''t''], target_policy = default_policy\<rparr>"

abbreviation sample_gate :: gate where "sample_gate \<equiv> new_gate sample_gate_config"

definition sample_events :: "gate_event list" where
  "sample_events = [Authorize 0 ''idor'' ''POST'' ''http://t'' None (Some ''f1'') 1,
     Burst 1 ''race'' ''POST'' ''http://t'' 9 None (Some ''f1''),
     Burst 2 ''race'' ''POST'' ''http://t'' 2 None (Some ''f1'')]"

lemma sample_clear: "clear sample_gate ''http://t''"
  unfolding clear_def by (rule conjI; code_simp)

lemma sample_post: "classify ''POST'' None (Some ''http://t'') = MUTATING"
  by code_simp

lemma sample_allowed: "allowed (fst (authorize now v ''POST'' ''http://t'' None None 1 sample_gate))"
  by (simp add: authorize_allowed sample_clear sample_post replay_on_def within_budget_def)
    (simp add: new_gate_def sample_gate_config_def)

lemma sample_burst: "burst_size sample_gate 9 = 5 \<and> within_budget sample_gate v None n \<and>
    \<not> within_budget sample_gate ''race'' (Some ''f1'') 5"
  by (simp add: burst_size_def within_budget_def new_gate_def used_def sample_gate_config_def
      hard_max_burst_def mutating_ceiling_def option_or_def default_ceiling_by_check_def
      hard_max_mutating_def)

theorem mutating_budget_witness:
  "total_sends ''f1'' sample_gate sample_events \<le> 3"
proof -
  have "\<forall>v. mutating_ceiling sample_gate_config v \<le> 3"
    by (auto simp: mutating_ceiling_def sample_gate_config_def default_ceiling_by_check_def
        option_or_def hard_max_mutating_def)
  from mutating_budget[OF _ _ this, of "''f1''" sample_events] show ?thesis by simp
qed

theorem burst_bounded_witness:
  "allowed_burst_size (fst (authorize_burst 1 ''race'' ''POST'' ''http://t'' 9 None None sample_gate)) = 5"
proof -
  have "allowed (fst (authorize_burst 1 ''race'' ''POST'' ''http://t'' 9 None None sample_gate))"
    by (rule authorize_burst_cases[of 1 "''race''" "''POST''" "''http://t''" None sample_gate 9 None])
      (simp_all add: sample_allowed sample_burst)
  from burst_bounded[OF this] show ?thesis
    by (simp add: new_gate_def sample_gate_config_def hard_max_burst_def)
qed

theorem drop_table_never_authorized_witness:
  "\<not> allowed (fst (authorize 0 ''v'' ''GET'' ''http://t'' (Some ''q=1;dRop+TABLE+x'') None 1 sample_gate))"
proof -
  have mem: "''q=1;'' @ ''dRop'' @ '' '' @ ''TABLE'' @ '' x'' \<in>
      {''q=1;dRop+TABLE+x'', unquote_plus ''q=1;dRop+TABLE+x''}" by code_simp
  have "py_lower ''dRop'' = ''drop''" "py_lower ''TABLE'' = ''table''" "list_all is_space '' ''"
    "'' '' \<noteq> []" "\<not> word_at (rev ''q=1;'')" "\<not> word_at '' x''" by code_simp+
  from drop_table_never_authorized[OF this mem] show ?thesis by blast
qed

theorem refused_burst_logged_as_allowed_witness:
  "map a_allowed (audit_log (snd (authorize_burst 1 ''race'' ''POST'' ''http://t'' 9 None
      (Some ''f1'') sample_gate))) = [True, False]"
proof -
  have "\<not> allowed (fst (authorize_burst 1 ''race'' ''POST'' ''http://t'' 9 None (Some ''f1'') sample_gate))"
    by (rule authorize_burst_cases[of 1 "''race''" "''POST''" "''http://t''" None sample_gate 9 "Some ''f1''"])
      (simp_all add: sample_allowed sample_post sample_burst)
  from refused_burst_logged_as_allowed[OF sample_allowed this] show ?thesis
    by (simp add: new_gate_def)
qed

end
