(* ===== verification/ResourceGovernor.thy ===== *)
theory ResourceGovernor
  imports Effort
begin

text \<open>
  The per-vulnerability governor (\<open>resource_governor.py\<close>): the retry policy of one vulnerability,
  the tracker that stops its retry loop, and the allocation of a shared token budget over
  competing vulnerabilities; and the loop that drives the tracker (\<open>run_retry_agents\<close> of
  \<open>orchestrator_confirm.py\<close>), over an arbitrary agent.

  Policy configuration values have the types the configuration schema gives them (a missing key
  is \<open>None\<close>). Texts for the operator are values that hold what the text says.
\<close>

section \<open>The policy of a vulnerability\<close>

definition severity_weights :: "(string \<times> real) list" where
  "severity_weights = [(''critical'', 1), (''high'', 7 / 10), (''medium'', 4 / 10), (''low'', 2 / 10),
     (''info'', 5 / 100)]"

definition severity_weight_of :: "string \<Rightarrow> real" where
  "severity_weight_of s = option_or (dict_get severity_weights (py_lower s)) (5 / 100)"

record policy =
  max_retries :: int
  max_agents :: int
  max_tokens_per_vuln :: "int option"
  stop_on_found :: bool
  min_actionable_confidence :: real

record policy_cfg =
  cfg_max_retries :: "int option"
  cfg_max_agents :: "int option"
  cfg_max_tokens :: "int option"
  cfg_stop_on_found :: "bool option"
  cfg_min_confidence :: "real option"

definition policy_from_dict :: "policy_cfg option \<Rightarrow> policy" where
  "policy_from_dict cfg =
     (case cfg of
        None \<Rightarrow> \<lparr>max_retries = 2, max_agents = 3, max_tokens_per_vuln = None, stop_on_found = True,
                 min_actionable_confidence = 4 / 10\<rparr>
      | Some c \<Rightarrow> \<lparr>max_retries = option_or (cfg_max_retries c) 2,
                   max_agents = option_or (cfg_max_agents c) 3,
                   max_tokens_per_vuln = (if cfg_max_tokens c = Some 0 then None else cfg_max_tokens c),
                   stop_on_found = option_or (cfg_stop_on_found c) True,
                   min_actionable_confidence = option_or (cfg_min_confidence c) (4 / 10)\<rparr>)"

definition merged_with :: "policy_cfg option \<Rightarrow> policy \<Rightarrow> policy" where
  "merged_with overrides p =
     (case overrides of
        None \<Rightarrow> p
      | Some c \<Rightarrow> \<lparr>max_retries = option_or (cfg_max_retries c) (max_retries p),
                   max_agents = option_or (cfg_max_agents c) (max_agents p),
                   max_tokens_per_vuln = (if cfg_max_tokens c \<noteq> None then cfg_max_tokens c
                                          else max_tokens_per_vuln p),
                   stop_on_found = option_or (cfg_stop_on_found c) (stop_on_found p),
                   min_actionable_confidence =
                     option_or (cfg_min_confidence c) (min_actionable_confidence p)\<rparr>)"

definition max_passes :: "policy \<Rightarrow> int" where
  "max_passes p = max_retries p + 1"

section \<open>The tracker\<close>

record spend =
  sp_policy :: policy
  global_budget :: "budget option"
  granted_tokens :: "int option"
  passes_used :: int
  agents_used :: int
  tokens_used :: int
  sp_found :: bool

definition new_spend :: "policy \<Rightarrow> budget option \<Rightarrow> int option \<Rightarrow> spend" where
  "new_spend p b granted = \<lparr>sp_policy = p, global_budget = b, granted_tokens = granted,
     passes_used = 0, agents_used = 0, tokens_used = 0, sp_found = False\<rparr>"

definition token_ceiling :: "spend \<Rightarrow> int option" where
  "token_ceiling s =
     (case (max_tokens_per_vuln (sp_policy s), granted_tokens s) of
        (Some a, Some b) \<Rightarrow> Some (min a b)
      | (Some a, None) \<Rightarrow> Some a
      | (None, g) \<Rightarrow> g)"

datatype stop_reason =
    MayStart | AlreadyFound | RetryCap int int | AgentCap int int int | TokenCap int int
  | GlobalBudget Effort.reason

definition can_start_round :: "time \<Rightarrow> int \<Rightarrow> spend \<Rightarrow> bool \<times> stop_reason" where
  "can_start_round now planned s =
     (let p = sp_policy s in
      if stop_on_found p \<and> sp_found s then (False, AlreadyFound)
      else if passes_used s \<ge> max_passes p then (False, RetryCap (passes_used s) (max_passes p))
      else if agents_used s + planned > max_agents p
      then (False, AgentCap (agents_used s) (max_agents p) planned)
      else
        (let budget_check =
           (case global_budget s of
              None \<Rightarrow> (True, MayStart)
            | Some b \<Rightarrow> (case allow now b of (allowed, why) \<Rightarrow>
                if \<not> allowed then (False, GlobalBudget why) else (True, MayStart)))
         in case token_ceiling s of
              None \<Rightarrow> budget_check
            | Some c \<Rightarrow> if tokens_used s \<ge> c then (False, TokenCap (tokens_used s) c)
                        else budget_check))"

definition record_round :: "int \<Rightarrow> int \<Rightarrow> bool \<Rightarrow> spend \<Rightarrow> spend" where
  "record_round agents_run tokens_spent found s =
     s\<lparr>passes_used := passes_used s + 1, agents_used := agents_used s + agents_run,
       tokens_used := tokens_used s + max 0 tokens_spent, sp_found := (sp_found s \<or> found)\<rparr>"

definition spend_to_dict :: "spend \<Rightarrow> (string \<times> json) list" where
  "spend_to_dict s = [(''passes_used'', JInt (passes_used s)), (''agents_used'', JInt (agents_used s)),
     (''tokens_used'', JInt (tokens_used s)), (''found'', JBool (sp_found s)),
     (''token_ceiling'', json_int (token_ceiling s))]"

section \<open>The allocation of a shared budget\<close>

record candidate =
  cand_id :: string
  vulnerability_class :: string
  cand_url :: string
  severity :: string
  confidence :: real
  explicit_priority :: "real option"

definition effective_priority :: "candidate \<Rightarrow> real" where
  "effective_priority c =
     (case explicit_priority c of
        Some p \<Rightarrow> p
      | None \<Rightarrow> severity_weight_of (severity c) + 5 / 100 * max 0 (min 1 (confidence c)))"

datatype alloc_action = FULL | REDUCED | DEFERRED

datatype alloc_note = NoCapNote | FullNote | FundsOnly int int | Insufficient

record allocation =
  al_candidate :: candidate
  al_action :: alloc_action
  granted_retries :: int
  al_tokens :: int
  al_note :: alloc_note

datatype guidance =
    NoTokenCap nat int
  | BudgetSummary int nat nat nat int
  | DeferredItems "(string \<times> string) list" nat int nat
  | ReducedItems nat

record plan =
  allocations :: "allocation list"
  total_budget :: "int option"
  planned_tokens :: int
  round_cost_tokens :: int
  plan_guidance :: "guidance list"

definition count_action :: "alloc_action \<Rightarrow> plan \<Rightarrow> nat" where
  "count_action a p = length (filter (\<lambda>x. al_action x = a) (allocations p))"

definition action_name :: "alloc_action \<Rightarrow> string" where
  "action_name a = (case a of FULL \<Rightarrow> ''full'' | REDUCED \<Rightarrow> ''reduced'' | DEFERRED \<Rightarrow> ''deferred'')"

definition counts :: "plan \<Rightarrow> (string \<times> nat) list" where
  "counts p = map (\<lambda>a. (action_name a, count_action a p)) [FULL, REDUCED, DEFERRED]"

definition estimate_round_cost :: "ledger \<Rightarrow> real \<Rightarrow> real \<Rightarrow> int" where
  "estimate_round_cost l agents_per_round critique_share =
     (let agent = average_tokens AGENT_DISPATCH l; critique = average_tokens CRITIQUE l in
      py_int (agents_per_round * agent + critique_share * critique))"

definition policy_cost :: "policy \<Rightarrow> int \<Rightarrow> int" where
  "policy_cost p round_cost =
     (let cost = max_passes p * round_cost in
      case max_tokens_per_vuln p of None \<Rightarrow> cost | Some c \<Rightarrow> min cost c)"

definition add_allocation :: "allocation \<Rightarrow> plan \<Rightarrow> plan" where
  "add_allocation a p = p\<lparr>allocations := allocations p @ [a],
     planned_tokens := planned_tokens p + al_tokens a\<rparr>"

definition fund_one :: "policy \<Rightarrow> int \<Rightarrow> int \<Rightarrow> candidate \<Rightarrow> plan \<times> int \<Rightarrow> plan \<times> int" where
  "fund_one p round_cost full_cost c = (\<lambda>(pl, left).
     if left \<ge> full_cost \<and> full_cost > 0
     then (add_allocation \<lparr>al_candidate = c, al_action = FULL, granted_retries = max_retries p,
             al_tokens = full_cost, al_note = FullNote\<rparr> pl, left - full_cost)
     else if left \<ge> round_cost
     then (let passes0 = min (max_passes p) (left div round_cost);
               granted0 = passes0 * round_cost;
               granted = (case max_tokens_per_vuln p of None \<Rightarrow> granted0 | Some t \<Rightarrow> min granted0 t);
               passes = (case max_tokens_per_vuln p of None \<Rightarrow> passes0
                         | Some t \<Rightarrow> max 1 (granted div round_cost))
           in (add_allocation \<lparr>al_candidate = c, al_action = REDUCED,
                 granted_retries = max 0 (passes - 1), al_tokens = granted,
                 al_note = FundsOnly passes (max_passes p)\<rparr> pl, left - granted))
     else (add_allocation \<lparr>al_candidate = c, al_action = DEFERRED, granted_retries = 0,
             al_tokens = 0, al_note = Insufficient\<rparr> pl, left))"

definition add_guidance :: "policy \<Rightarrow> int \<Rightarrow> int \<Rightarrow> plan \<Rightarrow> plan" where
  "add_guidance p full_cost budget pl =
     (let nf = count_action FULL pl; nr = count_action REDUCED pl; nd = count_action DEFERRED pl;
          deferred = filter (\<lambda>a. al_action a = DEFERRED) (allocations pl);
          summary = [BudgetSummary budget nf nr nd (planned_tokens pl)];
          d = (if deferred \<noteq> []
               then [DeferredItems (map (\<lambda>a. (vulnerability_class (al_candidate a),
                                             cand_url (al_candidate a))) (take 5 deferred))
                       (length deferred - 5) (int (length deferred) * full_cost) (nf + nr)]
               else []);
          r = (if filter (\<lambda>a. al_action a = REDUCED) (allocations pl) \<noteq> [] then [ReducedItems nr] else [])
      in pl\<lparr>plan_guidance := plan_guidance pl @ summary @ d @ r\<rparr>)"

definition by_priority :: "candidate list \<Rightarrow> candidate list" where
  "by_priority cs = sort_key (\<lambda>c. - effective_priority c) cs"

definition plan_allocation :: "candidate list \<Rightarrow> int option \<Rightarrow> policy \<Rightarrow> int \<Rightarrow> plan" where
  "plan_allocation cs budget p round_cost_arg =
     (let round_cost = max 1 round_cost_arg;
          pl0 = \<lparr>allocations = [], total_budget = budget, planned_tokens = 0,
                 round_cost_tokens = round_cost, plan_guidance = []\<rparr>;
          ordered = by_priority cs;
          full_cost = policy_cost p round_cost
      in case budget of
           None \<Rightarrow>
             (let pl = foldl (\<lambda>pl c. add_allocation \<lparr>al_candidate = c, al_action = FULL,
                          granted_retries = max_retries p, al_tokens = full_cost,
                          al_note = NoCapNote\<rparr> pl) pl0 ordered
              in pl\<lparr>plan_guidance := [NoTokenCap (length ordered) (max_passes p)]\<rparr>)
         | Some b \<Rightarrow>
             add_guidance p full_cost b
               (fst (foldl (\<lambda>st c. fund_one p round_cost full_cost c st) (pl0, max 0 b) ordered)))"

definition round4 :: "real \<Rightarrow> real" where
  "round4 x = of_int (py_round (x * 10000)) / 10000"

definition allocation_to_dict :: "(alloc_note \<Rightarrow> string) \<Rightarrow> allocation \<Rightarrow> (string \<times> json) list" where
  "allocation_to_dict text a =
     [(''id'', JStr (cand_id (al_candidate a))),
      (''vulnerability_class'', JStr (vulnerability_class (al_candidate a))),
      (''url'', JStr (cand_url (al_candidate a))), (''severity'', JStr (severity (al_candidate a))),
      (''priority'', JFloat (round4 (effective_priority (al_candidate a)))),
      (''action'', JStr (action_name (al_action a))), (''granted_retries'', JInt (granted_retries a)),
      (''granted_tokens'', JInt (al_tokens a)), (''note'', JStr (text (al_note a)))]"

definition plan_to_dict ::
  "(alloc_note \<Rightarrow> string) \<Rightarrow> (guidance \<Rightarrow> string) \<Rightarrow> plan \<Rightarrow> (string \<times> json) list" where
  "plan_to_dict text gtext p =
     [(''total_budget'', json_int (total_budget p)), (''planned_tokens'', JInt (planned_tokens p)),
      (''round_cost_tokens'', JInt (round_cost_tokens p)),
      (''counts'', JObj (map (\<lambda>(k, n). (k, JInt (int n))) (counts p))),
      (''allocations'', JList (map (JObj \<circ> allocation_to_dict text) (allocations p))),
      (''guidance'', JList (map (JStr \<circ> gtext) (plan_guidance p)))]"

section \<open>The loop that drives the tracker\<close>

text \<open>
  Round \<open>i\<close> reads the clock at \<open>t i\<close> and runs the agents, which record their calls in the shared
  budget and may find something. The tracker refers to that budget, whose state is passed along.
\<close>

datatype loop_stop = Refused stop_reason | FindingProduced

record round_info =
  r_pass :: int
  r_tokens :: int
  r_found :: bool

function retry_loop ::
  "(nat \<Rightarrow> time) \<Rightarrow> (nat \<Rightarrow> budget \<Rightarrow> bool \<times> budget) \<Rightarrow> nat \<Rightarrow> budget \<Rightarrow> spend
   \<Rightarrow> loop_stop \<times> spend \<times> round_info list" where
  "retry_loop t agents i b s =
     (case can_start_round (t i) 1 (s\<lparr>global_budget := Some b\<rparr>) of
        (False, why) \<Rightarrow> (Refused why, s\<lparr>global_budget := Some b\<rparr>, [])
      | (True, _) \<Rightarrow>
          (case agents i b of (found, b') \<Rightarrow>
             (let cost = max 0 (spent b' - spent b);
                  s' = record_round 1 cost found (s\<lparr>global_budget := Some b'\<rparr>);
                  rd = \<lparr>r_pass = passes_used s', r_tokens = cost, r_found = found\<rparr>
              in if found \<and> stop_on_found (sp_policy s) then (FindingProduced, s', [rd])
                 else (case retry_loop t agents (Suc i) b' s' of (why, s'', rds) \<Rightarrow>
                         (why, s'', rd # rds)))))"
  by pat_completeness auto
termination
proof (relation "measure (\<lambda>(t, agents, i, b, s). nat (max_passes (sp_policy s) - passes_used s))",
    goal_cases)
  case (2 t agents i b s allowed why found b' x s' rd)
  then show ?case
    by (auto simp: can_start_round_def record_round_def Let_def split: if_splits)
qed simp

declare retry_loop.simps [simp del]

definition run_retry_agents ::
  "(nat \<Rightarrow> time) \<Rightarrow> (nat \<Rightarrow> budget \<Rightarrow> bool \<times> budget) \<Rightarrow> policy \<Rightarrow> policy_cfg option \<Rightarrow> int option
   \<Rightarrow> budget \<Rightarrow> loop_stop \<times> spend \<times> round_info list" where
  "run_retry_agents t agents p overrides granted b =
     retry_loop t agents 0 b (new_spend (merged_with overrides p) (Some b) granted)"

section \<open>The shape of a plan\<close>

definition allotment :: "allocation \<Rightarrow> alloc_action \<times> int \<times> int" where
  "allotment a = (al_action a, granted_retries a, al_tokens a)"

lemma allotment_simp [simp]:
  "allotment \<lparr>al_candidate = c, al_action = a, granted_retries = r, al_tokens = t, al_note = n\<rparr> = (a, r, t)"
  by (simp add: allotment_def)

text \<open>
  The abstract plan for \<open>n\<close> candidates and \<open>b\<close> tokens: as many at full cost as fit, then one with
  as many whole passes as the rest pays for, then nothing.
\<close>

definition greedy_plan :: "policy \<Rightarrow> int \<Rightarrow> int \<Rightarrow> nat \<Rightarrow> (alloc_action \<times> int \<times> int) list" where
  "greedy_plan p rc b n =
     (let f = policy_cost p rc; k = min n (nat (b div f)); r = b - int k * f in
      replicate k (FULL, max_retries p, f) @
      (if n = k then []
       else (if rc \<le> r then (REDUCED, r div rc - 1, r div rc * rc) else (DEFERRED, 0, 0))
            # replicate (n - k - 1) (DEFERRED, 0, 0)))"

lemma policy_cost_le: "policy_cost p rc \<le> max_passes p * rc"
  by (simp add: policy_cost_def Let_def split: option.split)

lemma policy_cost_cap: "max_tokens_per_vuln p = Some t \<Longrightarrow> policy_cost p rc \<le> t"
  by (simp add: policy_cost_def Let_def)

lemma add_allocation_simps [simp]:
  "allocations (add_allocation a pl) = allocations pl @ [a]"
  "planned_tokens (add_allocation a pl) = planned_tokens pl + al_tokens a"
  "round_cost_tokens (add_allocation a pl) = round_cost_tokens pl"
  "total_budget (add_allocation a pl) = total_budget pl"
  by (simp_all add: add_allocation_def)

lemma passes_fit:
  assumes "1 \<le> rc" "rc \<le> left" "left < policy_cost p rc"
  shows "1 \<le> left div rc" "left div rc < max_passes p" "left div rc * rc \<le> left"
    "left - left div rc * rc < rc"
proof -
  show "1 \<le> left div rc" using assms(1,2) by (simp add: pos_imp_zdiv_pos_iff int_one_le_iff_zero_less)
  show le: "left div rc * rc \<le> left"
    using assms(1) div_mult_mod_eq[of left rc] pos_mod_sign[of rc left] by linarith
  show "left - left div rc * rc < rc" using assms(1) by (simp add: minus_div_mult_eq_mod)
  have "left div rc * rc < max_passes p * rc"
    using le policy_cost_le[of p rc] assms(3) by linarith
  then show "left div rc < max_passes p" using assms(1) by (simp add: mult_less_cancel_right)
qed

lemma fund_full:
  "0 < f \<Longrightarrow> f \<le> left \<Longrightarrow> fund_one p rc f c (pl, left) =
     (add_allocation \<lparr>al_candidate = c, al_action = FULL, granted_retries = max_retries p,
        al_tokens = f, al_note = FullNote\<rparr> pl, left - f)"
  by (simp add: fund_one_def)

lemma fund_deferred:
  "left < f \<Longrightarrow> left < rc \<Longrightarrow> fund_one p rc f c (pl, left) =
     (add_allocation \<lparr>al_candidate = c, al_action = DEFERRED, granted_retries = 0,
        al_tokens = 0, al_note = Insufficient\<rparr> pl, left)"
  by (simp add: fund_one_def)

text \<open>In the reduced branch neither the pass limit nor the token cap of the policy ever bites.\<close>

lemma fund_reduced:
  assumes "1 \<le> rc" "rc \<le> left" "left < policy_cost p rc"
  shows "fund_one p rc (policy_cost p rc) c (pl, left) =
     (add_allocation \<lparr>al_candidate = c, al_action = REDUCED, granted_retries = left div rc - 1,
        al_tokens = left div rc * rc, al_note = FundsOnly (left div rc) (max_passes p)\<rparr> pl,
      left - left div rc * rc)"
proof -
  note fit = passes_fit[OF assms]
  have "max_tokens_per_vuln p = Some t \<Longrightarrow> left div rc * rc \<le> t" for t
    using fit(3) assms(3) policy_cost_cap[of p t rc] by linarith
  then show ?thesis using fit assms by (cases "max_tokens_per_vuln p") (auto simp: fund_one_def Let_def)
qed

abbreviation fund_all :: "policy \<Rightarrow> int \<Rightarrow> plan \<times> int \<Rightarrow> candidate list \<Rightarrow> plan \<times> int" where
  "fund_all p rc \<equiv> foldl (\<lambda>st c. fund_one p rc (policy_cost p rc) c st)"

lemma fund_all_deferred:
  assumes "left < policy_cost p rc" "left < rc"
  shows "map allotment (allocations (fst (fund_all p rc (pl, left) cs))) =
    map allotment (allocations pl) @ replicate (length cs) (DEFERRED, 0, 0)"
proof (induction cs arbitrary: pl)
  case (Cons c cs)
  then show ?case by (simp add: fund_deferred[OF assms])
qed simp

lemma greedy_full:
  assumes "0 < policy_cost p rc" "policy_cost p rc \<le> left"
  shows "greedy_plan p rc left (Suc n) =
    (FULL, max_retries p, policy_cost p rc) # greedy_plan p rc (left - policy_cost p rc) n"
proof -
  have d: "nat (left div policy_cost p rc) = Suc (nat ((left - policy_cost p rc) div policy_cost p rc))"
  proof -
    have "left div policy_cost p rc = (left - policy_cost p rc) div policy_cost p rc + 1"
      using assms by (metis div_add_self2 diff_add_cancel order_less_irrefl)
    moreover have "0 \<le> (left - policy_cost p rc) div policy_cost p rc"
      using assms by (simp add: pos_imp_zdiv_nonneg_iff)
    ultimately show ?thesis by (simp add: nat_add_distrib)
  qed
  show ?thesis unfolding greedy_plan_def Let_def d by (simp add: algebra_simps)
qed

lemma greedy_rest:
  assumes "0 \<le> left" "left < policy_cost p rc"
  shows "greedy_plan p rc left (Suc n) =
    (if rc \<le> left then (REDUCED, left div rc - 1, left div rc * rc) else (DEFERRED, 0, 0))
      # replicate n (DEFERRED, 0, 0)"
  using assms by (simp add: greedy_plan_def Let_def div_pos_pos_trivial)

lemma fund_all_shape:
  assumes "0 < policy_cost p rc" "1 \<le> rc" "0 \<le> left"
  shows "map allotment (allocations (fst (fund_all p rc (pl, left) cs))) =
    map allotment (allocations pl) @ greedy_plan p rc left (length cs)"
  using assms(3)
proof (induction cs arbitrary: pl left)
  case Nil
  then show ?case by (simp add: greedy_plan_def)
next
  case (Cons c cs)
  consider "policy_cost p rc \<le> left" | "left < policy_cost p rc" "rc \<le> left"
    | "left < policy_cost p rc" "left < rc" by linarith
  then show ?case
  proof cases
    case 1
    then show ?thesis
      using Cons assms(1) by (simp add: fund_full greedy_full)
  next
    case 2
    let ?l = "left - left div rc * rc"
    have "?l < policy_cost p rc" "?l < rc"
      using passes_fit[OF assms(2) 2(2) 2(1)] 2 by linarith+
    from fund_all_deferred[OF this] show ?thesis
      using Cons.prems 2 assms(2) by (simp add: fund_reduced greedy_rest)
  next
    case 3
    then show ?thesis
      using Cons.prems fund_all_deferred[OF 3] by (simp add: fund_deferred greedy_rest)
  qed
qed

lemma fund_one_candidate:
  "map al_candidate (allocations (fst (fund_one p rc f c (pl, left)))) =
    map al_candidate (allocations pl) @ [c]"
  by (simp add: fund_one_def Let_def split: option.split)

lemma fund_all_candidates:
  "map al_candidate (allocations (fst (fund_all p rc st cs))) =
    map al_candidate (allocations (fst st)) @ cs"
proof (induction cs arbitrary: st)
  case (Cons c cs)
  then show ?case by (cases st) (simp add: fund_one_candidate)
qed simp

lemma add_guidance_simps [simp]:
  "allocations (add_guidance p f b pl) = allocations pl"
  "planned_tokens (add_guidance p f b pl) = planned_tokens pl"
  by (simp_all add: add_guidance_def Let_def)

lemma fund_all_planned:
  "planned_tokens (fst st) = sum_list (map al_tokens (allocations (fst st))) \<Longrightarrow>
   planned_tokens (fst (fund_all p rc st cs)) =
     sum_list (map al_tokens (allocations (fst (fund_all p rc st cs))))"
proof (induction cs arbitrary: st)
  case (Cons c cs)
  have "planned_tokens (fst (fund_one p rc (policy_cost p rc) c st)) =
      sum_list (map al_tokens (allocations (fst (fund_one p rc (policy_cost p rc) c st))))"
    using Cons.prems by (cases st) (auto simp: fund_one_def Let_def split: option.split)
  then show ?case using Cons.IH by simp
qed simp

lemma greedy_quot:
  fixes b f :: int
  assumes "0 < f" "0 \<le> b" and k: "k = min n (nat (b div f))"
  shows "int k * f \<le> b" "k \<noteq> n \<Longrightarrow> b - int k * f < f"
proof -
  have "0 \<le> b div f" using assms by (simp add: pos_imp_zdiv_nonneg_iff)
  then have le: "int k \<le> b div f" using k by simp
  have bf: "b div f * f + b mod f = b" "0 \<le> b mod f" "b mod f < f" using assms(1) by simp_all
  show "int k * f \<le> b" using mult_right_mono[OF le, of f] bf assms(1) by linarith
  show "b - int k * f < f" if "k \<noteq> n"
  proof -
    have "int k = b div f" using that k \<open>0 \<le> b div f\<close> by auto
    moreover have "b - b div f * f < f" using bf by linarith
    ultimately show ?thesis by (simp only:)
  qed
qed

lemma greedy_sum:
  assumes "0 < policy_cost p rc" "1 \<le> rc" "0 \<le> b"
  shows "sum_list (map (snd \<circ> snd) (greedy_plan p rc b n)) \<le> b \<and>
    (DEFERRED \<in> fst ` set (greedy_plan p rc b n) \<longrightarrow>
       b - sum_list (map (snd \<circ> snd) (greedy_plan p rc b n)) < rc)"
proof -
  define k where "k = min n (nat (b div policy_cost p rc))"
  define r where "r = b - int k * policy_cost p rc"
  have q: "0 \<le> r" "k \<noteq> n \<Longrightarrow> r < policy_cost p rc"
    using greedy_quot[OF assms(1,3) k_def] by (simp_all add: r_def)
  have d: "r div rc * rc \<le> r" "r - r div rc * rc < rc"
    using assms(2) q(1) div_mult_mod_eq[of r rc] pos_mod_sign[of rc r]
    by (linarith, simp add: minus_div_mult_eq_mod)
  show ?thesis
    using q d assms(2) unfolding greedy_plan_def Let_def k_def[symmetric] r_def[symmetric]
    by (auto simp: sum_list_replicate r_def)
qed

lemma sorted_wrt_ge_replicate: "sorted_wrt (\<ge>) (replicate n (x :: int))"
  by (induction n) auto

lemma greedy_sorted:
  assumes "0 < policy_cost p rc" "1 \<le> rc" "0 \<le> b"
  shows "sorted_wrt (\<ge>) (map (snd \<circ> snd) (greedy_plan p rc b n))"
proof -
  define k where "k = min n (nat (b div policy_cost p rc))"
  define r where "r = b - int k * policy_cost p rc"
  have q: "0 \<le> r" "k \<noteq> n \<Longrightarrow> r < policy_cost p rc"
    using greedy_quot[OF assms(1,3) k_def] by (simp_all add: r_def)
  have d: "0 \<le> r div rc * rc" "k \<noteq> n \<Longrightarrow> r div rc * rc \<le> policy_cost p rc"
    using assms(2) q div_mult_mod_eq[of r rc] pos_mod_sign[of rc r]
    by (simp add: pos_imp_zdiv_nonneg_iff, linarith)
  show ?thesis
    using q d assms(1) unfolding greedy_plan_def Let_def k_def[symmetric] r_def[symmetric]
    by (auto simp: sorted_wrt_append sorted_wrt_ge_replicate)
qed

lemma plan_shape:
  assumes "0 < policy_cost p (max 1 rc)"
  shows "map allotment (allocations (plan_allocation cs (Some b) p rc)) =
    greedy_plan p (max 1 rc) (max 0 b) (length cs)"
  using fund_all_shape[OF assms] by (simp add: plan_allocation_def Let_def by_priority_def)

lemma plan_candidates:
  "map al_candidate (allocations (plan_allocation cs (Some b) p rc)) = by_priority cs"
  by (simp add: plan_allocation_def Let_def fund_all_candidates)

lemma plan_planned:
  "planned_tokens (plan_allocation cs (Some b) p rc) =
    sum_list (map al_tokens (allocations (plan_allocation cs (Some b) p rc)))"
  by (simp add: plan_allocation_def Let_def fund_all_planned)

lemma map_al_tokens: "map al_tokens as = map (snd \<circ> snd) (map allotment as)"
  by (simp add: allotment_def comp_def)

lemma al_action_image: "al_action ` set as = fst ` set (map allotment as)"
  by (simp add: allotment_def image_image)

text \<open>C19: For a policy with a positive cost, the allocation loop computes the abstract greedy plan: the candidates in descending order of
  priority (equal ones in their given order), the first ones at the full policy as long as the
  budget pays for it, then at most one with as many whole passes as the rest pays for, then only
  deferred ones; and the caps the loop applies in between never change that.\<close>

theorem plan_is_greedy:
  assumes "0 < policy_cost p (max 1 rc)"
  shows "map allotment (allocations (plan_allocation cs (Some b) p rc)) =
      greedy_plan p (max 1 rc) (max 0 b) (length cs)
    \<and> map al_candidate (allocations (plan_allocation cs (Some b) p rc)) =
      sort_key (\<lambda>c. - effective_priority c) cs"
  using plan_shape[OF assms] plan_candidates by (simp add: by_priority_def)

text \<open>A plan never promises more than the budget, counts what it promises, leaves less than the
  cost of a pass unspent when it defers anyone, and never gives a candidate more tokens than one
  before it.\<close>

theorem plan_within_budget:
  assumes "0 < policy_cost p (max 1 rc)"
  shows "planned_tokens (plan_allocation cs (Some b) p rc) =
      sum_list (map al_tokens (allocations (plan_allocation cs (Some b) p rc)))
    \<and> planned_tokens (plan_allocation cs (Some b) p rc) \<le> max 0 b
    \<and> (DEFERRED \<in> al_action ` set (allocations (plan_allocation cs (Some b) p rc)) \<longrightarrow>
        max 0 b - planned_tokens (plan_allocation cs (Some b) p rc) < max 1 rc)
    \<and> sorted_wrt (\<ge>) (map al_tokens (allocations (plan_allocation cs (Some b) p rc)))"
  using greedy_sum[OF assms, of "max 0 b" "length cs"] greedy_sorted[OF assms, of "max 0 b" "length cs"]
  unfolding plan_planned map_al_tokens al_action_image plan_shape[OF assms] by simp

lemma severity_weight_cases:
  "severity_weight_of s \<in> {1, 7 / 10, 4 / 10, 2 / 10, 5 / 100}"
  by (auto simp: severity_weight_of_def severity_weights_def option_or_def)

text \<open>Severity dominates: of two candidates without an explicit priority, the one with the heavier
  severity comes first, whatever the confidences are.\<close>

theorem severity_dominates:
  assumes "explicit_priority c = None" "explicit_priority d = None"
    and "severity_weight_of (severity c) < severity_weight_of (severity d)"
  shows "effective_priority c < effective_priority d"
proof -
  have "0 \<le> max 0 (min 1 (confidence c))" "max 0 (min 1 (confidence c)) \<le> 1"
    "0 \<le> max 0 (min 1 (confidence d))" by auto
  then show ?thesis
    using assms severity_weight_cases[of "severity c"] severity_weight_cases[of "severity d"]
    unfolding effective_priority_def by auto
qed

section \<open>The retry loop\<close>

lemma can_start_iff:
  "fst (can_start_round now n s) \<longleftrightarrow>
     \<not> (stop_on_found (sp_policy s) \<and> sp_found s) \<and> passes_used s < max_passes (sp_policy s)
     \<and> agents_used s + n \<le> max_agents (sp_policy s)
     \<and> (case token_ceiling s of None \<Rightarrow> True | Some c \<Rightarrow> tokens_used s < c)
     \<and> (case global_budget s of None \<Rightarrow> True | Some b \<Rightarrow> fst (allow now b))"
  by (auto simp: can_start_round_def Let_def split: option.split prod.split)

definition within_caps :: "spend \<Rightarrow> bool" where
  "within_caps s \<longleftrightarrow> 0 \<le> tokens_used s \<and> agents_used s = passes_used s
     \<and> passes_used s \<le> max 0 (max_passes (sp_policy s)) \<and> agents_used s \<le> max 0 (max_agents (sp_policy s))"

lemma within_caps_record:
  "fst (can_start_round now 1 s) \<Longrightarrow> within_caps s \<Longrightarrow> within_caps (record_round 1 cost f s)"
  by (auto simp: within_caps_def can_start_iff record_round_def)

lemma record_round_keeps [simp]:
  "sp_policy (record_round n c f s) = sp_policy s"
  "token_ceiling (record_round n c f s) = token_ceiling s"
  "global_budget (record_round n c f s) = global_budget s"
  by (simp_all add: record_round_def token_ceiling_def)

lemma global_budget_keeps [simp]:
  "sp_policy (s\<lparr>global_budget := b\<rparr>) = sp_policy s"
  "token_ceiling (s\<lparr>global_budget := b\<rparr>) = token_ceiling s"
  "within_caps (s\<lparr>global_budget := b\<rparr>) = within_caps s"
  by (simp_all add: token_ceiling_def within_caps_def)

definition round_tokens :: "round_info list \<Rightarrow> int" where
  "round_tokens rds = sum_list (map r_tokens rds)"

lemma round_tokens_simps [simp]:
  "round_tokens [] = 0" "round_tokens (r # rds) = r_tokens r + round_tokens rds"
  by (simp_all add: round_tokens_def)

definition loop_ok :: "spend \<Rightarrow> loop_stop \<times> spend \<times> round_info list \<Rightarrow> bool" where
  "loop_ok s res = (case res of (why, s', rds) \<Rightarrow>
     sp_policy s' = sp_policy s \<and> (within_caps s \<longrightarrow> within_caps s')
     \<and> passes_used s' = passes_used s + int (length rds)
     \<and> tokens_used s' = tokens_used s + round_tokens rds
     \<and> (\<forall>c. token_ceiling s = Some c \<longrightarrow> rds \<noteq> [] \<longrightarrow>
          tokens_used s + round_tokens (butlast rds) < c)
     \<and> (stop_on_found (sp_policy s) \<longrightarrow> list_all (\<lambda>r. \<not> r_found r) (butlast rds)))"

lemma loop_ok_stop: "loop_ok s (why, s\<lparr>global_budget := b\<rparr>, [])"
  by (simp add: loop_ok_def)

lemma loop_ok_step:
  assumes start: "fst (can_start_round now 1 (s\<lparr>global_budget := Some b\<rparr>))"
    and s': "s' = record_round 1 (max 0 c) f (s\<lparr>global_budget := Some b'\<rparr>)"
    and rd: "rd = \<lparr>r_pass = passes_used s', r_tokens = max 0 c, r_found = f\<rparr>"
    and rest: "loop_ok s' (why, s'', rds)" "f \<and> stop_on_found (sp_policy s) \<longrightarrow> rds = []"
  shows "loop_ok s (why, s'', rd # rds)"
proof -
  have u: "passes_used s' = passes_used s + 1" "tokens_used s' = tokens_used s + max 0 c"
    "sp_policy s' = sp_policy s" "token_ceiling s' = token_ceiling s"
    by (simp_all add: s') (simp_all add: record_round_def)
  have "tokens_used s < c" if "token_ceiling s = Some c" for c
    using start that by (simp add: can_start_iff)
  moreover have "within_caps s'" if "within_caps s"
    using within_caps_record[OF start, of "max 0 c" f] that
    by (simp add: s' within_caps_def record_round_def)
  ultimately show ?thesis
    using rest u unfolding loop_ok_def rd prod.case
    by (cases "rds = []") (auto simp: rd)
qed

lemma retry_loop_ok: "loop_ok s (retry_loop t agents i b s)"
proof (induction t agents i b s rule: retry_loop.induct)
  case (1 t agents i b s)
  let ?s = "s\<lparr>global_budget := Some b\<rparr>"
  obtain ok why where c: "can_start_round (t i) 1 ?s = (ok, why)" by fastforce
  obtain f b' where a: "agents i b = (f, b')" by fastforce
  show ?case
  proof (cases ok)
    case False
    then show ?thesis by (simp add: retry_loop.simps[of t agents i b s] c loop_ok_stop)
  next
    case True
    have start: "fst (can_start_round (t i) 1 ?s)" using c True by simp
    let ?s' = "record_round 1 (max 0 (spent b' - spent b)) f (s\<lparr>global_budget := Some b'\<rparr>)"
    obtain why' s'' rds where r: "retry_loop t agents (Suc i) b' ?s' = (why', s'', rds)"
      using prod_cases3 by blast
    note step = loop_ok_step[OF start refl refl]
    show ?thesis
    proof (cases "f \<and> stop_on_found (sp_policy s)")
      case True
      have "loop_ok ?s' (FindingProduced, ?s', [])" by (simp add: loop_ok_def)
      from step[OF this] show ?thesis
        using True \<open>ok\<close> by (simp add: retry_loop.simps[of t agents i b s] c a Let_def)
    next
      case False
      have "loop_ok ?s' (why', s'', rds)"
        using 1[OF c[symmetric] _ a[symmetric] refl refl refl] False True r by simp
      from step[OF this] show ?thesis
        using False \<open>ok\<close> by (auto simp: retry_loop.simps[of t agents i b s] c a Let_def r)
    qed
  qed
qed

text \<open>The retry loop of a vulnerability returns, whatever the agents do: after at most as many rounds
  as the policy has passes and agent runs. The per-vulnerability and the granted token caps can be
  overrun by the last round only, and with \<open>stop_on_found\<close> only the last round found something.\<close>

theorem retry_loop_bounded:
  assumes run: "run_retry_agents t agents p overrides granted b = (why, s, rds)"
    and P: "P = merged_with overrides p"
  shows "int (length rds) \<le> max 0 (min (max_retries P + 1) (max_agents P))
    \<and> tokens_used s = sum_list (map r_tokens rds)
    \<and> (rds = [] \<or> (\<forall>c. max_tokens_per_vuln P = Some c \<longrightarrow> sum_list (map r_tokens (butlast rds)) < c)
        \<and> (\<forall>c. granted = Some c \<longrightarrow> sum_list (map r_tokens (butlast rds)) < c))
    \<and> (stop_on_found P \<longrightarrow> list_all (\<lambda>r. \<not> r_found r) (butlast rds))"
proof -
  let ?s = "new_spend P (Some b) granted"
  have ok: "loop_ok ?s (why, s, rds)"
    using retry_loop_ok[of ?s t agents 0 b] run by (simp add: run_retry_agents_def P)
  have start: "within_caps ?s" "sp_policy ?s = P" "passes_used ?s = 0" "tokens_used ?s = 0"
    by (simp_all add: new_spend_def within_caps_def)
  have "sum_list (map r_tokens (butlast rds)) < c"
    if "rds \<noteq> []" "max_tokens_per_vuln P = Some c \<or> granted = Some c" for c
    using ok that start unfolding loop_ok_def round_tokens_def
    by (cases granted; cases "max_tokens_per_vuln P")
      (auto simp: token_ceiling_def new_spend_def)
  then show ?thesis
    using ok start by (auto simp: loop_ok_def within_caps_def max_passes_def round_tokens_def)
qed

section \<open>Concrete runs\<close>

definition sample_policy :: policy where
  "sample_policy = policy_from_dict (Some \<lparr>cfg_max_retries = None, cfg_max_agents = Some 5,
     cfg_max_tokens = Some 0, cfg_stop_on_found = None, cfg_min_confidence = None\<rparr>)"

definition sample_candidate :: "string \<Rightarrow> string \<Rightarrow> candidate" where
  "sample_candidate i sev = \<lparr>cand_id = i, vulnerability_class = ''sqli'', cand_url = ''/'' @ i,
     severity = sev, confidence = 1 / 2, explicit_priority = None\<rparr>"

lemma sample_policy_simps [simp]:
  "max_retries sample_policy = 2" "max_agents sample_policy = 5"
  "max_tokens_per_vuln sample_policy = None" "stop_on_found sample_policy"
  "max_passes sample_policy = 3" "policy_cost sample_policy 10 = 30"
  by (simp_all add: sample_policy_def policy_from_dict_def option_or_def policy_cost_def max_passes_def)

theorem plan_is_greedy_witness:
  "map allotment (allocations (plan_allocation [sample_candidate ''a'' ''low'',
      sample_candidate ''b'' ''High'', sample_candidate ''c'' ''info''] (Some 45) sample_policy 10)) =
    [(FULL, 2, 30), (REDUCED, 0, 10), (DEFERRED, 0, 0)]"
  using plan_is_greedy[of sample_policy 10 _ 45]
  by (simp add: greedy_plan_def Let_def eval_nat_numeral)

theorem plan_within_budget_witness:
  "planned_tokens (plan_allocation [sample_candidate ''a'' ''low'', sample_candidate ''b'' ''high'']
     (Some 45) sample_policy 10) \<le> 45"
  using plan_within_budget[of sample_policy 10
      "[sample_candidate ''a'' ''low'', sample_candidate ''b'' ''high'']" 45] by simp

theorem severity_dominates_witness:
  "effective_priority (sample_candidate ''a'' ''low'') < effective_priority (sample_candidate ''b'' ''HIGH'')"
proof (rule severity_dominates)
  have "py_lower ''HIGH'' = ''high''" "py_lower ''low'' = ''low''" by code_simp+
  then show "severity_weight_of (severity (sample_candidate ''a'' ''low''))
      < severity_weight_of (severity (sample_candidate ''b'' ''HIGH''))"
    by (simp add: sample_candidate_def severity_weight_of_def severity_weights_def option_or_def)
qed (simp_all add: sample_candidate_def)

text \<open>The guidance promises that raising the budget by the cost of the deferred items would fund
  them at the full policy. With a reduced item before them it does not: the raise goes to that item
  first, and the last one is left with the old rest.\<close>

theorem guidance_falls_short:
  "let cs = map (\<lambda>i. sample_candidate i ''high'') [''a'', ''b'', ''c''];
       plan = plan_allocation cs (Some 45) sample_policy 10
   in DeferredItems [(''sqli'', ''/c'')] 0 30 2 \<in> set (plan_guidance plan)
      \<and> map al_action (allocations plan) = [FULL, REDUCED, DEFERRED]
      \<and> map al_action (allocations (plan_allocation cs (Some (45 + 30)) sample_policy 10)) =
          [FULL, FULL, REDUCED]"
  by (simp add: plan_allocation_def by_priority_def Let_def fund_one_def add_guidance_def
      count_action_def add_allocation_def sample_candidate_def effective_priority_def)

theorem retry_loop_bounded_witness:
  "let (why, s, rds) = run_retry_agents (\<lambda>_. 0) (\<lambda>i b. (i = 1, b)) sample_policy None None
         (new_budget HARD None None 0)
   in length rds = 2 \<and> why = FindingProduced \<and> tokens_used s = 0"
proof -
  let ?b = "new_budget HARD None None 0"
  have al: "fst (allow 0 ?b)"
    by (simp add: allow_def new_budget_def exhausted_def deadline_passed_def Let_def)
  obtain why s rds where r:
    "run_retry_agents (\<lambda>_. 0) (\<lambda>i b. (i = 1, b)) sample_policy None None ?b = (why, s, rds)"
    using prod_cases3 by blast
  then have "why = FindingProduced \<and> rds = [\<lparr>r_pass = 1, r_tokens = 0, r_found = False\<rparr>,
      \<lparr>r_pass = 2, r_tokens = 0, r_found = True\<rparr>]"
    using al by (auto simp: run_retry_agents_def merged_with_def retry_loop.simps new_spend_def Let_def
        can_start_round_def token_ceiling_def record_round_def split: prod.splits)
  then show ?thesis
    using r retry_loop_bounded[OF r, of sample_policy] by (simp add: merged_with_def)
qed

end
