(* ===== verification/WorkflowEngine.thy ===== *)
theory WorkflowEngine
  imports Url
begin

text \<open>
  Explicit authenticated workflows (\<open>workflow_engine.py\<close>): the records and their validity, template
  binding, extraction and assertions, the execution of a workflow with its deferred cleanup steps,
  and the misuse variants.

  The run context is outside the model: an execution works against a \<open>runner\<close>, whose operations act
  on an arbitrary environment: send a request (or raise), refresh a session, tell whether the run
  was cancelled, visit a page with a browser. The text operations of the standard library
  (JSON pointers over parsed JSON, \<open>urljoin\<close>, the HTML parser, \<open>str\<close> of a JSON value) are the
  parameter \<open>text_ops\<close>. The parser of declarative workflows is not modelled, but for its
  validation of assertions.
\<close>

section \<open>Records\<close>

datatype extractor_kind = JSON_POINTER | LOCATION | HTML_HIDDEN

datatype step_status = PENDING | RUNNING | PASSED | BLOCKED | FAILED | CANCELLED | CLEANED

record extractor =
  x_name :: string
  x_kind :: extractor_kind
  x_expression :: string
  x_required :: bool

record assertion =
  a_kind :: string
  a_expression :: string
  a_expected :: json

record wf_step =
  s_id :: string
  s_method :: string
  url_template :: string
  session_ref :: string
  body_template :: string
  prerequisites :: "string list"
  extractors :: "extractor list"
  assertions :: "assertion list"
  transition :: string
  cleanup :: bool
  observe :: bool
  s_case_ref :: string
  content_type :: string
  action :: string
  observation_marker :: string
  require_success :: bool

record workflow =
  wf_id :: string
  wf_steps :: "wf_step list"
  wf_version :: int
  wf_invariant :: string

datatype wf_error = ValueError | Raised exc

definition step_ok :: "wf_step \<Rightarrow> bool" where
  "step_ok s \<longleftrightarrow> action s \<in> set [''http'', ''browser_visit''] \<and> s_id s \<noteq> [] \<and> url_template s \<noteq> []
     \<and> session_ref s \<noteq> []"

fun prerequisites_known :: "string list \<Rightarrow> wf_step list \<Rightarrow> bool" where
  "prerequisites_known known [] = True"
| "prerequisites_known known (s # ss) =
     (list_all (\<lambda>p. List.member known p) (prerequisites s) \<and> prerequisites_known (s_id s # known) ss)"

definition workflow_ok :: "workflow \<Rightarrow> bool" where
  "workflow_ok w \<longleftrightarrow>
     \<not> (wf_version w = 1 \<and> list_ex (\<lambda>s. action s \<noteq> ''http'' \<or> observation_marker s \<noteq> []
          \<or> require_success s) (wf_steps w))
     \<and> \<not> (wf_id w = [] \<or> wf_version w < 1 \<or> \<not> distinct (map s_id (wf_steps w)))
     \<and> prerequisites_known [] (wf_steps w)"

definition make_workflow :: "string \<Rightarrow> wf_step list \<Rightarrow> int \<Rightarrow> string \<Rightarrow> wf_error + workflow" where
  "make_workflow i ss v iv =
     (let w = \<lparr>wf_id = i, wf_steps = ss, wf_version = v, wf_invariant = iv\<rparr> in
      if workflow_ok w then Inr w else Inl ValueError)"

datatype assertion_failure =
    UnknownKind string | MalformedOperand json | WrongStatus json "int option"
  | MarkerOmitted json | PointerFailed string

datatype step_reason =
    RunCancelled | Unsatisfied "string list" | MissingValues "string list" | MissingMarker
  | SendFailed string | NoSuccess | ObservedStatus "int option" | SessionExpired | AccessDenied
  | ExtractionMissing "string list" | AssertionFailed assertion_failure | Transition string
  | BrowserReason string

record step_result =
  r_step_id :: string
  r_status :: step_status
  r_reason :: step_reason
  r_code :: "int option"
  r_artifact :: string
  r_extracted :: "(string \<times> string) list"
  r_executed :: bool

record wf_result =
  w_workflow_id :: string
  w_version :: int
  w_steps :: "step_result list"
  w_values :: "(string \<times> string) list"
  cleanup_registered :: "string list"
  cleanup_completed :: "string list"

definition good_status :: "step_status \<Rightarrow> bool" where
  "good_status st \<longleftrightarrow> st = PASSED \<or> st = CLEANED"

definition wf_complete :: "wf_result \<Rightarrow> bool" where
  "wf_complete r \<longleftrightarrow> w_steps r \<noteq> [] \<and> list_all (\<lambda>s. good_status (r_status s)) (w_steps r)"

definition status_name :: "step_status \<Rightarrow> string" where
  "status_name st = (case st of PENDING \<Rightarrow> ''pending'' | RUNNING \<Rightarrow> ''running'' | PASSED \<Rightarrow> ''passed''
     | BLOCKED \<Rightarrow> ''blocked'' | FAILED \<Rightarrow> ''failed'' | CANCELLED \<Rightarrow> ''cancelled'' | CLEANED \<Rightarrow> ''cleaned'')"

definition str_dict :: "(string \<times> string) list \<Rightarrow> json" where
  "str_dict d = JObj (map (\<lambda>(k, v). (k, JStr v)) d)"

definition wf_to_dict ::
  "(step_reason \<Rightarrow> string) \<Rightarrow> (step_result \<Rightarrow> json) \<Rightarrow> wf_result \<Rightarrow> (string \<times> json) list" where
  "wf_to_dict text observation r =
     [(''workflow_id'', JStr (w_workflow_id r)), (''version'', JInt (w_version r)),
      (''complete'', JBool (wf_complete r)), (''values'', str_dict (w_values r)),
      (''cleanup_registered'', JList (map JStr (cleanup_registered r))),
      (''cleanup_completed'', JList (map JStr (cleanup_completed r))),
      (''steps'', JList (map (\<lambda>s. JObj (
         [(''step_id'', JStr (r_step_id s)), (''status'', JStr (status_name (r_status s))),
          (''reason'', JStr (text (r_reason s))),
          (''status_code'', (case r_code s of None \<Rightarrow> JNull | Some c \<Rightarrow> JInt c)),
          (''artifact_id'', JStr (r_artifact s)), (''extracted'', str_dict (r_extracted s))]
         @ (if w_version r \<ge> 2
            then [(''observation'', observation s), (''executed'', JBool (r_executed s))] else [])))
         (w_steps r)))]"

section \<open>Template binding\<close>

definition ident_start :: "char \<Rightarrow> bool" where
  "ident_start c \<longleftrightarrow> is_alpha c \<or> c = CHR ''_''"

definition ident_char :: "char \<Rightarrow> bool" where
  "ident_char c \<longleftrightarrow> is_alpha c \<or> is_digit c \<or> c \<in> set ''_.-''"

text \<open>A placeholder at the start of the text: its name and what follows it.\<close>

fun match_var :: "string \<Rightarrow> (string \<times> string) option" where
  "match_var (a # b # c # r) =
     (if a = CHR ''{'' \<and> b = CHR ''{'' \<and> ident_start c
      then (case dropWhile ident_char r of
              x # y # rest \<Rightarrow> if x = CHR ''}'' \<and> y = CHR ''}''
                then Some (c # takeWhile ident_char r, rest) else None
            | _ \<Rightarrow> None)
      else None)"
| "match_var _ = None"

lemma match_var_shorter: "match_var s = Some (n, rest) \<Longrightarrow> length rest < length s"
proof (induction s rule: match_var.induct)
  case (1 a b c r)
  have "length (dropWhile ident_char r) \<le> length r" by (rule length_dropWhile_le)
  with 1 show ?case by (auto split: if_splits list.splits)
qed simp_all

function bind_text :: "(string \<times> string) list \<Rightarrow> string \<Rightarrow> string \<times> string list" where
  "bind_text vals s =
     (case s of
        [] \<Rightarrow> ([], [])
      | x # xs \<Rightarrow>
          (case match_var s of
             None \<Rightarrow> (case bind_text vals xs of (t, m) \<Rightarrow> (x # t, m))
           | Some (n, rest) \<Rightarrow>
               (case bind_text vals rest of (t, m) \<Rightarrow>
                  (case dict_get vals n of
                     None \<Rightarrow> (''{{'' @ n @ ''}}'' @ t, n # m)
                   | Some v \<Rightarrow> (v @ t, m)))))"
  by pat_completeness auto
termination
  by (relation "measure (length \<circ> snd)") (auto dest: match_var_shorter)

declare bind_text.simps [simp del]

text \<open>\<open>dict.fromkeys\<close>: the first occurrence of each.\<close>

fun first_keys :: "string list \<Rightarrow> string list" where
  "first_keys [] = []"
| "first_keys (x # xs) = x # filter (\<lambda>y. y \<noteq> x) (first_keys xs)"

definition bind_template :: "string \<Rightarrow> (string \<times> string) list \<Rightarrow> string \<times> string list" where
  "bind_template template vals = (case bind_text vals template of (t, m) \<Rightarrow> (t, first_keys m))"

section \<open>Extraction and assertions\<close>

type_synonym headers = "(string \<times> string) list"

record text_ops =
  json_pointer :: "string \<Rightarrow> string \<Rightarrow> string option"
  url_join :: "string \<Rightarrow> string \<Rightarrow> string"
  hidden_field :: "string \<Rightarrow> string \<Rightarrow> string option"
  json_str :: "json \<Rightarrow> string"

definition extract_value :: "text_ops \<Rightarrow> extractor \<Rightarrow> string \<Rightarrow> headers \<Rightarrow> string \<Rightarrow> string option" where
  "extract_value ops x body hs response_url =
     (case x_kind x of
        JSON_POINTER \<Rightarrow> json_pointer ops body (x_expression x)
      | LOCATION \<Rightarrow>
          (case find (\<lambda>(k, v). py_lower k = ''location'') hs of
             None \<Rightarrow> None
           | Some (_, loc) \<Rightarrow> if loc = [] then None else Some (url_join ops response_url loc))
      | HTML_HIDDEN \<Rightarrow> hidden_field ops body (x_expression x))"

fun extract_all_from ::
  "text_ops \<Rightarrow> extractor list \<Rightarrow> string \<Rightarrow> headers \<Rightarrow> string
   \<Rightarrow> (string \<times> string) list \<times> string list \<Rightarrow> (string \<times> string) list \<times> string list" where
  "extract_all_from ops [] body hs url acc = acc"
| "extract_all_from ops (x # xs) body hs url (vals, missing) =
     extract_all_from ops xs body hs url
       (case extract_value ops x body hs url of
          None \<Rightarrow> if x_required x then (vals, missing @ [x_name x]) else (vals, missing)
        | Some v \<Rightarrow> (dict_set (x_name x) v vals, missing))"

definition extract_all ::
  "text_ops \<Rightarrow> extractor list \<Rightarrow> string \<Rightarrow> headers \<Rightarrow> string \<Rightarrow> (string \<times> string) list \<times> string list" where
  "extract_all ops xs body hs url = extract_all_from ops xs body hs url ([], [])"

text \<open>\<open>int\<close> of a value: an integer literal with white space around it, a sign and single
  underscores between digits; a number; a truth value. None where Python raises.\<close>

fun digit_groups :: "bool \<Rightarrow> string \<Rightarrow> bool" where
  "digit_groups after_digit [] = after_digit"
| "digit_groups after_digit (c # cs) =
     (if is_digit c then digit_groups True cs
      else c = CHR ''_'' \<and> after_digit \<and> digit_groups False cs)"

definition int_literal :: "string \<Rightarrow> int option" where
  "int_literal s =
     (let t = py_strip s;
          (neg, d) = (case t of [] \<Rightarrow> (False, [])
             | c # r \<Rightarrow> if c = CHR ''-'' then (True, r) else if c = CHR ''+'' then (False, r) else (False, t));
          n = int (int_of_digits (filter is_digit d))
      in if digit_groups False d then Some (if neg then - n else n) else None)"

definition int_of_json :: "json \<Rightarrow> int option" where
  "int_of_json v = (case v of JInt i \<Rightarrow> Some i | JBool b \<Rightarrow> Some (if b then 1 else 0)
     | JFloat x \<Rightarrow> Some (py_int x) | JStr s \<Rightarrow> int_literal s | _ \<Rightarrow> None)"

definition assertion_kinds :: "string list" where
  "assertion_kinds = [''status'', ''body_contains'', ''json_pointer'']"

definition assertion_failure_of ::
  "text_ops \<Rightarrow> assertion \<Rightarrow> int option \<Rightarrow> string \<Rightarrow> assertion_failure option" where
  "assertion_failure_of ops a status body =
     (if \<not> List.member assertion_kinds (a_kind a) then Some (UnknownKind (a_kind a))
      else if a_kind a = ''status'' then
        (case int_of_json (a_expected a) of
           None \<Rightarrow> Some (MalformedOperand (a_expected a))
         | Some n \<Rightarrow> if status \<noteq> Some n then Some (WrongStatus (a_expected a) status) else None)
      else if a_kind a = ''body_contains'' then
        (if contains_str (json_str ops (a_expected a)) body then None
         else Some (MarkerOmitted (a_expected a)))
      else
        (case json_pointer ops body (a_expression a) of
           None \<Rightarrow> Some (PointerFailed (a_expression a))
         | Some actual \<Rightarrow>
             if a_expected a \<noteq> JNull \<and> actual \<noteq> json_str ops (a_expected a)
             then Some (PointerFailed (a_expression a)) else None))"

fun assertions_hold ::
  "text_ops \<Rightarrow> assertion list \<Rightarrow> int option \<Rightarrow> string \<Rightarrow> assertion_failure option" where
  "assertions_hold ops [] status body = None"
| "assertions_hold ops (a # as) status body =
     (case assertion_failure_of ops a status body of
        Some f \<Rightarrow> Some f
      | None \<Rightarrow> assertions_hold ops as status body)"

definition load_assertion :: "string \<Rightarrow> string \<Rightarrow> json \<Rightarrow> wf_error + assertion" where
  "load_assertion kind expression expected =
     (if \<not> List.member assertion_kinds kind then Inl ValueError
      else if (kind = ''status'' \<or> kind = ''body_contains'') \<and> expected = JNull then Inl ValueError
      else if kind = ''status'' \<and> int_of_json expected = None then Inl ValueError
      else if kind = ''json_pointer'' \<and> expression = [] then Inl ValueError
      else Inr \<lparr>a_kind = kind, a_expression = expression, a_expected = expected\<rparr>)"

section \<open>Executing one step\<close>

record send =
  sd_method :: string
  sd_url :: string
  sd_body :: string
  sd_content_type :: string
  sd_session :: string
  sd_case :: string
  sd_cleanup :: bool
  sd_capability :: string

record http_outcome =
  o_outcome :: string
  o_status :: "int option"
  o_body :: string
  o_headers :: headers
  o_final_url :: string
  o_error :: string
  o_artifact :: string

definition o_ok :: "http_outcome \<Rightarrow> bool" where
  "o_ok o' \<longleftrightarrow> o_outcome o' = ''ok''"

definition o_executed :: "http_outcome \<Rightarrow> bool" where
  "o_executed o' \<longleftrightarrow> o_outcome o' = ''ok'' \<or> o_outcome o' = ''error''"

record 'e runner =
  text_lib :: text_ops
  exec :: "send \<Rightarrow> 'e \<Rightarrow> (exc + http_outcome) \<times> 'e"
  refresher :: "(string \<Rightarrow> 'e \<Rightarrow> (exc + bool) \<times> 'e) option"
  max_refresh :: nat
  capability :: string
  cancelled :: "'e \<Rightarrow> bool"
  browser :: "wf_step \<Rightarrow> string \<Rightarrow> string \<Rightarrow> string \<Rightarrow> 'e \<Rightarrow> (exc + step_result) \<times> 'e"

text \<open>
  The send of a step: a 401 asks for a refresh, at most \<open>n\<close> times. The result holds the last
  outcome and whether any of the requests went out.
\<close>

fun send_loop ::
  "'e runner \<Rightarrow> wf_step \<Rightarrow> send \<Rightarrow> nat \<Rightarrow> bool \<Rightarrow> 'e \<Rightarrow> (exc + http_outcome \<times> bool) \<times> 'e" where
  "send_loop r s sd n executed e =
     (case exec r sd e of
        (Inl x, e1) \<Rightarrow> (Inl x, e1)
      | (Inr out, e1) \<Rightarrow>
          (let executed' = (executed \<or> o_executed out) in
           if observe s \<or> o_status out \<noteq> Some 401 then (Inr (out, executed'), e1)
           else (case refresher r of
                   None \<Rightarrow> (Inr (out, executed'), e1)
                 | Some refresh \<Rightarrow>
                     (case n of
                        0 \<Rightarrow> (Inr (out, executed'), e1)
                      | Suc m \<Rightarrow>
                          (case refresh (session_ref s) e1 of
                             (Inl x, e2) \<Rightarrow> (Inl x, e2)
                           | (Inr refreshed, e2) \<Rightarrow>
                               if refreshed then send_loop r s sd m executed' e2
                               else (Inr (out, executed'), e2))))))"

declare send_loop.simps [simp del]

definition result_of ::
  "wf_step \<Rightarrow> step_status \<Rightarrow> step_reason \<Rightarrow> http_outcome \<Rightarrow> (string \<times> string) list \<Rightarrow> bool \<Rightarrow> step_result"
  where
  "result_of s st why out vals executed =
     \<lparr>r_step_id = s_id s, r_status = st, r_reason = why, r_code = o_status out,
      r_artifact = o_artifact out, r_extracted = vals, r_executed = executed\<rparr>"

definition unsent :: "wf_step \<Rightarrow> step_status \<Rightarrow> step_reason \<Rightarrow> step_result" where
  "unsent s st why = \<lparr>r_step_id = s_id s, r_status = st, r_reason = why, r_code = None,
     r_artifact = [], r_extracted = [], r_executed = False\<rparr>"

definition dict_update :: "(string \<times> string) list \<Rightarrow> (string \<times> string) list \<Rightarrow> (string \<times> string) list" where
  "dict_update new d = foldl (\<lambda>d (k, v). dict_set k v d) d new"

text \<open>The verdict on a response: the result of the step and the values it adds.\<close>

definition judge ::
  "text_ops \<Rightarrow> wf_step \<Rightarrow> bool \<Rightarrow> string \<Rightarrow> http_outcome \<Rightarrow> bool \<Rightarrow> step_result \<times> (string \<times> string) list"
  where
  "judge ops s is_cleanup url out executed =
     (let passed = (if is_cleanup then CLEANED else PASSED);
          (vals, missing) = extract_all ops (extractors s) (o_body out) (o_headers out)
            (if o_final_url out = [] then url else o_final_url out)
      in if \<not> o_ok out
         then (result_of s (if o_outcome out = ''cancelled'' then CANCELLED else BLOCKED)
                 (SendFailed (if o_error out = [] then o_outcome out else o_error out)) out [] executed, [])
         else if require_success s \<and> \<not> (case o_status out of None \<Rightarrow> False | Some c \<Rightarrow> 200 \<le> c \<and> c < 300)
         then (result_of s FAILED NoSuccess out [] executed, [])
         else if observe s
         then (result_of s passed (ObservedStatus (o_status out)) out vals executed, vals)
         else if o_status out = Some 401 then (result_of s FAILED SessionExpired out [] executed, [])
         else if o_status out = Some 403 then (result_of s FAILED AccessDenied out [] executed, [])
         else if missing \<noteq> []
         then (result_of s BLOCKED (ExtractionMissing missing) out vals executed, [])
         else (case assertions_hold ops (assertions s) (o_status out) (o_body out) of
                 Some f \<Rightarrow> (result_of s FAILED (AssertionFailed f) out vals executed, [])
               | None \<Rightarrow> (result_of s passed (Transition (transition s)) out vals executed, vals)))"

definition unsatisfied :: "(string \<times> step_status) list \<Rightarrow> wf_step \<Rightarrow> string list" where
  "unsatisfied statuses s =
     filter (\<lambda>p. \<not> (case dict_get statuses p of None \<Rightarrow> False | Some st \<Rightarrow> good_status st)) (prerequisites s)"

definition send_case :: "workflow \<Rightarrow> string \<Rightarrow> (int \<Rightarrow> string) \<Rightarrow> wf_step \<Rightarrow> string" where
  "send_case w case_ref version_str s =
     (if s_case_ref s \<noteq> [] then s_case_ref s else if case_ref \<noteq> [] then case_ref
      else wf_id w @ '':'' @ version_str (wf_version w) @ '':'' @ s_id s)"

definition int_str :: "int \<Rightarrow> string" where
  "int_str i = (if i < 0 then CHR ''-'' # dec_str (nat (- i)) else dec_str (nat i))"

definition run_step ::
  "'e runner \<Rightarrow> workflow \<Rightarrow> string \<Rightarrow> (string \<times> step_status) list \<Rightarrow> wf_step \<Rightarrow> bool
   \<Rightarrow> (string \<times> string) list \<Rightarrow> 'e \<Rightarrow> (exc + step_result) \<times> (string \<times> string) list \<times> 'e" where
  "run_step r w case_ref statuses s is_cleanup vals e =
     (if cancelled r e \<and> \<not> is_cleanup then (Inr (unsent s CANCELLED RunCancelled), vals, e)
      else if unsatisfied statuses s \<noteq> []
      then (Inr (unsent s BLOCKED (Unsatisfied (unsatisfied statuses s))), vals, e)
      else
        (let (url, missing_url) = bind_template (url_template s) vals;
             (body, missing_body) = bind_template (body_template s) vals;
             missing = first_keys (missing_url @ missing_body);
             cid = send_case w case_ref int_str s
         in if missing \<noteq> [] then (Inr (unsent s BLOCKED (MissingValues missing)), vals, e)
            else if action s = ''browser_visit'' then
              (case bind_template (observation_marker s) vals of (marker, missing_marker) \<Rightarrow>
                 if missing_marker \<noteq> [] then (Inr (unsent s BLOCKED MissingMarker), vals, e)
                 else (case browser r s url cid marker e of (res, e1) \<Rightarrow> (res, vals, e1)))
            else
              (case send_loop r s \<lparr>sd_method = s_method s, sd_url = url, sd_body = body,
                      sd_content_type = content_type s, sd_session = session_ref s, sd_case = cid,
                      sd_cleanup = is_cleanup, sd_capability = capability r\<rparr> (max_refresh r) False e of
                 (Inl x, e1) \<Rightarrow> (Inl x, vals, e1)
               | (Inr (out, executed), e1) \<Rightarrow>
                   (case judge (text_lib r) s is_cleanup url out executed of
                      (res, new) \<Rightarrow> (Inr res, dict_update new vals, e1)))))"

section \<open>Executing a workflow\<close>

record 'e wf_run =
  results :: "step_result list"
  bindings :: "(string \<times> string) list"
  statuses :: "(string \<times> step_status) list"
  registered :: "string list"
  completed :: "string list"
  env :: 'e

definition record_result :: "wf_step \<Rightarrow> step_result \<Rightarrow> 'e wf_run \<Rightarrow> 'e wf_run" where
  "record_result s sr st = st\<lparr>results := results st @ [sr],
     statuses := dict_set (s_id s) (r_status sr) (statuses st)\<rparr>"

definition register_cleanups :: "wf_step list \<Rightarrow> wf_step \<Rightarrow> 'e wf_run \<Rightarrow> 'e wf_run" where
  "register_cleanups cleanup_steps s st = st\<lparr>registered :=
     foldl (\<lambda>reg c. if \<not> List.member reg (s_id c) \<and> List.member (prerequisites c) (s_id s)
                    then reg @ [s_id c] else reg) (registered st) cleanup_steps\<rparr>"

text \<open>The loop over the normal steps; an exception ends it.\<close>

fun run_normal ::
  "'e runner \<Rightarrow> workflow \<Rightarrow> string \<Rightarrow> string list \<Rightarrow> wf_step list \<Rightarrow> wf_step list \<Rightarrow> 'e wf_run
   \<Rightarrow> exc option \<times> 'e wf_run" where
  "run_normal r w cr passed cleanups [] st = (None, st)"
| "run_normal r w cr passed cleanups (s # ss) st =
     (if List.member passed (s_id s) then run_normal r w cr passed cleanups ss st
      else (case run_step r w cr (statuses st) s False (bindings st) (env st) of
          (Inl x, vals, e) \<Rightarrow> (Some x, st\<lparr>bindings := vals, env := e\<rparr>)
        | (Inr sr, vals, e) \<Rightarrow>
            (let st1 = record_result s sr (st\<lparr>bindings := vals, env := e\<rparr>);
                 st2 = (if r_status sr = PASSED then register_cleanups cleanups s st1 else st1)
             in run_normal r w cr passed cleanups ss st2)))"

text \<open>The \<open>finally\<close> block: the registered cleanup steps in the given order; an exception ends it.\<close>

fun run_cleanups ::
  "'e runner \<Rightarrow> workflow \<Rightarrow> string \<Rightarrow> string list \<Rightarrow> 'e wf_run \<Rightarrow> exc option \<times> 'e wf_run" where
  "run_cleanups r w cr [] st = (None, st)"
| "run_cleanups r w cr (i # is) st =
     (case find (\<lambda>s. s_id s = i) (wf_steps w) of
        None \<Rightarrow> (Some [''KeyError''], st)
      | Some s \<Rightarrow>
          (case run_step r w cr (statuses st) s True (bindings st) (env st) of
             (Inl x, vals, e) \<Rightarrow> (Some x, st\<lparr>bindings := vals, env := e\<rparr>)
           | (Inr sr, vals, e) \<Rightarrow>
               (let st1 = record_result s sr (st\<lparr>bindings := vals, env := e\<rparr>);
                    st2 = (if r_status sr = CLEANED
                           then st1\<lparr>completed := completed st1 @ [s_id s]\<rparr> else st1)
                in run_cleanups r w cr is st2)))"

definition resumed_statuses :: "wf_result option \<Rightarrow> (string \<times> step_status) list" where
  "resumed_statuses resume = (case resume of None \<Rightarrow> [] | Some r \<Rightarrow>
     foldl (\<lambda>d s. dict_set (r_step_id s) (r_status s) d) []
       (filter (\<lambda>s. good_status (r_status s)) (w_steps r)))"

definition already_passed :: "(string \<times> step_status) list \<Rightarrow> string list" where
  "already_passed d = map fst (filter (\<lambda>(_, st). st = PASSED) d)"

definition initial_run ::
  "wf_result option \<Rightarrow> (string \<times> string) list \<Rightarrow> 'e \<Rightarrow> 'e wf_run" where
  "initial_run resume initial e =
     \<lparr>results = [], bindings = dict_update initial (case resume of None \<Rightarrow> [] | Some r \<Rightarrow> w_values r),
      statuses = resumed_statuses resume, registered = [], completed = [], env = e\<rparr>"

definition run_all ::
  "'e runner \<Rightarrow> workflow \<Rightarrow> string \<Rightarrow> 'e wf_run \<Rightarrow> exc option \<times> 'e wf_run" where
  "run_all r w cr st0 =
     (let cleanups = filter cleanup (wf_steps w);
          normal = filter (\<lambda>s. \<not> cleanup s) (wf_steps w)
      in case run_normal r w cr (already_passed (statuses st0)) cleanups normal st0 of
           (x, st1) \<Rightarrow>
             (case run_cleanups r w cr (rev (registered st1)) st1 of
                (Some y, st2) \<Rightarrow> (Some y, st2)
              | (None, st2) \<Rightarrow> (x, st2)))"

definition execute_workflow ::
  "'e runner \<Rightarrow> workflow \<Rightarrow> (string \<times> string) list \<Rightarrow> wf_result option \<Rightarrow> string \<Rightarrow> 'e
   \<Rightarrow> (wf_error + wf_result) \<times> 'e" where
  "execute_workflow r w initial resume cr e =
     (if (case resume of None \<Rightarrow> False
          | Some x \<Rightarrow> w_workflow_id x \<noteq> wf_id w \<or> w_version x \<noteq> wf_version w)
      then (Inl ValueError, e)
      else (case run_all r w cr (initial_run resume initial e) of
          (Some x, st) \<Rightarrow> (Inl (Raised x), env st)
        | (None, st) \<Rightarrow>
            (Inr \<lparr>w_workflow_id = wf_id w, w_version = wf_version w, w_steps = results st,
                   w_values = bindings st, cleanup_registered = registered st,
                   cleanup_completed = completed st\<rparr>, env st)))"

section \<open>Misuse variants\<close>

record misuse =
  m_kind :: string
  m_step_id :: string
  m_session_ref :: string

definition step_variants :: "string \<Rightarrow> wf_step \<Rightarrow> misuse list" where
  "step_variants alternate s =
     (if cleanup s then []
      else (if prerequisites s \<noteq> []
            then [\<lparr>m_kind = ''skip_prerequisite'', m_step_id = s_id s, m_session_ref = []\<rparr>] else [])
        @ [\<lparr>m_kind = ''repeat'', m_step_id = s_id s, m_session_ref = []\<rparr>]
        @ (if alternate \<noteq> [] \<and> alternate \<noteq> session_ref s
           then [\<lparr>m_kind = ''switch_principal'', m_step_id = s_id s, m_session_ref = alternate\<rparr>] else []))"

definition misuse_variants :: "workflow \<Rightarrow> string \<Rightarrow> misuse list" where
  "misuse_variants w alternate = concat (map (step_variants alternate) (wf_steps w))"

definition shaped_workflow :: "workflow \<Rightarrow> misuse \<Rightarrow> wf_error + workflow" where
  "shaped_workflow w v =
     (case find (\<lambda>s. s_id s = m_step_id v) (wf_steps w) of
        None \<Rightarrow> Inl ValueError
      | Some target \<Rightarrow>
          (if cleanup target then Inl ValueError
           else let cleanups = filter cleanup (wf_steps w) in
             if m_kind v = ''skip_prerequisite'' then
               (let selected = target\<lparr>prerequisites := []\<rparr> in
                make_workflow (wf_id w @ '':skip:'' @ s_id target)
                  (selected # map (\<lambda>c. c\<lparr>prerequisites := [s_id selected]\<rparr>) cleanups)
                  (wf_version w) (wf_invariant w))
             else if m_kind v = ''switch_principal'' then
               (let selected = target\<lparr>session_ref := m_session_ref v\<rparr>;
                    pre = filter (\<lambda>s. List.member (prerequisites target) (s_id s))
                            (filter (\<lambda>s. \<not> cleanup s \<and> s_id s \<noteq> s_id target) (wf_steps w))
                in if \<not> step_ok selected then Inl ValueError
                   else make_workflow (wf_id w @ '':switch:'' @ s_id target) (pre @ [selected] @ cleanups)
                          (wf_version w) (wf_invariant w))
             else if m_kind v = ''repeat'' then
               (let first = target\<lparr>s_id := s_id target @ '':first'', prerequisites := []\<rparr>;
                    second = target\<lparr>s_id := s_id target @ '':repeat'', prerequisites := [s_id first]\<rparr>
                in make_workflow (wf_id w @ '':repeat:'' @ s_id target) [first, second]
                     (wf_version w) (wf_invariant w))
             else Inl ValueError))"

definition execute_misuse_variant ::
  "'e runner \<Rightarrow> workflow \<Rightarrow> misuse \<Rightarrow> (string \<times> string) list \<Rightarrow> 'e \<Rightarrow> (wf_error + wf_result) \<times> 'e" where
  "execute_misuse_variant r w v initial e =
     (case shaped_workflow w v of
        Inl x \<Rightarrow> (Inl x, e)
      | Inr shaped \<Rightarrow> execute_workflow (r\<lparr>refresher := None, max_refresh := 1, capability := ''workflow:'' @ m_kind v\<rparr>) shaped initial None [] e)"

section \<open>Template binding, proved\<close>

lemma bind_text_Nil [simp]: "bind_text vals [] = ([], [])"
  by (simp add: bind_text.simps)

lemma match_var_text: "match_var s = Some (n, rest) \<Longrightarrow> s = ''{{'' @ n @ ''}}'' @ rest"
proof (induction s rule: match_var.induct)
  case (1 a b c r)
  then have "a = CHR ''{''" "b = CHR ''{''" "n = c # takeWhile ident_char r"
    and d: "dropWhile ident_char r = ''}}'' @ rest"
    by (auto split: if_splits list.splits)
  moreover have "r = takeWhile ident_char r @ dropWhile ident_char r" by simp
  ultimately show ?case by simp
qed simp_all

lemma set_first_keys [simp]: "set (first_keys xs) = set xs"
  by (induction xs) auto

lemma distinct_first_keys: "distinct (first_keys xs)"
  by (induction xs) auto

lemma first_keys_Nil_iff [simp]: "first_keys xs = [] \<longleftrightarrow> xs = []"
  by (cases xs) auto

lemma bind_text_None:
  "match_var (x # xs) = None \<Longrightarrow>
   bind_text vals (x # xs) = (x # fst (bind_text vals xs), snd (bind_text vals xs))"
  by (simp add: bind_text.simps[of vals "x # xs"] split_beta)

lemma bind_text_Some:
  "match_var s = Some (n, rest) \<Longrightarrow> bind_text vals s =
     (case dict_get vals n of
        None \<Rightarrow> (''{{'' @ n @ ''}}'' @ fst (bind_text vals rest), n # snd (bind_text vals rest))
      | Some v \<Rightarrow> (v @ fst (bind_text vals rest), snd (bind_text vals rest)))"
  by (subst bind_text.simps) (auto simp: split_beta split: list.split option.split)

lemma text_cases [case_names Nil Plain Var]:
  assumes "s = [] \<Longrightarrow> P" and "\<And>x xs. s = x # xs \<Longrightarrow> match_var s = None \<Longrightarrow> P"
    and "\<And>n rest. match_var s = Some (n, rest) \<Longrightarrow> P"
  shows P
  using assms by (cases s; cases "match_var s") auto

lemma bind_text_empty: "fst (bind_text [] s) = s"
proof (induction s rule: length_induct)
  case (1 s)
  show ?case
  proof (cases s rule: text_cases)
    case (Plain x xs)
    then show ?thesis using 1 by (simp add: bind_text_None)
  next
    case (Var n rest)
    then have "fst (bind_text [] rest) = rest" using 1 match_var_shorter by blast
    then have "fst (bind_text [] s) = ''{{'' @ n @ ''}}'' @ rest" by (simp add: bind_text_Some[OF Var])
    then show ?thesis by (rule trans[OF _ match_var_text[OF Var, symmetric]])
  qed simp
qed

lemma bind_text_missing: "set (snd (bind_text vals s)) = set (snd (bind_text [] s)) - fst ` set vals"
proof (induction s rule: length_induct)
  case (1 s)
  show ?case
  proof (cases s rule: text_cases)
    case (Plain x xs)
    then show ?thesis using 1 by (simp add: bind_text_None)
  next
    case (Var n rest)
    then have "set (snd (bind_text vals rest)) = set (snd (bind_text [] rest)) - fst ` set vals"
      using 1 match_var_shorter by blast
    moreover have "dict_get vals n = None \<longleftrightarrow> n \<notin> fst ` set vals" by (rule map_of_eq_None_iff)
    ultimately show ?thesis
      by (cases "dict_get vals n") (auto simp: bind_text_Some[OF Var])
  qed simp
qed

section \<open>What a step does\<close>

definition browser_named :: "'e runner \<Rightarrow> bool" where
  "browser_named r \<longleftrightarrow> (\<forall>s u c m e sr e'. browser r s u c m e = (Inr sr, e') \<longrightarrow> r_step_id sr = s_id s)"

lemma browser_namedD:
  "browser_named r \<Longrightarrow> browser r s u c m e = (Inr sr, e') \<Longrightarrow> r_step_id sr = s_id s"
  unfolding browser_named_def by blast

lemma judge_id: "judge ops s cl url out ex = (sr, new) \<Longrightarrow> r_step_id sr = s_id s"
  by (auto simp: judge_def Let_def result_of_def split: prod.splits option.splits if_splits)

lemma run_step_id:
  assumes "browser_named r" and "run_step r w cr sts s cl vals e = (Inr sr, vals', e')"
  shows "r_step_id sr = s_id s"
  using assms(2) unfolding run_step_def Let_def
  by (auto simp: unsent_def split: if_splits prod.splits sum.splits
      dest: judge_id browser_namedD[OF assms(1)])

lemma run_step_needs:
  "run_step r w cr sts s cl vals e = (Inr sr, vals', e') \<Longrightarrow> good_status (r_status sr) \<Longrightarrow>
   unsatisfied sts s = []"
  by (auto simp: run_step_def unsent_def good_status_def split: if_splits)

section \<open>Prerequisites come first\<close>

definition good_ids :: "step_result list \<Rightarrow> string set" where
  "good_ids rs = set (map r_step_id (filter (\<lambda>s. good_status (r_status s)) rs))"

lemma good_ids_append [simp]: "good_ids (xs @ ys) = good_ids xs \<union> good_ids ys"
  by (simp add: good_ids_def)

definition disciplined :: "workflow \<Rightarrow> string set \<Rightarrow> step_result list \<Rightarrow> bool" where
  "disciplined w seed rs \<longleftrightarrow> (\<forall>pre sr post. rs = pre @ sr # post \<longrightarrow> good_status (r_status sr) \<longrightarrow>
     (\<exists>s\<in>set (wf_steps w). s_id s = r_step_id sr \<and> set (prerequisites s) \<subseteq> seed \<union> good_ids pre))"

definition known_good :: "string set \<Rightarrow> 'e wf_run \<Rightarrow> bool" where
  "known_good seed st \<longleftrightarrow> (\<forall>p x. dict_get (statuses st) p = Some x \<longrightarrow> good_status x \<longrightarrow>
     p \<in> seed \<union> good_ids (results st))"

definition run_inv :: "workflow \<Rightarrow> string set \<Rightarrow> 'e wf_run \<Rightarrow> bool" where
  "run_inv w seed st \<longleftrightarrow> disciplined w seed (results st) \<and> known_good seed st"

lemma register_cleanups_keeps [simp]:
  "results (register_cleanups cs s st) = results st" "statuses (register_cleanups cs s st) = statuses st"
  "bindings (register_cleanups cs s st) = bindings st" "env (register_cleanups cs s st) = env st"
  "completed (register_cleanups cs s st) = completed st"
  by (simp_all add: register_cleanups_def)

lemma record_result_simps [simp]:
  "results (record_result s sr st) = results st @ [sr]"
  "statuses (record_result s sr st) = dict_set (s_id s) (r_status sr) (statuses st)"
  "registered (record_result s sr st) = registered st" "bindings (record_result s sr st) = bindings st"
  "env (record_result s sr st) = env st" "completed (record_result s sr st) = completed st"
  by (simp_all add: record_result_def)

lemma run_inv_cong:
  "results st = results st' \<Longrightarrow> statuses st = statuses st' \<Longrightarrow> run_inv w seed st = run_inv w seed st'"
  by (simp add: run_inv_def known_good_def)

lemma disciplined_snoc:
  assumes "disciplined w seed rs"
    and "good_status (r_status sr) \<Longrightarrow>
      \<exists>s\<in>set (wf_steps w). s_id s = r_step_id sr \<and> set (prerequisites s) \<subseteq> seed \<union> good_ids rs"
  shows "disciplined w seed (rs @ [sr])"
  unfolding disciplined_def
proof (intro allI impI)
  fix pre x post
  assume eq: "rs @ [sr] = pre @ x # post" and g: "good_status (r_status x)"
  show "\<exists>s\<in>set (wf_steps w). s_id s = r_step_id x \<and> set (prerequisites s) \<subseteq> seed \<union> good_ids pre"
  proof (cases post rule: rev_cases)
    case Nil
    with eq assms(2) g show ?thesis by simp
  next
    case (snoc p q)
    with eq have "rs = pre @ x # p" by simp
    with assms(1) g show ?thesis by (simp add: disciplined_def)
  qed
qed

lemma unsatisfied_Nil:
  assumes "unsatisfied (statuses st) s = []" and "known_good seed st"
  shows "set (prerequisites s) \<subseteq> seed \<union> good_ids (results st)"
proof
  fix p assume "p \<in> set (prerequisites s)"
  then obtain x where "dict_get (statuses st) p = Some x" "good_status x"
    using assms(1) by (auto simp: unsatisfied_def filter_empty_conv split: option.splits)
  then show "p \<in> seed \<union> good_ids (results st)" using assms(2) by (auto simp: known_good_def)
qed

lemma record_inv:
  assumes inv: "run_inv w seed st" and named: "browser_named r" and s: "s \<in> set (wf_steps w)"
    and run: "run_step r w cr (statuses st) s cl (bindings st) (env st) = (Inr sr, vals, e)"
    and st': "results st' = results st @ [sr]"
      "statuses st' = dict_set (s_id s) (r_status sr) (statuses st)"
  shows "run_inv w seed st'"
proof -
  have i: "r_step_id sr = s_id s" using run_step_id[OF named run] .
  have "disciplined w seed (results st @ [sr])"
  proof (rule disciplined_snoc)
    show "disciplined w seed (results st)" using inv by (simp add: run_inv_def)
    assume "good_status (r_status sr)"
    from run_step_needs[OF run this] show
      "\<exists>s\<in>set (wf_steps w). s_id s = r_step_id sr \<and> set (prerequisites s) \<subseteq> seed \<union> good_ids (results st)"
      using unsatisfied_Nil inv i s unfolding run_inv_def by metis
  qed
  moreover have "known_good seed st'"
    using inv i unfolding run_inv_def known_good_def st'
    by (auto simp: dict_get_set good_ids_def split: if_splits)
  ultimately show ?thesis by (simp add: run_inv_def st')
qed

lemma run_normal_inv:
  assumes "browser_named r"
  shows "set ss \<subseteq> set (wf_steps w) \<Longrightarrow> run_inv w seed st \<Longrightarrow>
    run_inv w seed (snd (run_normal r w cr passed cs ss st))"
proof (induction ss arbitrary: st)
  case (Cons s ss)
  obtain res vals e where run: "run_step r w cr (statuses st) s False (bindings st) (env st) = (res, vals, e)"
    using prod_cases3 by blast
  show ?case
  proof (cases res)
    case (Inl x)
    then show ?thesis
      using Cons run run_inv_cong[of st "st\<lparr>bindings := vals, env := e\<rparr>" w seed] by simp
  next
    case (Inr sr)
    let ?st1 = "record_result s sr (st\<lparr>bindings := vals, env := e\<rparr>)"
    let ?st2 = "if r_status sr = PASSED then register_cleanups cs s ?st1 else ?st1"
    have "run_inv w seed ?st2"
      using record_inv[OF Cons.prems(2) assms _ run[unfolded Inr], of ?st2] Cons.prems(1) by simp
    then show ?thesis using Cons run Inr by (simp add: Let_def)
  qed
qed simp

lemma run_cleanups_inv:
  assumes "browser_named r"
  shows "run_inv w seed st \<Longrightarrow> run_inv w seed (snd (run_cleanups r w cr is st))"
proof (induction "is" arbitrary: st)
  case (Cons i "is")
  show ?case
  proof (cases "find (\<lambda>s. s_id s = i) (wf_steps w)")
    case None
    then show ?thesis using Cons by simp
  next
    case (Some s)
    then have s: "s \<in> set (wf_steps w)" by (auto simp: find_Some_iff)
    obtain res vals e where run: "run_step r w cr (statuses st) s True (bindings st) (env st) = (res, vals, e)"
      using prod_cases3 by blast
    show ?thesis
    proof (cases res)
      case (Inl x)
      then show ?thesis
        using Cons run Some run_inv_cong[of st "st\<lparr>bindings := vals, env := e\<rparr>" w seed] by simp
    next
      case (Inr sr)
      let ?st1 = "record_result s sr (st\<lparr>bindings := vals, env := e\<rparr>)"
      let ?st2 = "if r_status sr = CLEANED then ?st1\<lparr>completed := completed ?st1 @ [s_id s]\<rparr> else ?st1"
      have "run_inv w seed ?st2"
        using record_inv[OF Cons.prems assms s run[unfolded Inr], of ?st2] by simp
      then show ?thesis using Cons run Some Inr by (simp add: Let_def)
    qed
  qed
qed simp

definition resumed_ids :: "wf_result option \<Rightarrow> string set" where
  "resumed_ids resume = (case resume of None \<Rightarrow> {} | Some x \<Rightarrow> good_ids (w_steps x))"

lemma resumed_statuses_keys:
  "dict_get (resumed_statuses resume) p = Some x \<Longrightarrow> p \<in> resumed_ids resume"
proof -
  have "dict_get (foldl (\<lambda>d s. dict_set (r_step_id s) (r_status s) d) d ss) p = Some x \<Longrightarrow>
      p \<in> r_step_id ` set ss \<or> dict_get d p = Some x" for d ss
    by (induction ss arbitrary: d) (fastforce simp: dict_get_set split: if_splits)+
  then show "dict_get (resumed_statuses resume) p = Some x \<Longrightarrow> p \<in> resumed_ids resume"
    by (fastforce simp: resumed_statuses_def resumed_ids_def good_ids_def split: option.splits)
qed

lemma run_all_inv:
  assumes "browser_named r" and "run_inv w seed st"
  shows "run_inv w seed (snd (run_all r w cr st))"
proof -
  obtain x st1 where n: "run_normal r w cr (already_passed (statuses st)) (filter cleanup (wf_steps w))
      (filter (\<lambda>s. \<not> cleanup s) (wf_steps w)) st = (x, st1)" by fastforce
  have "run_inv w seed st1"
    using run_normal_inv[OF assms(1), of "filter (\<lambda>s. \<not> cleanup s) (wf_steps w)" w seed st] assms(2) n
    by (metis filter_is_subset snd_conv)
  from run_cleanups_inv[OF assms(1) this, of cr "rev (registered st1)"] show ?thesis
    by (auto simp: run_all_def Let_def n split: prod.splits option.splits)
qed

lemma run_all_result:
  assumes "execute_workflow r w initial resume cr e = (Inr res, e')"
  obtains st where "run_all r w cr (initial_run resume initial e) = (None, st)"
    "w_steps res = results st" "cleanup_registered res = registered st"
    "cleanup_completed res = completed st" "e' = env st"
  using assms by (auto simp: execute_workflow_def split: if_splits prod.splits option.splits)

text \<open>C20: A step only succeeds after its prerequisites: in the report of an execution, every step that
  passed or was cleaned up is a step of the workflow all of whose prerequisites passed, or were
  cleaned up, earlier in the report or in the resumed run.\<close>

theorem prerequisites_first:
  assumes "browser_named r" and run: "execute_workflow r w initial resume cr e = (Inr res, e')"
    and "w_steps res = pre @ sr # post" and "good_status (r_status sr)"
  shows "\<exists>s\<in>set (wf_steps w). s_id s = r_step_id sr \<and>
    set (prerequisites s) \<subseteq> resumed_ids resume \<union> good_ids pre"
proof -
  obtain st where st: "run_all r w cr (initial_run resume initial e) = (None, st)" "w_steps res = results st"
    using run_all_result[OF run] by blast
  have "run_inv w (resumed_ids resume) (initial_run resume initial e)"
    using resumed_statuses_keys[of resume]
    by (auto simp: run_inv_def disciplined_def known_good_def initial_run_def)
  from run_all_inv[OF assms(1) this, of cr] have "run_inv w (resumed_ids resume) st" by (simp add: st)
  then show ?thesis using assms(3,4) st(2) unfolding run_inv_def disciplined_def by simp
qed

section \<open>Cleanup\<close>

definition registrable :: "wf_step list \<Rightarrow> step_result list \<Rightarrow> wf_step \<Rightarrow> bool" where
  "registrable cs rs c \<longleftrightarrow> c \<in> set cs \<and>
     (\<exists>sr\<in>set rs. r_status sr = PASSED \<and> r_step_id sr \<in> set (prerequisites c))"

definition reg_inv :: "wf_step list \<Rightarrow> 'e wf_run \<Rightarrow> bool" where
  "reg_inv cs st \<longleftrightarrow> distinct (registered st) \<and>
     set (registered st) = s_id ` {c. registrable cs (results st) c}"

lemma register_fold:
  "distinct reg \<Longrightarrow>
   distinct (foldl (\<lambda>reg c. if \<not> List.member reg (s_id c) \<and> List.member (prerequisites c) i
       then reg @ [s_id c] else reg) reg cs) \<and>
   set (foldl (\<lambda>reg c. if \<not> List.member reg (s_id c) \<and> List.member (prerequisites c) i
       then reg @ [s_id c] else reg) reg cs) =
   set reg \<union> s_id ` {c \<in> set cs. i \<in> set (prerequisites c)}"
  by (induction cs arbitrary: reg) auto

lemma register_cleanups_registered:
  assumes "distinct (registered st)"
  shows "distinct (registered (register_cleanups cs s st))"
    and "set (registered (register_cleanups cs s st)) =
      set (registered st) \<union> s_id ` {c \<in> set cs. s_id s \<in> set (prerequisites c)}"
  using register_fold[OF assms, of "s_id s" cs] by (simp_all add: register_cleanups_def)

lemma reg_inv_step:
  assumes "reg_inv cs st" and "r_step_id sr = s_id s"
    and "st' = record_result s sr (st\<lparr>bindings := vals, env := e\<rparr>)"
  shows "reg_inv cs (if r_status sr = PASSED then register_cleanups cs s st' else st')"
proof -
  have new: "{c. registrable cs (results st @ [sr]) c} = {c. registrable cs (results st) c} \<union>
      (if r_status sr = PASSED then {c \<in> set cs. s_id s \<in> set (prerequisites c)} else {})"
    using assms(2) by (auto simp: registrable_def)
  show ?thesis
    using assms(1) by (simp add: reg_inv_def assms(3) new register_cleanups_registered image_Un)
qed

text \<open>What the loop over the normal steps leaves: one result for each step it did not skip, in order,
  and the cleanup steps of those that passed.\<close>

lemma run_normal_shape:
  assumes "browser_named r"
  shows "run_normal r w cr passed cs ss st = (None, st') \<Longrightarrow> reg_inv cs st \<Longrightarrow>
    map r_step_id (results st') = map r_step_id (results st)
      @ map s_id (filter (\<lambda>s. s_id s \<notin> set passed) ss) \<and> reg_inv cs st' \<and> completed st' = completed st"
proof (induction ss arbitrary: st)
  case (Cons s ss)
  show ?case
  proof (cases "List.member passed (s_id s)")
    case True
    then show ?thesis using Cons by simp
  next
    case False
    obtain res vals e where run: "run_step r w cr (statuses st) s False (bindings st) (env st) = (res, vals, e)"
      using prod_cases3 by blast
    then obtain sr where res: "res = Inr sr" using Cons.prems(1) False by (cases res) auto
    have i: "r_step_id sr = s_id s" using run_step_id[OF assms] run res by blast
    let ?st1 = "record_result s sr (st\<lparr>bindings := vals, env := e\<rparr>)"
    let ?st2 = "if r_status sr = PASSED then register_cleanups cs s ?st1 else ?st1"
    have "run_normal r w cr passed cs ss ?st2 = (None, st')"
      using Cons.prems(1) False run res by (simp add: Let_def)
    from Cons.IH[OF this] reg_inv_step[OF Cons.prems(2) i refl] show ?thesis
      using i False by (simp split: if_splits)
  qed
qed simp

lemma run_cleanups_shape:
  assumes "browser_named r" and "distinct (map s_id (wf_steps w))"
  shows "run_cleanups r w cr is st = (None, st') \<Longrightarrow>
    map r_step_id (results st') = map r_step_id (results st) @ is \<and>
    prefix (results st) (results st') \<and> registered st' = registered st"
proof (induction "is" arbitrary: st)
  case (Cons i "is")
  obtain s where f: "find (\<lambda>s. s_id s = i) (wf_steps w) = Some s"
    using Cons.prems by (cases "find (\<lambda>s. s_id s = i) (wf_steps w)") auto
  then have si: "s_id s = i" by (auto simp: find_Some_iff)
  obtain res vals e where run: "run_step r w cr (statuses st) s True (bindings st) (env st) = (res, vals, e)"
    using prod_cases3 by blast
  then obtain sr where res: "res = Inr sr" using Cons.prems f by (cases res) auto
  have i: "r_step_id sr = i" using run_step_id[OF assms(1)] run res si by blast
  let ?st1 = "record_result s sr (st\<lparr>bindings := vals, env := e\<rparr>)"
  let ?st2 = "if r_status sr = CLEANED then ?st1\<lparr>completed := completed ?st1 @ [s_id s]\<rparr> else ?st1"
  have "run_cleanups r w cr is ?st2 = (None, st')"
    using Cons.prems f run res by (simp add: Let_def)
  from Cons.IH[OF this] show ?case
    using i by (auto simp: prefix_def split: if_splits)
qed simp

text \<open>Cleanup is deferred and complete: an execution that returns reports one result for each normal
  step it did not skip, in the order of the workflow, and then one for each registered cleanup step,
  in reverse order of registration; and the registered ones are exactly the cleanup steps with a
  prerequisite that passed in this execution, each once.\<close>

theorem cleanup_order:
  assumes "browser_named r" and "workflow_ok w"
    and run: "execute_workflow r w initial resume cr e = (Inr res, e')"
  shows "\<exists>ns cs. w_steps res = ns @ cs
    \<and> map r_step_id ns = map s_id (filter (\<lambda>s. \<not> cleanup s \<and>
        s_id s \<notin> set (already_passed (resumed_statuses resume))) (wf_steps w))
    \<and> map r_step_id cs = rev (cleanup_registered res) \<and> distinct (cleanup_registered res)
    \<and> set (cleanup_registered res) = s_id ` {c \<in> set (wf_steps w). cleanup c \<and>
        (\<exists>sr\<in>set ns. r_status sr = PASSED \<and> r_step_id sr \<in> set (prerequisites c))}"
proof -
  let ?st0 = "initial_run resume initial e"
  let ?cs = "filter cleanup (wf_steps w)"
  obtain st where all: "run_all r w cr ?st0 = (None, st)" and res: "w_steps res = results st"
      "cleanup_registered res = registered st"
    using run_all_result[OF run] by blast
  obtain x st1 where n: "run_normal r w cr (already_passed (statuses ?st0)) ?cs
      (filter (\<lambda>s. \<not> cleanup s) (wf_steps w)) ?st0 = (x, st1)" by fastforce
  with all have x: "x = None" and c: "run_cleanups r w cr (rev (registered st1)) st1 = (None, st)"
    by (auto simp: run_all_def Let_def split: prod.splits option.splits)
  have "reg_inv ?cs ?st0" by (simp add: reg_inv_def registrable_def initial_run_def)
  note ns = run_normal_shape[OF assms(1) n[unfolded x] this]
  have d: "distinct (map s_id (wf_steps w))" using assms(2) by (auto simp: workflow_ok_def)
  note cs = run_cleanups_shape[OF assms(1) d c]
  obtain rest where st: "results st = results st1 @ rest" using cs by (auto simp: prefix_def)
  have "{c. registrable ?cs (results st1) c} = {c \<in> set (wf_steps w). cleanup c \<and>
      (\<exists>sr\<in>set (results st1). r_status sr = PASSED \<and> r_step_id sr \<in> set (prerequisites c))}"
    by (auto simp: registrable_def)
  then have "results st = results st1 @ rest
    \<and> map r_step_id (results st1) = map s_id (filter (\<lambda>s. \<not> cleanup s \<and>
        s_id s \<notin> set (already_passed (resumed_statuses resume))) (wf_steps w))
    \<and> map r_step_id rest = rev (registered st) \<and> distinct (registered st)
    \<and> set (registered st) = s_id ` {c \<in> set (wf_steps w). cleanup c \<and>
        (\<exists>sr\<in>set (results st1). r_status sr = PASSED \<and> r_step_id sr \<in> set (prerequisites c))}"
    using ns cs st by (simp add: initial_run_def reg_inv_def conj_commute)
  then show ?thesis unfolding res by blast
qed

section \<open>Requests are bounded\<close>

text \<open>The same runner with a counter of the requests it was asked to send.\<close>

definition counting :: "'e runner \<Rightarrow> (nat \<times> 'e) runner" where
  "counting r = \<lparr>text_lib = text_lib r,
     exec = (\<lambda>sd (k, e). case exec r sd e of (o', e') \<Rightarrow> (o', (Suc k, e'))),
     refresher = (case refresher r of None \<Rightarrow> None
       | Some f \<Rightarrow> Some (\<lambda>i (k, e). case f i e of (b, e') \<Rightarrow> (b, (k, e')))),
     max_refresh = max_refresh r, capability = capability r, cancelled = (\<lambda>(k, e). cancelled r e),
     browser = (\<lambda>s u c m (k, e). case browser r s u c m e of (x, e') \<Rightarrow> (x, (k, e')))\<rparr>"

definition sends_per_step :: "'e runner \<Rightarrow> nat" where
  "sends_per_step r = (case refresher r of None \<Rightarrow> 1 | Some _ \<Rightarrow> 1 + max_refresh r)"

lemma send_loop_count:
  "fst (snd (send_loop (counting r) s sd n ex (k, e))) \<le>
     k + (case refresher r of None \<Rightarrow> 1 | Some _ \<Rightarrow> 1 + n)"
proof (induction n arbitrary: ex k e)
  case 0
  show ?case
    by (subst send_loop.simps)
      (auto simp: counting_def Let_def split: sum.splits prod.splits option.splits if_splits)
next
  case (Suc n)
  obtain o' e1 where x: "exec r sd e = (o', e1)" by fastforce
  show ?case
  proof (cases "refresher r")
    case None
    then show ?thesis
      by (subst send_loop.simps)
        (auto simp: counting_def Let_def x split: sum.splits if_splits)
  next
    case (Some f)
    obtain b e2 where f: "f (session_ref s) e1 = (b, e2)" by fastforce
    have "fst (snd (send_loop (counting r) s sd n ex' (Suc k, e2))) \<le> Suc (Suc (k + n))" for ex'
      using Suc[of ex' "Suc k" e2] Some by simp
    then show ?thesis
      by (subst send_loop.simps)
        (auto simp: Let_def Some x f counting_def[of r] split: sum.splits if_splits
          intro: order_trans)
  qed
qed

lemma counting_sel [simp]:
  "max_refresh (counting r) = max_refresh r" "text_lib (counting r) = text_lib r"
  "capability (counting r) = capability r" "cancelled (counting r) (k, e) = cancelled r e"
  by (simp_all add: counting_def)

lemma browser_count: "fst (snd (browser (counting r) s u c m (k, e))) = k"
  by (simp add: counting_def split: prod.split)

lemma run_step_count:
  "fst (snd (snd (run_step (counting r) w cr sts s cl vals (k, e)))) \<le> k + sends_per_step r"
proof -
  have send: "fst (snd (send_loop (counting r) s sd (max_refresh r) False (k, e))) \<le> k + sends_per_step r" for sd
    using send_loop_count[of r s sd "max_refresh r" False k e] by (simp add: sends_per_step_def)
  have "fst e1 \<le> k + sends_per_step r"
    if "send_loop (counting r) s sd (max_refresh r) False (k, e) = (x, e1)" for sd x e1
    using send[of sd] that by simp
  moreover have "fst e1 \<le> k + sends_per_step r"
    if "browser (counting r) s u c m (k, e) = (x, e1)" for u c m x e1
    using browser_count[of r s u c m k e] that by simp
  ultimately show ?thesis
    unfolding run_step_def Let_def by (auto split: prod.split sum.split)
qed

lemma run_normal_count:
  "fst (env (snd (run_normal (counting r) w cr passed cs ss st))) \<le>
     fst (env st) + length ss * sends_per_step r"
proof (induction ss arbitrary: st)
  case (Cons s ss)
  obtain k e where env: "env st = (k, e)" by fastforce
  obtain res vals k' e' where
    run: "run_step (counting r) w cr (statuses st) s False (bindings st) (k, e) = (res, vals, (k', e'))"
    using prod_cases4 by blast
  have le: "k' \<le> k + sends_per_step r"
    using run_step_count[of r w cr "statuses st" s False "bindings st" k e] run by simp
  show ?case
  proof (cases res)
    case (Inl x)
    with run le env show ?thesis using Cons.IH[of st] by auto
  next
    case (Inr sr)
    let ?st1 = "record_result s sr (st\<lparr>bindings := vals, env := (k', e')\<rparr>)"
    have "fst (env (snd (run_normal (counting r) w cr passed cs ss
        (if r_status sr = PASSED then register_cleanups cs s ?st1 else ?st1)))) \<le>
        k' + length ss * sends_per_step r"
      using Cons.IH[of "if r_status sr = PASSED then register_cleanups cs s ?st1 else ?st1"]
      by (simp split: if_splits)
    moreover have "fst (env (snd (run_normal (counting r) w cr passed cs ss st))) \<le>
        k + length ss * sends_per_step r" using Cons.IH[of st] env by simp
    ultimately show ?thesis using run Inr le env by (simp add: Let_def)
  qed
qed simp

lemma run_cleanups_count:
  "fst (env (snd (run_cleanups (counting r) w cr is st))) \<le> fst (env st) + length is * sends_per_step r"
proof (induction "is" arbitrary: st)
  case (Cons i "is")
  obtain k e where env: "env st = (k, e)" by fastforce
  show ?case
  proof (cases "find (\<lambda>s. s_id s = i) (wf_steps w)")
    case (Some s)
    obtain res vals k' e' where
      run: "run_step (counting r) w cr (statuses st) s True (bindings st) (k, e) = (res, vals, (k', e'))"
      using prod_cases4 by blast
    have le: "k' \<le> k + sends_per_step r"
      using run_step_count[of r w cr "statuses st" s True "bindings st" k e] run by simp
    show ?thesis
    proof (cases res)
      case (Inl x)
      with run le env Some show ?thesis by simp
    next
      case (Inr sr)
      let ?st1 = "record_result s sr (st\<lparr>bindings := vals, env := (k', e')\<rparr>)"
      have "fst (env (snd (run_cleanups (counting r) w cr is
          (if r_status sr = CLEANED then ?st1\<lparr>completed := completed ?st1 @ [s_id s]\<rparr> else ?st1)))) \<le>
          k' + length is * sends_per_step r"
        using Cons.IH[of "if r_status sr = CLEANED
            then ?st1\<lparr>completed := completed ?st1 @ [s_id s]\<rparr> else ?st1"]
        by (simp split: if_splits)
      then show ?thesis using run Inr le env Some by (simp add: Let_def)
    qed
  qed (simp add: env)
qed simp

lemma registered_le:
  "set (registered st) \<subseteq> s_id ` set cs \<Longrightarrow> distinct (registered st) \<Longrightarrow>
   set (registered (snd (run_normal r w cr passed cs ss st))) \<subseteq> s_id ` set cs \<and>
   distinct (registered (snd (run_normal r w cr passed cs ss st)))"
proof (induction ss arbitrary: st)
  case (Cons s ss)
  obtain res vals e where run: "run_step r w cr (statuses st) s False (bindings st) (env st) = (res, vals, e)"
    using prod_cases3 by blast
  show ?case
  proof (cases res)
    case (Inl x)
    with run Cons show ?thesis by simp
  next
    case (Inr sr)
    let ?st1 = "record_result s sr (st\<lparr>bindings := vals, env := e\<rparr>)"
    let ?st2 = "if r_status sr = PASSED then register_cleanups cs s ?st1 else ?st1"
    have "set (registered ?st2) \<subseteq> s_id ` set cs" "distinct (registered ?st2)"
      using Cons.prems register_cleanups_registered[of ?st1 cs s] by auto
    from Cons.IH[OF this] Cons.IH[OF Cons.prems] show ?thesis using run Inr by (simp add: Let_def)
  qed
qed simp

text \<open>An execution sends at most one request per step of the workflow, and one more for each refresh a
  step may ask for; without a refresh callback, at most one per step.\<close>

theorem requests_bounded:
  "fst (snd (execute_workflow (counting r) w initial resume cr (0, e))) \<le>
     length (wf_steps w) * sends_per_step r"
proof -
  let ?st0 = "initial_run resume initial (0 :: nat, e)"
  let ?cs = "filter cleanup (wf_steps w)" and ?ns = "filter (\<lambda>s. \<not> cleanup s) (wf_steps w)"
  obtain x st1 where n: "run_normal (counting r) w cr (already_passed (statuses ?st0)) ?cs ?ns ?st0 = (x, st1)"
    by fastforce
  obtain y st2 where c: "run_cleanups (counting r) w cr (rev (registered st1)) st1 = (y, st2)" by fastforce
  have "set (registered st1) \<subseteq> s_id ` set ?cs \<and> distinct (registered st1)"
    using registered_le[of ?st0 ?cs "counting r" w cr "already_passed (statuses ?st0)" ?ns] n
    by (simp add: initial_run_def)
  then have "length (registered st1) \<le> length ?cs"
    by (metis card_image_le card_length card_mono distinct_card finite_imageI finite_set order_trans)
  then have "length (registered st1) * sends_per_step r \<le> length ?cs * sends_per_step r"
    by (rule mult_le_mono1)
  moreover have "fst (env st1) \<le> length ?ns * sends_per_step r"
    using run_normal_count[of r w cr "already_passed (statuses ?st0)" ?cs ?ns ?st0] n
    by (simp add: initial_run_def)
  moreover have "fst (env st2) \<le> fst (env st1) + length (registered st1) * sends_per_step r"
    using run_cleanups_count[of r w cr "rev (registered st1)" st1] c by simp
  ultimately have "fst (env st2) \<le> (length ?ns + length ?cs) * sends_per_step r"
    unfolding add_mult_distrib by linarith
  moreover have "length ?ns + length ?cs = length (wf_steps w)"
    using sum_length_filter_compl[of cleanup "wf_steps w"] by simp
  moreover have "snd (run_all (counting r) w cr ?st0) = st2"
    unfolding run_all_def Let_def n prod.case c by (simp split: option.split)
  ultimately show ?thesis
    by (auto simp: execute_workflow_def split: prod.split option.split)
qed

section \<open>Misuse variants, proved\<close>

lemma prerequisites_known_const:
  "list_all (\<lambda>c. prerequisites c = [i]) cs \<Longrightarrow> i \<in> set known \<Longrightarrow> prerequisites_known known cs"
  by (induction cs arbitrary: known) auto

lemma variant_step:
  assumes "v \<in> set (misuse_variants w alternate)" and "workflow_ok w"
  obtains s where "s \<in> set (wf_steps w)" "\<not> cleanup s"
    "find (\<lambda>x. s_id x = m_step_id v) (wf_steps w) = Some s"
    "m_kind v \<in> {''skip_prerequisite'', ''repeat'', ''switch_principal''}"
proof -
  obtain s where s: "s \<in> set (wf_steps w)" "v \<in> set (step_variants alternate s)"
    using assms(1) by (auto simp: misuse_variants_def)
  then have v: "\<not> cleanup s" "m_step_id v = s_id s"
    "m_kind v \<in> {''skip_prerequisite'', ''repeat'', ''switch_principal''}"
    by (auto simp: step_variants_def split: if_splits)
  have d: "distinct (map s_id (wf_steps w))" using assms(2) by (simp add: workflow_ok_def)
  have "find (\<lambda>x. s_id x = s_id s) (wf_steps w) = Some s"
  proof (cases "find (\<lambda>x. s_id x = s_id s) (wf_steps w)")
    case None
    then show ?thesis using s(1) by (auto simp: find_None_iff)
  next
    case (Some y)
    then have "y \<in> set (wf_steps w)" "s_id y = s_id s" by (auto simp: find_Some_iff)
    then have "y = s" using d s(1) by (auto simp: distinct_map dest: inj_onD)
    with Some show ?thesis by simp
  qed
  with v s that show thesis by simp
qed

text \<open>Every planned variant that skips prerequisites or repeats a step can be executed: the workflow it
  is shaped into is valid, whatever the workflow is.\<close>

theorem misuse_shapes_valid:
  assumes "workflow_ok w" and "v \<in> set (misuse_variants w alternate)"
    and "m_kind v \<noteq> ''switch_principal''"
  shows "\<exists>w'. shaped_workflow w v = Inr w'"
proof -
  obtain s where s: "s \<in> set (wf_steps w)" "\<not> cleanup s"
    "find (\<lambda>x. s_id x = m_step_id v) (wf_steps w) = Some s"
    and k: "m_kind v \<in> {''skip_prerequisite'', ''repeat'', ''switch_principal''}"
    using variant_step[OF assms(2,1)] by blast
  have v1: "wf_version w = 1 \<Longrightarrow> x \<in> set (wf_steps w) \<Longrightarrow>
      action x = ''http'' \<and> observation_marker x = [] \<and> \<not> require_success x" for x
    using assms(1) by (fastforce simp: workflow_ok_def list_ex_iff)
  have d: "distinct (map s_id (wf_steps w))" "wf_id w \<noteq> []" "1 \<le> wf_version w"
    using assms(1) by (auto simp: workflow_ok_def)
  from k assms(3) consider "m_kind v = ''skip_prerequisite''" | "m_kind v = ''repeat''" by auto
  then show ?thesis
  proof cases
    case 1
    have "distinct (map s_id (filter cleanup (wf_steps w)))" by (rule distinct_map_filter[OF d(1)])
    moreover have "s_id s \<notin> s_id ` set (filter cleanup (wf_steps w))"
      using d(1) s(1,2) by (auto simp: distinct_map inj_on_def)
    ultimately show ?thesis
      using s v1 d 1 by (auto simp: shaped_workflow_def Let_def make_workflow_def workflow_ok_def
          list_ex_iff comp_def list_all_iff intro!: prerequisites_known_const[where i = "s_id s"])
  next
    case 2
    then show ?thesis
      using s v1 d by (auto simp: shaped_workflow_def Let_def make_workflow_def workflow_ok_def)
  qed
qed

text \<open>Repeating a step sends at most two requests, and any variant at most one for each step of its
  shaped workflow: a variant never refreshes a session.\<close>

theorem misuse_requests_bounded:
  "(case shaped_workflow w v of Inl _ \<Rightarrow> snd (execute_misuse_variant (counting r) w v initial (0, e)) = (0, e)
    | Inr w' \<Rightarrow> fst (snd (execute_misuse_variant (counting r) w v initial (0, e))) \<le> length (wf_steps w')
        \<and> (m_kind v = ''repeat'' \<longrightarrow> length (wf_steps w') = 2))"
proof (cases "shaped_workflow w v")
  case (Inr w')
  let ?r = "r\<lparr>refresher := None, max_refresh := 1, capability := ''workflow:'' @ m_kind v\<rparr>"
  have "(counting r)\<lparr>refresher := None, max_refresh := 1, capability := ''workflow:'' @ m_kind v\<rparr> = counting ?r"
    by (simp add: counting_def)
  moreover have "sends_per_step ?r = 1" by (simp add: sends_per_step_def)
  moreover have "length (wf_steps w') = 2" if "m_kind v = ''repeat''"
    using Inr that
    by (auto simp: shaped_workflow_def Let_def make_workflow_def split: option.splits if_splits)
  ultimately show ?thesis
    using Inr requests_bounded[of ?r w' initial None "[]" e] by (simp add: execute_misuse_variant_def)
qed (simp add: execute_misuse_variant_def)

section \<open>Concrete runs\<close>

definition plain_step :: "string \<Rightarrow> string list \<Rightarrow> bool \<Rightarrow> wf_step" where
  "plain_step i pre cl = \<lparr>s_id = i, s_method = ''GET'', url_template = CHR ''/'' # i,
     session_ref = ''alice'', body_template = [], prerequisites = pre, extractors = [],
     assertions = [], transition = [], cleanup = cl, observe = False, s_case_ref = [],
     content_type = [], action = ''http'', observation_marker = [], require_success = False\<rparr>"

definition plain_outcome :: "int \<Rightarrow> http_outcome" where
  "plain_outcome n = \<lparr>o_outcome = ''ok'', o_status = Some n, o_body = [], o_headers = [],
     o_final_url = [], o_error = [], o_artifact = []\<rparr>"

text \<open>A target that answers 403 on some paths, breaks the connection on others, and keeps a log.\<close>

definition log_runner :: "string list \<Rightarrow> string list \<Rightarrow> string list runner" where
  "log_runner denied broken = \<lparr>
     text_lib = \<lparr>json_pointer = (\<lambda>_ _. None), url_join = (\<lambda>_ u. u), hidden_field = (\<lambda>_ _. None),
       json_str = (\<lambda>_. [])\<rparr>,
     exec = (\<lambda>sd log. (if List.member broken (sd_url sd) then Inl [''CancelledError'']
        else Inr (plain_outcome (if List.member denied (sd_url sd) then 403 else 200)),
        log @ [sd_url sd])),
     refresher = None, max_refresh = 1, capability = ''workflow'', cancelled = (\<lambda>_. False),
     browser = (\<lambda>s u c m e. (Inr (unsent s BLOCKED MissingMarker), e))\<rparr>"

lemma log_runner_named: "browser_named (log_runner denied broken)"
  by (simp add: browser_named_def log_runner_def unsent_def)

definition sample_workflow :: workflow where
  "sample_workflow = \<lparr>wf_id = ''w'', wf_steps = [plain_step ''a'' [] False, plain_step ''b'' [''a''] False,
     plain_step ''c'' [''b''] False, plain_step ''undo'' [''a''] True], wf_version = 1, wf_invariant = []\<rparr>"

lemma sample_workflow_ok: "workflow_ok sample_workflow" by code_simp

definition sample_result :: wf_result where
  "sample_result = (case fst (execute_workflow (log_runner [''/b''] []) sample_workflow [] None [] []) of
     Inr res \<Rightarrow> res | Inl _ \<Rightarrow> \<lparr>w_workflow_id = [], w_version = 0, w_steps = [], w_values = [],
       cleanup_registered = [], cleanup_completed = []\<rparr>)"

lemma sample_execution:
  "execute_workflow (log_runner [''/b''] []) sample_workflow [] None [] [] =
     (Inr sample_result, [''/a'', ''/b'', ''/undo''])"
  "map (\<lambda>s. (r_step_id s, r_status s)) (w_steps sample_result) =
     [(''a'', PASSED), (''b'', FAILED), (''c'', BLOCKED), (''undo'', CLEANED)]"
  unfolding sample_result_def by code_simp+

theorem prerequisites_first_witness:
  "\<exists>s\<in>set (wf_steps sample_workflow). s_id s = ''undo'' \<and>
     set (prerequisites s) \<subseteq> good_ids (take 3 (w_steps sample_result))"
proof -
  let ?rs = "w_steps sample_result"
  have len: "length ?rs = 4" using arg_cong[OF sample_execution(2), of length] by simp
  then have split: "?rs = take 3 ?rs @ ?rs ! 3 # []"
    by (metis Cons_nth_drop_Suc append_take_drop_id drop_all eval_nat_numeral(2,3) lessI less_or_eq_imp_le
        semiring_norm(26,27))
  have "map (\<lambda>s. (r_step_id s, r_status s)) ?rs ! 3 = (''undo'', CLEANED)"
    by (simp add: sample_execution(2))
  then have last: "r_step_id (?rs ! 3) = ''undo''" "r_status (?rs ! 3) = CLEANED" using len by simp_all
  have "\<exists>s\<in>set (wf_steps sample_workflow). s_id s = r_step_id (?rs ! 3) \<and>
      set (prerequisites s) \<subseteq> resumed_ids None \<union> good_ids (take 3 ?rs)"
    by (rule prerequisites_first[OF log_runner_named sample_execution(1) split])
      (simp add: last good_status_def)
  then show ?thesis by (simp add: last resumed_ids_def)
qed

theorem cleanup_order_witness:
  "\<exists>ns cs. w_steps sample_result = ns @ cs \<and> map r_step_id ns = [''a'', ''b'', ''c'']
     \<and> map r_step_id cs = rev (cleanup_registered sample_result)"
proof -
  have ids: "map s_id (filter (\<lambda>s. \<not> cleanup s \<and> s_id s \<notin> set (already_passed (resumed_statuses None)))
      (wf_steps sample_workflow)) = [''a'', ''b'', ''c'']" by code_simp
  obtain ns cs where "w_steps sample_result = ns @ cs" "map r_step_id ns = [''a'', ''b'', ''c'']"
      "map r_step_id cs = rev (cleanup_registered sample_result)"
    using cleanup_order[OF log_runner_named sample_workflow_ok sample_execution(1), unfolded ids]
    by (elim exE conjE)
  then show ?thesis by (intro exI conjI)
qed

theorem misuse_shapes_valid_witness:
  "\<exists>w'. shaped_workflow sample_workflow \<lparr>m_kind = ''skip_prerequisite'', m_step_id = ''c'',
     m_session_ref = []\<rparr> = Inr w'"
proof (rule misuse_shapes_valid[OF sample_workflow_ok])
  show "\<lparr>m_kind = ''skip_prerequisite'', m_step_id = ''c'', m_session_ref = []\<rparr>
      \<in> set (misuse_variants sample_workflow ''bob'')"
    by (simp add: misuse_variants_def step_variants_def sample_workflow_def plain_step_def)
qed simp

text \<open>A principal switch keeps the direct prerequisites of the step only: for a step with a
  prerequisite that has one itself, or with a cleanup step that needs a dropped step, the shaped
  workflow is invalid and the planned variant raises.\<close>

theorem switch_principal_raises:
  "let v = \<lparr>m_kind = ''switch_principal'', m_step_id = ''c'', m_session_ref = ''bob''\<rparr>
   in List.member (map m_kind (misuse_variants sample_workflow ''bob'')) (m_kind v)
      \<and> fst (execute_misuse_variant (log_runner [] []) sample_workflow v [] []) = Inl ValueError"
  by code_simp

text \<open>A cleanup step is registered by one passed prerequisite but runs only when all of them passed: the
  item the first step created is left behind when the second one is denied, and the report says that
  its cleanup was registered.\<close>

theorem registered_cleanup_blocked:
  "let w = \<lparr>wf_id = ''w'', wf_steps = [plain_step ''a'' [] False, plain_step ''b'' [''a''] False,
         plain_step ''undo'' [''a'', ''b''] True], wf_version = 1, wf_invariant = []\<rparr>;
       (res, log) = execute_workflow (log_runner [''/b''] []) w [] None [] []
   in workflow_ok w \<and> log = [''/a'', ''/b''] \<and>
      (case res of Inl _ \<Rightarrow> False | Inr x \<Rightarrow> cleanup_registered x = [''undo''] \<and>
         map (\<lambda>s. (r_step_id s, r_status s)) (w_steps x) =
           [(''a'', PASSED), (''b'', FAILED), (''undo'', BLOCKED)])"
  by code_simp

text \<open>Cleanup survives a cancellation of a normal step, but not one of a cleanup step: an exception in
  one cleanup step skips the ones still to come.\<close>

theorem cleanup_after_exception:
  "let w = \<lparr>wf_id = ''w'', wf_steps = [plain_step ''a'' [] False, plain_step ''b'' [''a''] False,
         plain_step ''u1'' [''a''] True, plain_step ''u2'' [''a''] True], wf_version = 1, wf_invariant = []\<rparr>
   in execute_workflow (log_runner [] [''/b'']) w [] None [] [] =
        (Inl (Raised [''CancelledError'']), [''/a'', ''/b'', ''/u2'', ''/u1''])
      \<and> execute_workflow (log_runner [] [''/u2'']) w [] None [] [] =
        (Inl (Raised [''CancelledError'']), [''/a'', ''/b'', ''/u2''])"
  by code_simp

text \<open>A resumed execution trusts the steps its predecessor passed, although that predecessor has already
  cleaned up after them, and does not register their cleanup again: the next step now runs without
  what it depends on, and nothing is cleaned up.\<close>

theorem resume_after_cleanup:
  "let (res, log) = execute_workflow (log_runner [] []) sample_workflow [] (Some sample_result) [] []
   in log = [''/b'', ''/c''] \<and>
      (case res of Inl _ \<Rightarrow> False | Inr x \<Rightarrow> cleanup_registered x = [] \<and>
         map (\<lambda>s. (r_step_id s, r_status s)) (w_steps x) = [(''b'', PASSED), (''c'', PASSED)])
      \<and> cleanup_completed sample_result = [''undo'']"
  by code_simp

section \<open>Nothing is guessed\<close>

definition placeholders :: "string \<Rightarrow> string set" where
  "placeholders t = set (snd (bind_template t []))"

lemma bind_template_missing:
  "snd (bind_template t vals) = [] \<longleftrightarrow> placeholders t \<subseteq> fst ` set vals"
  using bind_text_missing[of vals t] set_empty[of "snd (bind_text vals t)"]
  by (auto simp: bind_template_def placeholders_def split_beta)

text \<open>A value that no step has extracted is never guessed: while a prerequisite has not passed, or a
  placeholder of the URL or of the body is unbound, the step is reported as blocked, no request is
  made and no value changes.\<close>

theorem unbound_never_sent:
  assumes "is_cleanup \<or> \<not> cancelled r e"
    and "(\<exists>p\<in>set (prerequisites s). \<forall>x. dict_get sts p = Some x \<longrightarrow> x \<noteq> PASSED \<and> x \<noteq> CLEANED)
      \<or> \<not> placeholders (url_template s) \<union> placeholders (body_template s) \<subseteq> fst ` set vals"
  shows "\<exists>sr. run_step r w cr sts s is_cleanup vals e = (Inr sr, vals, e) \<and> r_step_id sr = s_id s
    \<and> r_status sr = BLOCKED \<and> \<not> r_executed sr"
proof (cases "unsatisfied sts s = []")
  case True
  then have "\<forall>p\<in>set (prerequisites s). \<exists>x. dict_get sts p = Some x \<and> (x = PASSED \<or> x = CLEANED)"
    by (fastforce simp: unsatisfied_def filter_empty_conv good_status_def split: option.splits)
  with assms(2) have "snd (bind_template (url_template s) vals) \<noteq> []
      \<or> snd (bind_template (body_template s) vals) \<noteq> []"
    unfolding bind_template_missing by fastforce
  with True assms(1) show ?thesis
    by (auto simp: run_step_def Let_def unsent_def split: prod.splits)
next
  case False
  with assms(1) show ?thesis by (auto simp: run_step_def unsent_def)
qed

theorem unbound_never_sent_witness:
  "r_status (case fst (run_step (log_runner [] []) sample_workflow [] []
      ((plain_step ''a'' [] False)\<lparr>url_template := ''/items/{{id}}''\<rparr>) False [] [])
    of Inr sr \<Rightarrow> sr) = BLOCKED"
proof -
  let ?s = "(plain_step ''a'' [] False)\<lparr>url_template := ''/items/{{id}}''\<rparr>"
  have "snd (bind_template ''/items/{{id}}'' []) = [''id'']" by code_simp
  then have "\<not> placeholders (url_template ?s) \<union> placeholders (body_template ?s) \<subseteq> fst ` set []"
    by (simp add: placeholders_def)
  then obtain sr where "run_step (log_runner [] []) sample_workflow [] [] ?s False [] [] = (Inr sr, [], [])"
      "r_status sr = BLOCKED"
    using unbound_never_sent[of False "log_runner [] []" "[]" ?s "[]" "[]" sample_workflow "[]"]
    by (auto simp: log_runner_def)
  then show ?thesis by simp
qed

end
