(* ===== verification/ExecutionRegistry.thy ===== *)
theory ExecutionRegistry
  imports Prelude
begin

text \<open>
  The run-scoped memo of validator executions (\<open>execution_registry.py\<close>). Callers are asyncio tasks;
  what happens between two suspension points is one step: a pass through a caller's loop up to its
  wait, its answer or the start of the check (\<open>enter_run\<close>, \<open>enter_audit\<close>, \<open>enter_memo\<close>), and what
  follows the end of a check (\<open>finish\<close>). A caller that waited on a flight passes through its loop
  again. Runs of the registry are lists of such events, with the requests the checks in flight
  spend in between.

  The execution key is an arbitrary value: it is computed from the exchange by functions of other
  modules. The objects of the \<open>_active\<close> list are kept by the number of their flight, with their flag
  in a dictionary of its own, since Python removes from that list by equality of the flags.
\<close>

section \<open>State\<close>

datatype summary = Plain string | CoveredBy string summary | RetryLimitReached int string summary

text \<open>A result is any object; a missing attribute is \<open>None\<close> or empty, as \<open>getattr\<close>'s default.\<close>

record vresult =
  v_status :: "string option"
  v_control_outcome :: string
  v_confirmed :: bool
  v_sent_count :: "int option"
  v_observed_sends :: "int option"
  baseline_artifact :: string
  attack_artifact :: string
  control_artifacts :: "string list"
  attempt_id :: string
  referenced_attempt :: string
  covered_by :: string
  v_summary :: summary

definition not_run :: "string list" where
  "not_run = [''error'', ''skipped'', ''blocked'', ''inconclusive'', ''incomplete'', ''partial'']"

record stored =
  st_result :: vresult
  st_case :: string
  st_sent :: int

record tally =
  hits :: int
  misses :: int
  inflight_joins :: int
  sends_saved :: int
  retry_limited_count :: int

record 'k flight =
  f_keys :: "'k list"
  f_name :: string
  f_case :: string
  used_before :: "int option"

record 'k registry =
  retry_limit :: int
  budget_used :: "int option"
  stored_results :: "('k \<times> stored) list"
  incomplete :: "('k \<times> int \<times> vresult \<times> string) list"
  flying :: "('k \<times> nat) list"
  flights :: "(nat \<times> 'k flight) list"
  active :: "nat list"
  overlapped :: "(nat \<times> bool) list"
  by_validator :: "(string \<times> tally) list"
  next_flight :: nat

definition new_exec_registry :: "int option \<Rightarrow> int \<Rightarrow> 'k registry" where
  "new_exec_registry used limit = \<lparr>retry_limit = max 1 limit, budget_used = used, stored_results = [],
     incomplete = [], flying = [], flights = [], active = [], overlapped = [], by_validator = [],
     next_flight = 0\<rparr>"

definition zero_tally :: tally where
  "zero_tally = \<lparr>hits = 0, misses = 0, inflight_joins = 0, sends_saved = 0, retry_limited_count = 0\<rparr>"

definition count_for :: "string \<Rightarrow> (tally \<Rightarrow> tally) \<Rightarrow> 'k registry \<Rightarrow> 'k registry" where
  "count_for name f r = r\<lparr>by_validator :=
     dict_set name (f (option_or (dict_get (by_validator r) name) zero_tally)) (by_validator r)\<rparr>"

section \<open>Answers without a check\<close>

definition unproved_copy :: "vresult \<Rightarrow> vresult" where
  "unproved_copy v = v\<lparr>baseline_artifact := [], attack_artifact := [], control_artifacts := [],
     v_confirmed := False, v_sent_count := Some 0, referenced_attempt := attempt_id v\<rparr>"

definition for_case :: "stored \<Rightarrow> string \<Rightarrow> vresult" where
  "for_case s case_ref =
     (if st_case s = case_ref then st_result s
      else (unproved_copy (st_result s))\<lparr>covered_by := st_case s,
             v_summary := CoveredBy (st_case s) (v_summary (st_result s))\<rparr>)"

definition retry_limited :: "'k \<Rightarrow> 'k registry \<Rightarrow> vresult option" where
  "retry_limited k r =
     (case dict_get (incomplete r) k of
        None \<Rightarrow> None
      | Some (n, prev, c) \<Rightarrow>
          if n < retry_limit r then None
          else Some ((unproved_copy prev)\<lparr>v_summary := RetryLimitReached n
                 (if c = [] then ''this run'' else c) (v_summary prev)\<rparr>))"

section \<open>Entering\<close>

datatype error = ValueError

datatype 'a reply = Answer 'a | Wait nat | Start nat

definition start :: "'k list \<Rightarrow> string \<Rightarrow> string \<Rightarrow> 'k registry \<Rightarrow> 'k registry" where
  "start keys name case_ref r =
     (let f = next_flight r in
      (count_for name (\<lambda>t. t\<lparr>misses := misses t + 1\<rparr>) r)
        \<lparr>flying := foldl (\<lambda>d k. dict_set k f d) (flying r) keys,
         flights := flights r @ [(f, \<lparr>f_keys = keys, f_name = name, f_case = case_ref,
                       used_before = budget_used r\<rparr>)],
         overlapped := dict_set f (active r \<noteq> []) (foldl (\<lambda>d g. dict_set g True d) (overlapped r) (active r)),
         active := active r @ [f], next_flight := Suc f\<rparr>)"

definition enter_run :: "string \<Rightarrow> 'k \<Rightarrow> string \<Rightarrow> 'k registry \<Rightarrow> vresult reply \<times> 'k registry" where
  "enter_run name k case_ref r =
     (case dict_get (stored_results r) k of
        Some s \<Rightarrow> (Answer (for_case s case_ref),
          count_for name (\<lambda>t. t\<lparr>hits := hits t + 1, sends_saved := sends_saved t + st_sent s\<rparr>) r)
      | None \<Rightarrow>
          (case dict_get (flying r) k of
             Some f \<Rightarrow> (Wait f, count_for name (\<lambda>t. t\<lparr>inflight_joins := inflight_joins t + 1\<rparr>) r)
           | None \<Rightarrow>
               (case retry_limited k r of
                  Some ref \<Rightarrow> (Answer ref,
                    count_for name (\<lambda>t. t\<lparr>retry_limited_count := retry_limited_count t + 1\<rparr>) r)
                | None \<Rightarrow> (Start (next_flight r), start [k] name case_ref r))))"

fun all_stored :: "('k \<times> stored) list \<Rightarrow> 'k list \<Rightarrow> stored list option" where
  "all_stored d [] = Some []"
| "all_stored d (k # ks) =
     (case (dict_get d k, all_stored d ks) of (Some s, Some ss) \<Rightarrow> Some (s # ss) | _ \<Rightarrow> None)"

fun first_flight :: "('k \<times> nat) list \<Rightarrow> 'k list \<Rightarrow> nat option" where
  "first_flight d [] = None"
| "first_flight d (k # ks) = (case dict_get d k of Some f \<Rightarrow> Some f | None \<Rightarrow> first_flight d ks)"

text \<open>\<open>run_audit\<close> for the keys of its classes; the maximum of no stored results raises.\<close>

definition enter_audit ::
  "string \<Rightarrow> 'k list \<Rightarrow> string \<Rightarrow> 'k registry \<Rightarrow> (error + vresult list reply) \<times> 'k registry" where
  "enter_audit name ks case_ref r =
     (case all_stored (stored_results r) ks of
        Some ss \<Rightarrow>
          (if ss = [] then (Inl ValueError, count_for name (\<lambda>t. t\<lparr>hits := hits t + 1\<rparr>) r)
           else (Inr (Answer (map (\<lambda>s. for_case s case_ref) ss)),
             count_for name (\<lambda>t. t\<lparr>hits := hits t + 1,
               sends_saved := sends_saved t + Max (set (map st_sent ss))\<rparr>) r))
      | None \<Rightarrow>
          (case first_flight (flying r) ks of
             Some f \<Rightarrow> (Inr (Wait f), count_for name (\<lambda>t. t\<lparr>inflight_joins := inflight_joins t + 1\<rparr>) r)
           | None \<Rightarrow> (Inr (Start (next_flight r)), start ks name case_ref r)))"

definition enter_memo :: "string \<Rightarrow> 'k \<Rightarrow> 'k registry \<Rightarrow> (vresult \<times> bool) reply \<times> 'k registry" where
  "enter_memo name k r =
     (case dict_get (stored_results r) k of
        Some s \<Rightarrow> (Answer (st_result s, True),
          count_for name (\<lambda>t. t\<lparr>hits := hits t + 1, sends_saved := sends_saved t + st_sent s\<rparr>) r)
      | None \<Rightarrow>
          (case dict_get (flying r) k of
             Some f \<Rightarrow> (Wait f, count_for name (\<lambda>t. t\<lparr>inflight_joins := inflight_joins t + 1\<rparr>) r)
           | None \<Rightarrow> (Start (next_flight r), start [k] name [] r)))"

section \<open>The end of a check\<close>

datatype outcome = Result vresult | AuditResult "vresult option list" | Raised exc

text \<open>\<open>list.remove\<close>: the first object equal to the given one, i.e. with the same flag.\<close>

fun remove_equal :: "(nat \<Rightarrow> bool option) \<Rightarrow> bool option \<Rightarrow> nat list \<Rightarrow> nat list option" where
  "remove_equal flag b [] = None"
| "remove_equal flag b (g # gs) =
     (if flag g = b then Some gs else map_option (Cons g) (remove_equal flag b gs))"

definition sent_figure :: "'k flight \<Rightarrow> bool \<Rightarrow> int option \<Rightarrow> outcome \<Rightarrow> int" where
  "sent_figure fl over used res =
     (case (case res of Result v \<Rightarrow> v_sent_count v | _ \<Rightarrow> None) of
        Some n \<Rightarrow> n
      | None \<Rightarrow>
          (case (used_before fl, used) of
             (Some b, Some u) \<Rightarrow> if over then 0 else u - b
           | _ \<Rightarrow> 0))"

definition completed_check :: "vresult \<Rightarrow> bool" where
  "completed_check v \<longleftrightarrow>
     (case v_status v of None \<Rightarrow> True | Some s \<Rightarrow> \<not> List.member not_run s)
     \<and> v_control_outcome v \<noteq> ''inconclusive''"

definition attempted :: "vresult \<Rightarrow> int \<Rightarrow> bool" where
  "attempted v sent \<longleftrightarrow>
     v_status v \<noteq> Some ''blocked'' \<and> v_status v \<noteq> Some ''skipped''
     \<and> ((case v_observed_sends v of None \<Rightarrow> False | Some n \<Rightarrow> n > 0) \<or> sent > 0)"

definition store_entry :: "string \<Rightarrow> int \<Rightarrow> 'k \<times> vresult option \<Rightarrow> 'k registry \<Rightarrow> 'k registry" where
  "store_entry case_ref sent = (\<lambda>(k, one) r.
     (case one of
        None \<Rightarrow> r
      | Some v \<Rightarrow>
          if completed_check v
          then r\<lparr>stored_results := dict_set k \<lparr>st_result = v, st_case = case_ref, st_sent = max 0 sent\<rparr>
                   (stored_results r), incomplete := dict_pop k (incomplete r)\<rparr>
          else if attempted v sent
          then r\<lparr>incomplete := dict_set k
                   ((case dict_get (incomplete r) k of None \<Rightarrow> 0 | Some (n, _) \<Rightarrow> n) + 1, v, case_ref)
                   (incomplete r)\<rparr>
          else r))"

definition store_outcome :: "string \<Rightarrow> int \<Rightarrow> 'k list \<Rightarrow> outcome \<Rightarrow> 'k registry \<Rightarrow> 'k registry" where
  "store_outcome case_ref sent ks res r =
     (case res of
        Raised _ \<Rightarrow> r
      | Result v \<Rightarrow> store_entry case_ref sent (hd ks, Some v) r
      | AuditResult vs \<Rightarrow> foldl (\<lambda>r e. store_entry case_ref sent e r) r (zip ks vs))"

definition finish :: "nat \<Rightarrow> outcome \<Rightarrow> 'k registry \<Rightarrow> 'k registry" where
  "finish f res r =
     (case dict_get (flights r) f of
        None \<Rightarrow> r
      | Some fl \<Rightarrow>
          (let flag = dict_get (overlapped r);
               sent = sent_figure fl (flag f = Some True) (budget_used r) res;
               r1 = r\<lparr>flights := dict_pop f (flights r),
                      active := option_or (remove_equal flag (flag f) (active r)) []\<rparr>;
               r2 = store_outcome (f_case fl) sent (f_keys fl) res r1
           in r2\<lparr>flying := foldl (\<lambda>d k. dict_pop k d) (flying r2) (f_keys fl)\<rparr>))"

definition sum_field :: "(tally \<Rightarrow> int) \<Rightarrow> 'k registry \<Rightarrow> int" where
  "sum_field g r = sum_list (map (g \<circ> snd) (by_validator r))"

definition registry_stats :: "'k registry \<Rightarrow> (string \<times> int) list \<times> (string \<times> tally) list" where
  "registry_stats r =
     ([(''hits'', sum_field hits r), (''misses'', sum_field misses r),
       (''inflight_joins'', sum_field inflight_joins r), (''sends_saved'', sum_field sends_saved r),
       (''retry_limited'', sum_field retry_limited_count r)],
      sort_key fst (by_validator r))"

section \<open>Runs\<close>

text \<open>
  What the tasks of a run do to the registry, with the requests each check in flight spends. The
  second component of a state counts the requests spent by each flight; the code has no such count.
\<close>

datatype 'k event =
    EnterRun string 'k string
  | EnterAudit string "'k list" string
  | EnterMemo string 'k
  | Finish nat outcome
  | Spend nat nat

type_synonym 'k sys = "'k registry \<times> (nat \<Rightarrow> int)"

fun reg_step :: "'k sys \<Rightarrow> 'k event \<Rightarrow> 'k sys" where
  "reg_step (r, own) (EnterRun name k c) = (snd (enter_run name k c r), own)"
| "reg_step (r, own) (EnterAudit name ks c) = (snd (enter_audit name ks c r), own)"
| "reg_step (r, own) (EnterMemo name k) = (snd (enter_memo name k r), own)"
| "reg_step (r, own) (Finish f res) = (finish f res r, own)"
| "reg_step (r, own) (Spend f n) =
     (if dict_get (flights r) f = None then (r, own)
      else (r\<lparr>budget_used := map_option (\<lambda>u. u + int n) (budget_used r)\<rparr>, own(f := own f + int n)))"

definition new_sys :: "int option \<Rightarrow> int \<Rightarrow> 'k sys" where
  "new_sys used limit = (new_exec_registry used limit, \<lambda>_. 0)"

section \<open>Helper lemmas\<close>

lemma tally_keeps [simp]:
  "retry_limit (count_for n g r) = retry_limit r" "budget_used (count_for n g r) = budget_used r"
  "stored_results (count_for n g r) = stored_results r" "incomplete (count_for n g r) = incomplete r"
  "flying (count_for n g r) = flying r" "flights (count_for n g r) = flights r"
  "active (count_for n g r) = active r" "overlapped (count_for n g r) = overlapped r"
  "next_flight (count_for n g r) = next_flight r"
  by (simp_all add: count_for_def)

lemma store_entry_keeps [simp]:
  "retry_limit (store_entry c n e r) = retry_limit r" "budget_used (store_entry c n e r) = budget_used r"
  "flying (store_entry c n e r) = flying r" "flights (store_entry c n e r) = flights r"
  "active (store_entry c n e r) = active r" "overlapped (store_entry c n e r) = overlapped r"
  "next_flight (store_entry c n e r) = next_flight r"
  by (cases e; simp add: store_entry_def split: option.split)+

lemma store_entries_keep [simp]:
  "retry_limit (foldl (\<lambda>r e. store_entry c n e r) r es) = retry_limit r"
  "budget_used (foldl (\<lambda>r e. store_entry c n e r) r es) = budget_used r"
  "flying (foldl (\<lambda>r e. store_entry c n e r) r es) = flying r"
  "flights (foldl (\<lambda>r e. store_entry c n e r) r es) = flights r"
  "active (foldl (\<lambda>r e. store_entry c n e r) r es) = active r"
  "overlapped (foldl (\<lambda>r e. store_entry c n e r) r es) = overlapped r"
  "next_flight (foldl (\<lambda>r e. store_entry c n e r) r es) = next_flight r"
  by (induction es arbitrary: r) simp_all

lemma store_outcome_keeps [simp]:
  "retry_limit (store_outcome c n ks res r) = retry_limit r"
  "budget_used (store_outcome c n ks res r) = budget_used r"
  "flying (store_outcome c n ks res r) = flying r" "flights (store_outcome c n ks res r) = flights r"
  "active (store_outcome c n ks res r) = active r" "overlapped (store_outcome c n ks res r) = overlapped r"
  "next_flight (store_outcome c n ks res r) = next_flight r"
  by (cases res; simp add: store_outcome_def)+

lemma dict_get_pop: "dict_get (dict_pop k d) j = (if j = k then None else dict_get d j)"
  by (simp add: delete_conv')

lemma dict_get_sets:
  "dict_get (foldl (\<lambda>d k. dict_set k f d) d ks) k = (if k \<in> set ks then Some f else dict_get d k)"
  by (induction ks arbitrary: d) (auto simp: dict_get_set)

lemma dict_get_pops:
  "dict_get (foldl (\<lambda>d k. dict_pop k d) d ks) k = (if k \<in> set ks then None else dict_get d k)"
  by (induction ks arbitrary: d) (auto simp: dict_get_pop)

lemma first_flight_None: "first_flight d ks = None \<longleftrightarrow> (\<forall>k\<in>set ks. dict_get d k = None)"
  by (induction ks) (auto split: option.split)

lemma start_fields:
  "flights (start ks n c r) = flights r @ [(next_flight r, \<lparr>f_keys = ks, f_name = n, f_case = c,
     used_before = budget_used r\<rparr>)]"
  "next_flight (start ks n c r) = Suc (next_flight r)" "active (start ks n c r) = active r @ [next_flight r]"
  "budget_used (start ks n c r) = budget_used r" "stored_results (start ks n c r) = stored_results r"
  "incomplete (start ks n c r) = incomplete r" "retry_limit (start ks n c r) = retry_limit r"
  "dict_get (flying (start ks n c r)) k = (if k \<in> set ks then Some (next_flight r) else dict_get (flying r) k)"
  "dict_get (overlapped (start ks n c r)) g =
     (if g = next_flight r then Some (active r \<noteq> []) else if g \<in> set (active r) then Some True
      else dict_get (overlapped r) g)"
  by (simp_all add: start_def Let_def dict_get_sets dict_get_set)

lemma finish_fields:
  assumes "dict_get (flights r) f = Some fl"
  shows "flights (finish f res r) = dict_pop f (flights r)"
    "next_flight (finish f res r) = next_flight r"
    "active (finish f res r) =
      option_or (remove_equal (dict_get (overlapped r)) (dict_get (overlapped r) f) (active r)) []"
    "budget_used (finish f res r) = budget_used r" "overlapped (finish f res r) = overlapped r"
    "retry_limit (finish f res r) = retry_limit r"
    "dict_get (flying (finish f res r)) k = (if k \<in> set (f_keys fl) then None else dict_get (flying r) k)"
  using assms by (simp_all add: finish_def Let_def dict_get_pops)

lemma finish_unknown: "dict_get (flights r) f = None \<Longrightarrow> finish f res r = r"
  by (simp add: finish_def)

text \<open>What a pass through a caller's loop does: nothing but a tally, or the start of a check whose keys
  are not in flight.\<close>

lemma enter_run_cases:
  obtains (tallied) g where "snd (enter_run n k c r) = count_for n g r"
  | (started) "snd (enter_run n k c r) = start [k] n c r" "dict_get (flying r) k = None"
      "dict_get (stored_results r) k = None" "retry_limited k r = None"
proof -
  consider s where "dict_get (stored_results r) k = Some s"
    | f where "dict_get (stored_results r) k = None" "dict_get (flying r) k = Some f"
    | ref where "dict_get (stored_results r) k = None" "dict_get (flying r) k = None"
        "retry_limited k r = Some ref"
    | "dict_get (stored_results r) k = None" "dict_get (flying r) k = None" "retry_limited k r = None"
    by (cases "dict_get (stored_results r) k"; cases "dict_get (flying r) k"; cases "retry_limited k r") auto
  then show thesis
    using tallied started by cases (auto simp: enter_run_def)
qed

lemma enter_audit_cases:
  obtains (tallied) g where "snd (enter_audit n ks c r) = count_for n g r"
  | (started) "snd (enter_audit n ks c r) = start ks n c r" "\<forall>k\<in>set ks. dict_get (flying r) k = None"
proof -
  consider "all_stored (stored_results r) ks = Some []"
    | ss where "all_stored (stored_results r) ks = Some ss" "ss \<noteq> []"
    | f where "all_stored (stored_results r) ks = None" "first_flight (flying r) ks = Some f"
    | "all_stored (stored_results r) ks = None" "first_flight (flying r) ks = None"
    by (cases "all_stored (stored_results r) ks"; cases "first_flight (flying r) ks") auto
  then show thesis
    using tallied started by cases (auto simp: enter_audit_def first_flight_None)
qed

lemma enter_memo_cases:
  obtains (tallied) g where "snd (enter_memo n k r) = count_for n g r"
  | (started) "snd (enter_memo n k r) = start [k] n [] r" "dict_get (flying r) k = None"
proof -
  consider s where "dict_get (stored_results r) k = Some s"
    | f where "dict_get (stored_results r) k = None" "dict_get (flying r) k = Some f"
    | "dict_get (stored_results r) k = None" "dict_get (flying r) k = None"
    by (cases "dict_get (stored_results r) k"; cases "dict_get (flying r) k") auto
  then show thesis
    using tallied started by cases (auto simp: enter_memo_def)
qed

section \<open>One flight per key\<close>

declare map_of_append [simp del]

lemma dict_get_snoc:
  "dict_get (d @ [(k, v)]) j = (case dict_get d j of Some x \<Rightarrow> Some x | None \<Rightarrow> if j = k then Some v else None)"
  by (auto simp: map_of_append map_add_def split: option.split)

definition flight_ids :: "'k registry \<Rightarrow> nat set" where
  "flight_ids r = fst ` set (flights r)"

lemma flight_ids_iff: "f \<in> flight_ids r \<longleftrightarrow> dict_get (flights r) f \<noteq> None"
  unfolding flight_ids_def by (metis map_of_eq_None_iff)

lemma flight_ids_count [simp]: "flight_ids (count_for n g r) = flight_ids r"
  by (simp add: flight_ids_def)

lemma flight_ids_start [simp]: "flight_ids (start ks n c r) = insert (next_flight r) (flight_ids r)"
  by (auto simp: flight_ids_def start_fields(1))

lemma flight_ids_finish: "flight_ids (finish f res r) = flight_ids r - {f}"
proof (cases "dict_get (flights r) f")
  case None
  then show ?thesis using flight_ids_iff[of f r] by (simp add: finish_unknown)
next
  case (Some fl)
  show ?thesis
    by (rule set_eqI) (simp add: flight_ids_iff finish_fields(1)[OF Some] dict_get_pop)
qed

definition flights_good :: "'k registry \<Rightarrow> bool" where
  "flights_good r \<longleftrightarrow> distinct (map fst (flights r)) \<and> (\<forall>f\<in>flight_ids r. f < next_flight r)
     \<and> (\<forall>k f. dict_get (flying r) k = Some f \<longleftrightarrow>
          (\<exists>fl. dict_get (flights r) f = Some fl \<and> k \<in> set (f_keys fl)))"

lemma flights_good_tally [simp]: "flights_good (count_for n g r) = flights_good r"
  by (simp add: flights_good_def)

lemma flights_goodD:
  assumes "flights_good r"
  shows "distinct (map fst (flights r))" "f \<in> flight_ids r \<Longrightarrow> f < next_flight r"
    "dict_get (flying r) k = Some f \<longleftrightarrow> (\<exists>fl. dict_get (flights r) f = Some fl \<and> k \<in> set (f_keys fl))"
    "dict_get (flights r) (next_flight r) = None" "next_flight r \<notin> flight_ids r"
proof -
  have all: "distinct (map fst (flights r))" "\<forall>f\<in>flight_ids r. f < next_flight r"
    "\<forall>k f. dict_get (flying r) k = Some f \<longleftrightarrow>
      (\<exists>fl. dict_get (flights r) f = Some fl \<and> k \<in> set (f_keys fl))"
    using assms unfolding flights_good_def by blast+
  show "distinct (map fst (flights r))" by (rule all(1))
  show "f \<in> flight_ids r \<Longrightarrow> f < next_flight r" using all(2) by blast
  show "dict_get (flying r) k = Some f \<longleftrightarrow> (\<exists>fl. dict_get (flights r) f = Some fl \<and> k \<in> set (f_keys fl))"
    using all(3) by blast
  show n: "next_flight r \<notin> flight_ids r" using all(2) by blast
  show "dict_get (flights r) (next_flight r) = None" using n by (simp add: flight_ids_iff)
qed

lemma flights_good_start:
  assumes good: "flights_good r" and free: "\<forall>k\<in>set ks. dict_get (flying r) k = None"
  shows "flights_good (start ks n c r)"
  unfolding flights_good_def
proof (intro conjI allI)
  note g = flights_goodD[OF good]
  show "distinct (map fst (flights (start ks n c r)))"
    using g(1,5) by (simp add: start_fields(1) flight_ids_def)
  show "\<forall>f\<in>flight_ids (start ks n c r). f < next_flight (start ks n c r)"
    using g(2) by (auto simp: start_fields(2) less_Suc_eq)
  fix k f
  show "dict_get (flying (start ks n c r)) k = Some f \<longleftrightarrow>
      (\<exists>fl. dict_get (flights (start ks n c r)) f = Some fl \<and> k \<in> set (f_keys fl))"
  proof (cases "f = next_flight r")
    case True
    then show ?thesis using g(4) g(3)[of k f] by (simp add: start_fields(1,8) dict_get_snoc)
  next
    case False
    then show ?thesis
      using g(3)[of k f] free
      by (cases "dict_get (flights r) f") (auto simp: start_fields(1,8) dict_get_snoc)
  qed
qed

lemma flights_good_finish:
  assumes good: "flights_good r"
  shows "flights_good (finish f res r)"
proof (cases "dict_get (flights r) f")
  case None
  then show ?thesis using assms by (simp add: finish_unknown)
next
  case (Some fl)
  note g = flights_goodD[OF good]
  show ?thesis
    unfolding flights_good_def
  proof (intro conjI allI)
    show "distinct (map fst (flights (finish f res r)))"
      using g(1) by (simp add: finish_fields(1)[OF Some] distinct_delete)
    show "\<forall>h\<in>flight_ids (finish f res r). h < next_flight (finish f res r)"
      using g(2) by (simp add: flight_ids_finish finish_fields(2)[OF Some])
    fix k h
    show "dict_get (flying (finish f res r)) k = Some h \<longleftrightarrow>
        (\<exists>fl. dict_get (flights (finish f res r)) h = Some fl \<and> k \<in> set (f_keys fl))"
    proof (cases "k \<in> set (f_keys fl)")
      case True
      then have "dict_get (flying r) k = Some f" using g(3)[of k f] Some by auto
      then have "h = f" if "dict_get (flights r) h = Some fl'" "k \<in> set (f_keys fl')" for fl'
        using g(3)[of k h] that by auto
      with True show ?thesis by (auto simp: finish_fields(1,7)[OF Some] dict_get_pop)
    next
      case False
      then have "\<not> (\<exists>fl. dict_get (flights r) f = Some fl \<and> k \<in> set (f_keys fl))" using Some by simp
      with False show ?thesis
        using g(3)[of k h] by (cases "h = f") (simp_all add: finish_fields(1,7)[OF Some] dict_get_pop)
    qed
  qed
qed

section \<open>Overlaps\<close>

abbreviation flag :: "'k registry \<Rightarrow> nat \<Rightarrow> bool option" where
  "flag r \<equiv> dict_get (overlapped r)"

text \<open>
  Removing by equality is harmless: there is one active object per flight, and it is the flight's own
  as long as nothing overlapped it; once two checks are in flight all flags are set.
\<close>

definition objects :: "'k registry \<Rightarrow> nat set" where
  "objects r = set (active r) \<union> flight_ids r"

definition flags_good :: "'k registry \<Rightarrow> bool" where
  "flags_good r \<longleftrightarrow> length (active r) = length (flights r)
     \<and> (\<forall>g\<in>objects r. flag r g \<noteq> None \<and> g < next_flight r)
     \<and> (2 \<le> length (flights r) \<longrightarrow> (\<forall>g\<in>objects r. flag r g = Some True))
     \<and> (\<forall>f\<in>flight_ids r. \<forall>g\<in>set (active r). flag r g = flag r f \<and> (flag r f = Some False \<longrightarrow> g = f))"

lemma flags_good_tally [simp]: "flags_good (count_for n g r) = flags_good r"
  by (simp add: flags_good_def objects_def)

lemma flags_goodI:
  assumes "length (active r) = length (flights r)"
    and "\<And>g. g \<in> objects r \<Longrightarrow> flag r g = Some True \<and> g < next_flight r"
  shows "flags_good r"
  using assms unfolding flags_good_def objects_def by auto

lemma flags_goodD:
  assumes "flags_good r"
  shows "length (active r) = length (flights r)" "g \<in> objects r \<Longrightarrow> flag r g \<noteq> None"
    "g \<in> objects r \<Longrightarrow> g < next_flight r"
    "2 \<le> length (flights r) \<Longrightarrow> g \<in> objects r \<Longrightarrow> flag r g = Some True"
    "f \<in> flight_ids r \<Longrightarrow> g \<in> set (active r) \<Longrightarrow> flag r g = flag r f"
    "f \<in> flight_ids r \<Longrightarrow> g \<in> set (active r) \<Longrightarrow> flag r f = Some False \<Longrightarrow> g = f"
  using assms unfolding flags_good_def by blast+

lemma flags_good_start:
  assumes good: "flags_good r"
  shows "flags_good (start ks n c r)"
proof (cases "active r = []")
  case True
  then have "flights r = []" using flags_goodD(1)[OF good] by simp
  then have "flight_ids r = {}" "length (flights (start ks n c r)) = 1"
    by (simp_all add: start_fields(1) flight_ids_def)
  moreover from True have "active (start ks n c r) = [next_flight r]"
      "flag (start ks n c r) (next_flight r) = Some False"
    by (simp_all add: start_fields(3,9))
  ultimately show ?thesis unfolding flags_good_def objects_def by (simp add: start_fields(2))
next
  case False
  then obtain h where h: "h \<in> set (active r)" by (cases "active r") auto
  note g = flags_goodD[OF good]
  show ?thesis
  proof (rule flags_goodI)
    show "length (active (start ks n c r)) = length (flights (start ks n c r))"
      using g(1) by (simp add: start_fields(1,3))
    fix x assume "x \<in> objects (start ks n c r)"
    then consider "x = next_flight r" | "x \<noteq> next_flight r" "x \<in> set (active r)"
      | "x \<noteq> next_flight r" "x \<notin> set (active r)" "x \<in> flight_ids r"
      by (auto simp: objects_def start_fields(3))
    then show "flag (start ks n c r) x = Some True \<and> x < next_flight (start ks n c r)"
    proof cases
      case 1
      then show ?thesis using False by (simp add: start_fields(2,9))
    next
      case 2
      then show ?thesis using g(3)[of x] by (simp add: start_fields(2,9) objects_def)
    next
      case 3
      then have "flag r x \<noteq> Some False" "flag r x \<noteq> None" "x < next_flight r"
        using g(6)[OF 3(3) h] g(2,3)[of x] h by (auto simp: objects_def)
      moreover from this have "flag r x = Some True" by (metis (full_types) option.exhaust)
      ultimately show ?thesis using 3 by (simp add: start_fields(2,9))
    qed
  qed
qed

lemma remove_equal_first:
  "\<lbrakk>xs \<noteq> []; \<forall>g\<in>set xs. fl g = b\<rbrakk> \<Longrightarrow> remove_equal fl b xs = Some (tl xs)"
  by (cases xs) auto

lemma length_dict_pop:
  "distinct (map fst d) \<Longrightarrow> k \<in> fst ` set d \<Longrightarrow> length (dict_pop k d) = length d - 1"
proof (induction d)
  case (Cons p d)
  show ?case
  proof (cases "fst p = k")
    case True
    then have "k \<notin> fst ` set d" using Cons.prems(1) by auto
    then have "dict_pop k d = d" by (simp add: AList.delete_eq case_prod_beta filter_id_conv) force
    with True show ?thesis by (cases p) simp
  next
    case False
    with Cons have "length (dict_pop k d) = length d - 1" "d \<noteq> []" by auto
    with False show ?thesis by (cases p; cases d) simp_all
  qed
qed simp

lemma active_finish:
  assumes good: "flags_good r" and f: "dict_get (flights r) f = Some fl"
  shows "active (finish f res r) = tl (active r)" and "active r \<noteq> []"
proof -
  have i: "f \<in> flight_ids r" using f by (simp add: flight_ids_iff)
  note g = flags_goodD[OF good]
  show ne: "active r \<noteq> []" using g(1) f by (cases "flights r") auto
  have "\<forall>h\<in>set (active r). flag r h = flag r f" using g(5)[OF i] by blast
  from remove_equal_first[OF ne this] show "active (finish f res r) = tl (active r)"
    by (simp add: finish_fields(3)[OF f] option_or_def)
qed

lemma flags_good_finish:
  assumes good: "flags_good r" and fgood: "flights_good r"
  shows "flags_good (finish f res r)"
proof (cases "dict_get (flights r) f")
  case None
  then show ?thesis using good by (simp add: finish_unknown)
next
  case (Some fl)
  note g = flags_goodD[OF good] and act = active_finish[OF good Some]
  have "f \<in> fst ` set (flights r)" using Some flight_ids_iff[of f r] by (simp add: flight_ids_def)
  from length_dict_pop[OF flights_goodD(1)[OF fgood] this]
  have len: "length (flights (finish f res r)) = length (flights r) - 1"
    by (simp add: finish_fields(1)[OF Some])
  then have len': "length (active (finish f res r)) = length (flights (finish f res r))"
    using g(1) act by simp
  have "set (tl (active r)) \<subseteq> set (active r)" by (rule set_mono_suffix) simp
  then have sub: "objects (finish f res r) \<subseteq> objects r"
    unfolding objects_def act(1) flight_ids_finish by blast
  show ?thesis
  proof (cases "2 \<le> length (flights r)")
    case True
    show ?thesis
    proof (rule flags_goodI[OF len'])
      fix h assume "h \<in> objects (finish f res r)"
      then have "h \<in> objects r" using sub by blast
      then show "flag (finish f res r) h = Some True \<and> h < next_flight (finish f res r)"
        unfolding finish_fields(2,5)[OF Some] using g(3,4) True by blast
    qed
  next
    case False
    then have "length (flights (finish f res r)) = 0" "length (active (finish f res r)) = 0"
      using len len' by simp_all
    then have "flights (finish f res r) = []" "active (finish f res r) = []" by blast+
    then have "objects (finish f res r) = {}" by (simp add: objects_def flight_ids_def)
    then show ?thesis by (intro flags_goodI[OF len']) simp
  qed
qed

section \<open>What the registry keeps\<close>

definition own_good :: "'k registry \<Rightarrow> (nat \<Rightarrow> int) \<Rightarrow> bool" where
  "own_good r own \<longleftrightarrow> (\<forall>f\<ge>next_flight r. own f = 0) \<and>
     (\<forall>f fl u b. dict_get (flights r) f = Some fl \<longrightarrow> flag r f = Some False \<longrightarrow>
        budget_used r = Some u \<longrightarrow> used_before fl = Some b \<longrightarrow> u - b = own f)"

definition stored_good :: "'k registry \<Rightarrow> bool" where
  "stored_good r \<longleftrightarrow> (\<forall>k s. dict_get (stored_results r) k = Some s \<longrightarrow>
     completed_check (st_result s) \<and> 0 \<le> st_sent s)"

definition sys_good :: "'k sys \<Rightarrow> bool" where
  "sys_good s \<longleftrightarrow> flights_good (fst s) \<and> flags_good (fst s) \<and> own_good (fst s) (snd s) \<and> stored_good (fst s)"

lemma own_good_tally [simp]: "own_good (count_for n g r) own = own_good r own"
  by (simp add: own_good_def)

lemma stored_good_tally [simp]: "stored_good (count_for n g r) = stored_good r"
  by (simp add: stored_good_def)

lemma own_good_start:
  assumes "own_good r own" and "flights_good r"
  shows "own_good (start ks n c r) own"
  unfolding own_good_def
proof (intro conjI allI impI)
  show "f \<ge> next_flight (start ks n c r) \<Longrightarrow> own f = 0" for f
    using assms(1) by (simp add: own_good_def start_fields(2))
  fix f fl u b
  assume f: "dict_get (flights (start ks n c r)) f = Some fl" "flag (start ks n c r) f = Some False"
    and u: "budget_used (start ks n c r) = Some u" "used_before fl = Some b"
  show "u - b = own f"
  proof (cases "f = next_flight r")
    case True
    then show ?thesis
      using f(1) u assms(1) flights_goodD(4)[OF assms(2)]
      by (auto simp: start_fields(1,4) dict_get_snoc own_good_def)
  next
    case False
    then have "dict_get (flights r) f = Some fl" "flag r f = Some False" "budget_used r = Some u"
      using f u by (auto simp: start_fields(1,4,9) dict_get_snoc split: option.splits if_splits)
    then show ?thesis using assms(1) u(2) unfolding own_good_def by blast
  qed
qed

lemma own_good_finish:
  assumes "own_good r own"
  shows "own_good (finish f res r) own"
proof (cases "dict_get (flights r) f")
  case None
  then show ?thesis using assms by (simp add: finish_unknown)
next
  case (Some fl)
  show ?thesis
    using assms unfolding own_good_def finish_fields(1,2,4,5)[OF Some] dict_get_pop
    by (metis option.distinct(1))
qed

lemma stored_good_entry: "stored_good r \<Longrightarrow> stored_good (store_entry c n e r)"
  by (cases e) (auto simp: store_entry_def stored_good_def dict_get_set split: option.splits)

lemma stored_good_outcome: "stored_good r \<Longrightarrow> stored_good (store_outcome c n ks res r)"
proof -
  have "stored_good r \<Longrightarrow> stored_good (foldl (\<lambda>r e. store_entry c n e r) r es)" for r :: "'a registry" and es
    by (induction es arbitrary: r) (simp_all add: stored_good_entry)
  then show "stored_good r \<Longrightarrow> stored_good (store_outcome c n ks res r)"
    by (cases res) (simp_all add: store_outcome_def stored_good_entry)
qed

lemma stored_good_finish:
  assumes "stored_good r"
  shows "stored_good (finish f res r)"
proof (cases "dict_get (flights r) f")
  case (Some fl)
  have "stored_good (r\<lparr>flights := d, active := a\<rparr>)" for d a using assms by (simp add: stored_good_def)
  from stored_good_outcome[OF this] show ?thesis
    by (simp add: finish_def Some Let_def) (simp add: stored_good_def)
qed (simp add: finish_unknown assms)

lemma sys_good_start:
  "sys_good (r, own) \<Longrightarrow> \<forall>k\<in>set ks. dict_get (flying r) k = None \<Longrightarrow> sys_good (start ks n c r, own)"
  by (simp add: sys_good_def flights_good_start flags_good_start own_good_start)
    (simp add: stored_good_def start_fields(5))

lemma spend_good:
  assumes good: "sys_good (r, own)" and f: "dict_get (flights r) f \<noteq> None"
  shows "sys_good (r\<lparr>budget_used := map_option (\<lambda>u. u + int n) (budget_used r)\<rparr>, own(f := own f + int n))"
proof -
  have fl: "flights_good r" and fg: "flags_good r" and own: "own_good r own" using good by (simp_all add: sys_good_def)
  have less: "f < next_flight r" using flights_goodD(2)[OF fl] f by (simp add: flight_ids_iff)
  have alone: "g = f" if "dict_get (flights r) g = Some gl" "flag r g = Some False" for g gl
  proof (rule ccontr)
    assume "g \<noteq> f"
    have "{f, g} \<subseteq> fst ` set (flights r)"
      using f that(1) flight_ids_iff[of f r] flight_ids_iff[of g r] by (simp add: flight_ids_def)
    then have "card {f, g} \<le> length (flights r)"
      by (metis card_image_le card_length card_mono finite_imageI finite_set order_trans)
    then have "2 \<le> length (flights r)" using \<open>g \<noteq> f\<close> by simp
    moreover have "g \<in> objects r" using that(1) by (simp add: objects_def flight_ids_iff)
    ultimately show False using flags_goodD(4)[OF fg] that(2) by fastforce
  qed
  have "own_good (r\<lparr>budget_used := map_option (\<lambda>u. u + int n) (budget_used r)\<rparr>) (own(f := own f + int n))"
    unfolding own_good_def
  proof (intro conjI allI impI)
    fix h assume "next_flight (r\<lparr>budget_used := map_option (\<lambda>u. u + int n) (budget_used r)\<rparr>) \<le> h"
    then show "(own(f := own f + int n)) h = 0" using own less by (simp add: own_good_def)
  next
    fix h fl u b
    assume h: "dict_get (flights (r\<lparr>budget_used := map_option (\<lambda>u. u + int n) (budget_used r)\<rparr>)) h = Some fl"
        "flag (r\<lparr>budget_used := map_option (\<lambda>u. u + int n) (budget_used r)\<rparr>) h = Some False"
      and u: "budget_used (r\<lparr>budget_used := map_option (\<lambda>u. u + int n) (budget_used r)\<rparr>) = Some u"
        "used_before fl = Some b"
    then have "h = f" using alone by simp
    moreover obtain u0 where "budget_used r = Some u0" "u = u0 + int n" using u(1) by auto
    moreover from this h u(2) have "u0 - b = own h" using own unfolding own_good_def by simp
    ultimately show "u - b = (own(f := own f + int n)) h" by simp
  qed
  then show ?thesis
    using good by (simp add: sys_good_def flights_good_def flags_good_def objects_def flight_ids_def stored_good_def)
qed

lemma reg_step_good:
  assumes "sys_good s"
  shows "sys_good (reg_step s e)"
proof -
  obtain r own where s: "s = (r, own)" by fastforce
  show ?thesis
  proof (cases e)
    case (EnterRun n k c)
    then show ?thesis
      using assms sys_good_start[of r own "[k]" n c] s
      by (cases rule: enter_run_cases[of n k c r]) (simp_all add: sys_good_def)
  next
    case (EnterAudit n ks c)
    then show ?thesis
      using assms sys_good_start[of r own ks n c] s
      by (cases rule: enter_audit_cases[of n ks c r]) (simp_all add: sys_good_def)
  next
    case (EnterMemo n k)
    then show ?thesis
      using assms sys_good_start[of r own "[k]" n "[]"] s
      by (cases rule: enter_memo_cases[of n k r]) (simp_all add: sys_good_def)
  next
    case (Finish f res)
    then show ?thesis
      using assms s
      by (simp add: sys_good_def flights_good_finish flags_good_finish own_good_finish stored_good_finish)
  next
    case (Spend f n)
    then show ?thesis using assms s spend_good[of r own f n] by simp
  qed
qed

interpretation registry_run: step_system reg_step sys_good
  by unfold_locales (rule reg_step_good)

lemma new_sys_good: "sys_good (new_sys used limit)"
  by (simp add: new_sys_def new_exec_registry_def sys_good_def flights_good_def flags_good_def own_good_def
      stored_good_def objects_def flight_ids_def)

abbreviation reg_run :: "'k event list \<Rightarrow> 'k sys \<Rightarrow> 'k sys" where
  "reg_run es s \<equiv> foldl reg_step s es"

lemma reachable_good: "reg_run es (new_sys used limit) = (r, own) \<Longrightarrow> sys_good (r, own)"
  using registry_run.run_good[OF new_sys_good] by metis

text \<open>C21: One check at a time: in every interleaving of callers, through all three entry points, no two
  checks in flight share a key, a key is in flight exactly while a check that holds it runs, and a
  caller that finds its key in flight waits for that check and starts none.\<close>

theorem single_flight:
  assumes "reg_run es (new_sys used limit) = (r, own)"
  shows "(\<forall>f g fl gl. dict_get (flights r) f = Some fl \<and> dict_get (flights r) g = Some gl
      \<and> set (f_keys fl) \<inter> set (f_keys gl) \<noteq> {} \<longrightarrow> f = g)
    \<and> (\<forall>k f. dict_get (flying r) k = Some f \<longleftrightarrow>
          (\<exists>fl. dict_get (flights r) f = Some fl \<and> k \<in> set (f_keys fl)))
    \<and> (\<forall>n k c f. dict_get (flying r) k = Some f \<and> dict_get (stored_results r) k = None \<longrightarrow>
          fst (enter_run n k c r) = Wait f \<and> flights (snd (enter_run n k c r)) = flights r)"
proof -
  have g: "flights_good r" using reachable_good[OF assms] by (simp add: sys_good_def)
  have k: "dict_get (flying r) k = Some f \<longleftrightarrow>
      (\<exists>fl. dict_get (flights r) f = Some fl \<and> k \<in> set (f_keys fl))" for k f
    by (rule flights_goodD(3)[OF g])
  have "f = g" if "dict_get (flights r) f = Some fl" "dict_get (flights r) g = Some gl"
      "x \<in> set (f_keys fl)" "x \<in> set (f_keys gl)" for f g fl gl x
    using k[of x f] k[of x g] that by auto
  moreover have "fst (enter_run n k c r) = Wait f \<and> flights (snd (enter_run n k c r)) = flights r"
    if "dict_get (flying r) k = Some f" "dict_get (stored_results r) k = None" for n k c f
    using that by (simp add: enter_run_def)
  ultimately show ?thesis using k by blast
qed

text \<open>The saving is never over-claimed: when a check ends that did not count its requests itself, the
  figure kept for it is exactly what it spent if nothing overlapped it, and zero otherwise, although
  the budget is shared and the list of active calls is searched by equality.\<close>

theorem sent_figure_exact:
  assumes "reg_run es (new_sys used limit) = (r, own)" and "dict_get (flights r) f = Some fl"
    and "budget_used r = Some u" and "used_before fl = Some b"
    and "\<forall>v. res = Result v \<longrightarrow> v_sent_count v = None"
  shows "sent_figure fl (flag r f = Some True) (budget_used r) res =
    (if flag r f = Some True then 0 else own f)"
proof -
  have own: "own_good r own" and fg: "flags_good r"
    using reachable_good[OF assms(1)] by (simp_all add: sys_good_def)
  have "f \<in> objects r" using assms(2) by (simp add: objects_def flight_ids_iff)
  then have "flag r f = Some False" if "flag r f \<noteq> Some True"
    using flags_goodD(2)[OF fg] that by (metis (full_types) option.exhaust)
  then have "u - b = own f" if "flag r f \<noteq> Some True"
    using own assms(2-4) that unfolding own_good_def by blast
  moreover have "(case res of Result v \<Rightarrow> v_sent_count v | _ \<Rightarrow> None) = None"
    using assms(5) by (cases res) simp_all
  ultimately show ?thesis using assms(3,4) by (simp add: sent_figure_def)
qed

text \<open>C22: Proof stays with the case that earned it: whatever happened before, only completed checks are
  reused; the case a check ran for gets its result back, and any other case gets a copy that is not
  confirmed, names no exchange, counts no request and says who covered it.\<close>

theorem reuse_carries_no_proof:
  assumes "reg_run es (new_sys used limit) = (r, own)" and "dict_get (stored_results r) k = Some s"
  shows "completed_check (st_result s) \<and>
    (\<exists>v. fst (enter_run n k c r) = Answer v \<and>
       (if c = st_case s then v = st_result s
        else \<not> v_confirmed v \<and> baseline_artifact v = [] \<and> attack_artifact v = []
          \<and> control_artifacts v = [] \<and> v_sent_count v = Some 0 \<and> covered_by v = st_case s
          \<and> v_status v = v_status (st_result s)))"
proof -
  have "completed_check (st_result s)"
    using reachable_good[OF assms(1)] assms(2) by (auto simp: sys_good_def stored_good_def)
  then show ?thesis
    using assms(2) by (auto simp: enter_run_def for_case_def unproved_copy_def)
qed

section \<open>Retries are bounded\<close>

definition attempts :: "'k registry \<Rightarrow> 'k \<Rightarrow> int" where
  "attempts r k = (case dict_get (incomplete r) k of None \<Rightarrow> 0 | Some (n, _) \<Rightarrow> n)"

definition retry_good :: "'k registry \<Rightarrow> bool" where
  "retry_good r \<longleftrightarrow> 1 \<le> retry_limit r \<and> (\<forall>k. 0 \<le> attempts r k \<and> attempts r k \<le> retry_limit r) \<and>
     (\<forall>f fl. dict_get (flights r) f = Some fl \<longrightarrow>
        (\<exists>k. f_keys fl = [k] \<and> attempts r k < retry_limit r))"

lemma retry_good_tally [simp]: "retry_good (count_for n g r) = retry_good r"
  by (simp add: retry_good_def attempts_def)

lemma retry_goodD:
  assumes "retry_good r"
  shows "1 \<le> retry_limit r" "0 \<le> attempts r k" "attempts r k \<le> retry_limit r"
    "dict_get (flights r) f = Some fl \<Longrightarrow> \<exists>k. f_keys fl = [k] \<and> attempts r k < retry_limit r"
  using assms unfolding retry_good_def by blast+

lemma new_retry_good: "retry_good (fst (new_sys used limit))"
  by (simp add: new_sys_def new_exec_registry_def retry_good_def attempts_def)

lemma retry_limited_None: "retry_limited k r = None \<Longrightarrow> 1 \<le> retry_limit r \<Longrightarrow> attempts r k < retry_limit r"
  by (auto simp: retry_limited_def attempts_def split: option.splits if_splits)

lemma attempts_entry:
  "0 \<le> attempts r k \<Longrightarrow> attempts (store_entry c n (k, v) r) j \<in>
     (if j = k then {0, attempts r k, attempts r k + 1} else {attempts r j})"
  by (auto simp: store_entry_def attempts_def dict_get_set dict_get_pop split: option.splits)

lemma attempts_outcome:
  assumes "0 \<le> attempts r k"
  shows "attempts (store_outcome c n [k] res r) j \<in>
    (if j = k then {0, attempts r k, attempts r k + 1} else {attempts r j})"
proof (cases res)
  case (AuditResult vs)
  then show ?thesis using attempts_entry[OF assms] by (cases vs) (auto simp: store_outcome_def)
next
  case (Result v)
  then show ?thesis using attempts_entry[OF assms, of c n "Some v" j] by (simp add: store_outcome_def)
qed (auto simp: store_outcome_def)

lemma attempts_finish:
  assumes "dict_get (flights r) f = Some fl" and "f_keys fl = [k]" and "0 \<le> attempts r k"
  shows "attempts (finish f res r) j \<in> (if j = k then {0, attempts r k, attempts r k + 1} else {attempts r j})"
proof -
  have a: "attempts (r\<lparr>flights := d, active := x\<rparr>) i = attempts r i" for d x i
    by (simp add: attempts_def)
  have y: "attempts (r'\<lparr>flying := d\<rparr>) i = attempts r' i" for r' :: "'a registry" and d i
    by (simp add: attempts_def)
  have "attempts (store_outcome c n [k] res (r\<lparr>flights := d, active := x\<rparr>)) j
      \<in> (if j = k then {0, attempts r k, attempts r k + 1} else {attempts r j})" for c n d x
    using attempts_outcome[of "r\<lparr>flights := d, active := x\<rparr>" k c n res j] assms(3) unfolding a .
  then show ?thesis using assms(1,2) unfolding finish_def Let_def by (simp only: option.case y)
qed

fun only_run :: "'k event \<Rightarrow> bool" where
  "only_run (EnterAudit _ _ _) = False"
| "only_run (EnterMemo _ _) = False"
| "only_run _ = True"

lemma retry_good_step:
  assumes good: "retry_good r" and fgood: "flights_good r" and e: "only_run e"
  shows "retry_good (fst (reg_step (r, own) e))"
proof (cases e)
  case (EnterRun n k c)
  show ?thesis
  proof (cases rule: enter_run_cases[of n k c r])
    case started
    have "attempts r k < retry_limit r"
      using retry_limited_None[OF started(4)] good by (simp add: retry_good_def)
    moreover have "attempts (start [k] n c r) j = attempts r j" for j
      by (simp add: attempts_def start_fields(6))
    ultimately show ?thesis
      using good EnterRun started(1)
      by (auto simp: retry_good_def start_fields(1,7) dict_get_snoc split: option.splits if_splits)
  qed (use good EnterRun in simp)
next
  case (Finish f res)
  show ?thesis
  proof (cases "dict_get (flights r) f")
    case None
    then show ?thesis using good Finish by (simp add: finish_unknown)
  next
    case (Some fl)
    obtain k where k: "f_keys fl = [k]" "attempts r k < retry_limit r"
      using retry_goodD(4)[OF good Some] by blast
    note nonneg = retry_goodD(2,3)[OF good]
    note after = attempts_finish[OF Some k(1) nonneg(1)]
    have bound: "0 \<le> attempts (finish f res r) j \<and> attempts (finish f res r) j \<le> retry_limit r" for j
      using after[of res j] nonneg[of j] nonneg[of k] k(2) by (auto split: if_splits)
    have "\<exists>i. f_keys gl = [i] \<and> attempts (finish f res r) i < retry_limit r"
      if "dict_get (flights r) g = Some gl" "g \<noteq> f" for g gl
    proof -
      obtain i where i: "f_keys gl = [i]" "attempts r i < retry_limit r"
        using retry_goodD(4)[OF good, of g gl] \<open>dict_get (flights r) g = Some gl\<close> by blast
      have "i \<noteq> k"
        using flights_goodD(3)[OF fgood, of i f] flights_goodD(3)[OF fgood, of i g] i k Some that by auto
      then show ?thesis using after[of res i] i by simp
    qed
    then show ?thesis
      using bound good Finish
      by (auto simp: retry_good_def finish_fields(1,6)[OF Some] dict_get_pop split: if_splits)
  qed
next
  case (Spend f n)
  then show ?thesis using good by (simp add: retry_good_def attempts_def)
qed (use e in simp_all)

text \<open>Retries of an unchanged key are bounded on the path of single validators: in every interleaving of
  such callers at most \<open>retry_limit\<close> incomplete attempts are counted for a key, and once they are used
  up a further caller starts no check but gets an unconfirmed answer that counts no request.\<close>

theorem retries_bounded:
  assumes "reg_run es (new_sys used limit) = (r, own)" and "list_all only_run es"
  shows "attempts r k \<le> max 1 limit \<and>
    (attempts r k = max 1 limit \<and> dict_get (stored_results r) k = None \<longrightarrow>
       (\<exists>v. fst (enter_run n k c r) = Answer v \<and> \<not> v_confirmed v \<and> v_sent_count v = Some 0))"
proof -
  have "list_all only_run es \<Longrightarrow> retry_good (fst s) \<Longrightarrow> sys_good s \<Longrightarrow>
      retry_good (fst (reg_run es s)) \<and> retry_limit (fst (reg_run es s)) = retry_limit (fst s)" for s
  proof (induction es arbitrary: s)
    case (Cons e es)
    obtain r own where s: "s = (r, own)" by fastforce
    have "retry_good (fst (reg_step s e))"
      using retry_good_step[of r e own] Cons.prems s by (simp add: sys_good_def)
    moreover have "retry_limit (fst (reg_step s e)) = retry_limit (fst s)"
      unfolding s using Cons.prems(1)
      by (cases e) (auto simp: enter_run_def start_fields(7) finish_def Let_def split: option.split)
    ultimately show ?case using Cons.IH[of "reg_step s e"] Cons.prems reg_step_good[of s e] by simp
  qed simp
  from this[OF assms(2) new_retry_good new_sys_good, of used limit] have good: "retry_good r" "retry_limit r = max 1 limit"
    by (simp_all add: assms(1)) (simp add: new_sys_def new_exec_registry_def)
  have "\<exists>v. fst (enter_run n k c r) = Answer v \<and> \<not> v_confirmed v \<and> v_sent_count v = Some 0"
    if a: "attempts r k = max 1 limit" "dict_get (stored_results r) k = None"
  proof -
    have "dict_get (flying r) k = None"
    proof (rule ccontr)
      assume "dict_get (flying r) k \<noteq> None"
      then obtain f where "dict_get (flying r) k = Some f" by blast
      moreover have "flights_good r" using reachable_good[OF assms(1)] by (simp add: sys_good_def)
      ultimately obtain fl where "dict_get (flights r) f = Some fl" "k \<in> set (f_keys fl)"
        using flights_goodD(3)[of r k f] by blast
      then have "attempts r k < retry_limit r" using retry_goodD(4)[OF good(1)] by fastforce
      then show False using a(1) good(2) by simp
    qed
    moreover obtain ref where "retry_limited k r = Some ref" "\<not> v_confirmed ref" "v_sent_count ref = Some 0"
      using a(1) good by (auto simp: attempts_def retry_limited_def unproved_copy_def split: option.splits)
    ultimately show ?thesis using a(2) by (simp add: enter_run_def)
  qed
  then show ?thesis using good by (simp add: retry_good_def)
qed

section \<open>Concrete runs\<close>

definition sample_verdict :: "string \<Rightarrow> vresult" where
  "sample_verdict status = \<lparr>v_status = Some status, v_control_outcome = [], v_confirmed = True,
     v_sent_count = None, v_observed_sends = None, baseline_artifact = ''b1'', attack_artifact = ''a1'',
     control_artifacts = [], attempt_id = ''t1'', referenced_attempt = [], covered_by = [],
     v_summary = Plain ''seen''\<rparr>"

definition registry_events :: "string event list" where
  "registry_events = [EnterRun ''sqlmap'' ''k'' ''case1'', Spend 0 3, EnterRun ''sqlmap'' ''k'' ''case2'',
     Finish 0 (Result (sample_verdict ''confirmed'')), EnterRun ''nosql'' ''j'' ''case2'', Spend 1 2]"

definition sample_sys :: "string sys" where
  "sample_sys = reg_run registry_events (new_sys (Some 10) 2)"

lemma sample_facts:
  "map (\<lambda>(f, fl). (f, f_keys fl, used_before fl)) (flights (fst sample_sys)) = [(1, [''j''], Some 13)]"
  "map_option (\<lambda>s. (st_case s, st_sent s)) (dict_get (stored_results (fst sample_sys)) ''k'') = Some (''case1'', 3)"
  "budget_used (fst sample_sys) = Some 15" "snd sample_sys 1 = 2"
  "flag (fst sample_sys) 1 = Some False" "dict_get (flying (fst sample_sys)) ''j'' = Some 1"
  unfolding sample_sys_def by code_simp+

lemma sample_run: "reg_run registry_events (new_sys (Some 10) 2) = (fst sample_sys, snd sample_sys)"
  by (simp add: sample_sys_def)

theorem single_flight_witness:
  "\<exists>fl. dict_get (flights (fst sample_sys)) 1 = Some fl \<and> ''j'' \<in> set (f_keys fl)"
  using single_flight[OF sample_run] sample_facts(6) by blast

theorem sent_figure_exact_witness:
  "(case dict_get (flights (fst sample_sys)) 1 of None \<Rightarrow> 0
    | Some fl \<Rightarrow> sent_figure fl (flag (fst sample_sys) 1 = Some True) (budget_used (fst sample_sys))
        (Raised [''Timeout''])) = 2"
proof -
  obtain fl where fl: "dict_get (flights (fst sample_sys)) 1 = Some fl" "used_before fl = Some 13"
    using sample_facts(1) by auto
  have "sent_figure fl (flag (fst sample_sys) 1 = Some True) (budget_used (fst sample_sys)) (Raised [''Timeout'']) =
      (if flag (fst sample_sys) 1 = Some True then 0 else snd sample_sys 1)"
    by (rule sent_figure_exact[OF sample_run fl(1) sample_facts(3) fl(2)]) simp
  then show ?thesis by (simp add: fl(1) sample_facts(4,5) del: One_nat_def)
qed

theorem reuse_carries_no_proof_witness:
  "\<exists>v. fst (enter_run ''sqlmap'' ''k'' ''case2'' (fst sample_sys)) = Answer v \<and> \<not> v_confirmed v"
proof -
  obtain s where s: "dict_get (stored_results (fst sample_sys)) ''k'' = Some s" "st_case s = ''case1''"
    using sample_facts(2) by auto
  then show ?thesis using reuse_carries_no_proof[OF sample_run s(1), of "''sqlmap''" "''case2''"] by auto
qed

definition stuck_events :: "string event list" where
  "stuck_events = [EnterRun ''ssti'' ''k'' ''c'', Spend 0 1, Finish 0 (Result (sample_verdict ''error'')),
     EnterRun ''ssti'' ''k'' ''c'', Spend 1 1, Finish 1 (Result (sample_verdict ''incomplete''))]"

theorem retries_bounded_witness:
  "\<exists>v. fst (enter_run ''ssti'' ''k'' ''c'' (fst (reg_run stuck_events (new_sys (Some 0) 2)))) = Answer v
     \<and> \<not> v_confirmed v"
proof -
  have "attempts (fst (reg_run stuck_events (new_sys (Some 0) 2))) ''k'' = 2"
    "dict_get (stored_results (fst (reg_run stuck_events (new_sys (Some 0) 2)))) ''k'' = None"
    "list_all only_run stuck_events"
    by code_simp+
  then show ?thesis
    using retries_bounded[of "Some 0" 2 stuck_events "fst (reg_run stuck_events (new_sys (Some 0) 2))"
        "snd (reg_run stuck_events (new_sys (Some 0) 2))" "''k''" "''ssti''" "''c''"] by auto
qed

text \<open>The audit entry point never asks for the retry limit: with a limit of two, a third incomplete audit
  of the same key is started and counted.\<close>

theorem audit_ignores_retry_limit:
  "let audit = (\<lambda>i. [EnterAudit ''csp_validator'' [''k''] ''c'', Spend i 1,
         Finish i (AuditResult [Some (sample_verdict ''incomplete'')])])
   in attempts (fst (reg_run (audit 0 @ audit 1 @ audit 2) (new_sys (Some 0) 2))) ''k'' = 3"
  by code_simp

text \<open>An audit of no classes raises, since the maximum of no request figures is taken.\<close>

theorem audit_of_nothing_raises:
  "fst (enter_audit ''csp_validator'' [] ''c'' (new_exec_registry None 2 :: string registry)) = Inl ValueError"
  by (simp add: enter_audit_def)

end
