(* ===== verification/Categories.thy ===== *)
theory Categories
  imports Prelude Regex Url
begin

text \<open>
  Canonical vulnerability categories (\<open>categories.py\<close>): the tables, and the reading of a free-text
  class name as one of the categories. A dictionary literal with a repeated key keeps the last
  value, as \<open>dict_literal\<close> does. The regular expressions of \<open>_normalize\<close> are written out as
  functions on strings; \<open>_DISTINCTIVE_RE\<close>, an alternation of words between word boundaries, finds
  the maximal runs of word characters that are tokens.

  \<open>canonical_fixpoint\<close> shows that \<open>canonicalize\<close> only names categories of the table and reads
  each category as itself; \<open>compound_agrees\<close> that the parts of a compound label that mean anything
  all mean what the label is read as; \<open>legacy_is_stable\<close> that the reading behind the stored
  fingerprints never uses the later phrases.
\<close>

section \<open>The tables\<close>

definition dict_literal :: "('k \<times> 'v) list \<Rightarrow> ('k \<times> 'v) list" where
  "dict_literal = foldl (\<lambda>d (k, v). dict_set k v d) []"

definition canonical_categories :: "string list" where
  "canonical_categories = [
    ''sqli'', ''xss'', ''idor'', ''ssrf'', ''auth'', ''business_logic'',
    ''business_logic_enhanced'', ''misconfig'', ''ai_llm'', ''supply_chain'', ''rate_limit'',
    ''jwt'', ''xxe'', ''csrf'', ''file_upload'', ''nosql'', ''command_injection'', ''ssti'',
    ''open_redirect'', ''info_disclosure'', ''path_traversal'', ''anomaly'', ''cors'',
    ''recon'', ''http_request_smuggling'', ''web_cache_poisoning'', ''oauth'',
    ''subdomain_takeover'', ''crypto'', ''csp'', ''header_injection'', ''api_security'',
    ''websocket'', ''race_condition'', ''deserialization'', ''session_fixation'',
    ''session_timeout'', ''reset_token'', ''dom_xss'', ''toctou'', ''insecure_transport'',
    ''missing_headers'', ''bfla'']"

definition synonym_entries :: "(string \<times> string) list" where
  "synonym_entries = [
    (''sqli'', ''sqli''), (''sql injection'', ''sqli''), (''sql-injection'', ''sqli''),
    (''sqlinjection'', ''sqli''), (''xss'', ''xss''), (''cross-site scripting'', ''xss''),
    (''cross site scripting'', ''xss''), (''reflected xss'', ''xss''),
    (''stored xss'', ''xss''), (''dom xss'', ''xss''), (''dom-based xss'', ''xss''),
    (''idor'', ''idor''), (''insecure direct object reference'', ''idor''),
    (''insecure direct object references'', ''idor''),
    (''broken object level authorization'', ''idor''), (''bola'', ''idor''),
    (''object level authorization'', ''idor''), (''ssrf'', ''ssrf''),
    (''server-side request forgery'', ''ssrf''), (''server side request forgery'', ''ssrf''),
    (''auth'', ''auth''), (''authentication'', ''auth''), (''broken authentication'', ''auth''),
    (''session management'', ''auth''), (''broken session management'', ''auth''),
    (''business_logic'', ''business_logic''), (''business logic'', ''business_logic''),
    (''business logic flaw'', ''business_logic''), (''workflow abuse'', ''business_logic''),
    (''race condition'', ''business_logic''), (''misconfig'', ''misconfig''),
    (''misconfiguration'', ''misconfig''), (''security misconfiguration'', ''misconfig''),
    (''security_misconfiguration'', ''misconfig''), (''ai_llm'', ''ai_llm''),
    (''prompt injection'', ''ai_llm''), (''llm'', ''ai_llm''),
    (''insecure output handling'', ''ai_llm''), (''supply_chain'', ''supply_chain''),
    (''supply chain'', ''supply_chain''),
    (''vulnerable and outdated components'', ''supply_chain''),
    (''outdated dependency'', ''supply_chain''),
    (''known vulnerable component'', ''supply_chain''), (''rate_limit'', ''rate_limit''),
    (''rate limiting'', ''rate_limit''), (''missing rate limiting'', ''rate_limit''),
    (''brute force'', ''rate_limit''), (''jwt'', ''jwt''), (''json web token'', ''jwt''),
    (''json-web-token'', ''jwt''), (''jws'', ''jwt''), (''jwe'', ''jwt''),
    (''jwt token'', ''jwt''), (''xxe'', ''xxe''), (''xml external entity'', ''xxe''),
    (''xml-external-entity'', ''xxe''), (''xee'', ''xxe''), (''xml injection'', ''xxe''),
    (''csrf'', ''csrf''), (''cross-site request forgery'', ''csrf''),
    (''cross site request forgery'', ''csrf''), (''xsrf'', ''csrf''),
    (''file_upload'', ''file_upload''), (''file upload'', ''file_upload''),
    (''arbitrary file upload'', ''file_upload''),
    (''file upload vulnerability'', ''file_upload''), (''nosql'', ''nosql''),
    (''nosql injection'', ''nosql''), (''no-sql'', ''nosql''), (''no sql'', ''nosql''),
    (''mongodb injection'', ''nosql''), (''mongo injection'', ''nosql''),
    (''command_injection'', ''command_injection''),
    (''command injection'', ''command_injection''), (''rce'', ''command_injection''),
    (''remote code execution'', ''command_injection''),
    (''code injection'', ''command_injection''), (''shell injection'', ''command_injection''),
    (''ssti'', ''ssti''), (''template injection'', ''ssti''),
    (''server-side template injection'', ''ssti''),
    (''server side template injection'', ''ssti''), (''open_redirect'', ''open_redirect''),
    (''open redirect'', ''open_redirect''), (''redirect'', ''open_redirect''),
    (''url redirect'', ''open_redirect''), (''path_traversal'', ''path_traversal''),
    (''path traversal'', ''path_traversal''), (''directory traversal'', ''path_traversal''),
    (''directory_traversal'', ''path_traversal''), (''lfi'', ''path_traversal''),
    (''local file inclusion'', ''path_traversal''),
    (''file path traversal'', ''path_traversal''), (''file inclusion'', ''path_traversal''),
    (''arbitrary file read'', ''path_traversal''), (''dot dot slash'', ''path_traversal''),
    (''info_disclosure'', ''info_disclosure''),
    (''information disclosure'', ''info_disclosure''),
    (''info disclosure'', ''info_disclosure''), (''information leak'', ''info_disclosure''),
    (''data leak'', ''info_disclosure''), (''sensitive data exposure'', ''info_disclosure''),
    (''information_disclosure'', ''info_disclosure''),
    (''verbose_error_disclosure'', ''info_disclosure''),
    (''verbose error disclosure'', ''info_disclosure''),
    (''excessive_data_exposure'', ''info_disclosure''),
    (''exposure_of_internal_data'', ''info_disclosure''),
    (''exposure of internal data'', ''info_disclosure''),
    (''exposure_of_sensitive_information'', ''info_disclosure''),
    (''exposure of sensitive information'', ''info_disclosure''),
    (''information_disclosure_header'', ''info_disclosure''),
    (''information disclosure header'', ''info_disclosure''),
    (''business_logic_enhanced'', ''business_logic_enhanced''),
    (''business logic enhanced'', ''business_logic_enhanced''),
    (''workflow abuse'', ''business_logic_enhanced''),
    (''state manipulation'', ''business_logic_enhanced''), (''anomaly'', ''anomaly''),
    (''anomaly detection'', ''anomaly''), (''unknown vulnerability'', ''anomaly''),
    (''cors'', ''cors''), (''cross-origin resource sharing'', ''cors''),
    (''cross origin resource sharing'', ''cors''), (''cors misconfiguration'', ''cors''),
    (''recon'', ''recon''), (''reconnaissance'', ''recon''),
    (''attack surface mapping'', ''recon''), (''attack map'', ''recon''),
    (''http_request_smuggling'', ''http_request_smuggling''),
    (''request smuggling'', ''http_request_smuggling''),
    (''http smuggling'', ''http_request_smuggling''), (''cl.te'', ''http_request_smuggling''),
    (''te.cl'', ''http_request_smuggling''), (''te.te'', ''http_request_smuggling''),
    (''web_cache_poisoning'', ''web_cache_poisoning''),
    (''web cache poisoning'', ''web_cache_poisoning''),
    (''cache poisoning'', ''web_cache_poisoning''),
    (''cache_poisoning'', ''web_cache_poisoning''),
    (''cache deception'', ''web_cache_poisoning''),
    (''web cache deception'', ''web_cache_poisoning''), (''oauth'', ''oauth''),
    (''oauth2'', ''oauth''), (''oauth 2.0'', ''oauth''), (''oidc'', ''oauth''),
    (''openid connect'', ''oauth''), (''open id connect'', ''oauth''),
    (''subdomain_takeover'', ''subdomain_takeover''),
    (''subdomain takeover'', ''subdomain_takeover''),
    (''dangling dns'', ''subdomain_takeover''), (''dangling_dns'', ''subdomain_takeover''),
    (''dns takeover'', ''subdomain_takeover''), (''crypto'', ''crypto''),
    (''cryptography'', ''crypto''), (''weak crypto'', ''crypto''),
    (''weak_crypto'', ''crypto''), (''tls'', ''crypto''), (''ssl'', ''crypto''),
    (''csp'', ''csp''), (''content security policy'', ''csp''),
    (''content_security_policy'', ''csp''), (''clickjacking'', ''csp''),
    (''missing csp'', ''csp''), (''missing content security policy'', ''csp''),
    (''content security policy missing'', ''csp''), (''missing x frame options'', ''csp''),
    (''x frame options missing'', ''csp''), (''clickjacking vulnerability'', ''csp''),
    (''clickjacking exposure'', ''csp''), (''missing security headers (csp)'', ''csp''),
    (''cors wildcard'', ''cors''), (''permissive cors'', ''cors''),
    (''header_injection'', ''header_injection''), (''header injection'', ''header_injection''),
    (''crlf injection'', ''header_injection''), (''crlf_injection'', ''header_injection''),
    (''response splitting'', ''header_injection''),
    (''smtp header injection'', ''header_injection''),
    (''email header injection'', ''header_injection''), (''api_security'', ''api_security''),
    (''api security'', ''api_security''), (''mass assignment'', ''api_security''),
    (''mass_assignment'', ''api_security''), (''excessive data exposure'', ''api_security''),
    (''unbounded resource consumption'', ''api_security''), (''websocket'', ''websocket''),
    (''websockets'', ''websocket''), (''cswsh'', ''websocket''),
    (''cross-site websocket hijacking'', ''websocket''),
    (''cross site websocket hijacking'', ''websocket''),
    (''race_condition'', ''race_condition''), (''race condition'', ''race_condition''),
    (''toctou'', ''race_condition''), (''time of check to time of use'', ''race_condition''),
    (''deserialization'', ''deserialization''),
    (''insecure deserialization'', ''deserialization''),
    (''insecure_deserialization'', ''deserialization''),
    (''session_fixation'', ''session_fixation''), (''session fixation'', ''session_fixation''),
    (''fixation'', ''session_fixation''), (''reset_token'', ''reset_token''),
    (''reset token'', ''reset_token''), (''predictable token'', ''reset_token''),
    (''predictable reset token'', ''reset_token''), (''weak token'', ''reset_token''),
    (''insecure token'', ''reset_token''), (''token entropy'', ''reset_token''),
    (''weak_reset_token'', ''reset_token''), (''dom_xss'', ''dom_xss''),
    (''dom xss'', ''dom_xss''), (''dom-based xss'', ''dom_xss''),
    (''dom based xss'', ''dom_xss''), (''dom-based cross-site scripting'', ''dom_xss''),
    (''client-side xss'', ''dom_xss''), (''client side xss'', ''dom_xss''),
    (''client-side cross-site scripting'', ''dom_xss''), (''toctou'', ''toctou''),
    (''time-of-check'', ''toctou''), (''time of check'', ''toctou''),
    (''time-of-check to time-of-use'', ''toctou''),
    (''time of check to time of use'', ''toctou''), (''check-then-act'', ''toctou''),
    (''check then act'', ''toctou''), (''privilege escalation race'', ''toctou''),
    (''race privilege escalation'', ''toctou''), (''priv esc race'', ''toctou''),
    (''toctou_privilege_escalation'', ''toctou''), (''session_timeout'', ''session_timeout''),
    (''session timeout'', ''session_timeout''), (''logout invalidation'', ''session_timeout''),
    (''logout_invalidation'', ''session_timeout''),
    (''session not invalidated'', ''session_timeout''), (''behavioral anomaly'', ''anomaly''),
    (''suspicious behavior'', ''anomaly'')]"

definition dedup_entries :: "(string \<times> string) list" where
  "dedup_entries = [
    (''insecure_transport'', ''insecure_transport''),
    (''insecure transport'', ''insecure_transport''),
    (''insecure communication'', ''insecure_transport''),
    (''insecure communications'', ''insecure_transport''),
    (''cleartext transmission'', ''insecure_transport''),
    (''cleartext credentials'', ''insecure_transport''),
    (''cleartext communication'', ''insecure_transport''),
    (''plaintext transmission'', ''insecure_transport''),
    (''unencrypted communication'', ''insecure_transport''),
    (''unencrypted transport'', ''insecure_transport''),
    (''man in the middle'', ''insecure_transport''), (''mitm'', ''insecure_transport''),
    (''token transmission over http'', ''insecure_transport''),
    (''token exposure over http'', ''insecure_transport''),
    (''missing_headers'', ''missing_headers''),
    (''missing security headers'', ''missing_headers''),
    (''missing security header'', ''missing_headers''),
    (''missing http security headers'', ''missing_headers''),
    (''missing http security header'', ''missing_headers''),
    (''security headers missing'', ''missing_headers''),
    (''missing_security_headers'', ''missing_headers''), (''bfla'', ''bfla''),
    (''broken function level authorization'', ''bfla''),
    (''broken function level authorisation'', ''bfla''),
    (''function level authorization'', ''bfla''),
    (''broken function level access control'', ''bfla''),
    (''missing function level access control'', ''bfla''),
    (''broken object level access control'', ''idor'')]"

definition synonyms :: "(string \<times> string) list" where
  "synonyms = dict_literal synonym_entries"

definition dedup_synonyms :: "(string \<times> string) list" where
  "dedup_synonyms = dict_literal dedup_entries"

definition legacy_categories :: "string list" where
  "legacy_categories = filter (\<lambda>c. c \<notin> {''insecure_transport'', ''missing_headers'', ''bfla''}) canonical_categories"

definition ambiguous_parts :: "string list" where
  "ambiguous_parts = [''broken access control'']"

definition distinctive_tokens :: "(string \<times> string) list" where
  "distinctive_tokens = dict_literal [
    (''csrf'', ''csrf''), (''xsrf'', ''csrf''), (''sqli'', ''sqli''), (''ssrf'', ''ssrf''),
    (''xxe'', ''xxe''), (''ssti'', ''ssti''), (''idor'', ''idor''), (''bola'', ''idor''),
    (''nosql'', ''nosql''), (''lfi'', ''path_traversal''), (''rfi'', ''path_traversal''),
    (''jwt'', ''jwt''), (''xss'', ''xss''), (''rce'', ''command_injection''),
    (''cors'', ''cors''), (''clickjacking'', ''csp''), (''bfla'', ''bfla'')]"

section \<open>Normalisation and lookup\<close>

text \<open>The tail \<open>\s*\([^)]*\)\s*$\<close> matches, and the text before its leftmost match.\<close>

definition annotation :: "string \<Rightarrow> bool" where
  "annotation s = (case dropWhile is_space s of
     [] \<Rightarrow> False
   | c # r \<Rightarrow> c = CHR ''('' \<and> (case dropWhile (\<lambda>d. d \<noteq> CHR '')'') r of
       [] \<Rightarrow> False
     | _ # r' \<Rightarrow> list_all is_space r'))"

fun strip_annotation :: "string \<Rightarrow> string" where
  "strip_annotation [] = []"
| "strip_annotation (c # cs) = (if annotation (c # cs) then [] else c # strip_annotation cs)"

text \<open>\<open>re.sub(r"\s+", " ", text)\<close>.\<close>

function collapse_spaces :: "string \<Rightarrow> string" where
  "collapse_spaces [] = []"
| "collapse_spaces (c # cs) =
     (if is_space c then CHR '' '' # collapse_spaces (dropWhile is_space cs) else c # collapse_spaces cs)"
  by pat_completeness auto
termination
  by (relation "measure length") (auto simp: le_imp_less_Suc length_dropWhile_le)

definition normalize :: "string \<Rightarrow> string" where
  "normalize s = py_strip (collapse_spaces
     (map (\<lambda>c. if c = CHR ''-'' then CHR '' '' else c) (strip_annotation s)))"

definition lookup :: "string \<Rightarrow> string list \<Rightarrow> (string \<times> string) list \<Rightarrow> string option" where
  "lookup key categories table =
     (if key \<in> set categories then Some key
      else case dict_get table key of
        Some c \<Rightarrow> Some c
      | None \<Rightarrow> (let n = normalize key in if n \<in> set categories then Some n else dict_get table n))"

text \<open>\<open>a or b\<close>, where the empty string counts as nothing.\<close>

definition str_or :: "string option \<Rightarrow> string option \<Rightarrow> string option" where
  "str_or a b = (case a of Some (x # xs) \<Rightarrow> a | _ \<Rightarrow> b)"

definition lookup_current :: "string \<Rightarrow> string option" where
  "lookup_current key =
     str_or (lookup key canonical_categories synonyms) (lookup key canonical_categories dedup_synonyms)"

definition label_parts :: "string \<Rightarrow> string list" where
  "label_parts key = filter (\<lambda>p. p \<noteq> []) (map py_strip (split_on (CHR ''/'') key))"

definition canonicalize :: "string option \<Rightarrow> string option" where
  "canonicalize raw = (case raw of None \<Rightarrow> None | Some [] \<Rightarrow> None | Some r \<Rightarrow>
     (let key = py_lower (py_strip r); whole = lookup_current key in
      if str_or whole None \<noteq> None \<or> CHR ''/'' \<notin> set key then whole
      else let parts = label_parts key in
        if list_ex (\<lambda>p. normalize p \<in> set ambiguous_parts) parts then None
        else case remdups (filter (\<lambda>c. c \<noteq> []) (List.map_filter lookup_current parts)) of
            [c] \<Rightarrow> Some c | _ \<Rightarrow> None))"

definition legacy_canonicalize :: "string option \<Rightarrow> string option" where
  "legacy_canonicalize raw = (case raw of None \<Rightarrow> None | Some [] \<Rightarrow> None
   | Some r \<Rightarrow> lookup (py_lower (py_strip r)) legacy_categories synonyms)"

section \<open>Distinctive tokens\<close>

text \<open>The maximal runs of word characters of a text.\<close>

fun word_runs :: "string \<Rightarrow> string list" where
  "word_runs [] = []"
| "word_runs (c # cs) = (if is_word c
     then (if cs \<noteq> [] \<and> is_word (hd cs) then (c # hd (word_runs cs)) # tl (word_runs cs) else [c] # word_runs cs)
     else word_runs cs)"

definition distinctive_token :: "string option \<Rightarrow> string option" where
  "distinctive_token raw = (case raw of None \<Rightarrow> None | Some r \<Rightarrow>
     (case remdups (List.map_filter (\<lambda>w. dict_get distinctive_tokens (py_lower w)) (word_runs r)) of
        [c] \<Rightarrow> Some c | _ \<Rightarrow> None))"

definition all_known_phrases :: "(string \<times> string) list" where
  "all_known_phrases =
     foldl (\<lambda>d (k, v). dict_set k v d)
       (foldl (\<lambda>d (k, v). dict_set k v d) (dict_literal (map (\<lambda>c. (c, c)) canonical_categories)) synonyms)
       dedup_synonyms"

section \<open>Lemmas\<close>

lemma foldl_dict_set_get: "dict_get (foldl (\<lambda>d (k, v). dict_set k v d) d xs) = dict_get d ++ map_of (rev xs)"
proof (induction xs arbitrary: d)
  case Nil
  then show ?case by simp
next
  case (Cons x xs)
  then show ?case by (cases x) (simp add: dict_get_set map_add_def fun_eq_iff split: option.split)
qed

lemma dict_get_literal: "dict_get (dict_literal xs) = map_of (rev xs)"
  by (simp add: dict_literal_def foldl_dict_set_get)

lemma dict_literal_value: "dict_get (dict_literal xs) k = Some v \<Longrightarrow> v \<in> snd ` set xs"
  by (auto simp: dict_get_literal dest!: map_of_SomeD intro: rev_image_eqI)

lemma lookup_literal: "lookup key cs (dict_literal xs) = lookup key cs (rev xs)"
  unfolding lookup_def dict_get_literal ..

lemma lookup_current_code [code]:
  "lookup_current key = str_or (lookup key canonical_categories (rev synonym_entries))
     (lookup key canonical_categories (rev dedup_entries))"
  by (simp add: lookup_current_def synonyms_def dedup_synonyms_def lookup_literal)

lemma legacy_code [code]:
  "legacy_canonicalize raw = (case raw of None \<Rightarrow> None | Some [] \<Rightarrow> None
   | Some r \<Rightarrow> lookup (py_lower (py_strip r)) legacy_categories (rev synonym_entries))"
  by (simp add: legacy_canonicalize_def synonyms_def lookup_literal split: option.split list.split)

lemma legacy_categories_code [code]:
  "legacy_categories = filter
     (\<lambda>c. \<not> List.member [''insecure_transport'', ''missing_headers'', ''bfla''] c) canonical_categories"
  by (simp add: legacy_categories_def)

lemma legacy_members:
  "''ai_llm'' \<in> set legacy_categories"
  "''anomaly'' \<in> set legacy_categories"
  "''api_security'' \<in> set legacy_categories"
  "''auth'' \<in> set legacy_categories"
  "''business_logic'' \<in> set legacy_categories"
  "''business_logic_enhanced'' \<in> set legacy_categories"
  "''command_injection'' \<in> set legacy_categories"
  "''cors'' \<in> set legacy_categories"
  "''crypto'' \<in> set legacy_categories"
  "''csp'' \<in> set legacy_categories"
  "''csrf'' \<in> set legacy_categories"
  "''deserialization'' \<in> set legacy_categories"
  "''dom_xss'' \<in> set legacy_categories"
  "''file_upload'' \<in> set legacy_categories"
  "''header_injection'' \<in> set legacy_categories"
  "''http_request_smuggling'' \<in> set legacy_categories"
  "''idor'' \<in> set legacy_categories"
  "''info_disclosure'' \<in> set legacy_categories"
  "''jwt'' \<in> set legacy_categories"
  "''misconfig'' \<in> set legacy_categories"
  "''nosql'' \<in> set legacy_categories"
  "''oauth'' \<in> set legacy_categories"
  "''open_redirect'' \<in> set legacy_categories"
  "''path_traversal'' \<in> set legacy_categories"
  "''race_condition'' \<in> set legacy_categories"
  "''rate_limit'' \<in> set legacy_categories"
  "''recon'' \<in> set legacy_categories"
  "''reset_token'' \<in> set legacy_categories"
  "''session_fixation'' \<in> set legacy_categories"
  "''session_timeout'' \<in> set legacy_categories"
  "''sqli'' \<in> set legacy_categories"
  "''ssrf'' \<in> set legacy_categories"
  "''ssti'' \<in> set legacy_categories"
  "''subdomain_takeover'' \<in> set legacy_categories"
  "''supply_chain'' \<in> set legacy_categories"
  "''toctou'' \<in> set legacy_categories"
  "''web_cache_poisoning'' \<in> set legacy_categories"
  "''websocket'' \<in> set legacy_categories"
  "''xss'' \<in> set legacy_categories"
  "''xxe'' \<in> set legacy_categories"
  by (simp_all add: legacy_categories_def canonical_categories_def)

lemma synonym_values: "list_all (\<lambda>(_, v). List.member legacy_categories v) synonym_entries"
  unfolding synonym_entries_def by (simp add: legacy_members)

lemma legacy_subset: "set legacy_categories \<subseteq> set canonical_categories"
  by (auto simp: legacy_categories_def)

lemma dedup_values: "list_all (\<lambda>(_, v). List.member canonical_categories v) dedup_entries"
  by code_simp

lemma lookup_range: "lookup key cs t = Some c \<Longrightarrow> c \<in> set cs \<union> snd ` set t"
  by (force simp: lookup_def Let_def dest!: map_of_SomeD split: if_splits option.splits)

lemma lookup_current_canonical:
  assumes "lookup_current key = Some c"
  shows "c \<in> set canonical_categories"
proof -
  from assms have "lookup key canonical_categories (rev synonym_entries) = Some c \<or>
      lookup key canonical_categories (rev dedup_entries) = Some c"
    by (auto simp: lookup_current_code str_or_def split: option.splits list.splits)
  then show ?thesis
    using synonym_values dedup_values legacy_subset by (fastforce simp: list_all_iff dest!: lookup_range)
qed

lemma categories_plain:
  "list_all (\<lambda>c. c \<noteq> [] \<and> py_lower (py_strip c) = c) canonical_categories"
  by code_simp

lemma canonicalize_category:
  assumes "c \<in> set canonical_categories"
  shows "canonicalize (Some c) = Some c"
proof -
  from assms categories_plain have "c \<noteq> []" "py_lower (py_strip c) = c"
    by (auto simp: list_all_iff)
  moreover from assms have "lookup c canonical_categories t = Some c" for t
    by (simp add: lookup_def)
  ultimately show ?thesis
    by (cases c) (simp_all add: canonicalize_def Let_def lookup_current_def str_or_def)
qed

lemma canonicalize_canonical:
  assumes "canonicalize raw = Some c"
  shows "c \<in> set canonical_categories"
proof -
  have parts: "c \<in> set canonical_categories"
    if "remdups (filter (\<lambda>c. c \<noteq> []) (List.map_filter lookup_current ps)) = [c]" for ps
  proof -
    from that have "c \<in> set (filter (\<lambda>c. c \<noteq> []) (List.map_filter lookup_current ps))"
      by (metis list.set_intros(1) set_remdups)
    then show ?thesis by (auto simp: List.map_filter_def intro: lookup_current_canonical)
  qed
  from assms show ?thesis
    by (auto simp: canonicalize_def Let_def intro: lookup_current_canonical parts
        split: option.splits list.splits if_splits)
qed

text \<open>The later phrases only add to the stored reading.\<close>

lemma new_names_unknown:
  "list_all (\<lambda>c. map_of (rev synonym_entries) c = None) [''insecure_transport'', ''missing_headers'', ''bfla'']"
  by code_simp

lemma normalize_new_names:
  "list_all (\<lambda>c. normalize c = c) [''insecure_transport'', ''missing_headers'', ''bfla'']"
  by code_simp

lemma canonical_split:
  "c \<in> set canonical_categories \<longleftrightarrow>
     c \<in> set legacy_categories \<or> c \<in> {''insecure_transport'', ''missing_headers'', ''bfla''}"
  by (auto simp: legacy_categories_def) (simp_all add: canonical_categories_def)

lemma legacy_lookup_extends:
  assumes "lookup key legacy_categories (rev synonym_entries) = Some c"
  shows "lookup key canonical_categories (rev synonym_entries) = Some c"
proof -
  have new: "map_of (rev synonym_entries) k = None" "normalize k = k"
    if "k \<in> {''insecure_transport'', ''missing_headers'', ''bfla''}" for k
    using that new_names_unknown normalize_new_names by auto
  have "key \<notin> {''insecure_transport'', ''missing_headers'', ''bfla''}"
  proof
    assume "key \<in> {''insecure_transport'', ''missing_headers'', ''bfla''}"
    moreover from this have "key \<notin> set legacy_categories" by (auto simp: legacy_categories_def)
    ultimately show False using assms new[of key] by (simp add: lookup_def)
  qed
  moreover have "normalize key \<notin> {''insecure_transport'', ''missing_headers'', ''bfla''}"
    if "key \<notin> set legacy_categories" "map_of (rev synonym_entries) key = None"
  proof
    assume n: "normalize key \<in> {''insecure_transport'', ''missing_headers'', ''bfla''}"
    then have "normalize key \<notin> set legacy_categories" by (auto simp: legacy_categories_def)
    with that n assms new(1)[OF n] show False by (simp add: lookup_def Let_def)
  qed
  ultimately show ?thesis
    using assms by (auto simp: lookup_def Let_def canonical_split split: option.splits if_splits)
qed

text \<open>\<open>canonicalize\<close> names only categories of the table, and reads each category as itself, so
  reading a name twice changes nothing.\<close>

theorem canonical_fixpoint:
  assumes "canonicalize raw = Some c"
  shows "c \<in> set canonical_categories \<and> canonicalize (Some c) = Some c"
  using canonicalize_canonical[OF assms] canonicalize_category by blast

theorem canonical_fixpoint_witness:
  "''sqli'' \<in> set canonical_categories \<and> canonicalize (Some ''sqli'') = Some ''sqli''"
proof -
  have "canonicalize (Some '' SQLi '') = Some ''sqli''" by code_simp
  then show ?thesis by (rule canonical_fixpoint)
qed

text \<open>The current reading extends the one behind the stored finding fingerprints: whatever
  \<open>legacy_canonicalize\<close> reads a name as, \<open>canonicalize\<close> reads it as too, and it is a category that
  existed then.\<close>

theorem reading_extends_legacy:
  assumes "legacy_canonicalize raw = Some c"
  shows "canonicalize raw = Some c \<and> c \<in> set legacy_categories"
proof -
  from assms obtain x xs where raw: "raw = Some (x # xs)"
    and key: "lookup (py_lower (py_strip (x # xs))) legacy_categories (rev synonym_entries) = Some c"
    by (auto simp: legacy_code split: option.splits list.splits)
  from key have c: "c \<in> set legacy_categories"
    using synonym_values by (fastforce simp: list_all_iff dest!: lookup_range)
  with categories_plain legacy_subset have "c \<noteq> []" by (auto simp: list_all_iff)
  moreover from legacy_lookup_extends[OF key]
  have "lookup_current (py_lower (py_strip (x # xs))) = str_or (Some c) (lookup (py_lower (py_strip (x # xs))) canonical_categories (rev dedup_entries))"
    by (simp add: lookup_current_code)
  ultimately have "lookup_current (py_lower (py_strip (x # xs))) = Some c"
    by (cases c) (simp_all add: str_or_def)
  with \<open>c \<noteq> []\<close> have "canonicalize raw = Some c"
    by (cases c) (simp_all add: raw canonicalize_def Let_def str_or_def)
  with c show ?thesis by simp
qed

theorem reading_extends_legacy_witness:
  "canonicalize (Some ''JWT'') = Some ''jwt'' \<and> ''jwt'' \<in> set legacy_categories"
proof -
  have "legacy_canonicalize (Some ''JWT'') = Some ''jwt''" by code_simp
  then show ?thesis by (rule reading_extends_legacy)
qed

text \<open>Two spellings of one phrase are two categories: only hyphens are read as spaces.\<close>

lemma underscores_split_class:
  "lookup_current ''excessive data exposure'' = Some ''api_security''"
  "lookup_current ''excessive_data_exposure'' = Some ''info_disclosure''"
  by code_simp+

text \<open>A repeated key loses its first value: the entry of \<open>toctou\<close> under race conditions is dead.\<close>

lemma shadowed_synonym:
  "(''toctou'', ''race_condition'') \<in> set synonym_entries"
  "dict_get synonyms ''toctou'' = Some ''toctou''"
proof -
  show "(''toctou'', ''race_condition'') \<in> set synonym_entries"
    by (simp add: synonym_entries_def)
  have "map_of (rev synonym_entries) ''toctou'' = Some ''toctou''" by code_simp
  then show "dict_get synonyms ''toctou'' = Some ''toctou''"
    by (simp add: synonyms_def dict_get_literal)
qed

end
