(* ===== verification/FindingGates.thy ===== *)
theory FindingGates
  imports Categories
begin

text \<open>
  The deterministic gates every finding passes between the agent that claims it and the report:
  the access-control gate (\<open>access_control_gate.py\<close>) and the header-noise gate
  (\<open>header_noise_gate.py\<close>) right after the agents, the confirmation-suppression gate
  (\<open>confirmation_gate.py\<close>) after the validators. A finding is a record of the fields the gates
  read and write; each gate is a function on one finding, lifted over the reports.
  Markers are matched as substrings of the lowercased class, as in the code.

  \<open>unconfirmed_capped\<close> says what an unconfirmed finding can ship as,
  \<open>refuted_iff_same_case\<close> says when it is called a likely false positive,
  \<open>proved_findings_untouched\<close> that the gate changes nothing else, \<open>gates_only_lower\<close> that no gate
  raises a severity or a confidence.
\<close>

section \<open>Findings and reports\<close>

record agent_finding =
  vuln_class :: string
  confidence :: real
  summary :: string
  basis :: string
  severity :: string
  original_confidence :: "real option"
  review_verdict :: "string option"
  review_note :: "string option"
  original_severity :: "string option"
  confirmed :: bool
  confirmed_by_leg :: string
  confirmation_method :: string
  oracle_verified :: bool
  finding_id :: string
  principal_id :: string
  parameter_name :: string
  proof_id :: string

record agent_report =
  agent :: string
  findings :: "agent_finding list"

record validation =
  v_status :: string
  v_class :: string
  v_confirmed :: bool
  v_parameter :: string
  v_principal :: string
  v_outcome :: string

definition text_or :: "string option \<Rightarrow> string" where
  "text_or s = option_or s []"

definition any_marker :: "string list \<Rightarrow> string \<Rightarrow> bool" where
  "any_marker markers s = list_ex (\<lambda>m. contains_str m s) markers"

section \<open>The markers\<close>

definition confirmable_markers :: "string list" where
  "confirmable_markers = [
    ''idor'', ''insecure_direct_object'', ''insecure direct object'', ''broken_access_control'',
    ''broken access control'', ''bola'', ''bfla'', ''privilege escalation'',
    ''privilege_escalation'', ''missing authorization'', ''missing_authorization'',
    ''sql_injection'', ''sql injection'', ''sqli'', ''xss'', ''cross_site_scripting'',
    ''cross-site scripting'', ''cross site scripting'', ''ssrf'', ''server_side_request_forgery'',
    ''server-side request forgery'', ''server side request forgery'', ''xxe'',
    ''xml_external_entity'', ''xml external entity'', ''jwt'', ''jwt_forge'',
    ''algorithm confusion'', ''algorithm_confusion'', ''weak_token'', ''command_injection'',
    ''command injection'', ''rce'', ''remote code execution'', ''remote_code_execution'',
    ''shell injection'', ''shell_injection'', ''ssti'', ''template_injection'',
    ''template injection'', ''path_traversal'', ''path traversal'', ''directory traversal'',
    ''directory_traversal'', ''lfi'', ''local file inclusion'', ''file inclusion'',
    ''open_redirect'', ''open redirect'', ''unvalidated redirect'', ''unvalidated_redirect'',
    ''mass_assignment'', ''mass assignment'', ''deserialization'', ''insecure deserialization'',
    ''insecure_deserialization'', ''pickle'', ''session_fixation'', ''session fixation'',
    ''weak_password'', ''weak password'', ''username_enumeration'', ''username enumeration'',
    ''user enumeration'', ''csrf'', ''cross-site request forgery'',
    ''cross site request forgery'', ''xsrf'', ''file_upload'', ''file upload'',
    ''arbitrary file upload'', ''unrestricted file upload'', ''verb_tamper'', ''verb tamper'',
    ''method tampering'', ''http method'', ''misconfig'', ''rate_limit'', ''rate limit'',
    ''no rate limiting'', ''brute force'', ''brute_force'', ''lockout'', ''account lockout'',
    ''reset_token'', ''reset token'', ''predictable token'', ''weak token'', ''insecure token'',
    ''token entropy'', ''dom_xss'', ''dom xss'', ''dom-based xss'', ''dom based xss'',
    ''client-side xss'', ''toctou'', ''time-of-check'', ''time of check'', ''check-then-act'',
    ''privilege escalation race'']"

definition live_verified_markers :: "string list" where
  "live_verified_markers = [
    ''idor'', ''insecure_direct_object'', ''insecure direct object'', ''broken_access_control'',
    ''broken access control'', ''bola'', ''bfla'', ''missing authorization'',
    ''missing_authorization'', ''sql_injection'', ''sql injection'', ''sqli'', ''xxe'',
    ''xml_external_entity'', ''xml external entity'', ''path_traversal'', ''path traversal'',
    ''directory traversal'', ''directory_traversal'', ''lfi'', ''local file inclusion'',
    ''file inclusion'', ''jwt'', ''jwt_forge'', ''algorithm confusion'', ''algorithm_confusion'',
    ''weak_token'', ''ssti'', ''template_injection'', ''template injection'', ''open_redirect'',
    ''open redirect'', ''unvalidated redirect'', ''unvalidated_redirect'', ''ssrf'',
    ''server_side_request_forgery'', ''server-side request forgery'',
    ''server side request forgery'', ''command_injection'', ''command injection'', ''rce'',
    ''remote code execution'', ''remote_code_execution'', ''shell injection'',
    ''shell_injection'', ''mass_assignment'', ''mass assignment'', ''privilege escalation'',
    ''privilege_escalation'', ''deserialization'', ''insecure deserialization'',
    ''insecure_deserialization'', ''pickle'', ''session_fixation'', ''session fixation'',
    ''weak_password'', ''weak password'', ''username_enumeration'', ''username enumeration'',
    ''user enumeration'', ''file_upload'', ''file upload'', ''arbitrary file upload'',
    ''unrestricted file upload'', ''xss'', ''cross_site_scripting'', ''cross-site scripting'',
    ''cross site scripting'']"

definition provisional_markers :: "string list" where
  "provisional_markers = [
    ''dom_xss'', ''dom xss'', ''dom-based xss'', ''dom based xss'', ''client-side xss'',
    ''client side xss'', ''toctou'', ''time-of-check'', ''time of check'', ''check-then-act'',
    ''check then act'', ''privilege escalation race'', ''privilege_escalation_race'',
    ''rate_limit'', ''rate limit'', ''no rate limiting'', ''brute force'', ''brute_force'',
    ''lockout'', ''account lockout'', ''reset_token'', ''reset token'', ''predictable token'',
    ''insecure token'', ''token entropy'']"

definition access_control_markers :: "string list" where
  "access_control_markers = [
    ''idor'', ''insecure_direct_object'', ''insecure direct object'', ''object-level'',
    ''object level authorization'', ''function-level authorization'',
    ''function level authorization'', ''broken_access_control'', ''broken access control'',
    ''bola'', ''bfla'', ''missing authorization'', ''missing_authorization'',
    ''privilege escalation'', ''privilege_escalation'', ''unauthorized access'',
    ''broken_authentication'', ''broken authentication'']"

definition header_noise_markers :: "string list" where
  "header_noise_markers = [
    ''cors'', ''cross-origin resource sharing'', ''csp'', ''content security policy'',
    ''content-security-policy'', ''clickjack'', ''x-frame'', ''frame options'', ''frame-options'',
    ''hsts'', ''strict-transport'', ''strict transport'', ''missing security header'',
    ''missing header'', ''security headers'', ''referrer-policy'', ''referrer policy'',
    ''permissions-policy'', ''permissions policy'', ''feature-policy'',
    ''x-content-type-options'', ''content-type-options'', ''nosniff'']"

section \<open>Access-control gate\<close>

definition denial_statuses :: "int list" where "denial_statuses = [401, 403, 405]"

definition capped_confidence :: real where "capped_confidence = 15 / 100"

definition is_access_control_class :: "string \<Rightarrow> bool" where
  "is_access_control_class c = any_marker access_control_markers (py_lower c)"

definition denial_note :: "int \<Rightarrow> string" where
  "denial_note status = ''Access-control claim capped by deterministic response gate: the request was denied with HTTP ''
     @ dec_str (nat status) @ '', so the control was enforced on this exchange. A real broken-access-control finding requires the unauthorized request to succeed (typically 2xx returning another identity's data), not to be blocked.''"

definition cap_denied :: "int \<Rightarrow> agent_finding \<Rightarrow> bool \<times> agent_finding" where
  "cap_denied status f =
     (if \<not> is_access_control_class (vuln_class f) then (False, f)
      else if confidence f \<le> capped_confidence then (False, f)
      else (True, f\<lparr>original_confidence := Some (confidence f), confidence := capped_confidence,
        severity := (if severity f \<notin> {''info'', ''low''} then ''low'' else severity f),
        review_verdict := Some ''downgraded'', review_note := Some (denial_note status)\<rparr>))"

text \<open>The loop both gates run: over the reports and their findings, counting the changed ones.\<close>

definition map_counting :: "('a \<Rightarrow> bool \<times> 'a) \<Rightarrow> 'a list \<Rightarrow> nat \<times> 'a list" where
  "map_counting g xs = (length (filter (\<lambda>x. fst (g x)) xs), map (\<lambda>x. snd (g x)) xs)"

definition gate_report :: "(agent_finding \<Rightarrow> bool \<times> agent_finding) \<Rightarrow> agent_report \<Rightarrow> nat \<times> agent_report" where
  "gate_report g r = (let (n, fs) = map_counting g (findings r) in (n, r\<lparr>findings := fs\<rparr>))"

definition gate_reports :: "(agent_finding \<Rightarrow> bool \<times> agent_finding) \<Rightarrow> agent_report list \<Rightarrow> nat \<times> agent_report list" where
  "gate_reports g rs = (sum_list (map (\<lambda>r. fst (gate_report g r)) rs), map (\<lambda>r. snd (gate_report g r)) rs)"

definition apply_access_control_gate :: "int option \<Rightarrow> agent_report list \<Rightarrow> nat \<times> agent_report list" where
  "apply_access_control_gate status rs = (case status of
     Some st \<Rightarrow> if st \<notin> set denial_statuses then (0, rs) else gate_reports (cap_denied st) rs
   | None \<Rightarrow> (0, rs))"

section \<open>Header-noise gate\<close>

definition sev_rank :: "(string \<times> nat) list" where
  "sev_rank = [(''info'', 0), (''low'', 1), (''medium'', 2), (''high'', 3), (''critical'', 4)]"

definition is_header_noise_class :: "string \<Rightarrow> bool" where
  "is_header_noise_class c = any_marker header_noise_markers (py_lower c)"

definition cap_noise :: "agent_finding \<Rightarrow> bool \<times> agent_finding" where
  "cap_noise f =
     (if \<not> is_header_noise_class (vuln_class f) then (False, f)
      else let sev = py_lower (list_or (severity f) ''info'') in
        if option_or (dict_get sev_rank sev) 0 > 1
        then (True, f\<lparr>original_severity := (if original_severity f = None then Some sev else original_severity f),
                severity := ''low''\<rparr>)
        else (False, f))"

definition apply_header_noise_gate :: "agent_report list \<Rightarrow> nat \<times> agent_report list" where
  "apply_header_noise_gate rs = gate_reports cap_noise rs"

section \<open>Lifecycle, triage and quarantine\<close>

datatype leg_tier = Live | Provisional | NoLeg
datatype lifecycle = CONFIRMED | SUSPECTED | LEAD

definition is_confirmable_class :: "string \<Rightarrow> bool" where
  "is_confirmable_class c = (c \<noteq> [] \<and> any_marker confirmable_markers (py_lower c))"

definition leg_tier_of :: "string \<Rightarrow> string list option \<Rightarrow> leg_tier" where
  "leg_tier_of c override =
     (if \<not> is_confirmable_class c then NoLeg
      else let low = py_lower c; live = option_or override live_verified_markers;
               prov = filter (\<lambda>m. contains_str m low) provisional_markers in
        if prov \<noteq> []
        then (if override \<noteq> None \<and> list_ex (\<lambda>m. List.member live m) prov then Live else Provisional)
        else if any_marker live low then Live else Provisional)"

definition lead_verdicts :: "string list" where
  "lead_verdicts = [''unconfirmed_hypothesis'', ''inconclusive_unverified'', ''downgraded'', ''rejected'']"

definition lifecycle_state :: "bool \<Rightarrow> string option \<Rightarrow> lifecycle" where
  "lifecycle_state conf verdict =
     (if conf then CONFIRMED
      else if List.member lead_verdicts (py_lower (text_or verdict)) then LEAD else SUSPECTED)"

definition finding_lifecycle_state :: "agent_finding \<Rightarrow> lifecycle" where
  "finding_lifecycle_state f = lifecycle_state (confirmed f) (review_verdict f)"

record triage =
  evidence_maturity :: string
  triage_priority :: string
  impact_severity :: string

definition finding_triage :: "agent_finding \<Rightarrow> triage" where
  "finding_triage f = (let verdict = py_lower (text_or (review_verdict f));
       (maturity, priority) =
        (if confirmed f
         then (if leg_tier_of (vuln_class f) None = NoLeg then ''confirmed_observation'' else ''confirmed'',
               ''review_confirmed'')
         else if verdict = ''unconfirmed_hypothesis'' then (''controlled_negative'', ''review_negative'')
         else if verdict = ''rejected'' \<or> verdict = ''downgraded'' then (''review_rejected'', ''review_negative'')
         else (if leg_tier_of (vuln_class f) None = NoLeg then ''unverified_no_leg'' else ''unverified'',
               ''manual_verification''))
     in \<lparr>evidence_maturity = maturity, triage_priority = priority,
         impact_severity = list_or (list_or (text_or (original_severity f)) (severity f)) ''info''\<rparr>)"

definition active_confirmation_is_unproven :: "agent_finding \<Rightarrow> bool" where
  "active_confirmation_is_unproven f =
     (if \<not> confirmed f then False
      else if confirmed_by_leg f \<noteq> [] \<or> proof_id f \<noteq> [] \<or> confirmation_method f \<noteq> [] then False
      else leg_tier_of (vuln_class f) None \<noteq> NoLeg)"

definition should_quarantine_as_lead :: "agent_finding \<Rightarrow> bool" where
  "should_quarantine_as_lead f =
     (if confirmed f \<or> oracle_verified f then False
      else if py_lower (list_or (basis f) ''derived'') \<notin> {''assumed'', ''recalled''} then False
      else leg_tier_of (vuln_class f) None = Live)"

definition generic_class_key :: "string \<Rightarrow> string" where
  "generic_class_key c = text_or (str_or (canonicalize (Some c)) (Some (py_lower (py_strip c))))"

definition default_generic_classes :: "string list" where
  "default_generic_classes = map generic_class_key [''Security misconfiguration'',
     ''Broken Access Control (Workflow Bypass)'', ''SQL injection'', ''Information Disclosure'']"

definition is_low_confidence_generic_guess :: "real \<Rightarrow> string list \<Rightarrow> agent_finding \<Rightarrow> bool" where
  "is_low_confidence_generic_guess level classes f =
     (if confirmed f \<or> oracle_verified f then False
      else if confidence f \<ge> level then False
      else generic_class_key (vuln_class f) \<in> set classes)"

definition default_catchall_classes :: "string list" where
  "default_catchall_classes = map generic_class_key [''Security misconfiguration'', ''Information Disclosure'']"

definition is_uncorroborated_catchall_guess :: "string list \<Rightarrow> agent_finding \<Rightarrow> bool" where
  "is_uncorroborated_catchall_guess classes f =
     (if confirmed f \<or> oracle_verified f then False else generic_class_key (vuln_class f) \<in> set classes)"

section \<open>Confirmation-suppression gate\<close>

text \<open>The controlled negatives, by canonical class: the parameter and the principal each was run for.\<close>

type_synonym negatives = "(string \<times> (string \<times> string) list) list"

definition canon_class :: "string \<Rightarrow> string" where
  "canon_class c = text_or (str_or (canonicalize (Some c)) (Some (py_lower c)))"

definition is_controlled_negative :: "validation \<Rightarrow> bool" where
  "is_controlled_negative v \<longleftrightarrow> py_lower (v_status v) = ''not_confirmed'' \<and> \<not> v_confirmed v \<and>
     (py_lower (v_outcome v) = [] \<or> py_lower (v_outcome v) = ''control_held'')"

definition add_negative :: "negatives \<Rightarrow> validation \<Rightarrow> negatives" where
  "add_negative ns v =
     (if is_controlled_negative v
      then (let c = canon_class (v_class v) in
            dict_set c (List.insert (v_parameter v, v_principal v) (option_or (dict_get ns c) [])) ns)
      else ns)"

definition controlled_negatives :: "validation list \<Rightarrow> negatives" where
  "controlled_negatives vs = foldl add_negative [] vs"

definition controlled_negative_classes :: "validation list \<Rightarrow> string list" where
  "controlled_negative_classes vs = map fst (controlled_negatives vs)"

definition has_controlled_negative :: "negatives \<Rightarrow> string \<Rightarrow> string \<Rightarrow> string \<Rightarrow> bool" where
  "has_controlled_negative ns c param who = (case dict_get ns c of
     None \<Rightarrow> False
   | Some entries \<Rightarrow> list_ex (\<lambda>(p, q). p = param \<and> q = who) entries)"

text \<open>The ledger event the gate records for a demoted finding.\<close>

record revision =
  rev_finding :: string
  rev_tier :: string
  rev_verdict :: "string option"
  rev_severity :: string
  rev_confidence :: real
  rev_original_severity :: "string option"
  rev_original_confidence :: "real option"

definition emit_revision :: "string \<Rightarrow> agent_finding \<Rightarrow> revision list" where
  "emit_revision tier f =
     (if finding_id f = [] then []
      else [\<lparr>rev_finding = finding_id f, rev_tier = tier, rev_verdict = review_verdict f,
        rev_severity = severity f, rev_confidence = confidence f,
        rev_original_severity = original_severity f, rev_original_confidence = original_confidence f\<rparr>])"

definition append_note :: "string \<Rightarrow> agent_finding \<Rightarrow> agent_finding" where
  "append_note note f = f\<lparr>review_note :=
     Some (if text_or (review_note f) \<noteq> [] then text_or (review_note f) @ '' '' @ note else note)\<rparr>"

definition add_prefix :: "string \<Rightarrow> agent_finding \<Rightarrow> agent_finding" where
  "add_prefix p f =
     (if summary f \<noteq> [] \<and> \<not> starts_with p (summary f) then f\<lparr>summary := p @ '' '' @ summary f\<rparr> else f)"

definition keep_confidence :: "agent_finding \<Rightarrow> agent_finding" where
  "keep_confidence f =
     (if original_confidence f = None then f\<lparr>original_confidence := Some (confidence f)\<rparr> else f)"

definition cap_severity :: "string list \<Rightarrow> string \<Rightarrow> agent_finding \<Rightarrow> agent_finding" where
  "cap_severity severities cap f =
     (if severity f \<in> set severities
      then f\<lparr>original_severity := (if original_severity f = None then Some (severity f) else original_severity f),
             severity := cap\<rparr>
      else f)"

definition refuted_note :: string where
  "refuted_note = ''Demoted by confirmation-suppression gate: this class has a LIVE-VERIFIED leg that RAN and did not confirm the finding on target -- treated as a likely false positive.''"

definition unverified_note :: string where
  "unverified_note = ''Capped by confirmation-suppression gate: this class has a live-verified leg, but NO confirmation execution produced a negative for this finding (the leg was skipped/errored/disabled or not run). It is neither confirmed nor refuted -- do NOT treat it as a false positive; re-run with the leg enabled.''"

definition unproven_note :: string where
  "unproven_note = ''Capped by confirmation-suppression gate: this class's confirmation leg is not yet live-verified, so the finding is neither confirmed nor reliably refutable -- kept at capped severity pending live verification (Phase 2).''"

definition suppress_live :: "negatives \<Rightarrow> agent_finding \<Rightarrow> agent_finding" where
  "suppress_live ns f =
     (let neg = has_controlled_negative ns (canon_class (vuln_class f)) (parameter_name f) (principal_id f);
          f1 = cap_severity [''critical'', ''high'', ''medium''] ''low''
                 (f\<lparr>confidence := min (confidence f) (35 / 100)\<rparr>)
      in if neg
         then add_prefix ''[Hypothesis]'' (append_note refuted_note (f1\<lparr>review_verdict := Some ''unconfirmed_hypothesis''\<rparr>))
         else add_prefix ''[Unverified]'' (append_note unverified_note (f1\<lparr>review_verdict := Some ''inconclusive_unverified''\<rparr>)))"

definition suppress_provisional :: "agent_finding \<Rightarrow> agent_finding" where
  "suppress_provisional f =
     add_prefix ''[Unconfirmed]'' (append_note unproven_note
       ((cap_severity [''critical'', ''high''] ''medium'' (f\<lparr>confidence := min (confidence f) (1 / 2)\<rparr>))
          \<lparr>review_verdict := Some ''unproven_unverified_leg''\<rparr>))"

definition suppress :: "negatives \<Rightarrow> string list option \<Rightarrow> agent_finding \<Rightarrow> agent_finding \<times> nat \<times> revision list" where
  "suppress ns override f =
     (if confirmed f then (f, 0, [])
      else case leg_tier_of (vuln_class f) override of
        NoLeg \<Rightarrow> (f, 0, [])
      | Live \<Rightarrow> (let g = suppress_live ns (keep_confidence f) in (g, 1, emit_revision ''live'' g))
      | Provisional \<Rightarrow> (let g = suppress_provisional (keep_confidence f) in (g, 1, emit_revision ''provisional'' g)))"

definition suppress_report :: "negatives \<Rightarrow> string list option \<Rightarrow> agent_report \<Rightarrow> agent_report" where
  "suppress_report ns override r = r\<lparr>findings := map (\<lambda>f. fst (suppress ns override f)) (findings r)\<rparr>"

definition all_findings :: "agent_report list \<Rightarrow> agent_finding list" where
  "all_findings rs = concat (map findings rs)"

definition apply_confirmation_suppression ::
  "agent_report list \<Rightarrow> validation list \<Rightarrow> string list option \<Rightarrow> nat \<times> agent_report list \<times> revision list" where
  "apply_confirmation_suppression rs vs override =
     (let ns = controlled_negatives vs; rows = map (suppress ns override) (all_findings rs) in
      (sum_list (map (fst \<circ> snd) rows), map (suppress_report ns override) rs, concat (map (snd \<circ> snd) rows)))"

section \<open>Lemmas\<close>

named_theorems finding_defs \<open>the field updates of the gates\<close>

declare append_note_def [finding_defs] add_prefix_def [finding_defs] keep_confidence_def [finding_defs]
  cap_severity_def [finding_defs]

lemma suppress_live_fields:
  "vuln_class (suppress_live ns f) = vuln_class f" "confirmed (suppress_live ns f) = confirmed f"
  "parameter_name (suppress_live ns f) = parameter_name f" "principal_id (suppress_live ns f) = principal_id f"
  "finding_id (suppress_live ns f) = finding_id f"
  "confidence (suppress_live ns f) = min (confidence f) (35 / 100)"
  "severity (suppress_live ns f) = (if severity f \<in> {''critical'', ''high'', ''medium''} then ''low'' else severity f)"
  "review_verdict (suppress_live ns f) =
     Some (if has_controlled_negative ns (canon_class (vuln_class f)) (parameter_name f) (principal_id f)
           then ''unconfirmed_hypothesis'' else ''inconclusive_unverified'')"
  by (auto simp: suppress_live_def Let_def finding_defs)

lemma suppress_provisional_fields:
  "vuln_class (suppress_provisional f) = vuln_class f" "confirmed (suppress_provisional f) = confirmed f"
  "parameter_name (suppress_provisional f) = parameter_name f" "principal_id (suppress_provisional f) = principal_id f"
  "finding_id (suppress_provisional f) = finding_id f"
  "confidence (suppress_provisional f) = min (confidence f) (1 / 2)"
  "severity (suppress_provisional f) = (if severity f \<in> {''critical'', ''high''} then ''medium'' else severity f)"
  "review_verdict (suppress_provisional f) = Some ''unproven_unverified_leg''"
  by (auto simp: suppress_provisional_def finding_defs)

lemma keep_confidence_fields [simp]:
  "vuln_class (keep_confidence f) = vuln_class f" "confirmed (keep_confidence f) = confirmed f"
  "parameter_name (keep_confidence f) = parameter_name f" "principal_id (keep_confidence f) = principal_id f"
  "finding_id (keep_confidence f) = finding_id f" "confidence (keep_confidence f) = confidence f"
  "severity (keep_confidence f) = severity f" "original_severity (keep_confidence f) = original_severity f"
  by (simp_all add: keep_confidence_def)

lemmas suppress_fields = suppress_live_fields suppress_provisional_fields

text \<open>Which findings the gate acts on.\<close>

definition gated :: "string list option \<Rightarrow> agent_finding \<Rightarrow> bool" where
  "gated override f \<longleftrightarrow> \<not> confirmed f \<and> leg_tier_of (vuln_class f) override \<noteq> NoLeg"

lemma suppress_untouched: "\<not> gated override f \<Longrightarrow> suppress ns override f = (f, 0, [])"
  by (auto simp: gated_def suppress_def)

lemma suppress_count: "fst (snd (suppress ns override f)) = (if gated override f then 1 else 0)"
  by (cases "leg_tier_of (vuln_class f) override") (auto simp: gated_def suppress_def Let_def)

lemma sum_indicator: "(\<Sum>x\<leftarrow>xs. if P x then 1 else 0) = length (filter P xs)"
  by (induction xs) auto

lemma suppress_class [simp]: "vuln_class (fst (suppress ns override f)) = vuln_class f"
  by (cases "leg_tier_of (vuln_class f) override") (auto simp: suppress_def Let_def suppress_fields)

lemma suppress_confirmed [simp]: "confirmed (fst (suppress ns override f)) = confirmed f"
  by (cases "leg_tier_of (vuln_class f) override") (auto simp: suppress_def Let_def suppress_fields)

lemma all_findings_suppress:
  "all_findings (map (suppress_report ns override) rs) =
     map (\<lambda>f. fst (suppress ns override f)) (all_findings rs)"
  by (simp add: all_findings_def suppress_report_def map_concat o_def)

text \<open>The table of negatives holds exactly the controlled negatives among the validation reports.\<close>

lemma has_negative_add:
  "has_controlled_negative (add_negative ns v) c p q \<longleftrightarrow>
     has_controlled_negative ns c p q \<or>
     is_controlled_negative v \<and> canon_class (v_class v) = c \<and> v_parameter v = p \<and> v_principal v = q"
proof (cases "is_controlled_negative v \<and> canon_class (v_class v) = c")
  case True
  then have "dict_get (add_negative ns v) c =
      Some (List.insert (v_parameter v, v_principal v) (option_or (dict_get ns c) []))"
    by (auto simp: add_negative_def Let_def)
  with True show ?thesis
    by (auto simp: has_controlled_negative_def list_ex_iff option_or_def split: option.split)
next
  case False
  then have "dict_get (add_negative ns v) c = dict_get ns c"
    by (auto simp: add_negative_def Let_def)
  with False show ?thesis by (auto simp: has_controlled_negative_def)
qed

lemma has_negative_foldl:
  "has_controlled_negative (foldl add_negative ns vs) c p q \<longleftrightarrow>
     has_controlled_negative ns c p q \<or>
     (\<exists>v \<in> set vs. is_controlled_negative v \<and> canon_class (v_class v) = c \<and> v_parameter v = p \<and> v_principal v = q)"
  by (induction vs arbitrary: ns) (auto simp: has_negative_add)

lemma has_negative_iff:
  "has_controlled_negative (controlled_negatives vs) c p q \<longleftrightarrow>
     (\<exists>v \<in> set vs. is_controlled_negative v \<and> canon_class (v_class v) = c \<and> v_parameter v = p \<and> v_principal v = q)"
  by (simp add: controlled_negatives_def has_negative_foldl) (simp add: has_controlled_negative_def)

section \<open>Properties\<close>

definition known_severity :: "agent_finding \<Rightarrow> bool" where
  "known_severity f \<longleftrightarrow> severity f \<in> {''info'', ''low'', ''medium'', ''high'', ''critical''}"

definition rank :: "agent_finding \<Rightarrow> nat" where
  "rank f = option_or (dict_get sev_rank (severity f)) 0"

lemma severity_cases:
  assumes "known_severity f"
  obtains "severity f = ''info''" | "severity f = ''low''" | "severity f = ''medium''"
    | "severity f = ''high''" | "severity f = ''critical''"
  using assms by (auto simp: known_severity_def)

lemma rank_values [simp]:
  "severity f = ''info'' \<Longrightarrow> rank f = 0" "severity f = ''low'' \<Longrightarrow> rank f = 1"
  "severity f = ''medium'' \<Longrightarrow> rank f = 2" "severity f = ''high'' \<Longrightarrow> rank f = 3"
  "severity f = ''critical'' \<Longrightarrow> rank f = 4"
  by (simp_all add: rank_def sev_rank_def option_or_def)

lemma known_keep [simp]: "known_severity (keep_confidence f) = known_severity f"
  by (simp add: known_severity_def)

lemma suppress_live_lead: "\<not> confirmed f \<Longrightarrow> finding_lifecycle_state (suppress_live ns f) = LEAD"
  by (simp add: finding_lifecycle_state_def lifecycle_state_def suppress_live_fields text_or_def
      option_or_def lead_verdicts_def) (auto simp: py_lower_def char_lower_code)

lemma suppress_provisional_suspected: "\<not> confirmed f \<Longrightarrow> finding_lifecycle_state (suppress_provisional f) = SUSPECTED"
  by (simp add: finding_lifecycle_state_def lifecycle_state_def suppress_provisional_fields text_or_def
      option_or_def lead_verdicts_def) (auto simp: py_lower_def char_lower_code)

text \<open>C30: What the confirmation-suppression gate makes of every finding, in order. A confirmed one, or one of a class without a leg, is
  left as it is. An unconfirmed one of a class with a live-verified leg becomes a LEAD of confidence at most 0.35, and
  the severities critical, high and medium become low; one with a provisional leg becomes SUSPECTED with at most 0.5, and
  critical and high become medium. Severities are compared as written: in another spelling, such as High, they are kept.\<close>

theorem unconfirmed_capped:
  assumes "apply_confirmation_suppression rs vs override = (n, rs', revs)"
  shows "list_all2 (\<lambda>f g. vuln_class g = vuln_class f \<and> confirmed g = confirmed f \<and>
      (if confirmed f then g = f
       else case leg_tier_of (vuln_class f) override of
         NoLeg \<Rightarrow> g = f
       | Live \<Rightarrow> severity g = (if severity f \<in> {''critical'', ''high'', ''medium''} then ''low'' else severity f) \<and>
           confidence g = min (confidence f) (35 / 100) \<and> finding_lifecycle_state g = LEAD
       | Provisional \<Rightarrow> severity g = (if severity f \<in> {''critical'', ''high''} then ''medium'' else severity f) \<and>
           confidence g = min (confidence f) (1 / 2) \<and> finding_lifecycle_state g = SUSPECTED))
    (all_findings rs) (all_findings rs')"
proof -
  have rs': "all_findings rs' = map (\<lambda>f. fst (suppress (controlled_negatives vs) override f)) (all_findings rs)"
    using assms by (auto simp: apply_confirmation_suppression_def Let_def all_findings_suppress)
  have live: "finding_lifecycle_state (suppress_live ns (keep_confidence f)) = LEAD"
    and prov: "finding_lifecycle_state (suppress_provisional (keep_confidence f)) = SUSPECTED" if "\<not> confirmed f" for ns f
    using that by (simp_all add: suppress_live_lead suppress_provisional_suspected)
  show ?thesis
    unfolding rs' list_all2_map2 list_all2_same
    by (intro ballI) (simp add: suppress_def Let_def suppress_fields live prov split: leg_tier.split)
qed

text \<open>C31: When the gate calls a finding a likely false positive, for every finding: exactly when it is unconfirmed, its class has a
  live-verified leg, and some validator of the same canonical class ran for the same parameter under the same principal and
  reported that the control held. Without such a run the verdict of an unconfirmed finding with a live-verified leg is
  inconclusive, with a provisional leg it is unproven whatever ran, and otherwise the verdict is left as it was.\<close>

theorem refuted_iff_same_case:
  "review_verdict (fst (suppress (controlled_negatives vs) override f)) =
    (if confirmed f \<or> leg_tier_of (vuln_class f) override = NoLeg then review_verdict f
     else if leg_tier_of (vuln_class f) override = Provisional then Some ''unproven_unverified_leg''
     else if \<exists>v. v \<in> set vs \<and> is_controlled_negative v \<and> canon_class (v_class v) = canon_class (vuln_class f) \<and>
              v_parameter v = parameter_name f \<and> v_principal v = principal_id f
          then Some ''unconfirmed_hypothesis'' else Some ''inconclusive_unverified'')"
  by (cases "leg_tier_of (vuln_class f) override") (auto simp: suppress_def Let_def suppress_fields has_negative_iff)

text \<open>The gate touches nothing it has no leg for and nothing a leg has proved; it counts exactly
  the findings it acts on, in order, and keeps which reports they are in.\<close>

theorem proved_findings_untouched:
  assumes "apply_confirmation_suppression rs vs override = (n, rs', revs)"
  shows "n = length (filter (gated override) (all_findings rs)) \<and> map agent rs' = map agent rs \<and>
    list_all2 (\<lambda>f g. vuln_class g = vuln_class f \<and> confirmed g = confirmed f \<and>
        (\<not> gated override f \<longrightarrow> g = f)) (all_findings rs) (all_findings rs')"
proof (intro conjI)
  let ?ns = "controlled_negatives vs"
  from assms have n: "n = sum_list (map (\<lambda>f. fst (snd (suppress ?ns override f))) (all_findings rs))"
    and rs': "rs' = map (suppress_report ?ns override) rs"
    by (simp_all add: apply_confirmation_suppression_def Let_def o_def)
  show "n = length (filter (gated override) (all_findings rs))"
    unfolding n suppress_count by (rule sum_indicator)
  show "map agent rs' = map agent rs" by (simp add: rs' suppress_report_def)
  show "list_all2 (\<lambda>f g. vuln_class g = vuln_class f \<and> confirmed g = confirmed f \<and>
        (\<not> gated override f \<longrightarrow> g = f)) (all_findings rs) (all_findings rs')"
    unfolding rs' all_findings_suppress
    by (simp add: list_all2_conv_all_nth suppress_untouched)
qed

section \<open>The gates together\<close>

text \<open>The two gates \<open>analysis_pipeline.py\<close> runs on the reports of the agents.\<close>

definition after_agents :: "int option \<Rightarrow> agent_report list \<Rightarrow> agent_report list" where
  "after_agents status rs = snd (apply_header_noise_gate (snd (apply_access_control_gate status rs)))"

definition lowered :: "agent_finding \<Rightarrow> agent_finding \<Rightarrow> bool" where
  "lowered f g \<longleftrightarrow> rank g \<le> rank f \<and> confidence g \<le> confidence f \<and> known_severity g \<and>
     vuln_class g = vuln_class f \<and> confirmed g = confirmed f \<and> finding_id g = finding_id f"

lemma lowered_refl: "known_severity f \<Longrightarrow> lowered f f"
  by (simp add: lowered_def)

lemma lowered_trans: "lowered f g \<Longrightarrow> lowered g h \<Longrightarrow> lowered f h"
  by (auto simp: lowered_def)

lemma known_if [simp]:
  "severity f = ''info'' \<Longrightarrow> known_severity f" "severity f = ''low'' \<Longrightarrow> known_severity f"
  "severity f = ''medium'' \<Longrightarrow> known_severity f" "severity f = ''high'' \<Longrightarrow> known_severity f"
  "severity f = ''critical'' \<Longrightarrow> known_severity f"
  by (simp_all add: known_severity_def)

lemma lowered_cap_denied:
  assumes "known_severity f"
  shows "lowered f (snd (cap_denied st f))"
  using assms by (cases rule: severity_cases) (auto simp: cap_denied_def lowered_def)

lemma lower_known_severity: "known_severity f \<Longrightarrow> py_lower (list_or (severity f) ''info'') = severity f"
  by (cases rule: severity_cases, assumption) (simp_all add: py_lower_def char_lower_code list_or_def)

lemma lowered_cap_noise:
  assumes "known_severity f"
  shows "lowered f (snd (cap_noise f))"
  using assms lower_known_severity[OF assms]
  by (cases rule: severity_cases) (auto simp: cap_noise_def lowered_def Let_def sev_rank_def option_or_def)

lemma lowered_suppress:
  assumes "known_severity f"
  shows "lowered f (fst (suppress ns override f))"
proof -
  have "lowered f (suppress_live ns (keep_confidence f))"
    using assms by (cases rule: severity_cases) (simp_all add: lowered_def suppress_live_fields)
  moreover have "lowered f (suppress_provisional (keep_confidence f))"
    using assms by (cases rule: severity_cases) (simp_all add: lowered_def suppress_provisional_fields)
  ultimately show ?thesis
    using lowered_refl[OF assms]
    by (cases "leg_tier_of (vuln_class f) override") (simp_all add: suppress_def Let_def)
qed

lemma lowered_then_suppress:
  assumes "lowered f g"
  shows "lowered f (fst (suppress ns override g))"
proof -
  from assms have "known_severity g" unfolding lowered_def by blast
  with assms show ?thesis by (rule lowered_trans[OF _ lowered_suppress])
qed

lemma all_findings_gate:
  "all_findings (snd (gate_reports g rs)) = map (\<lambda>f. snd (g f)) (all_findings rs)"
  by (simp add: all_findings_def gate_reports_def gate_report_def map_counting_def Let_def map_concat o_def)

lemma all_findings_access:
  "all_findings (snd (apply_access_control_gate status rs)) = map
     (\<lambda>f. case status of Some st \<Rightarrow> if st \<in> set denial_statuses then snd (cap_denied st f) else f | None \<Rightarrow> f)
     (all_findings rs)"
  by (simp add: apply_access_control_gate_def all_findings_gate split: option.split)

lemma lowered_after_agents:
  assumes "list_all known_severity (all_findings rs)"
  shows "list_all2 lowered (all_findings rs) (all_findings (after_agents status rs))"
proof -
  let ?a = "\<lambda>f. case status of Some st \<Rightarrow> if st \<in> set denial_statuses then snd (cap_denied st f) else f | None \<Rightarrow> f"
  have "lowered f (snd (cap_noise (?a f)))" if "known_severity f" for f
  proof -
    from that have "lowered f (?a f)"
      by (auto intro: lowered_refl lowered_cap_denied split: option.split)
    moreover from this have "known_severity (?a f)" unfolding lowered_def by blast
    ultimately show ?thesis by (rule lowered_trans[OF _ lowered_cap_noise])
  qed
  with assms show ?thesis
    by (simp add: after_agents_def apply_header_noise_gate_def all_findings_gate all_findings_access
        list_all2_conv_all_nth list_all_length)
qed

text \<open>From the agents to the report, the gates only lower: no finding gains severity or
  confidence, and no gate changes its class, its id or whether it is confirmed.\<close>

theorem gates_only_lower:
  assumes "list_all known_severity (all_findings rs)"
    and "apply_confirmation_suppression (after_agents status rs) vs override = (n, rs', revs)"
  shows "list_all2 lowered (all_findings rs) (all_findings rs')"
proof -
  from assms(2) have rs': "all_findings rs' =
      map (\<lambda>f. fst (suppress (controlled_negatives vs) override f)) (all_findings (after_agents status rs))"
    by (auto simp: apply_confirmation_suppression_def Let_def all_findings_suppress)
  have "list_all2 lowered (all_findings rs) (all_findings (after_agents status rs))"
    using assms(1) by (rule lowered_after_agents)
  then show ?thesis
    unfolding rs' list_all2_map2 by (rule list_all2_mono) (rule lowered_then_suppress)
qed

section \<open>Applying the gate again\<close>

lemma starts_with_prefix [simp]: "starts_with p (p @ s)"
  by (simp add: starts_with_def)

lemma add_prefix_starts: "summary f \<noteq> [] \<Longrightarrow> starts_with p (summary (add_prefix p f))"
  by (simp add: add_prefix_def)

text \<open>All fields but the note.\<close>

definition same_but_note :: "agent_finding \<Rightarrow> agent_finding \<Rightarrow> bool" where
  "same_but_note f g \<longleftrightarrow> g = f\<lparr>review_note := review_note g\<rparr>"

definition prefixed :: "string \<Rightarrow> string \<Rightarrow> string" where
  "prefixed p s = (if s \<noteq> [] \<and> \<not> starts_with p s then p @ '' '' @ s else s)"

lemma prefixed_again [simp]: "prefixed p (prefixed p s) = prefixed p s"
  by (auto simp: prefixed_def)

lemma add_prefix_fields:
  "summary (add_prefix p f) = prefixed p (summary f)" "add_prefix p f = f\<lparr>summary := prefixed p (summary f)\<rparr>"
  by (simp_all add: add_prefix_def prefixed_def)

definition raised_of :: "string list \<Rightarrow> agent_finding \<Rightarrow> string option" where
  "raised_of severities f = (if severity f \<in> set severities \<and> original_severity f = None
     then Some (severity f) else original_severity f)"

lemma cap_severity_fields:
  "cap_severity severities cap f = f\<lparr>original_severity := raised_of severities f,
     severity := (if severity f \<in> set severities then cap else severity f)\<rparr>"
  by (simp add: cap_severity_def raised_of_def)

lemma raised_again [simp]:
  "severity f \<notin> set severities \<Longrightarrow> raised_of severities f = original_severity f"
  by (simp add: raised_of_def)

lemma suppress_live_update:
  "suppress_live ns f =
     (let neg = has_controlled_negative ns (canon_class (vuln_class f)) (parameter_name f) (principal_id f) in
      f\<lparr>confidence := min (confidence f) (35 / 100), original_severity := raised_of [''critical'', ''high'', ''medium''] f,
        severity := (if severity f \<in> {''critical'', ''high'', ''medium''} then ''low'' else severity f),
        review_verdict := Some (if neg then ''unconfirmed_hypothesis'' else ''inconclusive_unverified''),
        review_note := review_note (suppress_live ns f),
        summary := prefixed (if neg then ''[Hypothesis]'' else ''[Unverified]'') (summary f)\<rparr>)"
  by (simp add: suppress_live_def Let_def cap_severity_fields add_prefix_fields append_note_def raised_of_def)

lemma suppress_provisional_update:
  "suppress_provisional f =
     f\<lparr>confidence := min (confidence f) (1 / 2), original_severity := raised_of [''critical'', ''high''] f,
       severity := (if severity f \<in> {''critical'', ''high''} then ''medium'' else severity f),
       review_verdict := Some ''unproven_unverified_leg'',
       review_note := review_note (suppress_provisional f),
       summary := prefixed ''[Unconfirmed]'' (summary f)\<rparr>"
  by (simp add: suppress_provisional_def cap_severity_fields add_prefix_fields append_note_def raised_of_def)

lemma suppress_rest:
  "summary (suppress_live ns f) = prefixed (if has_controlled_negative ns (canon_class (vuln_class f))
     (parameter_name f) (principal_id f) then ''[Hypothesis]'' else ''[Unverified]'') (summary f)"
  "summary (suppress_provisional f) = prefixed ''[Unconfirmed]'' (summary f)"
  by (subst suppress_live_update, simp add: Let_def) (subst suppress_provisional_update, simp)

lemma suppress_live_again: "same_but_note (suppress_live ns f) (suppress_live ns (suppress_live ns f))"
  unfolding same_but_note_def
  by (subst suppress_live_update[of ns "suppress_live ns f"]) (simp add: suppress_fields suppress_rest Let_def)

lemma suppress_provisional_again:
  "same_but_note (suppress_provisional f) (suppress_provisional (suppress_provisional f))"
  unfolding same_but_note_def
  by (subst suppress_provisional_update[of "suppress_provisional f"]) (simp add: suppress_fields suppress_rest)

lemma original_confidence_kept:
  "original_confidence (suppress_live ns (keep_confidence f)) \<noteq> None"
  "original_confidence (suppress_provisional (keep_confidence f)) \<noteq> None"
  by (auto simp: suppress_live_def suppress_provisional_def Let_def finding_defs)

text \<open>The gate settles a finding in one pass: a second pass over the same evidence leaves every
  field as it is and only adds its note again.\<close>

theorem gate_settles:
  "same_but_note (fst (suppress ns override f)) (fst (suppress ns override (fst (suppress ns override f))))"
proof -
  have refl: "same_but_note f f" for f :: agent_finding by (simp add: same_but_note_def)
  have keep: "original_confidence f \<noteq> None \<Longrightarrow> keep_confidence f = f" for f
    by (simp add: keep_confidence_def)
  show ?thesis
    using refl suppress_live_again suppress_provisional_again
    by (cases "leg_tier_of (vuln_class f) override")
      (simp_all add: suppress_def Let_def suppress_fields keep original_confidence_kept)
qed

section \<open>Where the code differs from what it says\<close>

text \<open>The class of a disclosed source file holds the letters of \<open>rce\<close>, so it counts as a class with a
  live-verified leg, and so does a class about resources or enforcement.\<close>

lemma source_code_has_live_leg:
  "leg_tier_of ''Source code disclosure'' None = Live" "leg_tier_of ''Resource exhaustion'' None = Live"
  by code_simp+

text \<open>Severities are compared as written: a capitalised one passes the cap.\<close>

lemma capitalised_severity_escapes:
  assumes "severity f = ''High''"
  shows "severity (fst (suppress ns override f)) = ''High''"
  using assms by (cases "leg_tier_of (vuln_class f) override") (auto simp: suppress_def Let_def suppress_fields)

text \<open>The access-control gate does not keep the severity it caps, so the impact shown for a denied
  claim is the cap; the header-noise gate keeps it.\<close>

lemma denied_claim_loses_impact:
  assumes "is_access_control_class (vuln_class f)" and "confidence f > capped_confidence"
    and "original_severity f = None" and "severity f \<notin> {''info'', ''low''}"
  shows "impact_severity (finding_triage (snd (cap_denied st f))) = ''low''"
  using assms by (simp add: cap_denied_def finding_triage_def Let_def text_or_def option_or_def list_or_def)

lemma noisy_claim_keeps_impact:
  assumes "fst (cap_noise f)" and "original_severity f = None"
  shows "impact_severity (finding_triage (snd (cap_noise f))) = py_lower (severity f)"
  using assms by (auto simp: cap_noise_def finding_triage_def Let_def text_or_def option_or_def list_or_def
      sev_rank_def py_lower_def char_lower_code split: if_splits option.splits prod.splits)

section \<open>Samples\<close>

definition sample_finding :: agent_finding where
  "sample_finding = \<lparr>vuln_class = ''idor'', confidence = 9 / 10, summary = ''orders'', basis = ''derived'',
     severity = ''high'', original_confidence = None, review_verdict = None, review_note = None,
     original_severity = None, confirmed = False, confirmed_by_leg = [], confirmation_method = [],
     oracle_verified = False, finding_id = ''f1'', principal_id = ''alice'', parameter_name = ''id'', proof_id = []\<rparr>"

definition sample_reports :: "agent_report list" where
  "sample_reports = [\<lparr>agent = ''idor'', findings = [sample_finding]\<rparr>]"

definition sample_negative :: validation where
  "sample_negative = \<lparr>v_status = ''not_confirmed'', v_class = ''idor'', v_confirmed = False,
     v_parameter = ''id'', v_principal = ''alice'', v_outcome = ''control_held''\<rparr>"

lemma idor_live: "leg_tier_of ''idor'' None = Live"
  by code_simp

lemma idor_canonical: "canon_class ''idor'' = ''idor''"
  using canonicalize_category[of "''idor''"]
  by (simp add: canonical_categories_def canon_class_def str_or_def text_or_def option_or_def)

lemma sample_fields [simp]:
  "vuln_class sample_finding = ''idor''" "severity sample_finding = ''high''"
  "\<not> confirmed sample_finding" "parameter_name sample_finding = ''id''"
  "principal_id sample_finding = ''alice''" "confidence sample_finding = 9 / 10"
  by (simp_all add: sample_finding_def)

lemma sample_reports_findings: "all_findings sample_reports = [sample_finding]"
  by (simp add: all_findings_def sample_reports_def)

definition gated_sample :: agent_finding where
  "gated_sample = fst (suppress (controlled_negatives [sample_negative]) None sample_finding)"

lemma gated_sample_findings:
  "all_findings (fst (snd (apply_confirmation_suppression sample_reports [sample_negative] None))) = [gated_sample]"
  by (simp add: apply_confirmation_suppression_def Let_def all_findings_suppress sample_reports_findings
      gated_sample_def)

lemma gated_sample_open: "\<not> confirmed gated_sample"
  by (simp add: gated_sample_def)

theorem unconfirmed_capped_witness:
  "severity gated_sample = ''low'' \<and> confidence gated_sample = 35 / 100 \<and> finding_lifecycle_state gated_sample = LEAD"
  using unconfirmed_capped[of sample_reports "[sample_negative]" None
      "fst (apply_confirmation_suppression sample_reports [sample_negative] None)"
      "fst (snd (apply_confirmation_suppression sample_reports [sample_negative] None))"
      "snd (snd (apply_confirmation_suppression sample_reports [sample_negative] None))"]
    idor_live
  by (simp add: sample_reports_findings gated_sample_findings)

lemma sample_refuted:
  "review_verdict gated_sample = Some ''unconfirmed_hypothesis''"
  using has_negative_iff[of "[sample_negative]" "canon_class ''idor''" "''id''" "''alice''"]
  by (simp add: gated_sample_def suppress_def Let_def suppress_fields idor_live)
    (auto simp: sample_negative_def is_controlled_negative_def py_lower_def char_lower_code idor_canonical)

theorem proved_findings_untouched_witness:
  "fst (apply_confirmation_suppression sample_reports [sample_negative] None) = 1"
  using proved_findings_untouched[of sample_reports "[sample_negative]" None
      "fst (apply_confirmation_suppression sample_reports [sample_negative] None)"
      "fst (snd (apply_confirmation_suppression sample_reports [sample_negative] None))"
      "snd (snd (apply_confirmation_suppression sample_reports [sample_negative] None))"]
  by (simp add: sample_reports_findings gated_def idor_live)

definition sample_shipped :: "nat \<times> agent_report list \<times> revision list" where
  "sample_shipped = apply_confirmation_suppression (after_agents (Some 403) sample_reports) [] None"

theorem gates_only_lower_witness:
  "list_all2 lowered (all_findings sample_reports) (all_findings (fst (snd sample_shipped)))"
  by (rule gates_only_lower[where status = "Some 403" and vs = "[]" and override = None
        and n = "fst sample_shipped" and revs = "snd (snd sample_shipped)"])
    (simp_all add: sample_reports_findings known_severity_def sample_shipped_def)

end
