(* ===== verification/EvidenceLedger.thy ===== *)
theory EvidenceLedger
  imports Prelude
begin

text \<open>
  The append-only evidence ledger (\<open>evidence_ledger.py\<close>) with the two tables of \<open>store.py\<close> it rests
  on: \<open>ledger_events\<close> and the content-addressed \<open>evidence_blobs\<close>. A ledger is a record of its
  events, their ids, its cap and its degraded flag. The tables are lists of rows in insertion
  order. SHA-256 is a parameter, the clock readings and fresh ids are arguments, and whether a
  database write succeeds is an argument too.

  A resolver decides whether the blob of a hash is present and intact. It carries a state of its
  own, since the batched reconstruction remembers its answers; an exception inside a resolver
  counts as "does not resolve" at every place that calls it. A hash that is not a string never
  resolves.

  \<open>ledger_append_only\<close> is the invariant of the stream, \<open>resolvable_by_one_execution\<close> and
  \<open>recipe_agrees\<close> say what a reproducible finding rests on, \<open>lost_write_never_complete\<close> that a
  lost write cannot be hidden, and \<open>batch_equals_single\<close> that the batched reconstruction computes
  what the single one does.
\<close>

section \<open>Values of the data dictionary\<close>

fun json_truthy :: "json \<Rightarrow> bool" where
  "json_truthy JNull = False"
| "json_truthy (JBool b) = b"
| "json_truthy (JInt n) = (n \<noteq> 0)"
| "json_truthy (JFloat x) = (x \<noteq> 0)"
| "json_truthy (JStr s) = (s \<noteq> [])"
| "json_truthy (JList xs) = (xs \<noteq> [])"
| "json_truthy (JObj kvs) = (kvs \<noteq> [])"

definition json_or :: "json \<Rightarrow> json \<Rightarrow> json" where
  "json_or a b = (if json_truthy a then a else b)"

definition nonempty :: "json \<Rightarrow> bool" where
  "nonempty v = (case v of JStr s \<Rightarrow> py_strip s \<noteq> [] | _ \<Rightarrow> json_truthy v)"

section \<open>Events\<close>

datatype event_type = OBSERVATION | HYPOTHESIS | PLANNED_ACTION | AUTHORIZATION_DECISION | EXECUTION
  | VALIDATION_DECISION | FINDING_REVISION | RUN_SUMMARY | PERSISTENCE_FAILURE

fun event_type_value :: "event_type \<Rightarrow> string" where
  "event_type_value OBSERVATION = ''observation''"
| "event_type_value HYPOTHESIS = ''hypothesis''"
| "event_type_value PLANNED_ACTION = ''planned_action''"
| "event_type_value AUTHORIZATION_DECISION = ''authorization_decision''"
| "event_type_value EXECUTION = ''execution''"
| "event_type_value VALIDATION_DECISION = ''validation_decision''"
| "event_type_value FINDING_REVISION = ''finding_revision''"
| "event_type_value RUN_SUMMARY = ''run_summary''"
| "event_type_value PERSISTENCE_FAILURE = ''persistence_failure''"

definition event_types :: "event_type list" where
  "event_types = [OBSERVATION, HYPOTHESIS, PLANNED_ACTION, AUTHORIZATION_DECISION, EXECUTION,
     VALIDATION_DECISION, FINDING_REVISION, RUN_SUMMARY, PERSISTENCE_FAILURE]"

definition event_type_of :: "string \<Rightarrow> event_type option" where
  "event_type_of v = List.find (\<lambda>t. event_type_value t = v) event_types"

definition event_order :: "event_type \<Rightarrow> nat" where
  "event_order t = length (takeWhile (\<lambda>u. u \<noteq> t) event_types)"

record provenance =
  code_version :: string
  config_fingerprint :: string
  model_name :: string
  prompt_version :: string
  evidence_schema_version :: string
  source_identity :: "(string \<times> json) list"

definition no_provenance :: provenance where
  "no_provenance = \<lparr>code_version = [], config_fingerprint = [], model_name = [], prompt_version = [],
     evidence_schema_version = ''1.0'', source_identity = []\<rparr>"

record ledger_event =
  event_type :: event_type
  finding_ref :: string
  summary_text :: string
  data :: "(string \<times> json) list"
  prov :: provenance
  case_ref :: string
  event_id :: string
  created_at :: time

text \<open>\<open>LedgerEvent.__post_init__\<close>: an empty id and a zero time are filled in.\<close>

definition post_init :: "string \<Rightarrow> time \<Rightarrow> ledger_event \<Rightarrow> ledger_event" where
  "post_init uid now e = e\<lparr>event_id := list_or (event_id e) uid, created_at := float_or (created_at e) now\<rparr>"

definition data_get :: "ledger_event \<Rightarrow> string \<Rightarrow> json" where
  "data_get e k = option_or (dict_get (data e) k) JNull"

section \<open>The ledger\<close>

datatype ledger_exc = AppendOnlyViolation | LedgerValueError

record evidence_ledger =
  events :: "ledger_event list"
  ids :: "string list"
  max_events :: int
  persistence_degraded :: bool

definition new_ledger :: "int \<Rightarrow> evidence_ledger" where
  "new_ledger m = \<lparr>events = [], ids = [], max_events = m, persistence_degraded = False\<rparr>"

definition default_max_events :: int where "default_max_events = 5000"

fun evict_oldest :: "int \<Rightarrow> ledger_event list \<Rightarrow> string list \<Rightarrow> ledger_event list \<times> string list" where
  "evict_oldest m [] known = ([], known)"
| "evict_oldest m (e # es) known =
     (if m > 0 \<and> int (length (e # es)) > m then evict_oldest m es (removeAll (event_id e) known) else (e # es, known))"

definition append_event :: "ledger_event \<Rightarrow> evidence_ledger \<Rightarrow> ledger_exc + evidence_ledger" where
  "append_event e led =
     (if event_id e \<in> set (ids led) then Inl AppendOnlyViolation
      else let (es, known) = evict_oldest (max_events led) (events led @ [e]) (event_id e # ids led)
           in Inr (led\<lparr>events := es, ids := known\<rparr>))"

text \<open>\<open>record\<close>, with the fresh id and the time its event gets.\<close>

definition record_event :: "string \<Rightarrow> time \<Rightarrow> event_type \<Rightarrow> string \<Rightarrow> string \<Rightarrow> (string \<times> json) list
    \<Rightarrow> provenance option \<Rightarrow> string \<Rightarrow> evidence_ledger \<Rightarrow> ledger_exc + ledger_event \<times> evidence_ledger" where
  "record_event uid now ty ref txt d p cr led =
     (let e = post_init uid now \<lparr>event_type = ty, finding_ref = ref, summary_text = txt, data = d,
                prov = option_or p no_provenance, case_ref = cr, event_id = [], created_at = 0\<rparr>
      in case append_event e led of Inl x \<Rightarrow> Inl x | Inr led' \<Rightarrow> Inr (e, led'))"

definition events_for :: "string \<Rightarrow> evidence_ledger \<Rightarrow> ledger_event list" where
  "events_for ref led = sort_key (\<lambda>e. (created_at e, event_order (event_type e)))
     (filter (\<lambda>e. finding_ref e = ref) (events led))"

definition of_type :: "event_type \<Rightarrow> ledger_event list \<Rightarrow> ledger_event list" where
  "of_type t es = filter (\<lambda>e. event_type e = t) es"

section \<open>Resolving blobs\<close>

type_synonym 's resolver = "string \<Rightarrow> 's \<Rightarrow> bool \<times> 's"

definition resolve :: "'s resolver \<Rightarrow> json \<Rightarrow> 's \<Rightarrow> bool \<times> 's" where
  "resolve r v s = (case v of JStr h \<Rightarrow> r h s | _ \<Rightarrow> (False, s))"

fun resolved_blob_hash :: "'s resolver \<Rightarrow> string \<Rightarrow> ledger_event list \<Rightarrow> 's \<Rightarrow> json option \<times> 's" where
  "resolved_blob_hash r k [] s = (None, s)"
| "resolved_blob_hash r k (e # es) s =
     (let h = data_get e k in
      if nonempty h
      then (case resolve r h s of (True, s') \<Rightarrow> (Some h, s') | (False, s') \<Rightarrow> resolved_blob_hash r k es s')
      else resolved_blob_hash r k es s)"

fun resolvable_execution :: "'s resolver \<Rightarrow> ledger_event list \<Rightarrow> 's \<Rightarrow> ledger_event option \<times> 's" where
  "resolvable_execution r [] s = (None, s)"
| "resolvable_execution r (e # es) s =
     (let req = data_get e ''request_blob''; resp = data_get e ''response_blob'' in
      if \<not> (nonempty req \<and> nonempty resp) then resolvable_execution r es s
      else case resolve r req s of
          (False, s1) \<Rightarrow> resolvable_execution r es s1
        | (True, s1) \<Rightarrow> (case resolve r resp s1 of
            (False, s2) \<Rightarrow> resolvable_execution r es s2
          | (True, s2) \<Rightarrow> (Some e, s2)))"

text \<open>The store's own check, which remembers nothing.\<close>

definition direct :: "(string \<Rightarrow> bool) \<Rightarrow> unit resolver" where
  "direct intact h s = (intact h, s)"

definition blob_resolves :: "(string \<Rightarrow> bool) \<Rightarrow> json \<Rightarrow> bool" where
  "blob_resolves intact v = (nonempty v \<and> fst (resolve (direct intact) v ()))"

section \<open>Completeness\<close>

record completeness =
  resolvable :: bool
  c_degraded :: bool
  has_conclusion :: bool
  has_execution :: bool
  has_request :: bool
  has_response :: bool
  has_captured_observation :: bool
  has_request_blob :: bool
  has_response_blob :: bool
  evidence_blob_degraded :: bool
  rehydration_required :: bool
  rehydration_note :: "string option"
  missing :: "string list"

definition the_rehydration_note :: string where
  "the_rehydration_note = ''stored request/response blobs are REDACTED (secrets/session/credentials stripped before hashing, per run_context.TargetTransport._artifact) -- authenticated replay needs session/credential/input rehydration; the blob alone is not a literal replay.''"

definition any_data :: "string \<Rightarrow> ledger_event list \<Rightarrow> bool" where
  "any_data k es = list_ex (\<lambda>e. nonempty (data_get e k)) es"

text \<open>What is missing when no single execution has both blobs.\<close>

definition missing_blobs :: "bool \<Rightarrow> bool \<Rightarrow> bool \<Rightarrow> bool \<Rightarrow> string list" where
  "missing_blobs req_ref resp_ref req_ok resp_ok =
     (if \<not> req_ref \<and> \<not> resp_ref
      then [''request/response recorded only as a reference (e.g. 'HTTP 200'), not a stored hash-verified artifact'']
      else (if req_ref \<and> \<not> req_ok then [''referenced request blob is missing or failed hash verification'']
            else if \<not> req_ref then [''no request blob recorded -- reference only''] else [])
         @ (if resp_ref \<and> \<not> resp_ok then [''referenced response blob is missing or failed hash verification'']
            else if \<not> resp_ref then [''no response blob recorded -- reference only''] else [])
         @ (if req_ok \<and> resp_ok
            then [''request and response blobs each resolve, but never both on the SAME execution -- no single send is independently replayable'']
            else []))"

text \<open>\<open>_assess_completeness\<close>; \<open>evs\<close> are the events of the finding, which \<open>by_type\<close> groups.\<close>

definition assess_completeness :: "'s resolver \<Rightarrow> ledger_event list \<Rightarrow> bool \<Rightarrow> 's \<Rightarrow> completeness \<times> 's" where
  "assess_completeness r evs degraded0 s =
     (let execs = of_type EXECUTION evs;
          observations = of_type OBSERVATION evs @ of_type HYPOTHESIS evs;
          conclusion = of_type VALIDATION_DECISION evs \<noteq> [] \<or> of_type FINDING_REVISION evs \<noteq> [];
          req = any_data ''request'' execs; resp = any_data ''response'' execs;
          captured = list_ex (\<lambda>e. py_strip (summary_text e) \<noteq> []) observations;
          req_ref = any_data ''request_blob'' execs; resp_ref = any_data ''response_blob'' execs;
          (req_hash, s1) = resolved_blob_hash r ''request_blob'' execs s;
          (resp_hash, s2) = resolved_blob_hash r ''response_blob'' execs s1;
          blob_degraded = list_ex (\<lambda>e. json_truthy (data_get e ''evidence_blob_degraded'')) execs;
          degraded = (degraded0 \<or> of_type PERSISTENCE_FAILURE evs \<noteq> [] \<or>
            list_ex (\<lambda>e. json_truthy (data_get e ''ledger_persistence_degraded'')) evs);
          (found, s3) = (if execs \<noteq> [] then resolvable_execution r execs s2 else (None, s2));
          gaps = (if degraded then [''ledger persistence failed; durable evidence is incomplete''] else [])
            @ (if \<not> conclusion then [''no verdict (validation decision / finding revision) recorded''] else [])
            @ (if execs \<noteq> []
               then (if \<not> req then [''execution recorded but the request reference is empty''] else [])
                 @ (if \<not> resp then [''execution recorded but the response capture is empty''] else [])
                 @ (if found = None then missing_blobs req_ref resp_ref (req_hash \<noteq> None) (resp_hash \<noteq> None)
                    @ (if blob_degraded then [''evidence blob store failed durably at capture time; the request/response were not archived (evidence health degraded)''] else [])
                   else [])
               else if \<not> captured then [''no execution and no captured observation to reproduce from''] else []);
          ok = (found \<noteq> None \<and> \<not> degraded)
      in (\<lparr>resolvable = ok, c_degraded = degraded, has_conclusion = conclusion, has_execution = (execs \<noteq> []),
           has_request = req, has_response = resp, has_captured_observation = captured,
           has_request_blob = (req_hash \<noteq> None), has_response_blob = (resp_hash \<noteq> None),
           evidence_blob_degraded = blob_degraded, rehydration_required = ok,
           rehydration_note = (if ok then Some the_rehydration_note else None), missing = gaps\<rparr>, s3))"

section \<open>Reconstruction and recipe\<close>

record reconstruction =
  r_finding :: string
  why_tested :: "string list"
  what_sent :: "json list"
  what_came_back :: "json list"
  why_concluded :: "string list"
  authorization :: "string list"
  never_tested :: "json list"
  event_count :: nat
  r_provenance :: "provenance option"
  complete :: bool
  r_completeness :: completeness

definition summaries :: "event_type \<Rightarrow> ledger_event list \<Rightarrow> string list" where
  "summaries t evs = map summary_text (of_type t evs)"

definition reconstruct :: "'s resolver \<Rightarrow> evidence_ledger \<Rightarrow> string \<Rightarrow> 's \<Rightarrow> reconstruction \<times> 's" where
  "reconstruct r led ref s =
     (let evs = events_for ref led; execs = of_type EXECUTION evs;
          (c, s') = assess_completeness r evs (persistence_degraded led) s
      in (\<lparr>r_finding = ref, why_tested = summaries OBSERVATION evs @ summaries HYPOTHESIS evs,
           what_sent = map JStr (summaries PLANNED_ACTION evs)
             @ filter json_truthy (map (\<lambda>e. data_get e ''request'') execs),
           what_came_back = map (\<lambda>e. json_or (data_get e ''response'') (JStr (summary_text e))) execs,
           why_concluded = summaries VALIDATION_DECISION evs @ summaries FINDING_REVISION evs,
           authorization = summaries AUTHORIZATION_DECISION evs,
           never_tested = filter json_truthy (map (\<lambda>e. data_get e ''not_tested'') evs),
           event_count = length evs,
           r_provenance = (case evs of [] \<Rightarrow> None | e # _ \<Rightarrow> Some (prov e)),
           complete = ((of_type VALIDATION_DECISION evs \<noteq> [] \<or> of_type FINDING_REVISION evs \<noteq> []) \<and> \<not> c_degraded c),
           r_completeness = c\<rparr>, s'))"

record recipe_step =
  s_request :: json
  s_expected :: json
  s_method :: json
  s_response :: json
  s_request_blob :: json
  s_response_blob :: json
  replayable :: bool
  s_rehydration :: "string option"
  s_note :: "string option"

record recipe =
  p_finding :: string
  p_provenance :: provenance
  p_degraded :: bool
  p_resolvable :: bool
  p_rehydration :: "string option"
  recipe_steps :: "recipe_step list"

definition data_or :: "ledger_event \<Rightarrow> string \<Rightarrow> json \<Rightarrow> json" where
  "data_or e k d = option_or (dict_get (data e) k) d"

definition recipe_step_of :: "(string \<Rightarrow> bool) \<Rightarrow> ledger_event \<Rightarrow> recipe_step" where
  "recipe_step_of intact e =
     (let req = data_get e ''request_blob''; resp = data_get e ''response_blob'';
          req_ok = blob_resolves intact req; resp_ok = blob_resolves intact resp; ok = (req_ok \<and> resp_ok)
      in \<lparr>s_request = data_or e ''request'' (JStr []), s_expected = data_or e ''expected'' (JStr []),
          s_method = data_get e ''method'', s_response = data_or e ''response'' (JStr []),
          s_request_blob = (if req_ok then req else JNull), s_response_blob = (if resp_ok then resp else JNull),
          replayable = ok, s_rehydration = (if ok then Some the_rehydration_note else None),
          s_note = (if ok then None else Some ''reference-only, not replayable'')\<rparr>)"

definition degrade_step :: "recipe_step \<Rightarrow> recipe_step" where
  "degrade_step st = st\<lparr>replayable := False, s_rehydration := None,
     s_note := Some ''ledger persistence failed; durable evidence is incomplete''\<rparr>"

definition reproduction_recipe :: "(string \<Rightarrow> bool) \<Rightarrow> evidence_ledger \<Rightarrow> string \<Rightarrow> recipe" where
  "reproduction_recipe intact led ref =
     (let evs = events_for ref led; execs = of_type EXECUTION evs;
          p = (case evs of [] \<Rightarrow> no_provenance | e # _ \<Rightarrow> prov e);
          steps = map (recipe_step_of intact) execs;
          degraded = c_degraded (r_completeness (fst (reconstruct (direct intact) led ref ())));
          ok = (fst (resolvable_execution (direct intact) execs ()) \<noteq> None \<and> \<not> degraded)
      in \<lparr>p_finding = ref, p_provenance = p, p_degraded = degraded, p_resolvable = ok,
          p_rehydration = (if ok then Some the_rehydration_note else None),
          recipe_steps = (if degraded then map degrade_step steps else steps)\<rparr>)"

section \<open>The durable tables\<close>

record blob_row =
  b_sha :: string
  b_data :: string
  b_created :: time

definition put_evidence_blob :: "(string \<Rightarrow> string) \<Rightarrow> time \<Rightarrow> string \<Rightarrow> blob_row list \<Rightarrow> string \<times> blob_row list" where
  "put_evidence_blob sha now d rows =
     (let h = sha d in
      (h, if h \<in> b_sha ` set rows then rows else rows @ [\<lparr>b_sha = h, b_data = d, b_created = now\<rparr>]))"

definition get_evidence_blob :: "blob_row list \<Rightarrow> string \<Rightarrow> string option" where
  "get_evidence_blob rows h =
     (if h = [] then None else map_option b_data (List.find (\<lambda>b. b_sha b = h) rows))"

definition evidence_blob_resolves :: "(string \<Rightarrow> string) \<Rightarrow> blob_row list \<Rightarrow> string \<Rightarrow> bool" where
  "evidence_blob_resolves sha rows h = (case get_evidence_blob rows h of None \<Rightarrow> False | Some d \<Rightarrow> sha d = h)"

definition purge_evidence_blobs :: "real \<Rightarrow> time \<Rightarrow> blob_row list \<Rightarrow> nat \<times> blob_row list" where
  "purge_evidence_blobs age now rows =
     (if age \<le> 0 then (0, rows)
      else (length (filter (\<lambda>b. b_created b < now - age) rows),
            filter (\<lambda>b. \<not> b_created b < now - age) rows))"

definition apply_retention_policy :: "real \<Rightarrow> time \<Rightarrow> blob_row list \<Rightarrow> nat \<times> blob_row list" where
  "apply_retention_policy days now rows =
     (if days \<le> 0 then (0, rows) else purge_evidence_blobs (days * 86400) now rows)"

text \<open>A row of \<open>ledger_events\<close>: the event as \<open>to_dict\<close> writes it, and its owner.\<close>

record event_row =
  e_type :: string
  e_event :: ledger_event
  e_engagement :: string
  e_principal :: string

definition persist_ledger_event :: "string \<Rightarrow> string \<Rightarrow> ledger_event \<Rightarrow> event_row list \<Rightarrow> event_row list" where
  "persist_ledger_event engagement who e rows =
     (if event_id e \<in> (\<lambda>r. event_id (e_event r)) ` set rows then rows
      else rows @ [\<lparr>e_type = event_type_value (event_type e), e_event = e,
                    e_engagement = engagement, e_principal = who\<rparr>])"

definition owned_by :: "string option \<Rightarrow> string option \<Rightarrow> event_row \<Rightarrow> bool" where
  "owned_by engagement who r \<longleftrightarrow>
     (case engagement of None \<Rightarrow> True | Some x \<Rightarrow> e_engagement r = x) \<and>
     (case who of None \<Rightarrow> True | Some x \<Rightarrow> e_principal r = x)"

definition engagement_ok :: "string option \<Rightarrow> bool" where
  "engagement_ok engagement = (case engagement of None \<Rightarrow> True | Some x \<Rightarrow> length x \<le> 128)"

definition row_time :: "event_row \<Rightarrow> time" where "row_time r = created_at (e_event r)"
definition row_ref :: "event_row \<Rightarrow> string" where "row_ref r = finding_ref (e_event r)"

definition ledger_events_for ::
  "event_row list \<Rightarrow> string option \<Rightarrow> string option \<Rightarrow> string \<Rightarrow> ledger_exc + event_row list" where
  "ledger_events_for rows engagement who ref =
     (if \<not> engagement_ok engagement then Inl LedgerValueError
      else Inr (sort_key row_time (filter (\<lambda>r. row_ref r = ref \<and> owned_by engagement who r) rows)))"

definition wanted_refs :: "string list \<Rightarrow> string list" where
  "wanted_refs refs = rev (remdups (rev (filter (\<lambda>r. r \<noteq> []) refs)))"

definition group_row :: "(string \<times> event_row list) list \<Rightarrow> event_row \<Rightarrow> (string \<times> event_row list) list" where
  "group_row d r = dict_set (row_ref r) (option_or (dict_get d (row_ref r)) [] @ [r]) d"

definition ledger_events_for_many ::
  "event_row list \<Rightarrow> string option \<Rightarrow> string option \<Rightarrow> string list
    \<Rightarrow> ledger_exc + (string \<times> event_row list) list" where
  "ledger_events_for_many rows engagement who refs =
     (let rs = wanted_refs refs in
      if rs = [] then Inr []
      else if \<not> engagement_ok engagement then Inl LedgerValueError
      else Inr (foldl group_row [] (sort_key row_time
             (filter (\<lambda>r. row_ref r \<in> set rs \<and> owned_by engagement who r) rows))))"

section \<open>Replaying the tables\<close>

text \<open>A row whose type is unknown is skipped, and so is one whose id the ledger has.\<close>

definition event_of_row :: "event_row \<Rightarrow> ledger_event option" where
  "event_of_row r = map_option (\<lambda>t. e_event r\<lparr>event_type := t\<rparr>) (event_type_of (e_type r))"

definition replay_row :: "evidence_ledger \<Rightarrow> event_row \<Rightarrow> evidence_ledger" where
  "replay_row led r = (case event_of_row r of
     None \<Rightarrow> led
   | Some e \<Rightarrow> (case append_event e led of Inl _ \<Rightarrow> led | Inr led' \<Rightarrow> led'))"

definition ledger_from_rows :: "nat \<Rightarrow> event_row list \<Rightarrow> evidence_ledger" where
  "ledger_from_rows failures rows =
     foldl replay_row (new_ledger 0\<lparr>persistence_degraded := (failures \<noteq> 0)\<rparr>) rows"

definition ledger_from_store ::
  "nat \<Rightarrow> event_row list \<Rightarrow> string option \<Rightarrow> string option \<Rightarrow> string \<Rightarrow> evidence_ledger" where
  "ledger_from_store failures rows engagement who ref = (case ledger_events_for rows engagement who ref of
     Inl _ \<Rightarrow> new_ledger 0
   | Inr rs \<Rightarrow> ledger_from_rows failures rs)"

definition reconstruct_persisted ::
  "(string \<Rightarrow> bool) \<Rightarrow> nat \<Rightarrow> event_row list \<Rightarrow> string option \<Rightarrow> string option \<Rightarrow> string \<Rightarrow> reconstruction" where
  "reconstruct_persisted intact failures rows engagement who ref =
     fst (reconstruct (direct intact) (ledger_from_store failures rows engagement who ref) ref ())"

definition reproduction_recipe_persisted ::
  "(string \<Rightarrow> bool) \<Rightarrow> nat \<Rightarrow> event_row list \<Rightarrow> string option \<Rightarrow> string option \<Rightarrow> string \<Rightarrow> recipe" where
  "reproduction_recipe_persisted intact failures rows engagement who ref =
     reproduction_recipe intact (ledger_from_store failures rows engagement who ref) ref"

text \<open>The batch: every hash is looked up at most once.\<close>

definition memoized :: "(string \<Rightarrow> bool) \<Rightarrow> (string \<times> bool) list resolver" where
  "memoized intact h memo = (case dict_get memo h of
     Some b \<Rightarrow> (b, memo)
   | None \<Rightarrow> (intact h, dict_set h (intact h) memo))"

fun reconstruct_all :: "(string \<Rightarrow> bool) \<Rightarrow> nat \<Rightarrow> (string \<times> event_row list) list \<Rightarrow> string list
    \<Rightarrow> (string \<times> bool) list \<Rightarrow> (string \<times> reconstruction) list" where
  "reconstruct_all intact failures by_ref [] memo = []"
| "reconstruct_all intact failures by_ref (ref # refs) memo =
     (let led = ledger_from_rows failures (option_or (dict_get by_ref ref) []);
          (rec, memo') = reconstruct (memoized intact) led ref memo
      in (ref, rec) # reconstruct_all intact failures by_ref refs memo')"

definition reconstruct_persisted_many ::
  "(string \<Rightarrow> bool) \<Rightarrow> nat \<Rightarrow> event_row list \<Rightarrow> string option \<Rightarrow> string option \<Rightarrow> string list
    \<Rightarrow> (string \<times> reconstruction) list" where
  "reconstruct_persisted_many intact failures rows engagement who refs =
     (let rs = wanted_refs refs in
      if rs = [] then []
      else case ledger_events_for_many rows engagement who rs of
          Inl _ \<Rightarrow> []
        | Inr by_ref \<Rightarrow> reconstruct_all intact failures by_ref rs [])"

section \<open>Emitting\<close>

text \<open>
  The ledger an event goes to, the process-wide count of lost writes and the table. Of the
  environment, \<open>emit\<close> gets two ids and times, and whether each of its two writes succeeds.
\<close>

record ledger_world =
  led :: evidence_ledger
  failures :: nat
  table :: "event_row list"

definition evidence_write_status :: "ledger_world \<Rightarrow> bool \<times> nat" where
  "evidence_write_status w = (failures w \<noteq> 0, failures w)"

definition reset_default_ledger :: "int \<Rightarrow> ledger_world \<Rightarrow> ledger_world" where
  "reset_default_ledger m w = w\<lparr>led := new_ledger m\<rparr>"

text \<open>What a new process finds: an empty ledger, no count, the table.\<close>

definition restart :: "ledger_world \<Rightarrow> ledger_world" where
  "restart w = \<lparr>led = new_ledger default_max_events, failures = 0, table = table w\<rparr>"

record emission =
  x_uid :: string
  x_time :: time
  x_write_ok :: bool
  x_marker_uid :: string
  x_marker_time :: time
  x_marker_ok :: bool
  x_engagement :: string
  x_principal :: string
  x_failure :: string

definition emit :: "emission \<Rightarrow> event_type \<Rightarrow> string \<Rightarrow> string \<Rightarrow> (string \<times> json) list \<Rightarrow> provenance
    \<Rightarrow> string \<Rightarrow> ledger_world \<Rightarrow> (ledger_exc + ledger_event option) \<times> ledger_world" where
  "emit x ty ref txt d p cr w =
     (if ref = [] then (Inr None, w)
      else let payload = (if failures w \<noteq> 0 then dict_set ''ledger_persistence_degraded'' (JBool True) d else d) in
        case record_event (x_uid x) (x_time x) ty ref txt payload (Some p) cr (led w) of
          Inl y \<Rightarrow> (Inl y, w)
        | Inr (e, l) \<Rightarrow>
          if x_write_ok x
          then (Inr (Some e), w\<lparr>led := l, table := persist_ledger_event (x_engagement x) (x_principal x) e (table w)\<rparr>)
          else let l' = l\<lparr>persistence_degraded := True\<rparr>; n = failures w + 1 in
            case record_event (x_marker_uid x) (x_marker_time x) PERSISTENCE_FAILURE ref
                ''Durable evidence incomplete: ledger write failed''
                [(''failure_type'', JStr (x_failure x))] (Some p) [] l' of
              Inl y \<Rightarrow> (Inl y, w\<lparr>led := l', failures := n\<rparr>)
            | Inr (m, l'') \<Rightarrow>
                (Inr (Some e), w\<lparr>led := l'', failures := n,
                   table := (if x_marker_ok x then persist_ledger_event (x_engagement x) (x_principal x) m (table w)
                             else table w)\<rparr>))"

section \<open>A resolver that answers as the store does\<close>

locale blob_resolver =
  fixes r :: "'s resolver"
    and intact :: "string \<Rightarrow> bool"
    and good :: "'s \<Rightarrow> bool"
  assumes answers: "good s \<Longrightarrow> fst (r h s) = intact h"
    and keeps: "good s \<Longrightarrow> good (snd (r h s))"
begin

lemma resolve_direct:
  assumes "good s"
  shows "fst (resolve r v s) = fst (resolve (direct intact) v ())" and "good (snd (resolve r v s))"
  using assms answers keeps by (cases v; simp add: resolve_def direct_def)+

lemma hash_direct:
  assumes "good s"
  shows "fst (resolved_blob_hash r k es s) = fst (resolved_blob_hash (direct intact) k es ())
    \<and> good (snd (resolved_blob_hash r k es s))"
  using assms
proof (induction es arbitrary: s)
  case Nil
  then show ?case by simp
next
  case (Cons e es)
  let ?h = "data_get e k"
  obtain b s' where b: "resolve r ?h s = (b, s')" by fastforce
  obtain b' u where b': "resolve (direct intact) ?h () = (b', u)" by (rule prod.exhaust)
  from resolve_direct[OF Cons.prems, of ?h] b b' have "b' = b" "good s'" by simp_all
  then show ?case using Cons.IH[OF Cons.prems] Cons.IH[of s'] Cons.prems
    by (cases b) (simp_all add: Let_def b b')
qed

lemma execution_direct:
  assumes "good s"
  shows "fst (resolvable_execution r es s) = fst (resolvable_execution (direct intact) es ())
    \<and> good (snd (resolvable_execution r es s))"
  using assms
proof (induction es arbitrary: s)
  case Nil
  then show ?case by simp
next
  case (Cons e es)
  let ?req = "data_get e ''request_blob''" and ?resp = "data_get e ''response_blob''"
  obtain a s1 where a: "resolve r ?req s = (a, s1)" by fastforce
  obtain a' u where a': "resolve (direct intact) ?req () = (a', u)" by (rule prod.exhaust)
  from resolve_direct[OF Cons.prems, of ?req] a a' have a_eq: "a' = a" "good s1" by simp_all
  obtain b s2 where b: "resolve r ?resp s1 = (b, s2)" by fastforce
  obtain b' v where b': "resolve (direct intact) ?resp () = (b', v)" by (rule prod.exhaust)
  from resolve_direct[OF a_eq(2), of ?resp] b b' have b_eq: "b' = b" "good s2" by simp_all
  show ?case
    using Cons.IH[OF Cons.prems] Cons.IH[OF a_eq(2)] Cons.IH[OF b_eq(2)] Cons.prems a_eq b_eq
    by (cases a; cases b) (simp_all add: Let_def a a' b b')
qed

lemma assess_direct:
  assumes "good s"
  shows "fst (assess_completeness r evs d s) = fst (assess_completeness (direct intact) evs d ())
    \<and> good (snd (assess_completeness r evs d s))"
proof -
  let ?xs = "of_type EXECUTION evs"
  obtain h1 s1 where k1: "resolved_blob_hash r ''request_blob'' ?xs s = (h1, s1)" by fastforce
  obtain h1' u1 where d1: "resolved_blob_hash (direct intact) ''request_blob'' ?xs () = (h1', u1)" by (rule prod.exhaust)
  from hash_direct[OF assms, of "''request_blob''" ?xs] k1 d1 have g1: "h1' = h1" "good s1" by simp_all
  obtain h2 s2 where k2: "resolved_blob_hash r ''response_blob'' ?xs s1 = (h2, s2)" by fastforce
  obtain h2' u2 where d2: "resolved_blob_hash (direct intact) ''response_blob'' ?xs () = (h2', u2)" by (rule prod.exhaust)
  from hash_direct[OF g1(2), of "''response_blob''" ?xs] k2 d2 have g2: "h2' = h2" "good s2" by simp_all
  obtain h3 s3 where k3: "resolvable_execution r ?xs s2 = (h3, s3)" by fastforce
  obtain h3' u3 where d3: "resolvable_execution (direct intact) ?xs () = (h3', u3)" by (rule prod.exhaust)
  from execution_direct[OF g2(2), of ?xs] k3 d3 have g3: "h3' = h3" "good s3" by simp_all
  show ?thesis
    using g1 g2 g3 by (simp add: assess_completeness_def Let_def k1 d1 k2 d2 k3 d3)
qed

lemma reconstruct_direct:
  assumes "good s"
  shows "fst (reconstruct r l ref s) = fst (reconstruct (direct intact) l ref ())"
    and "good (snd (reconstruct r l ref s))"
  using assess_direct[OF assms, of "events_for ref l" "persistence_degraded l"]
  by (auto simp: reconstruct_def Let_def split: prod.splits)

end

definition memo_ok :: "(string \<Rightarrow> bool) \<Rightarrow> (string \<times> bool) list \<Rightarrow> bool" where
  [inv_defs]: "memo_ok intact memo \<longleftrightarrow> (\<forall>h b. dict_get memo h = Some b \<longrightarrow> b = intact h)"

interpretation direct_resolver: blob_resolver "direct intact" intact "\<lambda>_. True" for intact
  by unfold_locales (simp_all add: direct_def)

interpretation memo_resolver: blob_resolver "memoized intact" intact "memo_ok intact" for intact
  by unfold_locales
    (auto simp: memoized_def memo_ok_def dict_get_set split: option.split if_splits)

section \<open>The batch\<close>

lemma set_wanted [simp]: "set (wanted_refs refs) = {r \<in> set refs. r \<noteq> []}"
  by (auto simp: wanted_refs_def)

lemma distinct_wanted: "distinct (wanted_refs refs)"
  by (simp add: wanted_refs_def)

lemma wanted_again [simp]: "wanted_refs (wanted_refs refs) = wanted_refs refs"
proof -
  have "filter (\<lambda>r. r \<noteq> []) (wanted_refs refs) = wanted_refs refs"
    by (rule filter_True) simp
  then show ?thesis
    using distinct_wanted by (simp add: wanted_refs_def[of "wanted_refs refs"] distinct_remdups_id)
qed

lemma group_rows:
  "option_or (dict_get (foldl group_row d rows) ref) [] =
     option_or (dict_get d ref) [] @ filter (\<lambda>r. row_ref r = ref) rows"
proof (induction rows arbitrary: d)
  case Nil
  then show ?case by simp
next
  case (Cons r rows)
  show ?case
    by (simp add: Cons.IH) (auto simp: group_row_def dict_get_set option_or_def)
qed

lemma many_for_one:
  assumes "ledger_events_for_many rows engagement who refs = Inr by_ref" and "ref \<in> set (wanted_refs refs)"
  shows "ledger_events_for rows engagement who ref = Inr (option_or (dict_get by_ref ref) [])"
proof -
  let ?keep = "\<lambda>r. row_ref r \<in> set (wanted_refs refs) \<and> owned_by engagement who r"
  from assms(2) have "wanted_refs refs \<noteq> []" by (metis list.set(1) empty_iff)
  with assms(1) have ok: "engagement_ok engagement"
    and by_ref: "by_ref = foldl group_row [] (sort_key row_time (filter ?keep rows))"
    by (auto simp: ledger_events_for_many_def Let_def split: if_splits)
  have "option_or (dict_get by_ref ref) [] = filter (\<lambda>r. row_ref r = ref) (sort_key row_time (filter ?keep rows))"
    by (simp add: by_ref group_rows) (simp add: option_or_def)
  also have "\<dots> = sort_key row_time (filter (\<lambda>r. row_ref r = ref) (filter ?keep rows))"
    by (rule filter_sort)
  also have "filter (\<lambda>r. row_ref r = ref) (filter ?keep rows) = filter (\<lambda>r. row_ref r = ref \<and> owned_by engagement who r) rows"
    using assms(2) by (auto intro!: filter_cong)
  finally show ?thesis using ok by (simp add: ledger_events_for_def)
qed

lemma reconstruct_all_direct:
  assumes "memo_ok intact memo"
  shows "reconstruct_all intact n by_ref refs memo =
    map (\<lambda>ref. (ref, fst (reconstruct (direct intact)
      (ledger_from_rows n (option_or (dict_get by_ref ref) [])) ref ()))) refs"
  using assms
proof (induction refs arbitrary: memo)
  case Nil
  then show ?case by simp
next
  case (Cons ref refs)
  let ?l = "ledger_from_rows n (option_or (dict_get by_ref ref) [])"
  obtain rec memo' where rec: "reconstruct (memoized intact) ?l ref memo = (rec, memo')" by fastforce
  with memo_resolver.reconstruct_direct[OF Cons.prems, of ?l ref]
  have "rec = fst (reconstruct (direct intact) ?l ref ())" "memo_ok intact memo'" by simp_all
  with Cons.IH show ?case by (simp add: Let_def rec)
qed

text \<open>The batched reconstruction, which reads the table once and looks every hash up at most once,
  returns for every requested finding, in order and without repetition, what the single
  reconstruction returns.\<close>

theorem batch_equals_single:
  assumes "engagement_ok engagement"
  shows "reconstruct_persisted_many intact n rows engagement who refs =
    map (\<lambda>ref. (ref, reconstruct_persisted intact n rows engagement who ref)) (wanted_refs refs)"
proof (cases "wanted_refs refs = []")
  case True
  then show ?thesis by (simp add: reconstruct_persisted_many_def)
next
  case False
  with assms obtain by_ref where many: "ledger_events_for_many rows engagement who (wanted_refs refs) = Inr by_ref"
    by (simp add: ledger_events_for_many_def Let_def)
  have "fst (reconstruct (direct intact) (ledger_from_rows n (option_or (dict_get by_ref ref) [])) ref ()) =
      reconstruct_persisted intact n rows engagement who ref" if "ref \<in> set (wanted_refs refs)" for ref
    using many_for_one[OF many, of ref] that
    by (simp add: reconstruct_persisted_def ledger_from_store_def)
  moreover have "memo_ok intact []" by (simp add: memo_ok_def)
  ultimately show ?thesis
    using False many by (simp add: reconstruct_persisted_many_def Let_def reconstruct_all_direct)
qed

text \<open>When the engagement is refused, the batch drops every finding; the single call answers.\<close>

lemma batch_failure_drops:
  assumes "\<not> engagement_ok engagement"
  shows "reconstruct_persisted_many intact n rows engagement who refs = []"
  using assms by (auto simp: reconstruct_persisted_many_def Let_def ledger_events_for_many_def split: if_splits)

section \<open>The stream\<close>

lemma evict_split:
  obtains dropped where "es = dropped @ fst (evict_oldest m es known)"
    and "set (snd (evict_oldest m es known)) = set known - event_id ` set dropped"
    and "m > 0 \<Longrightarrow> int (length (fst (evict_oldest m es known))) \<le> m" and "m \<le> 0 \<Longrightarrow> dropped = []"
proof -
  have "\<exists>dropped. es = dropped @ fst (evict_oldest m es known) \<and>
      set (snd (evict_oldest m es known)) = set known - event_id ` set dropped \<and>
      (m > 0 \<longrightarrow> int (length (fst (evict_oldest m es known))) \<le> m) \<and> (m \<le> 0 \<longrightarrow> dropped = [])"
  proof (induction es arbitrary: known)
    case Nil
    then show ?case by simp
  next
    case (Cons e es)
    show ?case
    proof (cases "m > 0 \<and> int (length (e # es)) > m")
      case True
      from Cons.IH[of "removeAll (event_id e) known"] obtain d where
        "es = d @ fst (evict_oldest m es (removeAll (event_id e) known))"
        "set (snd (evict_oldest m es (removeAll (event_id e) known))) = set (removeAll (event_id e) known) - event_id ` set d"
        "int (length (fst (evict_oldest m es (removeAll (event_id e) known)))) \<le> m"
        using True by auto
      with True show ?thesis by (intro exI[of _ "e # d"]) auto
    next
      case False
      then show ?thesis by (intro exI[of _ "[]"]) auto
    qed
  qed
  with that show ?thesis by blast
qed

definition ledger_good :: "evidence_ledger \<Rightarrow> bool" where
  [inv_defs]: "ledger_good l \<longleftrightarrow> distinct (map event_id (events l)) \<and>
     set (ids l) = event_id ` set (events l) \<and> (max_events l > 0 \<longrightarrow> int (length (events l)) \<le> max_events l)"

definition ledger_step :: "evidence_ledger \<Rightarrow> ledger_event \<Rightarrow> evidence_ledger" where
  "ledger_step l e = (case append_event e l of Inl _ \<Rightarrow> l | Inr l' \<Rightarrow> l')"

lemma append_event_split:
  assumes "append_event e l = Inr l'"
  obtains dropped where "events l @ [e] = dropped @ events l'" and "event_id e \<notin> set (ids l)"
    and "set (ids l') = insert (event_id e) (set (ids l)) - event_id ` set dropped"
    and "max_events l > 0 \<Longrightarrow> int (length (events l')) \<le> max_events l"
    and "max_events l \<le> 0 \<Longrightarrow> dropped = []" and "max_events l' = max_events l"
    and "persistence_degraded l' = persistence_degraded l"
proof -
  obtain d where d: "events l @ [e] = d @ fst (evict_oldest (max_events l) (events l @ [e]) (event_id e # ids l))"
    "set (snd (evict_oldest (max_events l) (events l @ [e]) (event_id e # ids l))) =
       set (event_id e # ids l) - event_id ` set d"
    "max_events l > 0 \<Longrightarrow> int (length (fst (evict_oldest (max_events l) (events l @ [e]) (event_id e # ids l)))) \<le> max_events l"
    "max_events l \<le> 0 \<Longrightarrow> d = []"
    by (rule evict_split[of "events l @ [e]" "max_events l" "event_id e # ids l"]) blast
  from assms have "event_id e \<notin> set (ids l)"
    "events l' = fst (evict_oldest (max_events l) (events l @ [e]) (event_id e # ids l))"
    "ids l' = snd (evict_oldest (max_events l) (events l @ [e]) (event_id e # ids l))"
    "max_events l' = max_events l" "persistence_degraded l' = persistence_degraded l"
    by (auto simp: append_event_def Let_def split: if_splits prod.splits)
  with d that[of d] show thesis by simp
qed

lemma append_event_good:
  assumes "ledger_good l" and "append_event e l = Inr l'"
  shows "ledger_good l'"
proof -
  from assms(2) obtain d where d: "events l @ [e] = d @ events l'" "event_id e \<notin> set (ids l)"
    "set (ids l') = insert (event_id e) (set (ids l)) - event_id ` set d"
    "max_events l > 0 \<Longrightarrow> int (length (events l')) \<le> max_events l" "max_events l' = max_events l"
    by (rule append_event_split) blast
  from assms(1) d(2) have "distinct (map event_id (events l @ [e]))"
    and ids: "insert (event_id e) (set (ids l)) = event_id ` set (events l @ [e])"
    by (auto simp: ledger_good_def)
  then have dist: "distinct (map event_id (d @ events l'))" by (simp only: d(1))
  then have "event_id ` set (d @ events l') - event_id ` set d = event_id ` set (events l')"
    by auto
  with d(3) ids have "set (ids l') = event_id ` set (events l')" by (simp only: d(1))
  with dist d show ?thesis by (simp add: ledger_good_def)
qed

interpretation ledger_stream: step_system ledger_step ledger_good
  by unfold_locales (auto simp: ledger_step_def intro: append_event_good split: sum.split)

lemma new_ledger_good: "ledger_good (new_ledger m)"
  by (simp add: ledger_good_def new_ledger_def)

lemma ledger_step_max [simp]: "max_events (ledger_step l e) = max_events l"
  by (auto simp: ledger_step_def elim: append_event_split split: sum.split)

lemma ledger_run_max [simp]: "max_events (foldl ledger_step l es) = max_events l"
  by (induction es arbitrary: l) simp_all

lemma ledger_step_subseq:
  assumes "subseq (events l) es"
  shows "subseq (events (ledger_step l e)) (es @ [e])"
proof (cases "append_event e l")
  case (Inl x)
  with assms have "subseq (events (ledger_step l e)) es" by (simp add: ledger_step_def)
  moreover have "subseq es (es @ [e])" by (simp add: prefix_imp_subseq)
  ultimately show ?thesis by (rule subseq_order.order_trans)
next
  case (Inr l')
  then obtain d where "events l @ [e] = d @ events l'" by (rule append_event_split) blast
  then have "subseq (events l') (events l @ [e])" by (metis suffixI suffix_imp_subseq)
  also have "subseq (events l @ [e]) (es @ [e])" using assms by simp
  finally show ?thesis by (simp add: Inr ledger_step_def)
qed

lemma ledger_run_subseq: "subseq (events (foldl ledger_step (new_ledger m) es)) es"
  by (induction es rule: rev_induct) (simp_all add: new_ledger_def ledger_step_subseq)

lemma ledger_step_unbounded:
  assumes "max_events l \<le> 0" and "ledger_good l"
  shows "event_id ` set (events (ledger_step l e)) = insert (event_id e) (event_id ` set (events l))"
proof (cases "append_event e l")
  case (Inl x)
  then have "event_id e \<in> set (ids l)"
    by (auto simp: append_event_def Let_def split: if_splits prod.splits)
  with assms(2) Inl show ?thesis by (auto simp: ledger_step_def ledger_good_def)
next
  case (Inr l')
  then obtain d where "events l @ [e] = d @ events l'" "max_events l \<le> 0 \<Longrightarrow> d = []"
    by (rule append_event_split) blast
  with assms(1) have "events l' = events l @ [e]" by simp
  with Inr show ?thesis by (simp add: ledger_step_def)
qed

lemma ledger_run_unbounded:
  assumes "m \<le> 0"
  shows "event_id ` set (events (foldl ledger_step (new_ledger m) es)) = event_id ` set es"
proof (induction es rule: rev_induct)
  case Nil
  then show ?case by (simp add: new_ledger_def)
next
  case (snoc e es)
  have "max_events (new_ledger m) \<le> 0" using assms by (simp add: new_ledger_def)
  then show ?case
    using snoc by (simp add: ledger_step_unbounded ledger_stream.run_good new_ledger_good)
qed

text \<open>Whatever is appended, the ledger holds a subsequence of the appended events, unchanged and in
  order, under distinct ids and within its cap; without a cap it keeps an event of every id.\<close>

theorem ledger_append_only:
  assumes "l = foldl ledger_step (new_ledger m) es"
  shows "subseq (events l) es \<and> distinct (map event_id (events l)) \<and>
    set (ids l) = event_id ` set (events l) \<and>
    (if m > 0 then int (length (events l)) \<le> m else event_id ` set (events l) = event_id ` set es)"
proof -
  have "ledger_good l"
    unfolding assms by (rule ledger_stream.run_good[OF new_ledger_good])
  moreover have "max_events l = m" by (simp add: assms) (simp add: new_ledger_def)
  moreover have "subseq (events l) es" unfolding assms by (rule ledger_run_subseq)
  moreover have "m \<le> 0 \<Longrightarrow> event_id ` set (events l) = event_id ` set es"
    unfolding assms by (rule ledger_run_unbounded)
  ultimately show ?thesis by (auto simp: ledger_good_def)
qed

section \<open>What a reproducible finding rests on\<close>

definition both_blobs :: "(string \<Rightarrow> bool) \<Rightarrow> ledger_event \<Rightarrow> bool" where
  "both_blobs intact e \<longleftrightarrow> blob_resolves intact (data_get e ''request_blob'') \<and>
     blob_resolves intact (data_get e ''response_blob'')"

lemma resolvable_execution_find:
  "fst (resolvable_execution (direct intact) es ()) = List.find (both_blobs intact) es"
proof (induction es)
  case Nil
  then show ?case by simp
next
  case (Cons e es)
  obtain a u where a: "resolve (direct intact) (data_get e ''request_blob'') () = (a, u)" by (rule prod.exhaust)
  obtain b v where b: "resolve (direct intact) (data_get e ''response_blob'') () = (b, v)" by (rule prod.exhaust)
  show ?case
    by (cases a; cases b) (simp_all add: Let_def both_blobs_def blob_resolves_def a b Cons.IH)
qed

lemma find_none_iff: "List.find P xs \<noteq> None \<longleftrightarrow> list_ex P xs"
  by (induction xs) simp_all

lemma set_events_for: "set (events_for ref l) = {e \<in> set (events l). finding_ref e = ref}"
  by (auto simp: events_for_def)

lemma set_of_type: "set (of_type t es) = {e \<in> set es. event_type e = t}"
  by (auto simp: of_type_def)

definition ledger_degraded :: "evidence_ledger \<Rightarrow> string \<Rightarrow> bool" where
  "ledger_degraded l ref \<longleftrightarrow> persistence_degraded l \<or>
     list_ex (\<lambda>e. event_type e = PERSISTENCE_FAILURE \<or> json_truthy (data_get e ''ledger_persistence_degraded''))
       (events_for ref l)"

lemma resolvable_execution_none:
  "fst (resolvable_execution (direct intact) es ()) = None \<longleftrightarrow> \<not> list_ex (both_blobs intact) es"
  using find_none_iff[of "both_blobs intact" es] by (auto simp: resolvable_execution_find)

lemma assess_select:
  "c_degraded (fst (assess_completeness r evs d s)) \<longleftrightarrow> d \<or> of_type PERSISTENCE_FAILURE evs \<noteq> [] \<or>
     list_ex (\<lambda>e. json_truthy (data_get e ''ledger_persistence_degraded'')) evs"
  "has_execution (fst (assess_completeness r evs d s)) \<longleftrightarrow> of_type EXECUTION evs \<noteq> []"
  unfolding assess_completeness_def Let_def case_prod_unfold fst_conv completeness.select_convs
  by (rule refl)+

lemma assess_resolvable:
  "resolvable (fst (assess_completeness (direct intact) evs d ())) \<longleftrightarrow>
     \<not> c_degraded (fst (assess_completeness (direct intact) evs d ())) \<and>
     list_ex (both_blobs intact) (of_type EXECUTION evs)"
proof -
  have unit: "s = ()" for s :: unit by simp
  have "fst (if xs \<noteq> [] then resolvable_execution (direct intact) xs s else (None, s)) \<noteq> None \<longleftrightarrow>
      list_ex (both_blobs intact) xs" for xs and s :: unit
    using resolvable_execution_none[of intact xs] by (auto simp: unit[of s] simp del: find_none_iff)
  then show ?thesis
    unfolding assess_completeness_def Let_def case_prod_unfold fst_conv completeness.select_convs
    by blast
qed

lemma assess_degraded:
  "c_degraded (fst (assess_completeness r evs d s)) \<longleftrightarrow> d \<or>
     list_ex (\<lambda>e. event_type e = PERSISTENCE_FAILURE \<or> json_truthy (data_get e ''ledger_persistence_degraded'')) evs"
  unfolding assess_select by (auto simp: of_type_def filter_empty_conv list_ex_iff)

lemmas assess_fields = assess_degraded assess_resolvable

lemma reconstruct_assessment:
  "r_completeness (fst (reconstruct (direct intact) l ref ())) =
     fst (assess_completeness (direct intact) (events_for ref l) (persistence_degraded l) ())"
  by (simp add: reconstruct_def Let_def case_prod_unfold)

lemma reconstruct_degraded:
  "c_degraded (r_completeness (fst (reconstruct (direct intact) l ref ()))) \<longleftrightarrow> ledger_degraded l ref"
  by (simp add: reconstruct_assessment assess_degraded ledger_degraded_def)

lemma reconstruct_resolvable:
  "resolvable (r_completeness (fst (reconstruct (direct intact) l ref ()))) \<longleftrightarrow>
     \<not> ledger_degraded l ref \<and> list_ex (both_blobs intact) (of_type EXECUTION (events_for ref l))"
  by (simp add: reconstruct_assessment assess_fields ledger_degraded_def)

lemma reconstruct_complete:
  "complete (fst (reconstruct (direct intact) l ref ())) \<longleftrightarrow> \<not> ledger_degraded l ref \<and>
     list_ex (\<lambda>e. event_type e = VALIDATION_DECISION \<or> event_type e = FINDING_REVISION) (events_for ref l)"
proof -
  have "complete (fst (reconstruct (direct intact) l ref ())) \<longleftrightarrow>
      (of_type VALIDATION_DECISION (events_for ref l) \<noteq> [] \<or> of_type FINDING_REVISION (events_for ref l) \<noteq> []) \<and>
      \<not> c_degraded (r_completeness (fst (reconstruct (direct intact) l ref ())))"
    by (simp add: reconstruct_def Let_def split: prod.split)
  then show ?thesis
    unfolding reconstruct_degraded by (auto simp: of_type_def filter_empty_conv list_ex_iff)
qed

text \<open>A finding is called resolvable exactly when one execution event of its own has both its
  request and its response archived intact, and no write of the ledger is known to be lost.\<close>

theorem resolvable_by_one_execution:
  "resolvable (r_completeness (fst (reconstruct (direct intact) l ref ()))) \<longleftrightarrow>
    \<not> ledger_degraded l ref \<and>
    (\<exists>e. e \<in> set (events l) \<and> finding_ref e = ref \<and> event_type e = EXECUTION \<and>
       blob_resolves intact (data_get e ''request_blob'') \<and> blob_resolves intact (data_get e ''response_blob''))"
  unfolding reconstruct_resolvable list_ex_iff set_of_type set_events_for both_blobs_def by blast

text \<open>The recipe and the reconstruction agree: the recipe is resolvable exactly when the
  reconstruction is, exactly when one of its steps can be replayed.\<close>

theorem recipe_agrees:
  "p_resolvable (reproduction_recipe intact l ref) =
     resolvable (r_completeness (fst (reconstruct (direct intact) l ref ()))) \<and>
   p_resolvable (reproduction_recipe intact l ref) =
     list_ex replayable (recipe_steps (reproduction_recipe intact l ref)) \<and>
   p_degraded (reproduction_recipe intact l ref) = ledger_degraded l ref"
proof -
  let ?xs = "of_type EXECUTION (events_for ref l)"
  have step: "replayable (recipe_step_of intact e) = both_blobs intact e" for e
    by (simp add: recipe_step_of_def Let_def both_blobs_def)
  have "p_resolvable (reproduction_recipe intact l ref) \<longleftrightarrow>
      \<not> ledger_degraded l ref \<and> list_ex (both_blobs intact) ?xs"
    using find_none_iff[of "both_blobs intact" ?xs]
    by (auto simp: reproduction_recipe_def Let_def resolvable_execution_find reconstruct_degraded)
  moreover have "list_ex replayable (recipe_steps (reproduction_recipe intact l ref)) \<longleftrightarrow>
      \<not> ledger_degraded l ref \<and> list_ex (both_blobs intact) ?xs"
    by (auto simp: reproduction_recipe_def Let_def reconstruct_degraded list_ex_iff step degrade_step_def)
  moreover have "p_degraded (reproduction_recipe intact l ref) = ledger_degraded l ref"
    by (simp add: reproduction_recipe_def Let_def reconstruct_degraded)
  ultimately show ?thesis by (simp add: reconstruct_resolvable)
qed

section \<open>Lost writes\<close>

lemma record_event_split:
  assumes "record_event uid now ty ref txt d p cr l = Inr (e, l')"
  shows "append_event e l = Inr l'" and "event_type e = ty" and "finding_ref e = ref" and "data e = d"
    and "event_id e = uid"
  using assms by (auto simp: record_event_def Let_def post_init_def list_or_def split: sum.splits)

lemma record_event_degraded:
  assumes "record_event uid now ty ref txt d p cr l = Inr (e, l')"
  shows "persistence_degraded l' = persistence_degraded l"
  using record_event_split(1)[OF assms] by (rule append_event_split)

lemma replay_degraded [simp]:
  "persistence_degraded (foldl replay_row l rows) = persistence_degraded l"
proof (induction rows arbitrary: l)
  case Nil
  then show ?case by simp
next
  case (Cons r rows)
  have "persistence_degraded (replay_row l r) = persistence_degraded l"
    by (auto simp: replay_row_def elim: append_event_split split: option.split sum.split)
  with Cons show ?case by simp
qed

lemma failed_process_degraded:
  assumes "n \<noteq> 0"
  shows "\<not> complete (reconstruct_persisted intact n rows engagement who ref) \<and>
    \<not> resolvable (r_completeness (reconstruct_persisted intact n rows engagement who ref))"
proof (cases "ledger_events_for rows engagement who ref")
  case (Inl x)
  then show ?thesis
    by (simp add: reconstruct_persisted_def ledger_from_store_def reconstruct_complete reconstruct_resolvable
        events_for_def new_ledger_def of_type_def)
next
  case (Inr rs)
  with assms show ?thesis
    by (simp add: reconstruct_persisted_def ledger_from_store_def reconstruct_complete reconstruct_resolvable
        ledger_degraded_def ledger_from_rows_def)
qed

text \<open>What the rest of a process may do to the ledger after that: emit events, whatever becomes of their
  writes, and replace the ledger by an empty one.\<close>

datatype ledger_op =
    Emit emission event_type string string "(string \<times> json) list" provenance string
  | Reset int

fun apply_ledger_op :: "ledger_world \<Rightarrow> ledger_op \<Rightarrow> ledger_world" where
  "apply_ledger_op w (Emit x ty ref txt d p cr) = snd (emit x ty ref txt d p cr w)"
| "apply_ledger_op w (Reset m) = reset_default_ledger m w"

text \<open>The failure count stays, and an event without a mark of its own is only in a ledger that is
  marked as a whole.\<close>

definition marked :: "ledger_event \<Rightarrow> bool" where
  "marked e \<longleftrightarrow> event_type e = PERSISTENCE_FAILURE \<or> json_truthy (data_get e ''ledger_persistence_degraded'')"

definition loss_known :: "ledger_world \<Rightarrow> bool" where
  [inv_defs]: "loss_known w \<longleftrightarrow> failures w \<noteq> 0 \<and>
     (persistence_degraded (led w) \<or> (\<forall>e \<in> set (events (led w)). marked e))"

lemma record_event_events:
  assumes "record_event uid now ty ref txt d p cr l = Inr (e, l')"
  shows "set (events l') \<subseteq> insert e (set (events l))"
proof -
  from record_event_split(1)[OF assms] obtain k where "events l @ [e] = k @ events l'"
    by (rule append_event_split) blast
  then have "set (events l') \<subseteq> set (events l @ [e])" by (metis Un_upper2 set_append)
  then show ?thesis by simp
qed

lemma record_event_marked:
  assumes "record_event uid now ty ref txt (dict_set ''ledger_persistence_degraded'' (JBool True) d) p cr l = Inr (e, l')"
  shows "marked e"
  using record_event_split(4)[OF assms] by (simp add: marked_def data_get_def option_or_def)

lemma emit_keeps_loss:
  assumes "loss_known w"
  shows "loss_known (snd (emit x ty ref txt d p cr w))"
proof (cases "ref = []")
  case True
  with assms show ?thesis by (simp add: emit_def)
next
  case False
  let ?d = "dict_set ''ledger_persistence_degraded'' (JBool True) d"
  have f: "failures w \<noteq> 0" using assms by (simp add: loss_known_def)
  show ?thesis
  proof (cases "record_event (x_uid x) (x_time x) ty ref txt ?d (Some p) cr (led w)")
    case (Inl y)
    with False f assms show ?thesis by (simp add: emit_def)
  next
    case (Inr el)
    obtain e l where el: "el = (e, l)" by (rule prod.exhaust)
    note r = Inr[unfolded el]
    show ?thesis
    proof (cases "x_write_ok x")
      case True
      with False f r have "snd (emit x ty ref txt d p cr w) =
          w\<lparr>led := l, table := persist_ledger_event (x_engagement x) (x_principal x) e (table w)\<rparr>"
        by (simp add: emit_def)
      with assms record_event_degraded[OF r] record_event_events[OF r] record_event_marked[OF r]
      show ?thesis by (auto simp: loss_known_def)
    next
      case lost: False
      with False f r show ?thesis
        by (auto simp: emit_def Let_def loss_known_def dest: record_event_degraded split: sum.split)
    qed
  qed
qed

lemma apply_ledger_op_keeps_loss: "loss_known w \<Longrightarrow> loss_known (apply_ledger_op w op)"
  by (cases op) (simp_all add: emit_keeps_loss, simp add: loss_known_def reset_default_ledger_def new_ledger_def)

interpretation ledger_process: step_system apply_ledger_op loss_known
  by unfold_locales (rule apply_ledger_op_keeps_loss)

lemma loss_known_degraded:
  assumes "loss_known w"
  shows "ledger_degraded (led w) ref \<or> events_for ref (led w) = []"
proof (cases "events_for ref (led w)")
  case (Cons e es)
  then have "e \<in> set (events_for ref (led w))" by simp
  then have "e \<in> set (events (led w))" by (simp add: set_events_for)
  with assms Cons show ?thesis by (auto simp: loss_known_def ledger_degraded_def marked_def)
qed simp

lemma loss_known_never_complete:
  assumes "loss_known w"
  shows "\<not> complete (fst (reconstruct (direct intact) (led w) ref ()))"
    and "\<not> resolvable (r_completeness (fst (reconstruct (direct intact) (led w) ref ())))"
  using loss_known_degraded[OF assms, of ref]
  by (auto simp: reconstruct_complete reconstruct_resolvable of_type_def)

text \<open>C32: A lost write is never hidden in the process that lost it: from then on, whatever is emitted
  later with whatever outcome of its writes, and however often the ledger is replaced by an empty
  one, the status says so, and neither the ledger in memory nor the table calls any finding complete
  or resolvable.\<close>

theorem lost_write_never_complete:
  assumes "emit x ty ref txt d p cr w = (Inr res, w')" and "ref \<noteq> []" and "\<not> x_write_ok x"
    and "w'' = foldl apply_ledger_op w' ops"
  shows "fst (evidence_write_status w'') \<and>
    \<not> complete (fst (reconstruct (direct intact) (led w'') any_ref ())) \<and>
    \<not> resolvable (r_completeness (fst (reconstruct (direct intact) (led w'') any_ref ()))) \<and>
    \<not> complete (reconstruct_persisted intact (failures w'') (table w'') engagement who any_ref) \<and>
    \<not> resolvable (r_completeness (reconstruct_persisted intact (failures w'') (table w'') engagement who any_ref))"
proof -
  from assms(1-3) have "loss_known w'"
    by (auto simp: emit_def Let_def loss_known_def dest!: record_event_degraded split: if_splits sum.splits prod.splits)
  then have l: "loss_known w''" unfolding assms(4) by (rule ledger_process.run_good)
  then have f: "failures w'' \<noteq> 0" by (simp add: loss_known_def)
  with loss_known_never_complete[OF l] failed_process_degraded[OF f] show ?thesis
    by (simp add: evidence_write_status_def)
qed

text \<open>The failure count never goes back while the process lives.\<close>

lemma failures_mono: "failures w \<le> failures (snd (emit x ty ref txt d p cr w))"
  by (auto simp: emit_def Let_def split: sum.split prod.split)

section \<open>Replaying a marker\<close>

lemma event_type_of_value [simp]: "event_type_of (event_type_value t) = Some t"
  by (cases t) (simp_all add: event_type_of_def event_types_def)

lemma replay_unbounded:
  assumes "max_events l \<le> 0"
  shows "max_events (replay_row l r) = max_events l" and "set (events l) \<subseteq> set (events (replay_row l r))"
proof -
  have "max_events (replay_row l r) = max_events l \<and> set (events l) \<subseteq> set (events (replay_row l r))"
  proof (cases "event_of_row r")
    case None
    then show ?thesis by (simp add: replay_row_def)
  next
    case (Some e)
    show ?thesis
    proof (cases "append_event e l")
      case (Inl x)
      with Some show ?thesis by (simp add: replay_row_def)
    next
      case (Inr l')
      then obtain d where "events l @ [e] = d @ events l'" "max_events l \<le> 0 \<Longrightarrow> d = []" "max_events l' = max_events l"
        by (rule append_event_split) blast
      with assms have "events l' = events l @ [e]" "max_events l' = max_events l" by simp_all
      with Some Inr show ?thesis by (simp add: replay_row_def subset_insertI)
    qed
  qed
  then show "max_events (replay_row l r) = max_events l" and "set (events l) \<subseteq> set (events (replay_row l r))"
    by simp_all
qed

lemma replay_run_keeps:
  assumes "max_events l \<le> 0"
  shows "set (events l) \<subseteq> set (events (foldl replay_row l rows))"
  using assms
proof (induction rows arbitrary: l)
  case Nil
  then show ?case by simp
next
  case (Cons r rows)
  from Cons.prems have "max_events (replay_row l r) \<le> 0" by (simp add: replay_unbounded)
  with Cons.IH replay_unbounded(2)[OF Cons.prems, of r] show ?case by fastforce
qed

lemma replay_good: "ledger_good l \<Longrightarrow> ledger_good (replay_row l r)"
  by (auto simp: replay_row_def intro: append_event_good split: option.split sum.split)

lemma replay_ids:
  assumes "ledger_good l" and "max_events l \<le> 0"
  shows "set (ids (replay_row l r)) \<subseteq> insert (event_id (e_event r)) (set (ids l))"
proof (cases "event_of_row r")
  case None
  then show ?thesis by (auto simp: replay_row_def)
next
  case (Some e)
  then have "event_id e = event_id (e_event r)" by (auto simp: event_of_row_def)
  with Some show ?thesis
    by (auto simp: replay_row_def elim: append_event_split split: sum.split)
qed

lemma replay_run_adds:
  assumes "r \<in> set rows" and "event_of_row r = Some e"
    and "\<And>r'. r' \<in> set rows \<Longrightarrow> event_id (e_event r') = event_id e \<Longrightarrow> r' = r"
    and "event_id e \<notin> set (ids l)" and "ledger_good l" and "max_events l \<le> 0"
  shows "e \<in> set (events (foldl replay_row l rows))"
  using assms
proof (induction rows arbitrary: l)
  case Nil
  then show ?case by simp
next
  case (Cons r' rows)
  note good = replay_good[OF Cons.prems(5), of r']
  from Cons.prems(6) have m: "max_events (replay_row l r') \<le> 0" by (simp add: replay_unbounded)
  show ?case
  proof (cases "r' = r")
    case True
    from Cons.prems(4) obtain l' where l': "append_event e l = Inr l'"
      by (cases "append_event e l") (auto simp: append_event_def Let_def split: if_splits prod.splits)
    then obtain d where "events l @ [e] = d @ events l'" "max_events l \<le> 0 \<Longrightarrow> d = []"
      by (rule append_event_split) blast
    with Cons.prems(6) have "events l' = events l @ [e]" by simp
    with l' Cons.prems(2) True have "e \<in> set (events (replay_row l r'))" by (simp add: replay_row_def)
    with replay_run_keeps[OF m, of rows] show ?thesis by auto
  next
    case False
    with Cons.prems(3)[of r'] have "event_id (e_event r') \<noteq> event_id e" by auto
    with replay_ids[OF Cons.prems(5,6), of r'] Cons.prems(4)
    have "event_id e \<notin> set (ids (replay_row l r'))" by auto
    moreover from False Cons.prems(1) have "r \<in> set rows" by simp
    ultimately show ?thesis
      using Cons.IH[of "replay_row l r'"] Cons.prems(2,3) good m by simp
  qed
qed

text \<open>If the marker of a lost write reached the table, the finding stays degraded after a restart:
  the new process does not call it complete either.\<close>

theorem marker_survives_restart:
  assumes "emit x ty ref txt d p cr w = (Inr res, w')" and "ref \<noteq> []" and "\<not> x_write_ok x"
    and "x_marker_ok x" and "x_marker_uid x \<notin> (\<lambda>r. event_id (e_event r)) ` set (table w)"
  shows "\<not> complete (reconstruct_persisted intact (failures (restart w')) (table (restart w')) None None ref)"
proof -
  from assms obtain m l l' where m: "record_event (x_marker_uid x) (x_marker_time x) PERSISTENCE_FAILURE ref
      ''Durable evidence incomplete: ledger write failed'' [(''failure_type'', JStr (x_failure x))] (Some p) [] l = Inr (m, l')"
    and t: "table w' = persist_ledger_event (x_engagement x) (x_principal x) m (table w)"
    by (auto simp: emit_def Let_def split: if_splits sum.splits prod.splits)
  note mm = record_event_split[OF m]
  define r where "r = \<lparr>e_type = event_type_value (event_type m), e_event = m,
                        e_engagement = x_engagement x, e_principal = x_principal x\<rparr>"
  from assms(5) mm(5) t have t': "table w' = table w @ [r]"
    by (auto simp: persist_ledger_event_def r_def)
  have em: "event_of_row r = Some m" by (simp add: event_of_row_def r_def)
  let ?rs = "sort_key row_time (filter (\<lambda>r. row_ref r = ref \<and> owned_by None None r) (table w'))"
  have mem: "r \<in> set ?rs" by (simp add: t' r_def row_ref_def mm owned_by_def)
  have uniq: "r' = r" if r': "r' \<in> set ?rs" "event_id (e_event r') = event_id m" for r'
  proof -
    from r'(1) have "r' \<in> set (table w')" by simp
    with r'(2) assms(5) mm(5) show ?thesis by (force simp: t' image_iff)
  qed
  let ?l = "ledger_from_rows 0 ?rs"
  have "m \<in> set (events ?l)"
    unfolding ledger_from_rows_def
    by (rule replay_run_adds[OF mem em uniq]) (simp_all add: new_ledger_def ledger_good_def)
  with mm have "ledger_degraded ?l ref"
    unfolding ledger_degraded_def list_ex_iff set_events_for by auto
  then show ?thesis
    by (simp add: restart_def reconstruct_persisted_def ledger_from_store_def ledger_events_for_def
        engagement_ok_def reconstruct_complete)
qed

section \<open>The blob store\<close>

definition blobs_intact :: "(string \<Rightarrow> string) \<Rightarrow> blob_row list \<Rightarrow> bool" where
  [inv_defs]: "blobs_intact sha rows \<longleftrightarrow> list_all (\<lambda>b. sha (b_data b) = b_sha b) rows"

lemma find_blob_some: "h \<in> b_sha ` set rows \<Longrightarrow> \<exists>b. List.find (\<lambda>b. b_sha b = h) rows = Some b"
  by (induction rows) auto

lemma find_blob_intact:
  "blobs_intact sha rows \<Longrightarrow> List.find (\<lambda>b. b_sha b = h) rows = Some b \<Longrightarrow> sha (b_data b) = h"
  by (induction rows) (auto simp: blobs_intact_def split: if_splits)

lemma find_append: "List.find P (xs @ ys) = (case List.find P xs of None \<Rightarrow> List.find P ys | Some x \<Rightarrow> Some x)"
  by (induction xs) auto

text \<open>What is archived is found again: the digest \<open>put_evidence_blob\<close> returns resolves, every digest
  that resolved before still does, and the table stays intact.\<close>

theorem blob_roundtrip:
  assumes "blobs_intact sha rows" and "put_evidence_blob sha now d rows = (h, rows')" and "h \<noteq> []"
  shows "evidence_blob_resolves sha rows' h \<and> blobs_intact sha rows' \<and>
    {k. evidence_blob_resolves sha rows k} \<subseteq> {k. evidence_blob_resolves sha rows' k} \<and>
    (get_evidence_blob rows h = None \<longrightarrow> get_evidence_blob rows' h = Some d)"
proof -
  from assms(2) have h: "h = sha d" by (simp add: put_evidence_blob_def Let_def)
  from assms(1,2) have intact: "blobs_intact sha rows'"
    by (auto simp: put_evidence_blob_def Let_def blobs_intact_def split: if_splits)
  have in_rows: "h \<in> b_sha ` set rows'"
    using assms(2) h by (auto simp: put_evidence_blob_def Let_def split: if_splits)
  from find_blob_some[OF in_rows] obtain b where "List.find (\<lambda>b. b_sha b = h) rows' = Some b" by blast
  with intact assms(3) have "evidence_blob_resolves sha rows' h"
    by (auto simp: evidence_blob_resolves_def get_evidence_blob_def dest: find_blob_intact)
  moreover have "evidence_blob_resolves sha rows' k" if "evidence_blob_resolves sha rows k" for k
    using that assms(2)
    by (auto simp: evidence_blob_resolves_def get_evidence_blob_def put_evidence_blob_def Let_def find_append
        split: if_splits option.splits)
  moreover have "get_evidence_blob rows' h = Some d" if "get_evidence_blob rows h = None"
  proof -
    from that assms(3) have "List.find (\<lambda>b. b_sha b = h) rows = None"
      by (auto simp: get_evidence_blob_def)
    moreover from this have "h \<notin> b_sha ` set rows" using find_blob_some by fastforce
    ultimately show ?thesis
      using assms(2,3) h by (auto simp: put_evidence_blob_def Let_def get_evidence_blob_def find_append)
  qed
  ultimately show ?thesis using intact by blast
qed

text \<open>Archiving the same bytes again does not repair a damaged row.\<close>

lemma damaged_blob_not_repaired:
  assumes "List.find (\<lambda>b. b_sha b = sha d) rows = Some b" and "sha (b_data b) \<noteq> sha d"
  shows "\<not> evidence_blob_resolves sha (snd (put_evidence_blob sha now d rows)) (fst (put_evidence_blob sha now d rows))"
proof -
  from assms(1) obtain i where "i < length rows" "b_sha (rows ! i) = sha d" by (auto simp: find_Some_iff)
  then have "sha d \<in> b_sha ` set rows" by (metis imageI nth_mem)
  with assms show ?thesis
    by (simp add: put_evidence_blob_def Let_def evidence_blob_resolves_def get_evidence_blob_def)
qed

section \<open>Samples\<close>

definition tagged_digest :: "string \<Rightarrow> string" where
  "tagged_digest d = ''h'' @ d"

definition sample_event :: "string \<Rightarrow> event_type \<Rightarrow> (string \<times> json) list \<Rightarrow> ledger_event" where
  "sample_event uid ty d = \<lparr>event_type = ty, finding_ref = ''f1'', summary_text = ''s'', data = d,
     prov = no_provenance, case_ref = [], event_id = uid, created_at = 1\<rparr>"

definition sample_stream :: "ledger_event list" where
  "sample_stream = [sample_event ''a'' EXECUTION [], sample_event ''b'' EXECUTION [],
     sample_event ''a'' RUN_SUMMARY [], sample_event ''c'' VALIDATION_DECISION []]"

theorem ledger_append_only_witness:
  "int (length (events (foldl ledger_step (new_ledger 2) sample_stream))) \<le> 2 \<and>
   events (foldl ledger_step (new_ledger 2) sample_stream) =
     [sample_event ''b'' EXECUTION [], sample_event ''c'' VALIDATION_DECISION []]"
proof
  show "int (length (events (foldl ledger_step (new_ledger 2) sample_stream))) \<le> 2"
    using ledger_append_only[of "foldl ledger_step (new_ledger 2) sample_stream" 2 sample_stream] by simp
  show "events (foldl ledger_step (new_ledger 2) sample_stream) =
     [sample_event ''b'' EXECUTION [], sample_event ''c'' VALIDATION_DECISION []]"
    by (simp add: sample_stream_def ledger_step_def append_event_def new_ledger_def sample_event_def)
qed

definition sample_emission :: emission where
  "sample_emission = \<lparr>x_uid = ''e1'', x_time = 1, x_write_ok = False, x_marker_uid = ''m1'', x_marker_time = 2,
     x_marker_ok = True, x_engagement = [], x_principal = [], x_failure = ''OperationalError''\<rparr>"

definition sample_world :: ledger_world where
  "sample_world = \<lparr>led = new_ledger 5000, failures = 0, table = []\<rparr>"

definition sample_emit :: "(ledger_exc + ledger_event option) \<times> ledger_world" where
  "sample_emit = emit sample_emission VALIDATION_DECISION ''f1'' ''confirmed'' [] no_provenance [] sample_world"

lemma sample_emit_returns: "\<exists>res. fst sample_emit = Inr res"
  by (simp add: sample_emit_def emit_def Let_def sample_world_def sample_emission_def record_event_def
      post_init_def list_or_def float_or_def append_event_def new_ledger_def)

lemma sample_emit_inr:
  obtains res where "emit sample_emission VALIDATION_DECISION ''f1'' ''confirmed'' [] no_provenance [] sample_world =
    (Inr res, snd sample_emit)"
  using sample_emit_returns by (metis prod.collapse sample_emit_def)

theorem lost_write_never_complete_witness:
  "\<not> complete (fst (reconstruct (direct (\<lambda>_. True)) (led (apply_ledger_op (snd sample_emit)
      (Emit (sample_emission\<lparr>x_write_ok := True, x_uid := ''e2''\<rparr>) FINDING_REVISION ''f1'' ''kept'' [] no_provenance []))) ''f1'' ()))"
proof -
  obtain res where "emit sample_emission VALIDATION_DECISION ''f1'' ''confirmed'' [] no_provenance [] sample_world =
      (Inr res, snd sample_emit)" by (rule sample_emit_inr)
  from lost_write_never_complete[OF this _ _ refl, of
      "[Emit (sample_emission\<lparr>x_write_ok := True, x_uid := ''e2''\<rparr>) FINDING_REVISION ''f1'' ''kept'' [] no_provenance []]"]
  show ?thesis by (simp add: sample_emission_def)
qed

theorem marker_survives_restart_witness:
  "\<not> complete (reconstruct_persisted (\<lambda>_. True) 0 (table (snd sample_emit)) None None ''f1'')"
proof -
  obtain res where "emit sample_emission VALIDATION_DECISION ''f1'' ''confirmed'' [] no_provenance [] sample_world =
      (Inr res, snd sample_emit)" by (rule sample_emit_inr)
  from marker_survives_restart[OF this] show ?thesis
    by (simp add: sample_emission_def sample_world_def restart_def)
qed

theorem batch_equals_single_witness:
  "reconstruct_persisted_many (\<lambda>_. True) 0 (table (snd sample_emit)) (Some ''e'') None [''f1'', [], ''f1''] =
    [(''f1'', reconstruct_persisted (\<lambda>_. True) 0 (table (snd sample_emit)) (Some ''e'') None ''f1'')]"
  by (subst batch_equals_single) (simp_all add: engagement_ok_def wanted_refs_def)

theorem blob_roundtrip_witness:
  "evidence_blob_resolves tagged_digest (snd (put_evidence_blob tagged_digest 1 ''x'' [])) ''hx''"
  using blob_roundtrip[of tagged_digest "[]" 1 "''x''" "''hx''" "snd (put_evidence_blob tagged_digest 1 ''x'' [])"]
  by (simp add: blobs_intact_def) (simp add: put_evidence_blob_def Let_def tagged_digest_def)

end
