(* ===== verification/GlobalThrottle.thy ===== *)
theory GlobalThrottle
  imports Prelude
begin

text \<open>
  The process-wide throttle of outbound requests (\<open>global_throttle.py\<close>): a token bucket that
  makes its callers wait. \<open>acquire\<close> holds the lock while it sleeps, so acquisitions are served one
  after another and nothing but \<open>configure\<close>, which does not take the lock, can change the bucket
  during a sleep. A wait is given the readings of the clock and what happens to the throttle in
  each of its sleeps; one that never ends has the value \<open>None\<close>. An exception is the left side of a
  sum.

  \<open>throttle_rate_bound\<close> bounds the grants in any window of time, \<open>acquire_returns\<close> shows that a
  wait ends after at most one sleep, \<open>small_burst_never_grants\<close> and \<open>switch_off_crashes_waiter\<close>
  show two ways in which it does not.
\<close>

record throttle_stats =
  acquired :: nat
  total_wait :: real
  max_wait :: real

record throttle =
  t_rate :: real
  t_burst :: real
  t_tokens :: real
  t_last :: time
  t_stats :: throttle_stats

definition new_throttle :: "time \<Rightarrow> throttle" where
  "new_throttle now = \<lparr>t_rate = 0, t_burst = 0, t_tokens = 0, t_last = now,
     t_stats = \<lparr>acquired = 0, total_wait = 0, max_wait = 0\<rparr>\<rparr>"

definition configure :: "real option \<Rightarrow> real option \<Rightarrow> time \<Rightarrow> throttle \<Rightarrow> throttle" where
  "configure max_rps burst now th =
     (let rate = max 0 (option_or max_rps 0) in
      if rate \<le> 0 then th\<lparr>t_rate := rate, t_burst := 0, t_tokens := 0\<rparr>
      else let b = (case burst of Some x \<Rightarrow> if x > 0 then x else max 1 rate | None \<Rightarrow> max 1 rate) in
        th\<lparr>t_rate := rate, t_burst := b, t_tokens := b, t_last := now\<rparr>)"

definition throttle_enabled :: "throttle \<Rightarrow> bool" where
  "throttle_enabled th = (t_rate th > 0)"

definition throttle_refill :: "time \<Rightarrow> throttle \<Rightarrow> throttle" where
  "throttle_refill now th =
     (let elapsed = now - t_last th in
      if elapsed > 0
      then th\<lparr>t_tokens := min (t_burst th) (t_tokens th + elapsed * t_rate th), t_last := now\<rparr>
      else th)"

definition grant :: "real \<Rightarrow> throttle \<Rightarrow> throttle" where
  "grant waited th = th\<lparr>t_tokens := t_tokens th - 1,
     t_stats := \<lparr>acquired = acquired (t_stats th) + 1, total_wait = total_wait (t_stats th) + waited,
                 max_wait = max (max_wait (t_stats th)) waited\<rparr>\<rparr>"

datatype throttle_exc = ZeroDivisionError

text \<open>The loop of \<open>acquire\<close>; the result comes with the number of readings of the clock it took.\<close>

partial_function (option) acquire_loop ::
  "(nat \<Rightarrow> time) \<Rightarrow> (nat \<Rightarrow> throttle \<Rightarrow> throttle) \<Rightarrow> nat \<Rightarrow> real \<Rightarrow> throttle \<Rightarrow>
   ((throttle_exc + unit) \<times> throttle \<times> nat) option" where
  "acquire_loop clock env k waited th =
     (let th1 = throttle_refill (clock k) th in
      if t_tokens th1 \<ge> 1 then Some (Inr (), grant waited th1, Suc k)
      else if t_rate th1 = 0 then Some (Inl ZeroDivisionError, th1, Suc k)
      else acquire_loop clock env (Suc k) (waited + (1 - t_tokens th1) / t_rate th1) (env k th1))"

definition acquire ::
  "(nat \<Rightarrow> time) \<Rightarrow> (nat \<Rightarrow> throttle \<Rightarrow> throttle) \<Rightarrow> nat \<Rightarrow> throttle \<Rightarrow>
   ((throttle_exc + unit) \<times> throttle \<times> nat) option" where
  "acquire clock env k th =
     (if t_rate th \<le> 0 then Some (Inr (), th, k) else acquire_loop clock env k 0 th)"

definition throttle_report :: "throttle \<Rightarrow> bool \<times> real \<times> real \<times> nat \<times> int \<times> int" where
  "throttle_report th = (throttle_enabled th, t_rate th, t_burst th, acquired (t_stats th),
     py_round (1000 * total_wait (t_stats th)), py_round (1000 * max_wait (t_stats th)))"

text \<open>
  Callers in the order the lock serves them: each takes its readings of the clock from where the
  last one stopped. The result holds the readings at which the requests were granted.
\<close>

fun acquire_all ::
  "(nat \<Rightarrow> time) \<Rightarrow> (nat \<Rightarrow> throttle \<Rightarrow> throttle) \<Rightarrow> nat \<Rightarrow> nat \<Rightarrow> throttle \<Rightarrow> (time list \<times> throttle \<times> nat) option" where
  "acquire_all clock env 0 k th = Some ([], th, k)"
| "acquire_all clock env (Suc n) k th = (case acquire clock env k th of
     None \<Rightarrow> None
   | Some (r, th', k') \<Rightarrow> (case acquire_all clock env n k' th' of
       None \<Rightarrow> None
     | Some (ts, th'', k'') \<Rightarrow> Some ((case r of Inr _ \<Rightarrow> clock (k' - 1) # ts | Inl _ \<Rightarrow> ts), th'', k'')))"

section \<open>One acquisition\<close>

definition paced :: "real \<Rightarrow> real \<Rightarrow> time \<Rightarrow> throttle \<Rightarrow> bool" where
  [inv_defs]: "paced r B now th \<longleftrightarrow> t_rate th = r \<and> t_burst th = B \<and> t_tokens th \<le> B \<and> t_last th \<le> now"

lemma paced_later: "paced r B t th \<Longrightarrow> t \<le> t' \<Longrightarrow> paced r B t' th"
  by (simp add: paced_def)

lemma refill_paced:
  assumes "paced r B now th" and "0 < r"
  shows "paced r B now (throttle_refill now th)" and "t_last (throttle_refill now th) = now"
    and "t_tokens (throttle_refill now th) \<le> t_tokens th + r * (now - t_last th)"
  using assms by (auto simp: paced_def throttle_refill_def Let_def mult.commute)

lemma refill_full:
  assumes "paced r B now th" and "0 < r"
  shows "t_tokens (throttle_refill now th) = min B (t_tokens th + r * (now - t_last th))"
  using assms by (auto simp: paced_def throttle_refill_def Let_def mult.commute)

lemma grant_fields [simp]:
  "t_rate (grant w th) = t_rate th" "t_burst (grant w th) = t_burst th"
  "t_tokens (grant w th) = t_tokens th - 1" "t_last (grant w th) = t_last th"
  by (simp_all add: grant_def)

definition granted :: "real \<Rightarrow> real \<Rightarrow> (nat \<Rightarrow> time) \<Rightarrow> throttle \<Rightarrow> throttle \<Rightarrow> nat \<Rightarrow> nat \<Rightarrow> bool" where
  "granted r B clock th th' k k' \<longleftrightarrow> k < k' \<and> paced r B (clock (k' - 1)) th' \<and>
     t_last th' = clock (k' - 1) \<and> 0 \<le> t_tokens th' \<and> t_tokens th' \<le> B - 1 \<and>
     t_tokens th' \<le> t_tokens th + r * (t_last th' - t_last th) - 1"

lemma acquire_loop_granted:
  assumes "acquire_loop clock env k waited th = Some res" and "paced r B (clock k) th" and "0 < r"
    and "mono clock" and "\<forall>k th. env k th = th"
  shows "fst res = Inr () \<and> granted r B clock th (fst (snd res)) k (snd (snd res))"
proof -
  have "\<forall>r B. paced r B (clock k) th \<longrightarrow> 0 < r \<longrightarrow> mono clock \<longrightarrow> (\<forall>k th. env k th = th) \<longrightarrow>
      fst res = Inr () \<and> granted r B clock th (fst (snd res)) k (snd (snd res))"
  proof (rule acquire_loop.raw_induct[where P = "\<lambda>clock env k waited th res.
      \<forall>r B. paced r B (clock k) th \<longrightarrow> 0 < r \<longrightarrow> mono clock \<longrightarrow> (\<forall>k th. env k th = th) \<longrightarrow>
      fst res = Inr () \<and> granted r B clock th (fst (snd res)) k (snd (snd res))", OF _ assms(1)], intro allI impI)
    fix f clock env k waited th res r B
    assume IH: "\<And>clock env k waited th res. f clock env k waited th = Some res \<Longrightarrow>
        \<forall>r B. paced r B (clock k) th \<longrightarrow> 0 < r \<longrightarrow> mono clock \<longrightarrow> (\<forall>k th. env k th = th) \<longrightarrow>
        fst res = Inr () \<and> granted r B clock th (fst (snd res)) k (snd (snd res))"
      and eq: "(let th1 = throttle_refill (clock k) th in
        if t_tokens th1 \<ge> 1 then Some (Inr (), grant waited th1, Suc k)
        else if t_rate th1 = 0 then Some (Inl ZeroDivisionError, th1, Suc k)
        else f clock env (Suc k) (waited + (1 - t_tokens th1) / t_rate th1) (env k th1)) = Some res"
      and p: "paced r B (clock k) th" and r: "0 < r" and m: "mono clock" and e: "\<forall>k th. env k th = th"
    let ?th1 = "throttle_refill (clock k) th"
    note rp = refill_paced[OF p r]
    show "fst res = Inr () \<and> granted r B clock th (fst (snd res)) k (snd (snd res))"
    proof (cases "t_tokens ?th1 \<ge> 1")
      case True
      with eq have "res = (Inr (), grant waited ?th1, Suc k)" by (simp add: Let_def)
      with True rp p show ?thesis by (auto simp: granted_def paced_def)
    next
      case False
      with eq rp(1) r e have "f clock env (Suc k) (waited + (1 - t_tokens ?th1) / t_rate ?th1) ?th1 = Some res"
        by (simp add: Let_def paced_def)
      moreover have "paced r B (clock (Suc k)) ?th1"
        using rp(1) m by (rule paced_later[OF _ monoD]) simp
      ultimately have *: "fst res = Inr ()" "granted r B clock ?th1 (fst (snd res)) (Suc k) (snd (snd res))"
        using IH r m e by blast+
      moreover have "t_tokens ?th1 + r * (t - t_last ?th1) \<le> t_tokens th + r * (t - t_last th)" for t
        using rp(2,3) by (simp add: algebra_simps)
      ultimately show ?thesis
        by (auto simp: granted_def intro: order_trans[OF _ diff_right_mono])
    qed
  qed
  with assms(2-) show ?thesis by blast
qed

text \<open>The rate bound: while the settings stay, the requests granted in any window of time number at
  most the burst plus what the rate admits in that window, however many callers wait.\<close>

theorem throttle_rate_bound:
  assumes "acquire_all clock env n k th = Some (ts, th', k')"
    and "t_rate th = r" and "0 < r" and "t_burst th = B" and "t_tokens th \<le> B" and "t_last th \<le> clock k"
    and "mono clock" and "\<forall>k th. env k th = th" and "i \<le> j" and "j < length ts"
  shows "real (j - i + 1) \<le> B + r * (ts ! j - ts ! i)"
proof -
  have "(\<forall>j < length ts. real (j + 1) \<le> t_tokens th + r * (ts ! j - t_last th)) \<and>
      (\<forall>j < length ts. \<forall>i \<le> j. real (j - i + 1) \<le> B + r * (ts ! j - ts ! i))"
    if "acquire_all clock env n k th = Some (ts, th', k')" "paced r B (clock k) th" for n k th ts th' k'
    using that
  proof (induction n arbitrary: k th ts th' k')
    case 0
    then show ?case by simp
  next
    case (Suc n)
    from Suc.prems(2) assms(3) have "acquire clock env k th = acquire_loop clock env k 0 th"
      by (simp add: acquire_def paced_def)
    with Suc.prems(1) obtain res k1 th1 ts1 where res: "acquire_loop clock env k 0 th = Some (res, th1, k1)"
      and all: "acquire_all clock env n k1 th1 = Some (ts1, th', k')"
      and ts: "ts = (case res of Inr _ \<Rightarrow> clock (k1 - 1) # ts1 | Inl _ \<Rightarrow> ts1)"
      by (auto split: option.splits prod.splits)
    from acquire_loop_granted[OF res Suc.prems(2) assms(3,7,8)]
    have g: "granted r B clock th th1 k k1" and ts: "ts = clock (k1 - 1) # ts1"
      using ts by simp_all
    from g have g1: "paced r B (clock (k1 - 1)) th1" "t_last th1 = clock (k1 - 1)" "0 \<le> t_tokens th1"
      "t_tokens th1 \<le> B - 1" "t_tokens th1 \<le> t_tokens th + r * (t_last th1 - t_last th) - 1"
      unfolding granted_def by blast+
    have "paced r B (clock k1) th1"
      using g1(1) assms(7) by (rule paced_later[OF _ monoD]) simp
    note IH = Suc.IH[OF all this]
    show ?case
    proof (intro conjI allI impI)
      fix j assume j: "j < length ts"
      show "real (j + 1) \<le> t_tokens th + r * (ts ! j - t_last th)"
      proof (cases j)
        case 0
        with g1 ts show ?thesis by simp
      next
        case (Suc m)
        with IH j ts have "real (m + 1) \<le> t_tokens th1 + r * (ts1 ! m - t_last th1)" by simp
        also have "\<dots> \<le> t_tokens th + r * (t_last th1 - t_last th) - 1 + r * (ts1 ! m - t_last th1)"
          using g1 by simp
        finally show ?thesis using Suc ts by (simp add: algebra_simps)
      qed
    next
      fix j i assume j: "j < length ts" and i: "i \<le> j"
      show "real (j - i + 1) \<le> B + r * (ts ! j - ts ! i)"
      proof (cases i)
        case 0
        show ?thesis
        proof (cases j)
          case 0
          with \<open>i = 0\<close> g1 show ?thesis by simp
        next
          case (Suc m)
          with IH j ts have "real (m + 1) \<le> t_tokens th1 + r * (ts1 ! m - t_last th1)" by simp
          with Suc \<open>i = 0\<close> g1 ts show ?thesis by simp
        qed
      next
        case (Suc l)
        with i obtain m where "j = Suc m" by (cases j) auto
        with Suc IH i j ts show ?thesis by simp
      qed
    qed
  qed
  moreover have "paced r B (clock k) th" using assms by (simp add: paced_def)
  ultimately show ?thesis using assms by blast
qed

section \<open>Waits that end, and waits that do not\<close>

text \<open>A wait ends: with a burst of at least one request and undisturbed settings, once the clock
  shows that the sleep was slept, the request is granted, after one sleep at most.\<close>

theorem acquire_returns:
  assumes "t_rate th = r" and "0 < r" and "1 \<le> t_burst th" and "t_tokens th \<le> t_burst th"
    and "t_last th \<le> clock k" and "\<forall>k th. env k th = th"
    and "clock (Suc k) \<ge> clock k + max 0 ((1 - t_tokens (throttle_refill (clock k) th)) / r)"
  shows "\<exists>th' k'. acquire clock env k th = Some (Inr (), th', k') \<and> k' \<le> k + 2 \<and>
    acquired (t_stats th') = acquired (t_stats th) + 1"
proof -
  let ?th1 = "throttle_refill (clock k) th"
  have p: "paced r (t_burst th) (clock k) th" using assms by (simp add: paced_def)
  note rp = refill_paced[OF p assms(2)]
  have stats: "t_stats ?th1 = t_stats th" by (simp add: throttle_refill_def Let_def)
  have start: "acquire clock env k th = acquire_loop clock env k 0 th"
    using assms by (simp add: acquire_def)
  show ?thesis
  proof (cases "t_tokens ?th1 \<ge> 1")
    case True
    then show ?thesis
      unfolding start by (subst acquire_loop.simps) (simp add: Let_def grant_def stats)
  next
    case False
    let ?s = "(1 - t_tokens ?th1) / r" and ?th2 = "throttle_refill (clock (Suc k)) ?th1"
    from False assms(2) have "0 < ?s" by simp
    with assms(7) have c: "clock k + ?s \<le> clock (Suc k)" by simp
    with \<open>0 < ?s\<close> have "paced r (t_burst th) (clock (Suc k)) ?th1"
      by (intro paced_later[OF rp(1)]) simp
    note p2 = this
    have "1 \<le> t_tokens ?th1 + r * (clock (Suc k) - clock k)"
    proof -
      have "1 - t_tokens ?th1 = r * ?s" using assms(2) by simp
      also have "\<dots> \<le> r * (clock (Suc k) - clock k)" using c assms(2) by (intro mult_left_mono) auto
      finally show ?thesis by simp
    qed
    with rp(2) assms(3) have full: "1 \<le> t_tokens ?th2" by (simp add: refill_full[OF p2 assms(2)])
    have "acquire_loop clock env k 0 th = acquire_loop clock env (Suc k) ?s ?th1"
      using False rp(1) assms(2,6) by (subst acquire_loop.simps) (simp add: Let_def paced_def)
    also have "\<dots> = Some (Inr (), grant ?s ?th2, Suc (Suc k))"
      using full by (subst acquire_loop.simps) (simp add: Let_def)
    moreover have "t_stats ?th2 = t_stats th" by (simp add: throttle_refill_def Let_def)
    ultimately show ?thesis unfolding start by (simp add: grant_def)
  qed
qed

text \<open>A burst below one request can be configured; then nobody is ever served, and the lock stays held.\<close>

definition dry :: "throttle \<Rightarrow> bool" where
  "dry th \<longleftrightarrow> 0 < t_rate th \<and> t_burst th < 1 \<and> t_tokens th \<le> t_burst th"

lemma dry_refill: "dry th \<Longrightarrow> dry (throttle_refill now th) \<and> t_tokens (throttle_refill now th) < 1"
  by (auto simp: dry_def throttle_refill_def Let_def)

theorem small_burst_never_grants:
  assumes "dry th" and "\<forall>k th. dry th \<longrightarrow> dry (env k th)"
  shows "acquire clock env k th = None"
proof -
  have never: "dry th \<longrightarrow> (\<forall>k th. dry th \<longrightarrow> dry (env k th)) \<longrightarrow> False"
    if "acquire_loop clock env k waited th = Some res" for clock env k waited th res
  proof (rule acquire_loop.raw_induct[where P = "\<lambda>clock env k waited th res.
      dry th \<longrightarrow> (\<forall>k th. dry th \<longrightarrow> dry (env k th)) \<longrightarrow> False", OF _ that], intro impI)
    fix f clock env k waited th res
    assume IH: "\<And>clock env k waited th res. f clock env k waited th = Some res \<Longrightarrow>
        dry th \<longrightarrow> (\<forall>k th. dry th \<longrightarrow> dry (env k th)) \<longrightarrow> False"
      and eq: "(let th1 = throttle_refill (clock k) th in
        if t_tokens th1 \<ge> 1 then Some (Inr (), grant waited th1, Suc k)
        else if t_rate th1 = 0 then Some (Inl ZeroDivisionError, th1, Suc k)
        else f clock env (Suc k) (waited + (1 - t_tokens th1) / t_rate th1) (env k th1)) = Some res"
      and d: "dry th" and e: "\<forall>k th. dry th \<longrightarrow> dry (env k th)"
    let ?th1 = "throttle_refill (clock k) th"
    have d1: "dry ?th1" "t_tokens ?th1 < 1" using dry_refill[OF d] by simp_all
    then have "t_rate ?th1 \<noteq> 0" by (simp add: dry_def)
    with eq d1 have "f clock env (Suc k) (waited + (1 - t_tokens ?th1) / t_rate ?th1) (env k ?th1) = Some res"
      by (simp add: Let_def)
    with IH d1 e show False by blast
  qed
  have "acquire_loop clock env k 0 th = None"
    using never[of clock env k 0 th] assms by (cases "acquire_loop clock env k 0 th") blast+
  with assms(1) show ?thesis by (simp add: acquire_def dry_def)
qed

theorem small_burst_never_grants_witness:
  "acquire real (\<lambda>_ th. th) 0 (configure (Some 10) (Some (1 / 2)) 0 (new_throttle 0)) = None"
  by (rule small_burst_never_grants) (simp_all add: dry_def configure_def option_or_def Let_def)

text \<open>Turning the throttle off while a caller sleeps divides that caller's next sleep by zero.\<close>

theorem switch_off_crashes_waiter:
  assumes "0 < t_rate th" and "t_tokens (throttle_refill (clock k) th) < 1"
    and "env k (throttle_refill (clock k) th) = configure (Some 0) b t (throttle_refill (clock k) th)"
  shows "\<exists>th' k'. acquire clock env k th = Some (Inl ZeroDivisionError, th', k')"
proof -
  let ?th1 = "throttle_refill (clock k) th" and ?c = "\<lambda>th. configure (Some 0) b t th"
  have off: "t_rate (?c th) = 0" "t_tokens (?c th) = 0" "t_burst (?c th) = 0" for th
    by (simp_all add: configure_def Let_def option_or_def)
  then have off1: "t_rate (throttle_refill now (?c th)) = 0" "t_tokens (throttle_refill now (?c th)) \<le> 0" for now th
    by (simp_all add: throttle_refill_def Let_def)
  have r: "t_rate ?th1 \<noteq> 0" using assms(1) by (simp add: throttle_refill_def Let_def)
  have "acquire clock env k th = acquire_loop clock env k 0 th" using assms(1) by (simp add: acquire_def)
  also have "\<dots> = acquire_loop clock env (Suc k) ((1 - t_tokens ?th1) / t_rate ?th1) (?c ?th1)"
    using assms(2,3) r by (subst acquire_loop.simps) (simp add: Let_def)
  also have "\<dots> = Some (Inl ZeroDivisionError, throttle_refill (clock (Suc k)) (?c ?th1), Suc (Suc k))"
    using off1[of "clock (Suc k)" ?th1] by (subst acquire_loop.simps) (simp add: Let_def)
  finally show ?thesis by blast
qed

section \<open>Samples\<close>

definition sample_throttle :: throttle where
  "sample_throttle = (configure (Some 2) None 0 (new_throttle 0))\<lparr>t_tokens := 1\<rparr>"

lemma sample_throttle_fields:
  "t_rate sample_throttle = 2" "t_burst sample_throttle = 2" "t_tokens sample_throttle = 1" "t_last sample_throttle = 0"
  by (simp_all add: sample_throttle_def configure_def option_or_def Let_def)

lemma two_grants:
  "acquire_all real (\<lambda>_ th. th) 2 0 sample_throttle =
     Some ([0, 1], grant 0 (throttle_refill 1 (grant 0 (throttle_refill 0 sample_throttle))), 2)"
proof -
  have "acquire real (\<lambda>_ th. th) 0 sample_throttle = Some (Inr (), grant 0 (throttle_refill 0 sample_throttle), 1)"
    by (simp add: acquire_def sample_throttle_fields)
      (subst acquire_loop.simps, simp add: Let_def throttle_refill_def sample_throttle_fields)
  moreover have "acquire real (\<lambda>_ th. th) 1 (grant 0 (throttle_refill 0 sample_throttle)) =
      Some (Inr (), grant 0 (throttle_refill 1 (grant 0 (throttle_refill 0 sample_throttle))), 2)"
    by (simp add: acquire_def throttle_refill_def Let_def sample_throttle_fields)
      (subst acquire_loop.simps, simp add: Let_def throttle_refill_def sample_throttle_fields)
  ultimately show ?thesis by (simp add: numeral_2_eq_2)
qed

theorem throttle_rate_bound_witness:
  "real (1 - 0 + 1) \<le> 2 + 2 * ([0, 1 :: real] ! 1 - [0, 1] ! 0)"
  by (rule throttle_rate_bound[OF two_grants]) (simp_all add: sample_throttle_fields mono_def)

theorem acquire_returns_witness:
  "\<exists>th' k'. acquire real (\<lambda>_ th. th) 0 sample_throttle = Some (Inr (), th', k') \<and> k' \<le> 0 + 2 \<and>
    acquired (t_stats th') = acquired (t_stats sample_throttle) + 1"
  by (rule acquire_returns[where r = 2]) (simp_all add: sample_throttle_fields throttle_refill_def Let_def)

theorem switch_off_crashes_waiter_witness:
  "\<exists>th' k'. acquire real (\<lambda>_. configure (Some 0) None 0) 0 (sample_throttle\<lparr>t_tokens := 0\<rparr>) =
     Some (Inl ZeroDivisionError, th', k')"
  by (rule switch_off_crashes_waiter) (simp_all add: sample_throttle_fields throttle_refill_def Let_def)

end
