(* ===== verification/ActiveVerification.thy ===== *)
theory ActiveVerification
  imports Prelude
begin

text \<open>
  What happens to a finding whose first test did not confirm it (\<open>active_verification.py\<close>), with
  the policy that decides (\<open>retry_policy.py\<close>), the library of payloads (\<open>payload_library.py\<close>), the
  tables of plans and results (\<open>store.py\<close>), the handler of posted results (\<open>server.py\<close>) and
  the split of retry rounds over findings (\<open>risk_allocator.py\<close>). The language model is an argument, a
  function from what the prompt says to an error or an answer; SHA-256 is an argument.

  \<open>lineage_bounded\<close>: over any interleaving of the handlers with the other writers of the tables, a
  lineage gets at most two retries from the library, and none of any kind after the result of an
  escalated test. \<open>retries_differ\<close>: a retry without the model uses a payload not tried before.
  \<open>handover_exact\<close>: when the operator is asked. \<open>candidate_best\<close>: the choice of the payload.
  \<open>rounds_follow_density\<close>: the split gives the extra rounds to the densest findings.
\<close>

section \<open>The policy\<close>

datatype attempt_status = Confirmed | Supported | NotConfirmed | Inconclusive | Error

datatype action = RETRY_DEFAULT | ESCALATE | HANDOVER_MANUAL | STOP_INCONCLUSIVE | STOP_CONFIRMED

record attempt =
  a_status :: attempt_status
  a_model :: string
  a_escalated :: bool
  a_payload :: "string option"
  a_confidence :: real

record retry_policy =
  max_default_attempts :: int
  suspicion_threshold :: real
  suspicion_severities :: "string list"

definition default_retry_policy :: retry_policy where
  "default_retry_policy = \<lparr>max_default_attempts = 3, suspicion_threshold = 55 / 100,
     suspicion_severities = [''high'', ''critical'']\<rparr>"

definition is_suspicious :: "retry_policy \<Rightarrow> attempt list \<Rightarrow> real \<Rightarrow> string \<Rightarrow> bool" where
  "is_suspicious p attempts conf sev =
     (list_ex (\<lambda>a. a_status a = Supported) attempts \<or>
      conf \<ge> suspicion_threshold p \<and> List.member (suspicion_severities p) sev)"

definition decide :: "retry_policy \<Rightarrow> attempt list \<Rightarrow> real \<Rightarrow> string \<Rightarrow> action" where
  "decide p attempts conf sev =
     (if attempts = [] then RETRY_DEFAULT
      else if a_status (last attempts) = Confirmed then STOP_CONFIRMED
      else if filter a_escalated attempts \<noteq> []
      then (if is_suspicious p attempts conf sev then HANDOVER_MANUAL else STOP_INCONCLUSIVE)
      else if int (length (filter (\<lambda>a. \<not> a_escalated a) attempts)) < max_default_attempts p then RETRY_DEFAULT
      else ESCALATE)"

section \<open>The payload library\<close>

datatype payload = Payload (p_value: string) (p_tags: "string list") (p_note: string)

definition payload_library :: "(string \<times> payload list) list" where
  "payload_library = [
    (''xss'', [
       Payload ([CHR 0x22] @ ''><script>__CANARY__</script>'') [''html_text'', ''html_attribute'']
         (''classic tag breakout -- try when the default plain canary reflected but wasn'' @ [CHR 0x27] @ ''t in a script context''),
       Payload ([CHR 0x27] @ ''-alert(1)-'' @ [CHR 0x27]) [''js_string'']
         ''single-quoted JS string breakout -- try when the canary landed inside an existing <script> block'',
       Payload ''</script><script>__CANARY__</script>'' [''script_context'']
         ''close+reopen script tag -- alternative to js_string breakout when the string itself is filtered'',
       Payload ([CHR 0x22] @ ''onmouseover='' @ [CHR 0x22] @ ''__CANARY__'') [''html_attribute'']
         (''event-handler injection, no new tag needed -- try when '' @ [CHR 0x27] @ ''<'' @ [CHR 0x27] @ '' or '' @ [CHR 0x27] @ ''>'' @ [CHR 0x27] @ '' appear to be stripped/encoded'')]),
    (''ssrf'', [
       Payload ''http://__CANARY__/'' [''url_param'']
         ''plain http scheme -- the default controlled_callback_probe payload'',
       Payload ''https://__CANARY__/'' [''url_param'']
         ''https scheme, in case a scheme allowlist blocks bare http'',
       Payload ''http://__CANARY__.example.com:80/'' [''allowlist_suspected'']
         ''explicit default port -- some allowlist checks only match a bare hostname string'',
       Payload ''http://0177.0.0.1/'' [''localhost_blocklist_suspected'']
         (''octal-encoded 127.0.0.1 -- common blocklist-bypass shape when raw '' @ [CHR 0x27] @ ''localhost'' @ [CHR 0x27] @ ''/'' @ [CHR 0x27] @ ''127.0.0.1'' @ [CHR 0x27] @ '' is filtered''),
       Payload ''http://[::ffff:127.0.0.1]/'' [''localhost_blocklist_suspected'']
         ''IPv4-mapped IPv6 loopback -- another common blocklist-bypass shape'']),
    (''business_logic'', [
       Payload ''-1'' [''numeric_boundary'']
         ''minimal negative -- the default workflow_replay_compare boundary shape'',
       Payload ''0'' [''numeric_boundary'']
         ''zero edge case, in case only strictly-negative is rejected'',
       Payload ''999999999999'' [''numeric_boundary'', ''overflow_suspected'']
         ''large positive -- integer overflow/precision-loss shape, distinct from the negative-value bug class'']),
    (''sqli'', [
       Payload ([CHR 0x27] @ '' OR '' @ [CHR 0x27] @ ''1'' @ [CHR 0x27] @ ''='' @ [CHR 0x27] @ ''1'') [''string_param'']
         (''classic boolean-based -- for contexts sqlmap'' @ [CHR 0x27] @ ''s own engine wasn'' @ [CHR 0x27] @ ''t pointed at''),
       Payload ''1 AND 1=1'' [''numeric_param'']
         ''numeric boolean-based'',
       Payload ([CHR 0x27] @ ''; WAITFOR DELAY '' @ [CHR 0x27] @ ''0:0:3'' @ [CHR 0x27] @ ''--'') [''string_param'', ''mssql_suspected'']
         ''time-based, MSSQL-specific'',
       Payload ([CHR 0x27] @ '' AND SLEEP(3)-- -'') [''string_param'', ''mysql_suspected'']
         ''time-based, MySQL-specific''])]"

text \<open>\<open>rank_key\<close>: smaller is better.\<close>

definition rank_key :: "string list \<Rightarrow> payload \<Rightarrow> int \<times> int" where
  "rank_key tags p =
     (let overlap = length (filter (\<lambda>t. List.member tags t) (remdups (p_tags p))) in
      if overlap > 0 then (0, - int overlap) else if p_tags p = [] then (1, 0) else (2, 0))"

definition untried :: "string \<Rightarrow> string list \<Rightarrow> payload list" where
  "untried category tried =
     filter (\<lambda>p. \<not> List.member tried (p_value p)) (option_or (dict_get payload_library category) [])"

definition next_candidate :: "string \<Rightarrow> string list \<Rightarrow> string list \<Rightarrow> payload option" where
  "next_candidate category tried tags = (case sort_key (rank_key tags) (untried category tried) of
     [] \<Rightarrow> None | p # _ \<Rightarrow> Some p)"

definition library_exhausted :: "string \<Rightarrow> string list \<Rightarrow> bool" where
  "library_exhausted category tried = (next_candidate category tried [] = None)"

text \<open>What the fallback prompt holds.\<close>

record fallback_prompt =
  f_category :: string
  f_tried :: "string list"
  f_summary :: string
  f_notes :: "string list"

section \<open>The next step of a lineage\<close>

record lineage_row =
  l_mutation :: "(string \<times> string) list"
  l_escalated :: bool
  l_status :: string
  l_confidence :: "real option"

definition status_map :: "(string \<times> attempt_status) list" where
  "status_map = [(''confirmed'', Confirmed), (''supported'', Supported), (''not_confirmed'', NotConfirmed),
     (''observed'', NotConfirmed), (''inconclusive'', Inconclusive), (''error'', Error), (''blocked'', Error),
     (''skipped'', Error)]"

definition to_attempt :: "lineage_row \<Rightarrow> attempt" where
  "to_attempt r = \<lparr>a_status = option_or (dict_get status_map (l_status r)) NotConfirmed,
     a_model = (if \<not> l_escalated r then ''default'' else ''escalated''), a_escalated = l_escalated r,
     a_payload = dict_get (l_mutation r) ''payload'', a_confidence = float_or (option_or (l_confidence r) 0) 0\<rparr>"

record plan_row =
  plan_id :: string
  capability :: string
  finding_class :: string
  category :: "string option"
  plan_url :: string
  exchange_hash :: string
  plane :: string
  plan_severity :: string
  plan_confidence :: real

record test_plan =
  t_id :: string
  t_from :: plan_row
  t_mutation :: "(string \<times> string) list"
  t_escalated :: bool

definition retryable_categories :: "string list" where
  "retryable_categories = [''xss'', ''ssrf'', ''business_logic'']"

definition is_retryable :: "plan_row \<Rightarrow> bool" where
  "is_retryable p \<longleftrightarrow> plane p = ''burp'' \<and> (case category p of None \<Rightarrow> False | Some c \<Rightarrow> List.member retryable_categories c)"

text \<open>The fields a retry takes over from its plan are held by \<open>t_from\<close>.\<close>

definition build_plan :: "(string \<Rightarrow> string) \<Rightarrow> plan_row \<Rightarrow> string \<Rightarrow> string \<Rightarrow> bool \<Rightarrow> test_plan" where
  "build_plan sha p v note esc = \<lparr>t_id = plan_id p @ '':retry:'' @ take 12 (sha v), t_from = p,
     t_mutation = [(''strategy'', ''payload-substitution''), (''payload'', v), (''note'', note)], t_escalated = esc\<rparr>"

record coordinator_config =
  cloud_reasoning :: bool
  cloud_model :: string
  local_model :: string

definition reasoning_model :: "coordinator_config \<Rightarrow> string" where
  "reasoning_model c = (if cloud_reasoning c \<and> cloud_model c \<noteq> [] then cloud_model c else local_model c)"

definition resolve_escalation_model :: "string \<Rightarrow> coordinator_config option \<Rightarrow> string" where
  "resolve_escalation_model m config =
     (if m \<noteq> [] then m else case config of Some c \<Rightarrow> reasoning_model c | None \<Rightarrow> [])"

record submission =
  sub_plan :: string
  sub_status :: string
  sub_confidence :: real
  sub_confirmed :: bool
  sub_executor :: string
  sub_hash :: string
  sub_tags :: "string list"

datatype step_note = NoNote | NoClient | NoModel | CallFailed string | NoPayload | NeedsReview

record next_step =
  next_plan :: "test_plan option"
  handover_required :: bool
  step_note :: step_note

definition no_step :: next_step where
  "no_step = \<lparr>next_plan = None, handover_required = False, step_note = NoNote\<rparr>"

definition strip_colons :: "string \<Rightarrow> string" where
  "strip_colons s = (let f = dropWhile (\<lambda>c. c = CHR '':'' \<or> c = CHR '' '') in rev (f (rev (f s))))"

definition failure_note :: "lineage_row \<Rightarrow> string" where
  "failure_note r = strip_colons (l_status r @ '': '' @ option_or (dict_get (l_mutation r) ''note'') [])"

type_synonym llm = "string \<Rightarrow> fallback_prompt \<Rightarrow> string + string \<times> string"

text \<open>The branch of \<open>ESCALATE\<close>: one call of the model.\<close>

definition escalate_step :: "(string \<Rightarrow> string) \<Rightarrow> plan_row \<Rightarrow> lineage_row list \<Rightarrow> string list \<Rightarrow> llm option
    \<Rightarrow> string \<Rightarrow> coordinator_config option \<Rightarrow> next_step" where
  "escalate_step sha p history tried client model config = (case client of
     None \<Rightarrow> no_step\<lparr>step_note := NoClient\<rparr>
   | Some ask \<Rightarrow> (let m = resolve_escalation_model model config in
       if m = [] then no_step\<lparr>step_note := NoModel\<rparr>
       else case ask m \<lparr>f_category = option_or (category p) [], f_tried = tried,
               f_summary = plan_url p @ '' (finding_class='' @ finding_class p @ '')'',
               f_notes = map failure_note history\<rparr> of
           Inl e \<Rightarrow> no_step\<lparr>step_note := CallFailed e\<rparr>
         | Inr (raw, rationale) \<Rightarrow> (let new = py_strip raw in
             if new = [] then no_step\<lparr>step_note := NoPayload\<rparr>
             else no_step\<lparr>next_plan := Some (build_plan sha p new rationale True)\<rparr>)))"

definition tried_payloads :: "attempt list \<Rightarrow> string list" where
  "tried_payloads attempts = filter (\<lambda>v. v \<noteq> []) (List.map_filter a_payload attempts)"

definition decide_next_step :: "(string \<Rightarrow> string) \<Rightarrow> plan_row \<Rightarrow> submission \<Rightarrow> lineage_row list \<Rightarrow> llm option
    \<Rightarrow> string \<Rightarrow> coordinator_config option \<Rightarrow> next_step" where
  "decide_next_step sha p sub history client model config =
     (if sub_confirmed sub \<or> sub_status sub = ''confirmed'' then no_step
      else if \<not> is_retryable p then no_step
      else let attempts = map to_attempt history; tried = tried_payloads attempts in
        case decide default_retry_policy attempts (plan_confidence p) (list_or (plan_severity p) ''medium'') of
          RETRY_DEFAULT \<Rightarrow> (case next_candidate (option_or (category p) []) tried (sub_tags sub) of
              Some c \<Rightarrow> no_step\<lparr>next_plan := Some (build_plan sha p (p_value c) (p_note c) False)\<rparr>
            | None \<Rightarrow> escalate_step sha p history tried client model config)
        | ESCALATE \<Rightarrow> escalate_step sha p history tried client model config
        | HANDOVER_MANUAL \<Rightarrow> no_step\<lparr>handover_required := True, step_note := NeedsReview\<rparr>
        | STOP_INCONCLUSIVE \<Rightarrow> no_step
        | STOP_CONFIRMED \<Rightarrow> no_step)"

section \<open>The tables of plans and results\<close>


















section \<open>The server\<close>






section \<open>Splitting retry rounds\<close>

definition risk_severity_weight :: "(string \<times> real) list" where
  "risk_severity_weight = [(''critical'', 1), (''high'', 3 / 4), (''medium'', 1 / 2), (''low'', 1 / 4), (''info'', 1 / 10)]"

record risk_score =
  risk_category :: string
  risk_url :: string
  probability :: real
  risk_severity :: string
  cost :: real

definition expected_risk :: "risk_score \<Rightarrow> real" where
  "expected_risk s = max 0 (min 1 (probability s)) * option_or (dict_get risk_severity_weight (risk_severity s)) (1 / 10)"

definition value_density :: "risk_score \<Rightarrow> real" where
  "value_density s = expected_risk s / (if cost s > 0 then cost s else 1)"

definition rank_scores :: "risk_score list \<Rightarrow> risk_score list" where
  "rank_scores scores = sort_key (\<lambda>s. - value_density s) scores"

definition top_count :: "real \<Rightarrow> nat \<Rightarrow> int" where
  "top_count fraction n = max 1 (py_round (real n * fraction))"

definition allocate_retry_budget :: "int \<Rightarrow> int \<Rightarrow> real \<Rightarrow> risk_score list \<Rightarrow> ((string \<times> string) \<times> int) list" where
  "allocate_retry_budget top_rounds rest_rounds fraction scores =
     (let ranked = rank_scores scores; n = top_count fraction (length ranked) in
      if ranked = [] then []
      else foldl (\<lambda>d (i, s). dict_set (risk_category s, risk_url s) (if int i < n then top_rounds else rest_rounds) d) []
             (zip [0..<length ranked] ranked))"

section \<open>Choosing a payload\<close>

lemma sort_key_head:
  assumes "sort_key f xs = y # ys"
  shows "y \<in> set xs" and "x \<in> set xs \<Longrightarrow> f y \<le> f x"
proof -
  have "y \<in> set (sort_key f xs)" by (simp add: assms)
  then show "y \<in> set xs" by simp
  have "sorted (map f (y # ys))" by (metis assms sorted_sort_key)
  moreover assume "x \<in> set xs"
  then have "x \<in> set (y # ys)" by (metis assms set_sort)
  ultimately show "f y \<le> f x" by auto
qed

text \<open>The candidate is one of the payloads not tried yet, and none of them has a better rank; there is
  none exactly when all are tried.\<close>

theorem candidate_best:
  "(case next_candidate cat tried tags of
      None \<Rightarrow> untried cat tried = []
    | Some p \<Rightarrow> p \<in> set (untried cat tried) \<and> \<not> List.member tried (p_value p) \<and>
        list_all (\<lambda>q. rank_key tags p \<le> rank_key tags q) (untried cat tried))"
proof (cases "sort_key (rank_key tags) (untried cat tried)")
  case Nil
  then have "untried cat tried = []" by (metis set_empty set_sort)
  with Nil show ?thesis by (simp add: next_candidate_def)
next
  case (Cons p ps)
  from sort_key_head[OF Cons] have "p \<in> set (untried cat tried)"
    "list_all (\<lambda>q. rank_key tags p \<le> rank_key tags q) (untried cat tried)"
    by (auto simp: list_all_iff)
  moreover from this(1) have "\<not> List.member tried (p_value p)" by (auto simp: untried_def)
  ultimately show ?thesis by (simp add: next_candidate_def Cons)
qed

lemma library_values: "list_all (\<lambda>(_, ps). list_all (\<lambda>p. p_value p \<noteq> []) ps) payload_library"
  by (simp add: payload_library_def)

lemma candidate_untried:
  assumes "next_candidate cat tried tags = Some p"
  shows "p_value p \<notin> set tried" and "p_value p \<noteq> []"
proof -
  from candidate_best[of cat tried tags] assms have p: "p \<in> set (untried cat tried)" "\<not> List.member tried (p_value p)"
    by simp_all
  then show "p_value p \<notin> set tried" by simp
  from p(1) have "p \<in> set (option_or (dict_get payload_library cat) [])" by (simp add: untried_def)
  then obtain ps where "dict_get payload_library cat = Some ps" "p \<in> set ps"
    by (cases "dict_get payload_library cat") (auto simp: option_or_def)
  with library_values show "p_value p \<noteq> []" by (force simp: list_all_iff dest: map_of_SomeD)
qed

section \<open>One step\<close>

lemma escalate_step_plan:
  "next_plan (escalate_step sha p history tried client model config) = Some t \<Longrightarrow> t_escalated t"
  by (auto simp: escalate_step_def no_step_def build_plan_def Let_def
      split: option.splits if_splits sum.splits prod.splits)

lemma escalate_step_handover: "\<not> handover_required (escalate_step sha p history tried client model config)"
  by (auto simp: escalate_step_def no_step_def Let_def split: option.split sum.split)

lemma to_attempt_fields [simp]:
  "a_escalated (to_attempt r) = l_escalated r" "a_payload (to_attempt r) = dict_get (l_mutation r) ''payload''"
  by (simp_all add: to_attempt_def)

lemma escalated_attempts: "filter a_escalated (map to_attempt h) = [] \<longleftrightarrow> \<not> list_ex l_escalated h"
  by (auto simp: filter_empty_conv list_ex_iff)

lemma default_attempts:
  "\<not> list_ex l_escalated h \<Longrightarrow> filter (\<lambda>a. \<not> a_escalated a) (map to_attempt h) = map to_attempt h"
  by (auto simp: filter_id_conv list_ex_iff)

text \<open>What a next plan tells about the history it was chosen for.\<close>

lemma next_plan_history:
  assumes "next_plan (decide_next_step sha p sub h client model config) = Some t"
  shows "\<not> list_ex l_escalated h" and "\<not> t_escalated t \<Longrightarrow> length h < 3"
    and "\<not> t_escalated t \<Longrightarrow> \<exists>v. dict_get (t_mutation t) ''payload'' = Some v \<and> v \<noteq> [] \<and>
      v \<notin> set (tried_payloads (map to_attempt h))"
proof -
  let ?as = "map to_attempt h" and ?sev = "list_or (plan_severity p) ''medium''"
  let ?d = "decide default_retry_policy ?as (plan_confidence p) ?sev"
  from assms have d: "?d = RETRY_DEFAULT \<or> ?d = ESCALATE"
    by (cases ?d) (auto simp: decide_next_step_def no_step_def Let_def split: if_splits)
  then show esc: "\<not> list_ex l_escalated h"
    using escalated_attempts[of h] by (cases h) (auto simp: decide_def Let_def split: if_splits)
  have step: "next_plan (decide_next_step sha p sub h client model config) =
      (case next_candidate (option_or (category p) []) (tried_payloads ?as) (sub_tags sub) of
         Some c \<Rightarrow> if ?d = RETRY_DEFAULT then Some (build_plan sha p (p_value c) (p_note c) False)
                   else next_plan (escalate_step sha p h (tried_payloads ?as) client model config)
       | None \<Rightarrow> next_plan (escalate_step sha p h (tried_payloads ?as) client model config))"
    using assms d by (auto simp: decide_next_step_def no_step_def Let_def split: if_splits option.splits)
  assume t: "\<not> t_escalated t"
  then obtain c where c: "next_candidate (option_or (category p) []) (tried_payloads ?as) (sub_tags sub) = Some c"
    "?d = RETRY_DEFAULT" "t = build_plan sha p (p_value c) (p_note c) False"
    using step assms escalate_step_plan by (fastforce split: option.splits if_splits)
  from c(2) default_attempts[OF esc] escalated_attempts[of h] esc show "length h < 3"
    by (cases h) (auto simp: decide_def default_retry_policy_def split: if_splits)
  from candidate_untried[OF c(1)] c(3)
  show "\<exists>v. dict_get (t_mutation t) ''payload'' = Some v \<and> v \<noteq> [] \<and> v \<notin> set (tried_payloads ?as)"
    by (simp add: build_plan_def)
qed

text \<open>A retry that does not ask the model is a new test: its payload is none that the lineage has
  tried.\<close>

theorem retries_differ:
  assumes "next_plan (decide_next_step sha p sub h client model config) = Some t" and "\<not> t_escalated t"
  shows "\<exists>v. dict_get (t_mutation t) ''payload'' = Some v \<and>
    list_all (\<lambda>r. dict_get (l_mutation r) ''payload'' \<noteq> Some v) h"
proof -
  from next_plan_history(3)[OF assms] obtain v where v: "dict_get (t_mutation t) ''payload'' = Some v" "v \<noteq> []"
    "v \<notin> set (tried_payloads (map to_attempt h))" by blast
  then have "list_all (\<lambda>r. dict_get (l_mutation r) ''payload'' \<noteq> Some v) h"
    by (force simp: tried_payloads_def List.map_filter_def list_all_iff)
  with v(1) show ?thesis by blast
qed

text \<open>When the operator is asked: for a retryable plan whose last test did not confirm, exactly when
  the lineage has escalated and either some test showed a partial signal or the original claim was
  both confident and severe.\<close>

theorem handover_exact:
  assumes "is_retryable p" and "\<not> sub_confirmed sub" and "sub_status sub \<noteq> ''confirmed''"
    and "h \<noteq> []" and "a_status (to_attempt (last h)) \<noteq> Confirmed"
  shows "handover_required (decide_next_step sha p sub h client model config) \<longleftrightarrow>
    list_ex l_escalated h \<and>
    (list_ex (\<lambda>r. a_status (to_attempt r) = Supported) h \<or>
     plan_confidence p \<ge> 55 / 100 \<and> (plan_severity p = ''high'' \<or> plan_severity p = ''critical''))"
proof -
  let ?as = "map to_attempt h" and ?sev = "list_or (plan_severity p) ''medium''"
  have last: "last ?as = to_attempt (last h)" using assms(4) by (simp add: last_map)
  have susp: "is_suspicious default_retry_policy ?as (plan_confidence p) ?sev \<longleftrightarrow>
      list_ex (\<lambda>r. a_status (to_attempt r) = Supported) h \<or>
      plan_confidence p \<ge> 55 / 100 \<and> (plan_severity p = ''high'' \<or> plan_severity p = ''critical'')"
    by (auto simp: is_suspicious_def default_retry_policy_def list_or_def list_ex_iff)
  have hand: "handover_required (decide_next_step sha p sub h client model config) \<longleftrightarrow>
      decide default_retry_policy ?as (plan_confidence p) ?sev = HANDOVER_MANUAL"
    using assms(1-3) escalate_step_handover
    by (auto simp: decide_next_step_def Let_def no_step_def split: action.split option.split)
  have "decide default_retry_policy ?as (plan_confidence p) ?sev = HANDOVER_MANUAL \<longleftrightarrow>
      list_ex l_escalated h \<and> is_suspicious default_retry_policy ?as (plan_confidence p) ?sev"
    using assms(4,5) escalated_attempts[of h] by (auto simp: decide_def last)
  with hand susp show ?thesis by simp
qed

section \<open>A lineage\<close>



































text \<open>Escalations are not bounded: while an escalated test is outstanding, every further result of the
  lineage escalates again.\<close>

lemma outstanding_escalates_again:
  assumes "\<not> list_ex l_escalated h" and "3 \<le> length h" and "a_status (to_attempt (last h)) \<noteq> Confirmed"
  shows "decide default_retry_policy (map to_attempt h) conf sev = ESCALATE"
proof -
  have "h \<noteq> []" using assms(2) by auto
  then have "last (map to_attempt h) = to_attempt (last h)" by (simp add: last_map)
  with assms \<open>h \<noteq> []\<close> show ?thesis
    using escalated_attempts[of h] default_attempts[OF assms(1)]
    by (simp add: decide_def default_retry_policy_def)
qed

text \<open>Nothing compares the model's payload with the ones already tried.\<close>

lemma model_may_repeat:
  assumes "v = py_strip v" and "v \<noteq> []" and "model \<noteq> []" and "v \<in> set tried"
  shows "next_plan (escalate_step sha p h tried (Some (\<lambda>_ _. Inr (v, []))) model config) =
    Some (build_plan sha p v [] True)"
  using assms by (simp add: escalate_step_def resolve_escalation_model_def no_step_def Let_def flip: assms(1))

section \<open>The split of rounds\<close>

lemma foldl_dict_distinct:
  assumes "distinct (map g xs)" and "\<And>x. x \<in> set xs \<Longrightarrow> g x \<notin> fst ` set d"
  shows "foldl (\<lambda>d x. dict_set (g x) (v x) d) d xs = d @ map (\<lambda>x. (g x, v x)) xs"
  using assms
proof (induction xs arbitrary: d)
  case Nil
  then show ?case by simp
next
  case (Cons x xs)
  from Cons.prems have "dict_set (g x) (v x) d = d @ [(g x, v x)]" by (simp add: dict_set_new)
  moreover have "g y \<notin> fst ` set (d @ [(g x, v x)])" if "y \<in> set xs" for y
    using Cons.prems that by (auto simp: image_iff)
  ultimately show ?case using Cons.IH[of "d @ [(g x, v x)]"] Cons.prems(1) by simp
qed

definition risk_key :: "risk_score \<Rightarrow> string \<times> string" where
  "risk_key s = (risk_category s, risk_url s)"

lemma allocate_distinct:
  assumes "distinct (map risk_key scores)"
  shows "allocate_retry_budget hi lo fr scores =
    map (\<lambda>i. (risk_key (rank_scores scores ! i), if int i < top_count fr (length scores) then hi else lo))
      [0..<length scores]"
proof -
  let ?r = "rank_scores scores"
  have len: "length ?r = length scores" by (simp add: rank_scores_def)
  have dist: "distinct (map risk_key ?r)" using assms by (simp add: distinct_map rank_scores_def)
  have zip: "zip [0..<length ?r] ?r = map (\<lambda>i. (i, ?r ! i)) [0..<length ?r]"
    by (rule nth_equalityI) auto
  let ?g = "\<lambda>x :: nat \<times> risk_score. risk_key (snd x)" and ?v = "\<lambda>x :: nat \<times> risk_score. if int (fst x) < top_count fr (length ?r) then hi else lo"
  have keys: "map ?g (zip [0..<length ?r] ?r) = map risk_key ?r"
    by (rule nth_equalityI) simp_all
  have "allocate_retry_budget hi lo fr scores =
      foldl (\<lambda>d x. dict_set (?g x) (?v x) d) [] (zip [0..<length ?r] ?r)"
    by (simp add: allocate_retry_budget_def Let_def risk_key_def case_prod_unfold)
  also have "\<dots> = map (\<lambda>x. (?g x, ?v x)) (zip [0..<length ?r] ?r)"
    using foldl_dict_distinct[of ?g "zip [0..<length ?r] ?r" "[]" ?v] dist keys by simp
  finally show ?thesis unfolding zip by (simp add: len o_def)
qed

text \<open>With one finding per category and address, every finding gets its rounds, the number of
  findings with extra rounds is the given share, at least one, and no finding without them has a
  higher density than one with them.\<close>

theorem rounds_follow_density:
  assumes "distinct (map risk_key scores)" and "lo < hi"
    and "alloc = allocate_retry_budget hi lo fr scores"
  shows "map fst alloc = map risk_key (rank_scores scores) \<and>
    int (length (filter (\<lambda>(_, n). n = hi) alloc)) = min (int (length scores)) (top_count fr (length scores)) \<and>
    sorted (rev (map value_density (rank_scores scores))) \<and>
    sorted (rev (map snd alloc))"
proof (intro conjI)
  let ?r = "rank_scores scores" and ?n = "top_count fr (length scores)"
  have len: "length ?r = length scores" by (simp add: rank_scores_def)
  have alloc: "alloc = map (\<lambda>i. (risk_key (?r ! i), if int i < ?n then hi else lo)) [0..<length scores]"
    using assms(1,3) by (simp add: allocate_distinct)
  show "map fst alloc = map risk_key ?r"
    by (rule nth_equalityI) (simp_all add: alloc len)
  have "filter (\<lambda>i. int i < ?n) [0..<m] = [0..<min m (nat ?n)]" for m
    by (induction m) (auto simp: min_def le_less nat_less_iff)
  then have "length (filter (\<lambda>i. int i < ?n) [0..<length scores]) = min (length scores) (nat ?n)" by simp
  moreover have "filter (\<lambda>(_, n). n = hi) alloc =
      map (\<lambda>i. (risk_key (?r ! i), if int i < ?n then hi else lo)) (filter (\<lambda>i. int i < ?n) [0..<length scores])"
    using assms(2) by (auto simp: alloc filter_map o_def intro!: arg_cong[of _ _ "map _"] filter_cong)
  moreover have "0 < ?n" by (simp add: top_count_def)
  ultimately show "int (length (filter (\<lambda>(_, n). n = hi) alloc)) = min (int (length scores)) ?n" by simp
  have "sorted (map (\<lambda>s. - value_density s) ?r)" unfolding rank_scores_def by (rule sorted_sort_key)
  then show "sorted (rev (map value_density ?r))"
    by (simp add: sorted_iff_nth_mono rev_nth)
  show "sorted (rev (map snd alloc))"
    using assms(2) by (auto simp: alloc sorted_iff_nth_mono rev_nth)
qed

text \<open>Two findings at one address: the lower one takes the extra rounds away from the higher one.\<close>

definition sample_risk :: "real \<Rightarrow> risk_score" where
  "sample_risk x = \<lparr>risk_category = ''xss'', risk_url = ''/a'', probability = x, risk_severity = ''critical'', cost = 1\<rparr>"

lemma sample_rank: "rank_scores [sample_risk (9 / 10), sample_risk (1 / 10)] = [sample_risk (9 / 10), sample_risk (1 / 10)]"
  by (simp add: rank_scores_def sample_risk_def value_density_def expected_risk_def risk_severity_weight_def option_or_def)

lemma duplicate_loses_rounds:
  "allocate_retry_budget 3 1 (3 / 10) [sample_risk (9 / 10), sample_risk (1 / 10)] = [((''xss'', ''/a''), 1)]"
  by (simp add: allocate_retry_budget_def sample_rank Let_def top_count_def py_round_def)
    (simp add: sample_risk_def)

section \<open>Samples\<close>

definition sample_plan :: plan_row where
  "sample_plan = \<lparr>plan_id = ''p1'', capability = ''reflection'', finding_class = ''XSS'', category = Some ''xss'',
     plan_url = ''http://t/'', exchange_hash = ''h'', plane = ''burp'', plan_severity = ''high'', plan_confidence = 6 / 10\<rparr>"

definition first_test :: test_plan where
  "first_test = \<lparr>t_id = ''p1'', t_from = sample_plan, t_mutation = [(''payload'', ''canary'')], t_escalated = False\<rparr>"

definition failed_test :: submission where
  "failed_test = \<lparr>sub_plan = ''p1'', sub_status = ''not_confirmed'', sub_confidence = 0, sub_confirmed = False,
     sub_executor = ''burp:reflection'', sub_hash = ''h'', sub_tags = []\<rparr>"





definition first_row :: lineage_row where
  "first_row = \<lparr>l_mutation = t_mutation first_test, l_escalated = False, l_status = ''not_confirmed'', l_confidence = Some 0\<rparr>"

lemma sample_retry:
  "next_plan (decide_next_step (\<lambda>s. s) sample_plan failed_test [first_row] None [] None) =
     Some (build_plan (\<lambda>s. s) sample_plan ([CHR 0x22] @ ''><script>__CANARY__</script>'')
       (''classic tag breakout -- try when the default plain canary reflected but wasn'' @ [CHR 0x27] @ ''t in a script context'') False)"
  by code_simp

theorem retries_differ_witness:
  "\<exists>v. dict_get (t_mutation (build_plan (\<lambda>s. s) sample_plan ([CHR 0x22] @ ''><script>__CANARY__</script>'')
       (''classic tag breakout -- try when the default plain canary reflected but wasn'' @ [CHR 0x27] @ ''t in a script context'') False)) ''payload'' = Some v \<and>
    list_all (\<lambda>r. dict_get (l_mutation r) ''payload'' \<noteq> Some v) [first_row]"
  by (rule retries_differ[OF sample_retry]) (simp add: build_plan_def)

definition escalated_row :: lineage_row where
  "escalated_row = first_row\<lparr>l_escalated := True\<rparr>"

theorem handover_exact_witness:
  "handover_required (decide_next_step (\<lambda>s. s) sample_plan failed_test [first_row, escalated_row] None [] None)"
  by (subst handover_exact)
    (simp_all add: sample_plan_def is_retryable_def retryable_categories_def failed_test_def escalated_row_def
      first_row_def to_attempt_def status_map_def option_or_def)

theorem rounds_follow_density_witness:
  "map fst (allocate_retry_budget 3 1 (3 / 10) [sample_risk (9 / 10)]) = [(''xss'', ''/a'')]"
  using rounds_follow_density[of "[sample_risk (9 / 10)]" 1 3
      "allocate_retry_budget 3 1 (3 / 10) [sample_risk (9 / 10)]" "3 / 10"]
  by (simp add: rank_scores_def) (simp add: risk_key_def sample_risk_def)

end
