(* ===== verification/PhaseSchedule.thy ===== *)
theory PhaseSchedule
  imports Prelude
begin

text \<open>
  Phase time slices under the wall-clock deadline of an engagement (\<open>phase_schedule.py\<close>). The shares
  of the configuration come as the floats they convert to, or nothing where the conversion fails.
  \<open>slice_within_deadline\<close> bounds a slice, \<open>slices_use_all\<close> shows that phases which use their slices
  up share the whole remaining time out.
\<close>

definition phases :: "string list" where
  "phases = [''worklist'', ''recrawl'', ''capture_review'', ''chain_rounds'']"

record schedule =
  sc_deadline :: "time option"
  shares :: "(string \<times> real) list"
  granted_seconds :: "(string \<times> real) list"

definition add_share :: "(string \<times> real) list \<Rightarrow> string \<times> real option \<Rightarrow> (string \<times> real) list" where
  "add_share d entry = (case snd entry of
       None \<Rightarrow> d
     | Some v \<Rightarrow> if List.member phases (fst entry) \<and> v > 0 then dict_set (fst entry) v d else d)"

definition new_schedule :: "time option \<Rightarrow> (string \<times> real option) list \<Rightarrow> schedule" where
  "new_schedule deadline raw = \<lparr>sc_deadline = deadline, shares = foldl add_share [] raw, granted_seconds = []\<rparr>"

text \<open>\<open>from_config\<close>: the engagement section may be missing, and its slices may not be a dictionary.\<close>

definition schedule_from_config :: "(string \<times> real option) list option option \<Rightarrow> time option \<Rightarrow> schedule" where
  "schedule_from_config slices deadline = new_schedule deadline
     (case slices of Some (Some raw) \<Rightarrow> raw | _ \<Rightarrow> [])"

definition schedule_active :: "schedule \<Rightarrow> bool" where
  "schedule_active s \<longleftrightarrow> sc_deadline s \<noteq> None \<and> shares s \<noteq> []"

definition share_of :: "schedule \<Rightarrow> string \<Rightarrow> real" where
  "share_of s p = option_or (dict_get (shares s) p) 0"

text \<open>The sum of the shares from a phase on.\<close>

definition share_from :: "schedule \<Rightarrow> string \<Rightarrow> real" where
  "share_from s phase = sum_list (map (share_of s)
     (filter (\<lambda>p. dict_get (shares s) p \<noteq> None) (dropWhile (\<lambda>p. p \<noteq> phase) phases)))"

definition deadline_for :: "string \<Rightarrow> time option \<Rightarrow> time \<Rightarrow> schedule \<Rightarrow> time option \<times> schedule" where
  "deadline_for phase explicit now s =
     (if \<not> schedule_active s \<or> dict_get (shares s) phase = None then (explicit, s)
      else let remaining = max 0 (option_or (sc_deadline s) 0 - now);
               sliced = now + remaining * share_of s phase / share_from s phase
        in (Some (case explicit of None \<Rightarrow> sliced | Some e \<Rightarrow> min sliced e),
            s\<lparr>granted_seconds := dict_set phase (of_int (py_round (1000 * (sliced - now))) / 1000) (granted_seconds s)\<rparr>))"

definition schedule_report :: "schedule \<Rightarrow> (string \<times> real) list \<times> (string \<times> real) list" where
  "schedule_report s = (shares s, granted_seconds s)"

section \<open>Well-formed schedules\<close>

definition schedule_ok :: "schedule \<Rightarrow> bool" where
  [inv_defs]: "schedule_ok s \<longleftrightarrow> list_all (\<lambda>(p, v). List.member phases p \<and> v > 0) (shares s)"

lemma list_all_dict_set: "list_all P d \<Longrightarrow> P (k, v) \<Longrightarrow> list_all P (dict_set k v d)"
  by (induction d) auto

lemma add_share_ok:
  assumes "list_all (\<lambda>(p, v). p \<in> set phases \<and> 0 < v) d"
  shows "list_all (\<lambda>(p, v). p \<in> set phases \<and> 0 < v) (add_share d entry)"
  unfolding add_share_def
  using assms by (cases "snd entry") (simp_all add: list_all_dict_set)

lemma new_schedule_ok: "schedule_ok (new_schedule deadline raw)"
proof -
  have "list_all (\<lambda>(p, v). p \<in> set phases \<and> 0 < v) (foldl add_share d raw)"
    if "list_all (\<lambda>(p, v). p \<in> set phases \<and> 0 < v) d" for d
    using that by (induction raw arbitrary: d) (simp_all add: add_share_ok)
  then show ?thesis by (simp add: schedule_ok_def new_schedule_def)
qed

lemma deadline_for_shares [simp]:
  "shares (snd (deadline_for p e now s)) = shares s" "sc_deadline (snd (deadline_for p e now s)) = sc_deadline s"
  by (simp_all add: deadline_for_def Let_def)

lemma share_get:
  assumes "schedule_ok s" and "dict_get (shares s) p = Some v"
  shows "p \<in> set phases" and "0 < v" and "share_of s p = v"
  using assms by (auto simp: schedule_ok_def share_of_def option_or_def list_all_iff dest!: map_of_SomeD)

lemma share_nonneg: "schedule_ok s \<Longrightarrow> 0 \<le> share_of s p"
  using share_get[of s p] by (cases "dict_get (shares s) p") (auto simp: share_of_def option_or_def)

lemma share_from_bounds:
  assumes "schedule_ok s" and "dict_get (shares s) p = Some v"
  shows "0 < share_of s p" and "share_of s p \<le> share_from s p"
proof -
  let ?P = "\<lambda>p. dict_get (shares s) p \<noteq> None"
  from share_get[OF assms] show "0 < share_of s p" by simp
  from share_get(1)[OF assms] obtain ps where ps: "dropWhile (\<lambda>q. q \<noteq> p) phases = p # ps"
    by (cases "dropWhile (\<lambda>q. q \<noteq> p) phases") (auto simp: dropWhile_eq_Nil_conv dropWhile_eq_Cons_conv)
  have "0 \<le> sum_list (map (share_of s) (filter ?P ps))"
    by (rule sum_list_nonneg) (auto intro: share_nonneg[OF assms(1)])
  with assms(2) show "share_of s p \<le> share_from s p" by (simp add: share_from_def ps)
qed

section \<open>Slices\<close>

text \<open>A slice that begins before the deadline ends between its beginning and the deadline, and never
  after the explicit cap of the phase; the last phase with a share may use all that is left.\<close>

theorem slice_within_deadline:
  assumes "s = new_schedule (Some D) raw" and "dict_get (shares s) phase = Some v" and "now \<le> D"
    and "deadline_for phase explicit now s = (Some d, s')"
  shows "d \<le> D \<and> (explicit = None \<longrightarrow> now \<le> d) \<and> (\<forall>e. explicit = Some e \<longrightarrow> d \<le> e \<and> min now e \<le> d) \<and>
    (explicit = None \<and> share_from s phase = share_of s phase \<longrightarrow> d = D)"
proof -
  have ok: "schedule_ok s" and D: "sc_deadline s = Some D"
    using assms(1) new_schedule_ok by (simp_all add: new_schedule_def)
  note b = share_from_bounds[OF ok assms(2)]
  have active: "schedule_active s" using D assms(2) by (auto simp: schedule_active_def)
  let ?f = "share_of s phase / share_from s phase"
  have f: "0 \<le> ?f" "?f \<le> 1" using b by simp_all
  let ?sl = "now + (D - now) * share_of s phase / share_from s phase"
  have sl: "now \<le> ?sl" "?sl \<le> D"
  proof -
    have "0 \<le> (D - now) * ?f" using f assms(3) by (intro mult_nonneg_nonneg) auto
    then show "now \<le> ?sl" by simp
    have "(D - now) * ?f \<le> (D - now) * 1" using f assms(3) by (intro mult_left_mono) auto
    then show "?sl \<le> D" by simp
  qed
  have d: "d = (case explicit of None \<Rightarrow> ?sl | Some e \<Rightarrow> min ?sl e)"
    using assms(2-4) active D by (auto simp: deadline_for_def Let_def option_or_def max_def)
  moreover have "?sl = D" if "share_from s phase = share_of s phase"
    using that b by simp
  ultimately show ?thesis using sl by (auto split: option.splits)
qed

text \<open>Slices that are used up share the remaining time out in proportion: the time left after a phase
  is the fraction the later shares have in what was left before it.\<close>

theorem slices_use_all:
  assumes "s = new_schedule (Some D) raw" and "dict_get (shares s) phase = Some v" and "now \<le> D"
    and "deadline_for phase None now s = (Some d, s')"
  shows "(D - d) * share_from s phase = (D - now) * (share_from s phase - share_of s phase)"
proof -
  have ok: "schedule_ok s" and D: "sc_deadline s = Some D"
    using assms(1) new_schedule_ok by (simp_all add: new_schedule_def)
  note b = share_from_bounds[OF ok assms(2)]
  have "schedule_active s" using D assms(2) by (auto simp: schedule_active_def)
  with assms(2-4) D have "d = now + (D - now) * share_of s phase / share_from s phase"
    by (auto simp: deadline_for_def Let_def option_or_def max_def)
  with b show ?thesis by (simp add: field_simps)
qed

definition sample_schedule :: schedule where
  "sample_schedule = new_schedule (Some 100) [(''worklist'', Some 1), (''recrawl'', None), (''chain_rounds'', Some 3)]"

lemma sample_shares: "shares sample_schedule = [(''worklist'', 1), (''chain_rounds'', 3)]"
  by (simp add: sample_schedule_def new_schedule_def add_share_def phases_def)

lemma sample_deadline: "fst (deadline_for ''worklist'' None 20 sample_schedule) = Some 40"
  by (simp add: deadline_for_def schedule_active_def sample_shares Let_def share_of_def share_from_def phases_def
      option_or_def) (simp add: sample_schedule_def new_schedule_def)

theorem slice_within_deadline_witness: "(40 :: real) \<le> 100 \<and> (20 :: real) \<le> 40"
proof -
  obtain s' where s': "deadline_for ''worklist'' None 20 sample_schedule = (Some 40, s')"
    using sample_deadline by (cases "deadline_for ''worklist'' None 20 sample_schedule") simp
  have get: "dict_get (shares sample_schedule) ''worklist'' = Some 1" by (simp add: sample_shares)
  from slice_within_deadline[OF sample_schedule_def get _ s'] show ?thesis by simp
qed

theorem slices_use_all_witness:
  "(100 - 40 :: real) * share_from sample_schedule ''worklist'' =
     (100 - 20) * (share_from sample_schedule ''worklist'' - share_of sample_schedule ''worklist'')"
proof (rule slices_use_all[OF sample_schedule_def])
  show "dict_get (shares sample_schedule) ''worklist'' = Some 1" by (simp add: sample_shares)
  show "deadline_for ''worklist'' None 20 sample_schedule = (Some 40, snd (deadline_for ''worklist'' None 20 sample_schedule))"
    using sample_deadline by (metis prod.collapse)
qed simp

end
