(* ===== verification/RetryRounds.thy ===== *)
theory RetryRounds
  imports Prelude
begin

text \<open>
  Retry rounds of an engagement (\<open>retry_rounds.py\<close>): what is left of the time budget is spent on the
  work that earlier sweeps left, with growing budgets. The readings of the clock, of the cancellation
  flag and of the circuit breaker, and the sweeps and reviews, are functions of the number of the
  reading or call (a number may be passed over); the loop is a partial function over its steps.
  Exceptions of a sweep or review, which end the rounds, are not modelled; those of the loop itself
  are the values of \<open>rr_exc\<close>.

  \<open>rounds_return\<close> is termination, \<open>round_report\<close> what a finished run reports, \<open>budgets_grow\<close> bounds the
  budgets of a round and \<open>settled_exact\<close> says which outcomes are not probed again.
\<close>

section \<open>Configuration and budgets\<close>

record rr_config =
  rr_enabled :: bool
  growth :: real
  max_rounds :: nat
  reserve_seconds :: real
  max_step_budget :: int
  breaker_wait :: real
  max_idle_rounds :: nat

definition default_rr_config :: rr_config where
  "default_rr_config = \<lparr>rr_enabled = False, growth = 2, max_rounds = 0, reserve_seconds = 300,
     max_step_budget = 1024, breaker_wait = 120, max_idle_rounds = 3\<rparr>"

text \<open>The keys of the \<open>retry_rounds\<close> section that are present, as the numbers they convert to.\<close>

record rr_raw =
  raw_enabled :: "bool option"
  raw_growth :: "real option"
  raw_max_rounds :: "int option"
  raw_reserve :: "real option"
  raw_max_step :: "int option"
  raw_breaker_wait :: "real option"
  raw_max_idle :: "int option"

definition rr_from_config :: "rr_raw option \<Rightarrow> rr_config" where
  "rr_from_config raw = (case raw of None \<Rightarrow> default_rr_config | Some r \<Rightarrow>
     \<lparr>rr_enabled = option_or (raw_enabled r) False, growth = max 1 (option_or (raw_growth r) 2),
      max_rounds = nat (option_or (raw_max_rounds r) 0), reserve_seconds = max 0 (option_or (raw_reserve r) 300),
      max_step_budget = max 1 (option_or (raw_max_step r) 1024),
      breaker_wait = max 0 (option_or (raw_breaker_wait r) 120), max_idle_rounds = nat (option_or (raw_max_idle r) 3)\<rparr>)"

datatype rr_exc = OverflowError | TypeError | KeyError

text \<open>A power of floats beyond the largest float raises.\<close>

definition max_float :: real where
  "max_float = 2 ^ 1024 - 2 ^ 970"

definition float_pow :: "real \<Rightarrow> nat \<Rightarrow> rr_exc + real" where
  "float_pow g n = (if g ^ n > max_float then Inl OverflowError else Inr (g ^ n))"

definition max_factor :: real where
  "max_factor = 1000000"

type_synonym budgets = "(string \<times> int option) list"

definition scale :: "real \<Rightarrow> int option \<Rightarrow> int option" where
  "scale factor v = map_option (\<lambda>b. if b > 0 then \<lceil>of_int b * factor\<rceil> else 0) v"

definition round_budgets :: "budgets \<Rightarrow> rr_config \<Rightarrow> nat \<Rightarrow> rr_exc + budgets" where
  "round_budgets base cfg n = (case float_pow (growth cfg) n of
     Inl e \<Rightarrow> Inl e
   | Inr g \<Rightarrow> (let out = map (\<lambda>(name, v). (name, scale (min g max_factor) v)) base in
       case dict_get base ''step_budget'' of
         None \<Rightarrow> Inr out
       | Some None \<Rightarrow> Inl TypeError
       | Some (Some b) \<Rightarrow> Inr (dict_set ''step_budget''
           (map_option (\<lambda>s. min s (max (max_step_budget cfg) b)) (scale (min g max_factor) (Some b))) out)))"

section \<open>Outcomes and the ledger\<close>

record node_outcome =
  o_confirmed :: bool
  o_error :: bool
  o_stop :: "string option"
  o_specialty :: bool
  o_findings :: "bool list"
  o_round :: "nat option"

definition retryable_stops :: "string list" where
  "retryable_stops = [''error'', ''exhausted_steps'']"

definition is_settled :: "node_outcome \<Rightarrow> bool" where
  "is_settled o1 =
     (if o_confirmed o1 then True
      else if o_error o1 then False
      else case o_stop o1 of None \<Rightarrow> \<not> o_specialty o1 | Some s \<Rightarrow> \<not> List.member retryable_stops s)"

text \<open>\<open>chained\<close> holds the calls made to the recorder the ledger was put in front of, if there is one.\<close>

record retry_ledger =
  outcomes :: "(string \<times> node_outcome) list"
  legs_done :: "string list"
  review_failed :: "string list"
  capped :: "string list"
  step_capped :: bool
  chained :: "(string \<times> node_outcome) list option"

definition new_retry_ledger :: retry_ledger where
  "new_retry_ledger = \<lparr>outcomes = [], legs_done = [], review_failed = [], capped = [], step_capped = False, chained = None\<rparr>"

definition wire :: "(string \<times> node_outcome) list \<Rightarrow> bool \<Rightarrow> retry_ledger \<Rightarrow> retry_ledger" where
  "wire completed has_recorder l =
     l\<lparr>outcomes := foldl (\<lambda>d (k, o1). if dict_get d k = None then dict_set k o1 d else d) (outcomes l) completed,
       chained := (if has_recorder then Some [] else None)\<rparr>"

definition record_outcome :: "string \<Rightarrow> node_outcome \<Rightarrow> retry_ledger \<Rightarrow> retry_ledger" where
  "record_outcome key o1 l =
     (let l1 = l\<lparr>outcomes := dict_set key o1 (outcomes l)\<rparr>;
          l2 = (if step_capped l1 \<and> o_stop o1 = Some ''exhausted_steps'' then l1\<lparr>capped := List.insert key (capped l1)\<rparr> else l1)
      in l2\<lparr>chained := map_option (\<lambda>c. c @ [(key, o1)]) (chained l2)\<rparr>)"

definition settled :: "retry_ledger \<Rightarrow> (string \<times> node_outcome) list" where
  "settled l = filter (\<lambda>(key, o1). List.member (capped l) key \<or> is_settled o1) (outcomes l)"

definition sweep_kwargs :: "retry_ledger \<Rightarrow> (string \<times> node_outcome) list \<times> string list" where
  "sweep_kwargs l = (settled l, legs_done l)"

definition reopen_reviews :: "string list \<Rightarrow> retry_ledger \<Rightarrow> nat \<times> string list \<times> retry_ledger" where
  "reopen_reviews seen l = (length (review_failed l),
     filter (\<lambda>k. \<not> List.member (review_failed l) k) seen, l\<lparr>review_failed := []\<rparr>)"

section \<open>The rounds\<close>

text \<open>A sweep gives its fresh outcomes with how many nodes it skipped for the budget and for time, and
  updates the ledger; a review gives how many captures it reviewed and how many had findings.\<close>

record round_env =
  e_cancelled :: "nat \<Rightarrow> bool"
  e_clock :: "nat \<Rightarrow> time"
  e_retry_after :: "nat \<Rightarrow> real"
  e_sweep :: "nat \<Rightarrow> budgets \<Rightarrow> time \<Rightarrow> retry_ledger \<Rightarrow> node_outcome list \<times> nat \<times> nat \<times> retry_ledger"
  e_review :: "nat \<Rightarrow> budgets \<Rightarrow> time \<Rightarrow> string list \<Rightarrow> retry_ledger \<Rightarrow> nat \<times> nat \<times> string list \<times> retry_ledger"

record round_entry =
  en_round :: nat
  en_budgets :: budgets
  en_waited :: int
  en_ran :: nat
  en_settled :: nat
  en_findings :: nat
  en_confirmed :: nat
  en_exhausted :: nat
  en_time :: nat
  en_reopened :: nat
  en_reviewed :: nat
  en_failed :: nat
  en_review_findings :: nat
  en_elapsed :: int

text \<open>The variables of \<open>run_retry_rounds\<close>: its report, its counters, what it changes of its
  arguments, the outcomes it marked with their round, and the number of the next reading.\<close>

record rr_state =
  rr_rounds :: "round_entry list"
  rr_stopped :: "string option"
  rr_findings :: nat
  rr_confirmed :: nat
  rr_review_findings :: nat
  rr_idle :: nat
  rr_no :: nat
  rr_ledger :: retry_ledger
  rr_reviewed :: "string list"
  rr_fresh :: "node_outcome list"
  rr_k :: nat

datatype rr_result = Stop rr_state | Again rr_state | Raise rr_exc

function nap :: "round_env \<Rightarrow> real \<Rightarrow> nat \<Rightarrow> real \<times> nat" where
  "nap env left k = (if left > 0 \<and> \<not> e_cancelled env k then nap env (left - min 5 left) (Suc k) else (left, Suc k))"
  by pat_completeness auto
termination
proof (relation "measure (\<lambda>(env, left, k). nat \<lceil>left / 5\<rceil>)")
  fix env :: round_env and left :: real and k :: nat
  assume "left > 0 \<and> \<not> e_cancelled env k"
  then have "0 < left" by simp
  then have "\<lceil>(left - min 5 left) / 5\<rceil> < \<lceil>left / 5\<rceil>"
    by (cases "left \<le> 5") (simp_all add: min_def diff_divide_distrib)
  moreover have "0 < \<lceil>left / 5\<rceil>" using \<open>0 < left\<close> by simp
  ultimately show "((env, left - min 5 left, Suc k), env, left, k) \<in> measure (\<lambda>(env, left, k). nat \<lceil>left / 5\<rceil>)"
    by simp
qed simp

declare nap.simps [simp del]

definition round_progress :: "round_entry \<Rightarrow> nat" where
  "round_progress e = en_settled e + en_findings e + en_review_findings e + (en_reviewed e - en_failed e)"

definition nothing_left :: "rr_config \<Rightarrow> round_entry \<Rightarrow> bool" where
  "nothing_left cfg e \<longleftrightarrow> en_ran e = 0 \<and> en_reviewed e = 0 \<and> (en_exhausted e = 0 \<or> growth cfg \<le> 1)"

definition round_entry_of :: "nat \<Rightarrow> budgets \<Rightarrow> real \<Rightarrow> node_outcome list \<Rightarrow> nat \<Rightarrow> nat \<Rightarrow> nat \<Rightarrow> nat \<Rightarrow> retry_ledger \<Rightarrow> nat \<Rightarrow> real \<Rightarrow> round_entry" where
  "round_entry_of n bs waited fresh exhausted over_time reopened reviewed l review_findings elapsed =
     \<lparr>en_round = n, en_budgets = bs, en_waited = py_round (1000 * waited), en_ran = length fresh,
      en_settled = length (filter is_settled fresh), en_findings = sum_list (map (length \<circ> o_findings) fresh),
      en_confirmed = length (filter id (concat (map o_findings fresh))), en_exhausted = exhausted, en_time = over_time,
      en_reopened = reopened, en_reviewed = reviewed, en_failed = length (review_failed l),
      en_review_findings = review_findings, en_elapsed = py_round (1000 * elapsed)\<rparr>"

text \<open>What follows the entry of a round: the totals and the two checks.\<close>

definition close_round :: "rr_config \<Rightarrow> round_entry \<Rightarrow> rr_state \<Rightarrow> rr_result" where
  "close_round cfg e st =
     (let st1 = st\<lparr>rr_rounds := rr_rounds st @ [e], rr_findings := rr_findings st + en_findings e,
                   rr_confirmed := rr_confirmed st + en_confirmed e,
                   rr_review_findings := rr_review_findings st + en_review_findings e\<rparr> in
      if nothing_left cfg e then Stop (st1\<lparr>rr_stopped := Some ''nothing_left''\<rparr>)
      else let idle = (if round_progress e > 0 then 0 else rr_idle st + 1); st2 = st1\<lparr>rr_idle := idle\<rparr> in
        if max_idle_rounds cfg > 0 \<and> idle \<ge> max_idle_rounds cfg then Stop (st2\<lparr>rr_stopped := Some ''no_progress''\<rparr>)
        else Again st2)"

definition run_round :: "round_env \<Rightarrow> rr_config \<Rightarrow> time \<Rightarrow> budgets \<Rightarrow> real \<Rightarrow> rr_state \<Rightarrow> rr_result" where
  "run_round env cfg stop_at base waited st =
     (let n = rr_no st + 1; k = rr_k st; started = e_clock env k in
      case round_budgets base cfg n of
        Inl e \<Rightarrow> Raise e
      | Inr bs \<Rightarrow> (case dict_get bs ''step_budget'' of
          None \<Rightarrow> Raise KeyError
        | Some None \<Rightarrow> Raise TypeError
        | Some (Some steps) \<Rightarrow>
            let (fresh, exhausted, over_time, l1) = e_sweep env (k + 1) bs stop_at
                  ((rr_ledger st)\<lparr>step_capped := steps \<ge> max_step_budget cfg\<rparr>);
                (reopened, seen, l2) = reopen_reviews (rr_reviewed st) l1;
                (reviewed, review_findings, seen', l3) = e_review env (k + 2) bs stop_at seen l2
            in close_round cfg
                 (round_entry_of n bs waited fresh exhausted over_time reopened reviewed l3 review_findings
                    (e_clock env (k + 3) - started))
                 (st\<lparr>rr_no := n, rr_ledger := l3, rr_reviewed := seen',
                     rr_fresh := rr_fresh st @ map (\<lambda>o1. o1\<lparr>o_round := Some n\<rparr>) fresh, rr_k := k + 4\<rparr>)))"

definition rr_step :: "round_env \<Rightarrow> rr_config \<Rightarrow> time \<Rightarrow> budgets \<Rightarrow> rr_state \<Rightarrow> rr_result" where
  "rr_step env cfg stop_at base st =
     (let k = rr_k st in
      if e_cancelled env k then Stop (st\<lparr>rr_stopped := Some ''cancelled''\<rparr>)
      else if max_rounds cfg > 0 \<and> rr_no st \<ge> max_rounds cfg then Stop (st\<lparr>rr_stopped := Some ''max_rounds''\<rparr>)
      else if e_clock env (k + 1) \<ge> stop_at then Stop (st\<lparr>rr_stopped := Some ''deadline''\<rparr>)
      else let wait = min (min (max 0 (e_retry_after env (k + 2))) (breaker_wait cfg)) (max 0 (stop_at - e_clock env (k + 3)));
               (left, k1) = nap env wait (k + 4);
               waited = wait - max 0 left
        in if e_cancelled env k1 \<or> e_clock env (k1 + 1) \<ge> stop_at then Again (st\<lparr>rr_k := k1 + 2\<rparr>)
           else run_round env cfg stop_at base waited (st\<lparr>rr_k := k1 + 2\<rparr>))"

partial_function (option) rr_loop :: "round_env \<Rightarrow> rr_config \<Rightarrow> time \<Rightarrow> budgets \<Rightarrow> rr_state \<Rightarrow> (rr_exc + rr_state) option" where
  "rr_loop env cfg stop_at base st = (case rr_step env cfg stop_at base st of
     Stop st' \<Rightarrow> Some (Inr st')
   | Raise e \<Rightarrow> Some (Inl e)
   | Again st' \<Rightarrow> rr_loop env cfg stop_at base st')"

definition rr_start :: "retry_ledger \<Rightarrow> string list \<Rightarrow> rr_state" where
  "rr_start l reviewed = \<lparr>rr_rounds = [], rr_stopped = None, rr_findings = 0, rr_confirmed = 0, rr_review_findings = 0,
     rr_idle = 0, rr_no = 0, rr_ledger = l, rr_reviewed = reviewed, rr_fresh = [], rr_k = 0\<rparr>"

definition run_retry_rounds :: "round_env \<Rightarrow> rr_config \<Rightarrow> retry_ledger \<Rightarrow> time option \<Rightarrow> budgets \<Rightarrow> string list \<Rightarrow>
    (rr_exc + rr_state) option" where
  "run_retry_rounds env cfg l deadline base reviewed = (case deadline of
     None \<Rightarrow> Some (Inr ((rr_start l reviewed)\<lparr>rr_stopped := Some ''no_deadline''\<rparr>))
   | Some d \<Rightarrow> rr_loop env cfg (d - reserve_seconds cfg) base (rr_start l reviewed))"

section \<open>What a finished run reports\<close>

lemma rr_loop_induct:
  assumes ret: "rr_loop env cfg stop_at base st = Some (Inr r)" and "I st"
    and again: "\<And>st st'. I st \<Longrightarrow> rr_step env cfg stop_at base st = Again st' \<Longrightarrow> I st'"
    and stop: "\<And>st st'. I st \<Longrightarrow> rr_step env cfg stop_at base st = Stop st' \<Longrightarrow> Q st'"
  shows "Q r"
proof -
  define closed where "closed = (\<lambda>env cfg stop_at base. \<forall>st. I st \<longrightarrow> (case rr_step env cfg stop_at base st of
    Again st' \<Rightarrow> I st' | Stop st' \<Rightarrow> Q st' | Raise e \<Rightarrow> True))"
  have "closed env cfg stop_at base \<longrightarrow> I st \<longrightarrow> (\<forall>r. res = Inr r \<longrightarrow> Q r)"
    if "rr_loop env cfg stop_at base st = Some res" for res
  proof (rule rr_loop.raw_induct[where P = "\<lambda>env cfg stop_at base st res.
      closed env cfg stop_at base \<longrightarrow> I st \<longrightarrow> (\<forall>r. res = Inr r \<longrightarrow> Q r)", OF _ that], intro impI)
    fix f env cfg stop_at base st res
    assume IH: "\<And>env cfg stop_at base st res. f env cfg stop_at base st = Some res \<Longrightarrow>
        closed env cfg stop_at base \<longrightarrow> I st \<longrightarrow> (\<forall>r. res = Inr r \<longrightarrow> Q r)"
      and eq: "(case rr_step env cfg stop_at base st of Stop st' \<Rightarrow> Some (Inr st') | Raise e \<Rightarrow> Some (Inl e)
        | Again st' \<Rightarrow> f env cfg stop_at base st') = Some res"
      and c: "closed env cfg stop_at base" and "I st"
    then have step: "case rr_step env cfg stop_at base st of
        Again st' \<Rightarrow> I st' | Stop st' \<Rightarrow> Q st' | Raise e \<Rightarrow> True" by (simp add: closed_def)
    show "\<forall>r. res = Inr r \<longrightarrow> Q r"
    proof (cases "rr_step env cfg stop_at base st")
      case (Again st')
      with eq step IH c show ?thesis by simp
    qed (use eq step in auto)
  qed
  moreover have "closed env cfg stop_at base"
    unfolding closed_def using again stop by (auto split: rr_result.split)
  ultimately show ?thesis using ret \<open>I st\<close> by blast
qed

text \<open>The invariant of the report.\<close>

definition report_ok :: "rr_config \<Rightarrow> rr_state \<Rightarrow> bool" where
  [inv_defs]: "report_ok cfg st \<longleftrightarrow> rr_no st = length (rr_rounds st) \<and>
     map en_round (rr_rounds st) = map Suc [0..<length (rr_rounds st)] \<and>
     rr_findings st = sum_list (map en_findings (rr_rounds st)) \<and>
     rr_confirmed st = sum_list (map en_confirmed (rr_rounds st)) \<and>
     rr_review_findings st = sum_list (map en_review_findings (rr_rounds st)) \<and>
     length (rr_fresh st) = sum_list (map en_ran (rr_rounds st)) \<and>
     (max_rounds cfg > 0 \<longrightarrow> rr_no st \<le> max_rounds cfg)"

definition idle_tail :: "rr_state \<Rightarrow> nat" where
  "idle_tail st = length (takeWhile (\<lambda>e. round_progress e = 0) (rev (rr_rounds st)))"

definition running_ok :: "rr_config \<Rightarrow> rr_state \<Rightarrow> bool" where
  [inv_defs]: "running_ok cfg st \<longleftrightarrow> report_ok cfg st \<and> rr_idle st = idle_tail st \<and> rr_stopped st = None"

lemma start_running [simp]: "running_ok cfg (rr_start l reviewed)"
  by (simp add: inv_defs rr_start_def idle_tail_def)

text \<open>What stops a run.\<close>

definition stop_ok :: "rr_config \<Rightarrow> rr_state \<Rightarrow> bool" where
  [inv_defs]: "stop_ok cfg st \<longleftrightarrow> report_ok cfg st \<and>
     (rr_stopped st = Some ''cancelled'' \<or> rr_stopped st = Some ''deadline'' \<or>
      rr_stopped st = Some ''max_rounds'' \<and> rr_no st = max_rounds cfg \<and> 0 < max_rounds cfg \<or>
      rr_stopped st = Some ''nothing_left'' \<and> rr_rounds st \<noteq> [] \<and> nothing_left cfg (last (rr_rounds st)) \<or>
      rr_stopped st = Some ''no_progress'' \<and> 0 < max_idle_rounds cfg \<and> max_idle_rounds cfg \<le> idle_tail st)"

lemma close_round_ok:
  assumes "report_ok cfg st" and "rr_idle st = idle_tail st" and "rr_stopped st = None"
    and "max_rounds cfg > 0 \<longrightarrow> rr_no st < max_rounds cfg" and "en_round e = Suc (rr_no st)"
    and "rr_no st' = Suc (rr_no st)" and "rr_rounds st' = rr_rounds st" and "rr_findings st' = rr_findings st"
    and "rr_confirmed st' = rr_confirmed st" and "rr_review_findings st' = rr_review_findings st"
    and "rr_idle st' = rr_idle st" and "rr_stopped st' = None" and "length (rr_fresh st') = length (rr_fresh st) + en_ran e"
  shows "(case close_round cfg e st' of Stop r \<Rightarrow> stop_ok cfg r | Again r \<Rightarrow> running_ok cfg r | Raise x \<Rightarrow> True)"
  using assms by (auto simp: close_round_def inv_defs Let_def idle_tail_def)

lemma run_round_ok:
  assumes "running_ok cfg st" and "max_rounds cfg > 0 \<longrightarrow> rr_no st < max_rounds cfg"
  shows "(case run_round env cfg stop_at base waited st of Stop r \<Rightarrow> stop_ok cfg r | Again r \<Rightarrow> running_ok cfg r | Raise x \<Rightarrow> True)"
proof -
  have *: "report_ok cfg st" "rr_idle st = idle_tail st" "rr_stopped st = None"
    using assms(1) by (simp_all add: running_ok_def)
  show ?thesis
    unfolding run_round_def Let_def
    by (auto split: sum.split option.split prod.split intro!: close_round_ok[OF * assms(2)] simp: round_entry_of_def *)
qed

lemma step_ok:
  assumes "running_ok cfg st"
  shows "(case rr_step env cfg stop_at base st of Stop r \<Rightarrow> stop_ok cfg r | Again r \<Rightarrow> running_ok cfg r | Raise x \<Rightarrow> True)"
proof -
  have k: "running_ok cfg (st\<lparr>rr_k := i\<rparr>)" for i
    using assms by (auto simp: inv_defs idle_tail_def)
  show ?thesis
  proof (cases "max_rounds cfg > 0 \<and> max_rounds cfg \<le> rr_no st")
    case True
    with assms have "rr_no st = max_rounds cfg" by (simp add: inv_defs)
    then have "stop_ok cfg (st\<lparr>rr_stopped := Some ''max_rounds''\<rparr>)" "stop_ok cfg (st\<lparr>rr_stopped := Some ''cancelled''\<rparr>)"
      using True assms by (auto simp: inv_defs)
    with True show ?thesis by (simp add: rr_step_def Let_def)
  next
    case False
    then have "max_rounds cfg > 0 \<longrightarrow> rr_no (st\<lparr>rr_k := i\<rparr>) < max_rounds cfg" for i by auto
    note run_round_ok[OF k this]
    moreover have "stop_ok cfg (st\<lparr>rr_stopped := Some ''cancelled''\<rparr>)" "stop_ok cfg (st\<lparr>rr_stopped := Some ''deadline''\<rparr>)"
      using assms by (auto simp: inv_defs)
    ultimately show ?thesis using False k by (auto simp: rr_step_def Let_def split: prod.split)
  qed
qed

text \<open>A run that ends reports its rounds in order and within the configured number, its totals are
  the sums over the rounds, every node_outcome of a round is marked, and the reason it gives for stopping is true.\<close>

theorem round_report:
  assumes "run_retry_rounds env cfg l (Some d) base reviewed = Some (Inr r)"
  shows "map en_round (rr_rounds r) = map Suc [0..<length (rr_rounds r)] \<and>
    (max_rounds cfg > 0 \<longrightarrow> length (rr_rounds r) \<le> max_rounds cfg) \<and>
    rr_findings r = sum_list (map en_findings (rr_rounds r)) \<and>
    length (rr_fresh r) = sum_list (map en_ran (rr_rounds r)) \<and>
    (case rr_stopped r of
       None \<Rightarrow> False
     | Some why \<Rightarrow> List.member [''cancelled'', ''deadline'', ''max_rounds'', ''nothing_left'', ''no_progress''] why \<and>
         (why = ''max_rounds'' \<longrightarrow> length (rr_rounds r) = max_rounds cfg) \<and>
         (why = ''nothing_left'' \<longrightarrow> nothing_left cfg (last (rr_rounds r))) \<and>
         (why = ''no_progress'' \<longrightarrow>
            list_all (\<lambda>e. round_progress e = 0) (drop (length (rr_rounds r) - max_idle_rounds cfg) (rr_rounds r))))"
proof -
  have loop: "rr_loop env cfg (d - reserve_seconds cfg) base (rr_start l reviewed) = Some (Inr r)"
    using assms by (simp add: run_retry_rounds_def)
  have ok: "stop_ok cfg r"
    using loop start_running
  proof (rule rr_loop_induct)
    fix st st'
    assume "running_ok cfg st"
    note step_ok[OF this, of env "d - reserve_seconds cfg" base]
    then show "rr_step env cfg (d - reserve_seconds cfg) base st = Again st' \<Longrightarrow> running_ok cfg st'"
      and "rr_step env cfg (d - reserve_seconds cfg) base st = Stop st' \<Longrightarrow> stop_ok cfg st'" by simp_all
  qed
  have "list_all (\<lambda>e. round_progress e = 0) (drop (length (rr_rounds r) - max_idle_rounds cfg) (rr_rounds r))"
    if "max_idle_rounds cfg \<le> idle_tail r"
  proof -
    have "take (max_idle_rounds cfg) (takeWhile (\<lambda>e. round_progress e = 0) (rev (rr_rounds r)) @
          dropWhile (\<lambda>e. round_progress e = 0) (rev (rr_rounds r))) =
        take (max_idle_rounds cfg) (takeWhile (\<lambda>e. round_progress e = 0) (rev (rr_rounds r)))"
      using that by (simp add: idle_tail_def del: takeWhile_dropWhile_id)
    then have "take (max_idle_rounds cfg) (rev (rr_rounds r)) =
        take (max_idle_rounds cfg) (takeWhile (\<lambda>e. round_progress e = 0) (rev (rr_rounds r)))" by simp
    then have "\<forall>e \<in> set (take (max_idle_rounds cfg) (rev (rr_rounds r))). round_progress e = 0"
      by (metis in_set_takeD set_takeWhileD)
    then show ?thesis by (simp add: take_rev list_all_iff)
  qed
  with ok show ?thesis by (auto simp: inv_defs)
qed

section \<open>The rounds end\<close>

lemma nap_later: "k < snd (nap env left k)"
proof (induction env left k rule: nap.induct)
  case (1 env left k)
  then show ?case by (cases "left > 0 \<and> \<not> e_cancelled env k") (auto simp: nap.simps[of env left k])
qed

lemma close_round_no: "close_round cfg e st = Again st' \<Longrightarrow> rr_no st' = rr_no st \<and> rr_k st' = rr_k st"
  by (auto simp: close_round_def Let_def split: if_splits)

lemma close_round_result: "close_round cfg e st \<noteq> Raise x"
  by (simp add: close_round_def Let_def)

lemma run_round_later:
  assumes "run_round env cfg stop_at base waited st = Again st'"
  shows "rr_no st' = Suc (rr_no st) \<and> rr_k st < rr_k st'"
  using assms unfolding run_round_def Let_def
  by (auto split: sum.splits option.splits prod.splits dest!: close_round_no)

lemma step_later:
  assumes "rr_step env cfg stop_at base st = Again st'"
  shows "rr_k st < rr_k st' \<and> rr_no st' \<le> Suc (rr_no st)"
proof -
  let ?k = "rr_k st"
  let ?wait = "min (min (max 0 (e_retry_after env (?k + 2))) (breaker_wait cfg)) (max 0 (stop_at - e_clock env (?k + 3)))"
  obtain left k1 where n: "nap env ?wait (?k + 4) = (left, k1)" by fastforce
  have k1: "?k + 4 < k1" using nap_later[of "?k + 4" env ?wait] by (simp only: n snd_conv)
  have "st' = st\<lparr>rr_k := k1 + 2\<rparr> \<or>
      run_round env cfg stop_at base (?wait - max 0 left) (st\<lparr>rr_k := k1 + 2\<rparr>) = Again st'"
    using assms unfolding rr_step_def Let_def n prod.case by (metis rr_result.distinct(1) rr_result.inject(2))
  then show ?thesis
  proof
    assume "st' = st\<lparr>rr_k := k1 + 2\<rparr>"
    with k1 show ?thesis by simp
  next
    assume "run_round env cfg stop_at base (?wait - max 0 left) (st\<lparr>rr_k := k1 + 2\<rparr>) = Again st'"
    from run_round_later[OF this] k1 show ?thesis by simp
  qed
qed

lemma round_budgets_step:
  assumes "dict_get base ''step_budget'' = Some (Some b)" and "growth cfg ^ n \<le> max_float"
  shows "\<exists>bs s. round_budgets base cfg n = Inr bs \<and> dict_get bs ''step_budget'' = Some (Some s)"
  using assms by (simp add: round_budgets_def float_pow_def Let_def scale_def)

lemma step_no_raise:
  assumes "dict_get base ''step_budget'' = Some (Some b)" and "growth cfg ^ Suc (rr_no st) \<le> max_float"
  shows "rr_step env cfg stop_at base st \<noteq> Raise x"
proof -
  have "run_round env cfg stop_at base w (st\<lparr>rr_k := i\<rparr>) \<noteq> Raise x" for w i
  proof -
    obtain bs s where "round_budgets base cfg (Suc (rr_no st)) = Inr bs" "dict_get bs ''step_budget'' = Some (Some s)"
      using round_budgets_step[OF assms] by blast
    then show ?thesis by (simp add: run_round_def Let_def case_prod_unfold close_round_result)
  qed
  then show ?thesis by (simp add: rr_step_def Let_def case_prod_unfold)
qed

lemma loop_returns:
  assumes "\<And>k. N \<le> k \<Longrightarrow> stop_at \<le> e_clock env k" and "1 \<le> growth cfg" and "growth cfg ^ N \<le> max_float"
    and "dict_get base ''step_budget'' = Some (Some b)" and "rr_no st \<le> rr_k st"
  shows "\<exists>r. rr_loop env cfg stop_at base st = Some (Inr r)"
  using assms(5)
proof (induction "N - rr_k st" arbitrary: st rule: less_induct)
  case less
  show ?case
  proof (cases "rr_step env cfg stop_at base st")
    case (Stop r)
    then show ?thesis by (subst rr_loop.simps) simp
  next
    case (Again st')
    then have lt: "Suc (rr_k st) < N"
      using assms(1)[of "Suc (rr_k st)"] by (cases "Suc (rr_k st) < N") (auto simp: rr_step_def Let_def split: if_splits)
    with step_later[OF Again] less.prems have "N - rr_k st' < N - rr_k st" "rr_no st' \<le> rr_k st'" by auto
    from less.hyps[OF this] Again show ?thesis by (subst rr_loop.simps) simp
  next
    case (Raise x)
    have lt: "Suc (rr_k st) < N"
      using assms(1)[of "Suc (rr_k st)"] Raise
      by (cases "Suc (rr_k st) < N") (auto simp: rr_step_def Let_def split: if_splits)
    then have "growth cfg ^ Suc (rr_no st) \<le> growth cfg ^ N"
      using less.prems assms(2) by (intro power_increasing) auto
    then have "growth cfg ^ Suc (rr_no st) \<le> max_float" using assms(3) by simp
    from step_no_raise[OF assms(4) this] Raise show ?thesis by simp
  qed
qed

text \<open>C36: The rounds end: if the clock has passed the stop time from some reading on, and the powers of
  the growth factor are floats that far, the run returns a report, whatever the sweeps, reviews,
  cancellations and the breaker do and however many rounds are configured.\<close>

theorem rounds_return:
  assumes "\<forall>k. N \<le> k \<longrightarrow> d - reserve_seconds cfg \<le> e_clock env k" and "1 \<le> growth cfg"
    and "growth cfg ^ N \<le> max_float" and "dict_get base ''step_budget'' = Some (Some b)"
  shows "\<exists>r. run_retry_rounds env cfg l (Some d) base reviewed = Some (Inr r)"
  unfolding run_retry_rounds_def option.case
  by (rule loop_returns[OF _ assms(2-4)]) (use assms(1) in \<open>auto simp: rr_start_def\<close>)

section \<open>Budgets\<close>

lemma dict_get_map: "dict_get (map (\<lambda>(k, v). (k, f v)) d) k = map_option f (dict_get d k)"
  by (induction d) auto

lemma scale_some: "scale factor (Some b) = Some (if b > 0 then \<lceil>of_int b * factor\<rceil> else 0)"
  by (simp add: scale_def)

text \<open>A budget of a round, read from its base.\<close>

definition budget_at :: "rr_config \<Rightarrow> string \<Rightarrow> int \<Rightarrow> nat \<Rightarrow> int" where
  "budget_at cfg name b n =
     (let s = (if b > 0 then \<lceil>of_int b * min (growth cfg ^ n) max_factor\<rceil> else 0) in
      if name = ''step_budget'' then min s (max (max_step_budget cfg) b) else s)"

lemma round_budgets_get:
  assumes "round_budgets base cfg n = Inr bs" and "dict_get base name = Some (Some b)"
  shows "dict_get bs name = Some (Some (budget_at cfg name b n))"
proof -
  from assms(1) have g: "float_pow (growth cfg) n = Inr (growth cfg ^ n)"
    by (auto simp: round_budgets_def float_pow_def split: if_splits)
  show ?thesis
  proof (cases "name = ''step_budget''")
    case True
    with assms g show ?thesis by (auto simp: round_budgets_def Let_def scale_some budget_at_def)
  next
    case False
    then have "''step_budget'' \<noteq> name" by simp
    with assms g False show ?thesis
      by (auto simp: round_budgets_def Let_def dict_get_map scale_some budget_at_def split: option.splits)
  qed
qed

lemma budget_at_bounds:
  assumes "1 \<le> growth cfg" and "n \<le> m" and "0 < b"
  shows "b \<le> budget_at cfg name b n" and "budget_at cfg name b n \<le> budget_at cfg name b m"
    and "budget_at cfg name b m \<le> b * 1000000"
proof -
  let ?f = "\<lambda>n. min (growth cfg ^ n) max_factor"
  have f: "1 \<le> ?f n" "?f n \<le> ?f m" "?f m \<le> 1000000"
    using assms(1) power_increasing[OF assms(2,1)] by (auto simp: max_factor_def one_le_power min_def)
  have "of_int b * 1 \<le> of_int b * ?f n" using f(1) assms(3) by (intro mult_left_mono) auto
  then have 1: "b \<le> \<lceil>of_int b * ?f n\<rceil>" by linarith
  have "of_int b * ?f n \<le> of_int b * ?f m" using f(2) assms(3) by (intro mult_left_mono) auto
  then have 2: "\<lceil>of_int b * ?f n\<rceil> \<le> \<lceil>of_int b * ?f m\<rceil>" by (rule ceiling_mono)
  have "of_int b * ?f m \<le> of_int b * 1000000" using f(3) assms(3) by (intro mult_left_mono) auto
  then have "of_int b * ?f m \<le> of_int (b * 1000000)" by simp
  then have 3: "\<lceil>of_int b * ?f m\<rceil> \<le> b * 1000000" by (simp only: ceiling_le_iff)
  show "b \<le> budget_at cfg name b n" using 1 assms(3) by (simp add: budget_at_def Let_def)
  show "budget_at cfg name b n \<le> budget_at cfg name b m" using 2 assms(3) by (auto simp: budget_at_def Let_def min_def)
  show "budget_at cfg name b m \<le> b * 1000000" using 3 assms(3) by (simp add: budget_at_def Let_def min_le_iff_disj)
qed

text \<open>The budgets of a later round are at least those of an earlier one and of the engagement, and
  never more than a million times those; the step budget stays within its ceiling (or its base, if that
  is more), and what was turned off stays off.\<close>

theorem budgets_grow:
  assumes "cfg = rr_from_config raw" and "n \<le> m" and "round_budgets base cfg n = Inr bs"
    and "round_budgets base cfg m = Inr bs'" and "dict_get base name = Some (Some b)"
  shows "\<exists>s s'. dict_get bs name = Some (Some s) \<and> dict_get bs' name = Some (Some s') \<and>
    (if 0 < b then b \<le> s \<and> s \<le> s' \<and> s' \<le> b * 1000000 else s' = s \<and> (b = 0 \<longrightarrow> s = 0)) \<and>
    (name = ''step_budget'' \<longrightarrow> s' \<le> max (max_step_budget cfg) b)"
proof -
  have c: "1 \<le> growth cfg" "1 \<le> max_step_budget cfg"
    using assms(1) by (auto simp: rr_from_config_def default_rr_config_def split: option.splits)
  note get = round_budgets_get[OF assms(3,5)] round_budgets_get[OF assms(4,5)]
  show ?thesis
  proof (cases "0 < b")
    case True
    from budget_at_bounds[OF c(1) assms(2) True] get True show ?thesis by (auto simp: budget_at_def Let_def)
  next
    case False
    with get c show ?thesis by (auto simp: budget_at_def Let_def)
  qed
qed

text \<open>The cap on the factor does not keep the power itself from overflowing.\<close>

lemma power_overflows: "round_budgets [(''step_budget'', Some 8)] (rr_from_config None) 1024 = Inl OverflowError"
proof -
  have "max_float < 2 ^ 1024" by (simp add: max_float_def)
  then show ?thesis by (simp only: round_budgets_def float_pow_def rr_from_config_def default_rr_config_def
        option.case rr_config.select_convs if_True sum.case)
qed

lemma unbounded_steps_raise:
  "growth cfg ^ n \<le> max_float \<Longrightarrow> round_budgets [(''step_budget'', None)] cfg n = Inl TypeError"
  by (simp add: round_budgets_def float_pow_def Let_def)

section \<open>What is not probed again\<close>

text \<open>The calls on a ledger: outcomes as they are recorded, the flag set before each sweep, and the
  reopening of failed reviews.\<close>

datatype ledger_call = Recorded string node_outcome | CapSet bool | Reopened "string list" | Failed "string list"

fun ledger_call_step :: "retry_ledger \<Rightarrow> ledger_call \<Rightarrow> retry_ledger" where
  "ledger_call_step l (Recorded key o1) = record_outcome key o1 l"
| "ledger_call_step l (CapSet b) = l\<lparr>step_capped := b\<rparr>"
| "ledger_call_step l (Reopened seen) = snd (snd (reopen_reviews seen l))"
| "ledger_call_step l (Failed keys) = l\<lparr>review_failed := keys\<rparr>"

fun latest :: "string \<Rightarrow> ledger_call list \<Rightarrow> node_outcome option" where
  "latest key [] = None"
| "latest key (Recorded k o1 # cs) = (case latest key cs of None \<Rightarrow> if k = key then Some o1 else None | Some o2 \<Rightarrow> Some o2)"
| "latest key (c # cs) = latest key cs"

text \<open>Whether the steps of a node ran out while the sweep was at the cap.\<close>

fun ran_out :: "string \<Rightarrow> bool \<Rightarrow> ledger_call list \<Rightarrow> bool" where
  "ran_out key cap [] = False"
| "ran_out key cap (Recorded k o1 # cs) = (cap \<and> k = key \<and> o_stop o1 = Some ''exhausted_steps'' \<or> ran_out key cap cs)"
| "ran_out key cap (CapSet b # cs) = ran_out key b cs"
| "ran_out key cap (c # cs) = ran_out key cap cs"

lemma ledger_calls:
  "dict_get (outcomes (foldl ledger_call_step l cs)) key =
     (case latest key cs of None \<Rightarrow> dict_get (outcomes l) key | Some o1 \<Rightarrow> Some o1)"
  "key \<in> set (capped (foldl ledger_call_step l cs)) \<longleftrightarrow> key \<in> set (capped l) \<or> ran_out key (step_capped l) cs"
  by (induction key cs arbitrary: l rule: latest.induct)
    (auto simp: record_outcome_def Let_def reopen_reviews_def dict_get_set split: option.splits)

lemma record_distinct:
  "distinct (map fst (outcomes l)) \<Longrightarrow> distinct (map fst (outcomes (foldl ledger_call_step l cs)))"
proof (induction cs arbitrary: l)
  case (Cons c cs)
  have "distinct (map fst (outcomes (ledger_call_step l c)))"
    using Cons.prems by (cases c) (simp_all add: record_outcome_def Let_def reopen_reviews_def distinct_keys_set)
  from Cons.IH[OF this] show ?case by simp
qed simp

lemma dict_get_filter:
  "distinct (map fst d) \<Longrightarrow> dict_get (filter P d) k = (case dict_get d k of Some v \<Rightarrow> if P (k, v) then Some v else None | None \<Rightarrow> None)"
  by (induction d) (auto simp: image_iff split: option.splits dest: map_of_SomeD)

text \<open>The outcomes a retry sweep resumes are exactly the latest outcome of each node that was
  confirmed, or came without an error to a verdict no larger budget can change (or had no agent to come
  to one), or belongs to a node whose steps once ran out at the cap.\<close>

theorem settled_exact:
  "dict_get (settled (foldl ledger_call_step new_retry_ledger cs)) key =
     (case latest key cs of
        None \<Rightarrow> None
      | Some o1 \<Rightarrow> if ran_out key False cs \<or> o_confirmed o1 \<or>
            \<not> o_error o1 \<and> (if o_stop o1 = None then \<not> o_specialty o1
                            else o_stop o1 \<noteq> Some ''error'' \<and> o_stop o1 \<noteq> Some ''exhausted_steps'')
          then Some o1 else None)"
proof -
  let ?l = "foldl ledger_call_step new_retry_ledger cs"
  have d: "distinct (map fst (outcomes ?l))" by (rule record_distinct) (simp add: new_retry_ledger_def)
  have get: "dict_get (outcomes ?l) key = latest key cs"
    by (simp add: ledger_calls new_retry_ledger_def split: option.split)
  have cap: "key \<in> set (capped ?l) \<longleftrightarrow> ran_out key False cs"
    by (simp add: ledger_calls) (simp add: new_retry_ledger_def)
  have "dict_get (settled ?l) key = (case latest key cs of None \<Rightarrow> None
      | Some o1 \<Rightarrow> if ran_out key False cs \<or> is_settled o1 then Some o1 else None)"
    unfolding settled_def dict_get_filter[OF d] get by (simp add: cap split: option.split)
  then show ?thesis
    by (auto simp: is_settled_def retryable_stops_def split: option.splits)
qed

section \<open>Witnesses\<close>

definition sample_env :: round_env where
  "sample_env = \<lparr>e_cancelled = (\<lambda>_. False), e_clock = real, e_retry_after = (\<lambda>_. 0),
     e_sweep = (\<lambda>_ _ _ l. ([], 1, 0, l)), e_review = (\<lambda>_ _ _ seen l. (0, 0, seen, l))\<rparr>"

definition sample_config :: rr_config where
  "sample_config = default_rr_config\<lparr>max_rounds := 2\<rparr>"

abbreviation sample_rounds_run :: "(rr_exc + rr_state) option" where
  "sample_rounds_run \<equiv> run_retry_rounds sample_env sample_config new_retry_ledger (Some 350) [(''step_budget'', Some 8)] []"

lemma sample_rounds_facts:
  "\<forall>k. 50 \<le> k \<longrightarrow> 350 - reserve_seconds sample_config \<le> e_clock sample_env k" "1 \<le> growth sample_config"
  "growth sample_config ^ 50 \<le> max_float" "dict_get [(''step_budget'', Some (8 :: int))] ''step_budget'' = Some (Some 8)"
  by (simp_all add: sample_config_def default_rr_config_def sample_env_def max_float_def)

lemma sample_returns: "\<exists>r. sample_rounds_run = Some (Inr r)"
  unfolding run_retry_rounds_def option.case
  by (rule loop_returns[OF _ sample_rounds_facts(2-4)]) (use sample_rounds_facts(1) in \<open>auto simp: rr_start_def\<close>)

theorem rounds_return_witness: "\<exists>r. sample_rounds_run = Some (Inr r)"
  by (rule rounds_return[OF sample_rounds_facts])

theorem round_report_witness: "\<exists>r. sample_rounds_run = Some (Inr r) \<and> length (rr_rounds r) \<le> 2"
proof -
  obtain r where r: "sample_rounds_run = Some (Inr r)" using sample_returns by blast
  from round_report[OF r] have "length (rr_rounds r) \<le> 2" by (simp add: sample_config_def)
  with r show ?thesis by blast
qed

lemma sample_budgets:
  "round_budgets [(''max_nodes'', Some 10)] (rr_from_config None) 1 = Inr [(''max_nodes'', Some 20)]"
  "round_budgets [(''max_nodes'', Some 10)] (rr_from_config None) 2 = Inr [(''max_nodes'', Some 40)]"
  by (simp_all add: round_budgets_def float_pow_def rr_from_config_def default_rr_config_def max_float_def
      max_factor_def scale_def Let_def)

theorem budgets_grow_witness:
  "\<exists>s s'. dict_get [(''max_nodes'', Some (20 :: int))] ''max_nodes'' = Some (Some s) \<and>
     dict_get [(''max_nodes'', Some (40 :: int))] ''max_nodes'' = Some (Some s') \<and> 10 \<le> s \<and> s \<le> s'"
  using budgets_grow[OF refl _ sample_budgets, of "''max_nodes''" 10] by simp

end
