(* ===== verification/Redaction.thy ===== *)
theory Redaction
  imports Regex
begin

text \<open>
  What is withheld before recorded traffic reaches a model, a log or a stored payload
  (\<open>security.py\<close>): which names carry secrets, and the redaction of headers, URLs, JSON values and
  request bodies by those names. Strings are the bytes of ASCII text, and URLs have no control
  characters. The JSON reader and writer, the decoding of the first segment of a token, and
  \<open>sanitize_text\<close> (where \<open>sanitize_data\<close> calls it) are arguments.

  \<open>header_values_withheld\<close>, \<open>json_redaction_exact\<close>, \<open>query_secrets_withheld\<close> and
  \<open>metrics_only\<close> say what the redactions let through.
\<close>

section \<open>Names\<close>

definition secret_header_names :: "string list" where
  "secret_header_names = [''authorization'', ''cookie'', ''set-cookie'', ''x-api-key'', ''x-auth-token'',
     ''proxy-authorization'']"

definition secret_field_names :: "string list" where
  "secret_field_names = [''password'', ''passwd'', ''pwd'', ''secret'', ''token'', ''access_token'', ''refresh_token'',
     ''api_key'', ''apikey'', ''session'', ''sessionid'', ''authorization'', ''auth'', ''client_secret'', ''private_key'',
     ''cookie'', ''set_cookie'', ''proxy_authorization'', ''x_auth_token'', ''x_api_key'', ''id_token'', ''csrf'',
     ''csrf_token'', ''xsrf_token'', ''jsessionid'', ''session_id'', ''sid'', ''xsrf'', ''bearer'']"

definition redacted_placeholder :: string where
  "redacted_placeholder = ''[REDACTED -- header present, value withheld from model]''"

definition secret_placeholder :: string where
  "secret_placeholder = ''[REDACTED-SECRET]''"

definition normal_name :: "string \<Rightarrow> string" where
  "normal_name name = map (\<lambda>c. if c = CHR ''-'' \<or> c = CHR '' '' then CHR ''_'' else c) (py_lower (py_strip name))"

definition is_secret_field_name :: "string \<Rightarrow> bool" where
  "is_secret_field_name name = List.member secret_field_names (normal_name name)"

definition always_credential_headers :: "string list" where
  "always_credential_headers = [''authorization'', ''cookie'', ''proxy-authorization'']"

definition credential_header_pattern :: rx where
  "credential_header_pattern =
     foldr Alt [lit ''auth'', lit ''token'', seqs [lit ''api'', Alt (CharSet (\<lambda>c. c = CHR ''-'' \<or> c = CHR ''_'')) Eps, lit ''key''],
        seqs [lit ''key'', EndOfText], lit ''secret'', lit ''session'', seqs [lit ''sid'', EndOfText], lit ''csrf'',
        lit ''xsrf'', lit ''jwt'', lit ''bearer'',
        seqs [NotBehind is_lower, lit ''pass'', foldr Alt [lit ''word'', lit ''wd'', lit ''phrase''] Eps]]
       (lit ''credential'')"

definition is_credential_header :: "string \<Rightarrow> bool" where
  "is_credential_header name =
     (let lowered = py_lower (py_strip name) in
      if lowered = [] then False
      else if lowered = ''proxy-connection'' then False
      else if List.member always_credential_headers lowered \<or> List.member secret_header_names lowered \<or>
              is_secret_field_name lowered \<or> starts_with ''proxy-'' lowered then True
      else if starts_with ''sec-'' lowered then False
      else search credential_header_pattern lowered)"

definition request_binding_header_pattern :: rx where
  "request_binding_header_pattern = Alt (lit ''csrf'') (Alt (lit ''xsrf'') (lit ''idempotency''))"

definition is_identity_credential_header :: "string \<Rightarrow> bool" where
  "is_identity_credential_header name \<longleftrightarrow>
     is_credential_header name \<and> \<not> search request_binding_header_pattern (py_lower (py_strip name))"

section \<open>JSON values\<close>


fun redact_json :: "json \<Rightarrow> json" where
  "redact_json (JObj kvs) =
     JObj (map (\<lambda>(k, v). (k, if is_secret_field_name k then JStr secret_placeholder else redact_json v)) kvs)"
| "redact_json (JList vs) = JList (map redact_json vs)"
| "redact_json v = v"

section \<open>Headers\<close>

definition safe_jwt_algorithms :: "string list" where
  "safe_jwt_algorithms = [''none'', ''HS256'', ''HS384'', ''HS512'', ''RS256'', ''RS384'', ''RS512'', ''ES256'', ''ES384'',
     ''ES512'', ''PS256'', ''PS384'', ''PS512'', ''EdDSA'']"

definition safe_jwt_types :: "string list" where
  "safe_jwt_types = [''JWT'', ''at+jwt'']"

text \<open>The header segment of a token: its algorithm, and its type when that is a known one. The argument
  decodes a segment, and gives nothing when it is not base64 or not JSON.\<close>

definition decode_jwt_header_only :: "(string \<Rightarrow> json option) \<Rightarrow> string \<Rightarrow> (string \<times> string option) option" where
  "decode_jwt_header_only decode tok =
     (let parts = split_on CHR ''.'' tok in
      if length parts \<noteq> 3 then None
      else case decode (hd parts) of
        Some (JObj header) \<Rightarrow> (case dict_get header ''alg'' of
            None \<Rightarrow> None
          | Some a \<Rightarrow> Some
              (case a of JStr s \<Rightarrow> if List.member safe_jwt_algorithms s then s else ''unrecognized'' | _ \<Rightarrow> ''unrecognized'',
               case dict_get header ''typ'' of
                 Some (JStr t) \<Rightarrow> if List.member safe_jwt_types t then Some t else None
               | _ \<Rightarrow> None))
      | _ \<Rightarrow> None)"

definition quoted :: "string \<Rightarrow> string" where
  "quoted s = [CHR 0x22] @ s @ [CHR 0x22]"

definition jwt_header_text :: "string \<times> string option \<Rightarrow> string" where
  "jwt_header_text h = ''Bearer [REDACTED -- payload and signature withheld from model; JWT header only: {'' @
     quoted ''alg'' @ '': '' @ quoted (fst h) @
     (case snd h of None \<Rightarrow> [] | Some t \<Rightarrow> '', '' @ quoted ''typ'' @ '': '' @ quoted t) @ ''}]''"

definition redact_header :: "(string \<Rightarrow> json option) \<Rightarrow> string \<Rightarrow> string \<Rightarrow> string" where
  "redact_header decode k v =
     (case (if py_lower k = ''authorization'' \<and> starts_with ''bearer '' (py_lower v)
            then decode_jwt_header_only decode (py_strip (drop 7 v)) else None) of
        Some h \<Rightarrow> jwt_header_text h
      | None \<Rightarrow> if List.member secret_header_names (py_lower k) then redacted_placeholder else v)"

definition redact_headers :: "(string \<Rightarrow> json option) \<Rightarrow> (string \<times> string) list \<Rightarrow> (string \<times> string) list" where
  "redact_headers decode headers = map (\<lambda>(k, v). (k, redact_header decode k v)) headers"

section \<open>URLs\<close>

definition hex_upper :: "nat \<Rightarrow> char" where
  "hex_upper d = (if d < 10 then char_of (48 + d) else char_of (55 + d))"

definition is_unreserved :: "char \<Rightarrow> bool" where
  "is_unreserved c \<longleftrightarrow> is_alpha c \<or> is_digit c \<or> List.member ''_.-~'' c"

text \<open>\<open>quote(s, safe='')\<close>\<close>

definition quote_all :: "string \<Rightarrow> string" where
  "quote_all s = concat (map (\<lambda>c. if is_unreserved c then [c]
     else [CHR ''%'', hex_upper (code c div 16), hex_upper (code c mod 16)]) s)"

definition uses_netloc :: "string list" where
  "uses_netloc = ['''', ''ftp'', ''http'', ''gopher'', ''nntp'', ''telnet'', ''imap'', ''wais'', ''file'', ''mms'', ''https'',
     ''shttp'', ''snews'', ''prospero'', ''rtsp'', ''rtspu'', ''rsync'', ''svn'', ''svn+ssh'', ''sftp'', ''nfs'', ''git'',
     ''git+ssh'', ''ws'', ''wss'']"

definition urlunsplit :: "split_url \<Rightarrow> string" where
  "urlunsplit p =
     (let path = u_path p;
          u1 = (if u_netloc p \<noteq> [] \<or> u_scheme p \<noteq> [] \<and> List.member uses_netloc (u_scheme p) \<and> \<not> starts_with ''//'' path
                then ''//'' @ u_netloc p @ (if path \<noteq> [] \<and> hd path \<noteq> CHR ''/'' then CHR ''/'' # path else path)
                else path);
          u2 = (if u_scheme p \<noteq> [] then u_scheme p @ '':'' @ u1 else u1);
          u3 = (if u_query p \<noteq> [] then u2 @ ''?'' @ u_query p else u2)
      in if u_fragment p \<noteq> [] then u3 @ ''#'' @ u_fragment p else u3)"

definition withheld_values :: "string list" where
  "withheld_values = [secret_placeholder, ''<REDACTED>'']"

text \<open>One pair of a query; the argument redacts a URL the value holds.\<close>

definition redact_pair :: "(string \<Rightarrow> string) \<Rightarrow> string \<Rightarrow> string" where
  "redact_pair nested pair = (case partition_at CHR ''='' pair of (key, sep, v) \<Rightarrow>
     if sep \<and> v \<noteq> [] \<and> is_secret_field_name (unquote_plus key) \<and> \<not> List.member withheld_values (unquote_plus v)
     then key @ ''='' @ secret_placeholder
     else if sep \<and> v \<noteq> [] then
       (let decoded = unquote_plus v in
        if starts_with ''https://'' (py_lower decoded) \<or> starts_with ''http://'' (py_lower decoded)
        then (let clean = nested decoded in if clean \<noteq> decoded then key @ ''='' @ quote_all clean else pair)
        else pair)
     else pair)"

definition redact_pairs :: "(string \<Rightarrow> string) \<Rightarrow> string \<Rightarrow> string" where
  "redact_pairs nested query = join_with ''&'' (map (redact_pair nested) (split_on CHR ''&'' query))"

lemma length_unquote_bytes: "length (unquote_bytes s) \<le> length s"
  by (induction s rule: unquote_bytes.induct) auto

lemma length_unquote_plus: "length (unquote_plus s) \<le> length s"
  using length_unquote_bytes[of "map (\<lambda>c. if c = CHR ''+'' then CHR '' '' else c) s"] by (simp add: unquote_plus_def)

lemma length_split_word: "w \<in> set (split_on c s) \<Longrightarrow> length w \<le> length s"
proof (induction s arbitrary: w)
  case (Cons x s)
  obtain v vs where s: "split_on c s = v # vs" using split_on_nonempty by (cases "split_on c s") auto
  from Cons.prems s consider "w = []" | "w = x # v" | "w \<in> set (split_on c s)" by (auto split: if_splits)
  then show ?case using Cons.IH[of v] Cons.IH[of w] s by cases auto
qed auto

lemma length_after: "length (snd (snd (partition_at c s))) \<le> length s - 1"
proof -
  have "length (dropWhile (\<lambda>x. x \<noteq> c) s) \<le> length s" by (rule length_dropWhile_le)
  then show ?thesis by (simp add: partition_at_def)
qed

lemma length_before: "length (fst (partition_at c s)) \<le> length s"
  by (simp add: partition_at_def length_takeWhile_le)

lemma urlsplit_shorter:
  assumes "urlsplit url = Some p"
  shows "length (u_query p) \<le> length url - 1" and "length (u_fragment p) \<le> length url - 1"
proof -
  let ?rest = "snd (split_scheme url)"
  let ?tail = "snd (split_netloc ?rest)"
  have "length ?rest \<le> length url"
    using length_after[of "CHR '':''" url] by (auto simp: split_scheme_def case_prod_unfold)
  moreover have "length ?tail \<le> length ?rest"
    using length_dropWhile_le[of not_delim "drop 2 ?rest"] by (auto simp: split_netloc_def)
  moreover have "u_query p = snd (snd (partition_at CHR ''?'' (fst (partition_at CHR ''#'' ?tail))))"
    and "u_fragment p = snd (snd (partition_at CHR ''#'' ?tail))"
    using assms by (auto simp: urlsplit_def case_prod_unfold split: if_splits)
  ultimately show "length (u_query p) \<le> length url - 1" and "length (u_fragment p) \<le> length url - 1"
    using length_after[of "CHR ''?''" "fst (partition_at CHR ''#'' ?tail)"] length_before[of "CHR ''#''" ?tail]
      length_after[of "CHR ''#''" ?tail] by auto
qed

lemma redact_pair_cong:
  assumes "\<And>d. length d \<le> length pair \<Longrightarrow> f d = g d"
  shows "redact_pair f pair = redact_pair g pair"
proof -
  obtain key sep v where p: "partition_at CHR ''='' pair = (key, sep, v)" by (rule prod_cases3)
  have "length v \<le> length pair" using length_after[of "CHR ''=''" pair] by (simp add: p)
  then have fg: "f (unquote_plus v) = g (unquote_plus v)"
    by (intro assms order_trans[OF length_unquote_plus])
  show ?thesis unfolding redact_pair_def p prod.case Let_def fg by (rule refl)
qed

lemma redact_pairs_cong [fundef_cong]:
  assumes "q = q'" and "\<And>d. length d \<le> length q' \<Longrightarrow> f d = g d"
  shows "redact_pairs f q = redact_pairs g q'"
  unfolding redact_pairs_def assms(1)
  by (intro arg_cong[where f = "join_with ''&''"] map_cong refl redact_pair_cong assms(2))
    (blast intro: order_trans length_split_word)

definition shown_netloc :: "string \<Rightarrow> string" where
  "shown_netloc netloc = (if List.member netloc CHR ''@'' then secret_placeholder @ ''@'' @ after_last CHR ''@'' netloc else netloc)"

function redact_secrets_in_url :: "string \<Rightarrow> string" where
  "redact_secrets_in_url url =
     (if url = [] then url
      else case urlsplit url of
        None \<Rightarrow> url
      | Some p \<Rightarrow>
          (let netloc = shown_netloc (u_netloc p);
               query = redact_pairs redact_secrets_in_url (u_query p);
               fragment = redact_pairs redact_secrets_in_url (u_fragment p)
           in if netloc = u_netloc p \<and> query = u_query p \<and> fragment = u_fragment p then url
              else urlunsplit (p\<lparr>u_netloc := netloc, u_query := query, u_fragment := fragment\<rparr>)))"
  by pat_completeness auto
termination
proof (relation "measure length")
  fix url d :: string and p :: split_url
  assume "url \<noteq> []" and "urlsplit url = Some p"
  note s = urlsplit_shorter[OF this(2)]
  show "length d \<le> length (u_query p) \<Longrightarrow> (d, url) \<in> measure length"
    and "length d \<le> length (u_fragment p) \<Longrightarrow> (d, url) \<in> measure length"
    using s \<open>url \<noteq> []\<close> by (cases url; simp)+
qed simp

declare redact_secrets_in_url.simps [simp del]

section \<open>Bodies and structured data\<close>

text \<open>A line of a body that is not JSON: pairs joined by ampersands, or one pair.\<close>

definition form_secret :: "string \<Rightarrow> bool" where
  "form_secret seg \<longleftrightarrow> List.member seg CHR ''='' \<and> is_secret_field_name (unquote_plus (py_strip (fst (partition_at CHR ''='' seg))))"

definition redact_segment :: "string \<Rightarrow> string" where
  "redact_segment seg = (if form_secret seg then fst (partition_at CHR ''='' seg) @ ''='' @ secret_placeholder else seg)"

text \<open>The key, the separator and the value of \<open>_KV_LINE_RE\<close>.\<close>

definition kv_line :: "string \<Rightarrow> (string \<times> char) option" where
  "kv_line line = (let key = takeWhile (\<lambda>c. \<not> List.member '':='' c) line in
     case dropWhile (\<lambda>c. \<not> List.member '':='' c) line of
       [] \<Rightarrow> None
     | sep # _ \<Rightarrow> if key = [] \<or> List.member key CHR 0x0D \<or> List.member key CHR 0x0A then None else Some (key, sep))"

definition redact_kv_line :: "string \<Rightarrow> string" where
  "redact_kv_line line =
     (if List.member line CHR ''&'' \<and> List.member line CHR ''=''
      then (let segments = split_on CHR ''&'' line in
        if \<not> list_ex form_secret segments then line else join_with ''&'' (map redact_segment segments))
      else case kv_line line of
        None \<Rightarrow> line
      | Some (key, sep) \<Rightarrow>
          if \<not> is_secret_field_name (py_strip key) then line
          else key @ [sep] @ (if sep = CHR '':'' then '' '' else []) @ secret_placeholder)"

datatype body = NoBody | Structured json | Text string

definition redact_secrets_in_body :: "(string \<Rightarrow> json option) \<Rightarrow> (json \<Rightarrow> string) \<Rightarrow> body \<Rightarrow> body" where
  "redact_secrets_in_body loads dumps b = (case b of
     NoBody \<Rightarrow> NoBody
   | Structured v \<Rightarrow> Text (dumps (redact_json v))
   | Text s \<Rightarrow>
       (let stripped = py_strip s;
            lines = Text (join_with [CHR 0x0A] (map redact_kv_line (split_on CHR 0x0A s)))
        in if take 1 stripped = [CHR 0x7B] \<or> take 1 stripped = ''[''
           then (case loads s of
               None \<Rightarrow> lines
             | Some parsed \<Rightarrow> if redact_json parsed = parsed then Text s else Text (dumps (redact_json parsed)))
           else lines))"

definition metric_label_secret_names :: "string list" where
  "metric_label_secret_names = [''auth'', ''csrf'']"

definition is_metric_value :: "string \<Rightarrow> json \<Rightarrow> bool" where
  "is_metric_value key v \<longleftrightarrow> (case v of JBool _ \<Rightarrow> True | JInt _ \<Rightarrow> True | JFloat _ \<Rightarrow> True | _ \<Rightarrow> False) \<and>
     List.member metric_label_secret_names (normal_name key)"

fun sanitize_data :: "(string \<Rightarrow> string) \<Rightarrow> bool \<Rightarrow> json \<Rightarrow> json" where
  "sanitize_data clean keep_metrics (JObj kvs) = JObj (map (\<lambda>(k, v). (k,
     if is_secret_field_name k then (if keep_metrics \<and> is_metric_value k v then v else JStr secret_placeholder)
     else sanitize_data clean keep_metrics v)) kvs)"
| "sanitize_data clean keep_metrics (JList vs) = JList (map (sanitize_data clean keep_metrics) vs)"
| "sanitize_data clean keep_metrics (JStr s) = JStr (clean s)"
| "sanitize_data clean keep_metrics v = v"

text \<open>The fields of an exchange a prompt shows.\<close>

record exchange_text =
  x_url :: string
  x_request_headers :: "(string \<times> string) list"
  x_response_headers :: "(string \<times> string) list"
  x_request_body :: string
  x_response_body :: string
  x_note :: string

definition sanitized_exchange :: "(string \<Rightarrow> json option) \<Rightarrow> (string \<Rightarrow> string) \<Rightarrow> exchange_text \<Rightarrow> exchange_text" where
  "sanitized_exchange decode clean x = \<lparr>x_url = redact_secrets_in_url (x_url x),
     x_request_headers = redact_headers decode (x_request_headers x),
     x_response_headers = redact_headers decode (x_response_headers x),
     x_request_body = clean (x_request_body x), x_response_body = clean (x_response_body x), x_note = clean (x_note x)\<rparr>"

section \<open>Headers: what is let through\<close>

text \<open>All that a secret header can be replaced with.\<close>

definition safe_header_texts :: "string list" where
  "safe_header_texts = redacted_placeholder # concat (map (\<lambda>a. map (\<lambda>t. jwt_header_text (a, t))
     (None # map Some safe_jwt_types)) (''unrecognized'' # safe_jwt_algorithms))"

lemma decoded_header_safe:
  assumes "decode_jwt_header_only decode tok = Some h"
  shows "jwt_header_text h \<in> set safe_header_texts"
proof -
  from assms have a: "fst h \<in> set (''unrecognized'' # safe_jwt_algorithms)"
    and t: "snd h \<in> set (None # map Some safe_jwt_types)"
    by (auto simp: decode_jwt_header_only_def Let_def split: if_splits option.splits json.splits)
  let ?row = "\<lambda>a. map (\<lambda>t. jwt_header_text (a, t)) (None # map Some safe_jwt_types)"
  have "jwt_header_text (fst h, snd h) \<in> set (?row (fst h))"
    unfolding set_map[of "\<lambda>t. jwt_header_text (fst h, t)"] by (rule imageI[OF t])
  then have "jwt_header_text (fst h, snd h) \<in> set (concat (map ?row (''unrecognized'' # safe_jwt_algorithms)))"
    unfolding set_concat set_map[of ?row] by (rule UN_I[OF imageI[OF a]])
  then show ?thesis unfolding safe_header_texts_def prod.collapse set_simps(2) by (rule insertI2)
qed

lemma placeholder_safe: "redacted_placeholder \<in> set safe_header_texts"
  unfolding safe_header_texts_def list.set(2) by (rule insertI1)

lemma secret_header_safe:
  "py_lower k \<in> set secret_header_names \<Longrightarrow> redact_header decode k v \<in> set safe_header_texts"
  by (auto simp: redact_header_def decoded_header_safe placeholder_safe split: option.split)

lemma other_header_kept: "py_lower k \<notin> set secret_header_names \<Longrightarrow> redact_header decode k v = v"
  by (auto simp: redact_header_def secret_header_names_def)

text \<open>Redacting headers keeps every name; the value under a secret name is replaced by one of
  forty-six texts, whatever it was (the placeholder, or a token's algorithm and type from fixed lists),
  and every other value is kept.\<close>

theorem header_values_withheld:
  "list_all2 (\<lambda>(k, v) (k', shown). k' = k \<and>
     (if List.member secret_header_names (py_lower k) then List.member safe_header_texts shown else shown = v))
     headers (redact_headers decode headers) \<and>
   length safe_header_texts = 46"
proof
  show "list_all2 (\<lambda>(k, v) (k', shown). k' = k \<and>
     (if List.member secret_header_names (py_lower k) then List.member safe_header_texts shown else shown = v))
     headers (redact_headers decode headers)"
    unfolding redact_headers_def
    by (rule list_all2_all_nthI) (auto simp: secret_header_safe other_header_kept split: prod.split)
  show "length safe_header_texts = 46"
    by (simp add: safe_header_texts_def safe_jwt_types_def safe_jwt_algorithms_def)
qed

text \<open>The list of secret headers is shorter than what counts as a credential: a token in a header of its
  own name is shown.\<close>

lemma custom_credential_shown:
  "is_credential_header ''X-JWT-Assertion'' \<and> redact_headers decode [(''X-JWT-Assertion'', v)] = [(''X-JWT-Assertion'', v)]"
proof
  show "is_credential_header ''X-JWT-Assertion''" by code_simp
  show "redact_headers decode [(''X-JWT-Assertion'', v)] = [(''X-JWT-Assertion'', v)]"
    by (simp add: redact_headers_def) (rule other_header_kept, code_simp)
qed

section \<open>JSON: what is let through\<close>

text \<open>Whether two values are the same outside their secret fields, and whether a value has a secret field
  that is not withheld.\<close>

inductive agree :: "json \<Rightarrow> json \<Rightarrow> bool" where
  "list_all2 (\<lambda>x y. fst x = fst y \<and> (is_secret_field_name (fst x) \<or> agree (snd x) (snd y))) xs ys \<Longrightarrow> agree (JObj xs) (JObj ys)"
| "list_all2 agree xs ys \<Longrightarrow> agree (JList xs) (JList ys)"
| "agree JNull JNull"
| "agree (JBool b) (JBool b)"
| "agree (JInt i) (JInt i)"
| "agree (JFloat r) (JFloat r)"
| "agree (JStr s) (JStr s)"
  monos list.rel_mono

inductive_simps agree_simps [simp]:
  "agree (JObj xs) w" "agree (JList xs) w" "agree JNull w" "agree (JBool b) w" "agree (JInt i) w" "agree (JFloat r) w"
  "agree (JStr s) w"

fun leaks :: "json \<Rightarrow> bool" where
  "leaks (JObj kvs) = list_ex (\<lambda>(k, v). if is_secret_field_name k then v \<noteq> JStr secret_placeholder else leaks v) kvs"
| "leaks (JList vs) = list_ex leaks vs"
| "leaks v = False"

lemma map_eq_iff: "map f xs = map f ys \<longleftrightarrow> list_all2 (\<lambda>x y. f x = f y) xs ys"
  by (induction xs arbitrary: ys) (auto simp: list_all2_Cons1 Cons_eq_map_conv)

lemma redact_atom:
  "JNull = redact_json w \<longleftrightarrow> w = JNull" "JBool b = redact_json w \<longleftrightarrow> w = JBool b"
  "JInt i = redact_json w \<longleftrightarrow> w = JInt i" "JFloat r = redact_json w \<longleftrightarrow> w = JFloat r"
  "JStr s = redact_json w \<longleftrightarrow> w = JStr s"
  by (cases w; auto)+

lemma redact_eq_agree: "redact_json v = redact_json w \<longleftrightarrow> agree v w"
proof (induction v arbitrary: w rule: redact_json.induct)
  case (1 kvs)
  show ?case
  proof (cases w)
    case (JObj ys)
    have "(let (k, v) = x in (k, if is_secret_field_name k then JStr secret_placeholder else redact_json v)) =
          (let (k, v) = y in (k, if is_secret_field_name k then JStr secret_placeholder else redact_json v)) \<longleftrightarrow>
        fst x = fst y \<and> (is_secret_field_name (fst x) \<or> agree (snd x) (snd y))" if "x \<in> set kvs" for x y
      using that 1[of x "fst x" "snd x" "snd y"] by (auto split: prod.splits)
    then show ?thesis by (simp add: JObj map_eq_iff Let_def cong: list.rel_cong)
  qed auto
next
  case (2 vs)
  show ?case
  proof (cases w)
    case (JList ys)
    from 2 show ?thesis by (simp add: JList map_eq_iff cong: list.rel_cong)
  qed auto
qed (simp_all add: redact_atom)

lemma redact_no_leaks: "\<not> leaks (redact_json v)"
  by (induction v rule: redact_json.induct) (auto simp: list_ex_iff split: if_splits)

lemma no_leaks_redact: "\<not> leaks v \<Longrightarrow> redact_json v = v"
proof (induction v rule: redact_json.induct)
  case (1 kvs)
  then have "(k, if is_secret_field_name k then JStr secret_placeholder else redact_json v) = (k, v)"
    if "(k, v) \<in> set kvs" for k v
    using that by (force simp: list_ex_iff split: if_splits)
  then have "map (\<lambda>(k, v). (k, if is_secret_field_name k then JStr secret_placeholder else redact_json v)) kvs = kvs"
    by (intro map_idI) auto
  then show ?case by simp
next
  case (2 vs)
  then show ?case by (auto simp: list_ex_iff intro!: map_idI)
qed auto

text \<open>The redaction of a JSON value shows exactly what lies outside its secret fields: two values are
  redacted alike iff they agree there, the redaction itself agrees with the value and leaks nothing, and a
  value is left alone iff it leaks nothing.\<close>

theorem json_redaction_exact:
  "(redact_json v = redact_json w \<longleftrightarrow> agree v w) \<and> agree (redact_json v) v \<and> \<not> leaks (redact_json v) \<and>
   (redact_json v = v \<longleftrightarrow> \<not> leaks v)"
proof -
  have "redact_json (redact_json v) = redact_json v" by (rule no_leaks_redact[OF redact_no_leaks])
  then show ?thesis
    using redact_eq_agree[of v w] redact_eq_agree[of "redact_json v" v] redact_no_leaks[of v] no_leaks_redact[of v]
    by metis
qed

section \<open>URLs: what is let through\<close>

text \<open>A pair of a query whose value is withheld if its name is secret.\<close>

definition pair_withheld :: "string \<Rightarrow> bool" where
  "pair_withheld pair = (case partition_at CHR ''='' pair of (key, sep, v) \<Rightarrow>
     if sep \<and> is_secret_field_name (unquote_plus key) then v = [] \<or> List.member withheld_values (unquote_plus v) else True)"

definition query_withheld :: "string \<Rightarrow> bool" where
  "query_withheld q = list_all pair_withheld (split_on CHR ''&'' q)"

lemma partition_key: "partition_at c s = (key, sep, v) \<Longrightarrow> c \<notin> set key \<and> set key \<subseteq> set s"
  by (auto simp: partition_at_def dest: set_takeWhileD)

lemma placeholder_facts:
  "unquote_plus secret_placeholder = secret_placeholder" "CHR ''&'' \<notin> set secret_placeholder" "secret_placeholder \<noteq> []"
  by code_simp+

lemma withheld_not_url:
  "x \<in> set withheld_values \<Longrightarrow> \<not> starts_with ''https://'' (py_lower x) \<and> \<not> starts_with ''http://'' (py_lower x)"
  by (auto simp: withheld_values_def) (code_simp+)

lemma hex_upper_amp: "d < 16 \<Longrightarrow> hex_upper d \<noteq> CHR ''&''"
proof
  assume "d < 16" and "hex_upper d = CHR ''&''"
  then have "code (hex_upper d) = 38" by (simp add: code_def)
  with \<open>d < 16\<close> show False by (simp add: hex_upper_def code_char_of split: if_splits)
qed

lemma quote_all_amp: "CHR ''&'' \<notin> set (quote_all s)"
proof -
  have "code c < 256" for c by (simp add: code_def)
  then have "code c div 16 < 16" "code c mod 16 < 16" for c
    using div_less_iff_less_mult[of 16 "code c" 16] by simp_all
  note h = this[THEN hex_upper_amp]
  have "\<not> is_unreserved CHR ''&''" by code_simp
  then show ?thesis using h(1,2)[symmetric] by (auto simp: quote_all_def split: if_splits)
qed

lemma redact_pair_amp:
  assumes "CHR ''&'' \<notin> set pair"
  shows "CHR ''&'' \<notin> set (redact_pair f pair)"
proof -
  obtain key sep v where p: "partition_at CHR ''='' pair = (key, sep, v)" by (rule prod_cases3)
  with assms partition_key have "CHR ''&'' \<notin> set key" by blast
  with assms quote_all_amp placeholder_facts(2) show ?thesis by (auto simp: redact_pair_def p Let_def)
qed

lemma redact_pair_withheld: "pair_withheld (redact_pair f pair)"
proof -
  obtain key sep v where p: "partition_at CHR ''='' pair = (key, sep, v)" by (rule prod_cases3)
  note k = partition_key[OF p]
  have part: "partition_at CHR ''='' (key @ CHR ''='' # w) = (key, True, w)" for w
    using k by (intro partition_at_some) simp
  show ?thesis
  proof (cases "sep \<and> v \<noteq> [] \<and> is_secret_field_name (unquote_plus key)")
    case True
    show ?thesis
    proof (cases "unquote_plus v \<in> set withheld_values")
      case w: True
      with True withheld_not_url[OF w] have "redact_pair f pair = pair" by (simp add: redact_pair_def p Let_def)
      with True w show ?thesis by (simp add: pair_withheld_def p)
    next
      case False
      with True have "redact_pair f pair = key @ CHR ''='' # secret_placeholder" by (simp add: redact_pair_def p)
      then show ?thesis by (simp add: pair_withheld_def part placeholder_facts(1) withheld_values_def)
    qed
  next
    case False
    then have "redact_pair f pair = pair \<or> (\<exists>w. \<not> is_secret_field_name (unquote_plus key) \<and> redact_pair f pair = key @ CHR ''='' # w)"
      by (auto simp: redact_pair_def p Let_def)
    with False show ?thesis by (auto simp: pair_withheld_def part p)
  qed
qed

lemma redact_pairs_split: "split_on CHR ''&'' (redact_pairs f q) = map (redact_pair f) (split_on CHR ''&'' q)"
  unfolding redact_pairs_def
proof (rule split_join)
  show "list_all (\<lambda>w. CHR ''&'' \<notin> set w) (map (redact_pair f) (split_on CHR ''&'' q))"
    using redact_pair_amp split_on_no_sep by (auto simp: list_all_iff)
qed (simp add: split_on_nonempty)

lemma redact_pairs_withheld: "query_withheld (redact_pairs f q)"
  by (simp add: query_withheld_def redact_pairs_split list_all_iff redact_pair_withheld)

text \<open>What a redacted pair may differ in.\<close>

lemma redact_pair_other:
  assumes "partition_at CHR ''='' pair = (key, sep, v)" and "\<not> (sep \<and> is_secret_field_name (unquote_plus key))"
    and "\<not> starts_with ''https://'' (py_lower (unquote_plus v))" and "\<not> starts_with ''http://'' (py_lower (unquote_plus v))"
  shows "redact_pair f pair = pair"
  using assms by (auto simp: redact_pair_def Let_def)

text \<open>C33: A redacted URL is put together from the parts of the URL, where the scheme and path are as they
  were, the query and fragment withhold the value of every pair with a secret name and keep the pairs in
  their places, and nothing before the last \<open>@\<close> of the authority is shown.\<close>

theorem url_secrets_withheld:
  assumes "urlsplit url = Some p"
  shows "\<exists>p'. (redact_secrets_in_url url = (if p' = p then url else urlunsplit p')) \<and>
    u_scheme p' = u_scheme p \<and> u_path p' = u_path p \<and>
    query_withheld (u_query p') \<and> query_withheld (u_fragment p') \<and>
    split_on CHR ''&'' (u_query p') = map (redact_pair redact_secrets_in_url) (split_on CHR ''&'' (u_query p)) \<and>
    split_on CHR ''&'' (u_fragment p') = map (redact_pair redact_secrets_in_url) (split_on CHR ''&'' (u_fragment p)) \<and>
    u_netloc p' = (if CHR ''@'' \<in> set (u_netloc p) then secret_placeholder @ ''@'' @ after_last CHR ''@'' (u_netloc p)
                   else u_netloc p)"
proof (cases "url = []")
  case True
  with assms have "p = \<lparr>u_scheme = [], u_netloc = [], u_path = [], u_query = [], u_fragment = []\<rparr>"
    by (simp add: urlsplit_def split_scheme_def split_netloc_def partition_at_def starts_with_def brackets_ok_def)
  moreover have "redact_pair redact_secrets_in_url [] = []" "pair_withheld []"
    by (simp_all add: redact_pair_def pair_withheld_def partition_at_def)
  ultimately show ?thesis using True
    by (intro exI[of _ p]) (simp add: query_withheld_def redact_secrets_in_url.simps[of "[]"])
next
  case False
  let ?p' = "p\<lparr>u_netloc := shown_netloc (u_netloc p), u_query := redact_pairs redact_secrets_in_url (u_query p),
      u_fragment := redact_pairs redact_secrets_in_url (u_fragment p)\<rparr>"
  have eq: "?p' = p \<longleftrightarrow> shown_netloc (u_netloc p) = u_netloc p \<and> redact_pairs redact_secrets_in_url (u_query p) = u_query p \<and>
      redact_pairs redact_secrets_in_url (u_fragment p) = u_fragment p"
    by (cases p) simp
  have url: "redact_secrets_in_url url = (if ?p' = p then url else urlunsplit ?p')"
    unfolding eq by (subst redact_secrets_in_url.simps) (simp add: assms False Let_def)
  show ?thesis
    by (rule exI[of _ ?p'], intro conjI, rule url)
      (simp_all add: redact_pairs_split redact_pairs_withheld shown_netloc_def)
qed

section \<open>Lines and structured data: what is let through\<close>

text \<open>A line with a colon is taken for form data when its value has an ampersand and an equals sign.\<close>

lemma colon_line_escapes: "redact_kv_line ''password: hunter2&x=1'' = ''password: hunter2&x=1''"
  by code_simp

fun data_leaks :: "bool \<Rightarrow> json \<Rightarrow> bool" where
  "data_leaks keep (JObj kvs) = list_ex (\<lambda>(k, v). if is_secret_field_name k
     then v \<noteq> JStr secret_placeholder \<and> \<not> (keep \<and> is_metric_value k v) else data_leaks keep v) kvs"
| "data_leaks keep (JList vs) = list_ex (data_leaks keep) vs"
| "data_leaks keep v = False"

lemma sanitize_no_leaks: "\<not> data_leaks keep (sanitize_data clean keep v)"
  by (induction clean keep v rule: sanitize_data.induct) (auto simp: list_ex_iff split: if_splits)

lemma no_leaks_sanitize: "\<not> data_leaks keep v \<Longrightarrow> sanitize_data (\<lambda>s. s) keep v = v"
proof (induction "\<lambda>s::string. s" keep v rule: sanitize_data.induct)
  case (1 keep kvs)
  then have "(k, if is_secret_field_name k then (if keep \<and> is_metric_value k v then v else JStr secret_placeholder)
      else sanitize_data (\<lambda>s. s) keep v) = (k, v)" if "(k, v) \<in> set kvs" for k v
    using that by (force simp: list_ex_iff split: if_splits)
  then show ?case by (simp, intro map_idI) auto
next
  case (2 keep vs)
  then show ?case by (auto simp: list_ex_iff intro!: map_idI)
qed auto

text \<open>The sanitized form of structured data shows nothing under a secret name but numbers and booleans
  under the two names that are also metric labels, and these only where the caller keeps metrics; data that
  shows nothing else is, but for the cleaning of its texts, left alone.\<close>

theorem metrics_only:
  "\<not> data_leaks keep (sanitize_data clean keep v) \<and>
   (sanitize_data (\<lambda>s. s) keep v = v \<longleftrightarrow> \<not> data_leaks keep v)"
  using sanitize_no_leaks no_leaks_sanitize by metis

theorem url_secrets_withheld_witness:
  "\<exists>p' :: split_url. query_withheld (u_query p') \<and> u_path p' = ''/a''"
proof -
  obtain p where "urlsplit ''http://u:p@h/a?token=x&q=1'' = Some p" and path: "u_path p = ''/a''"
  proof
    show "urlsplit ''http://u:p@h/a?token=x&q=1'' = Some \<lparr>u_scheme = ''http'', u_netloc = ''u:p@h'', u_path = ''/a'',
        u_query = ''token=x&q=1'', u_fragment = []\<rparr>" by code_simp
  qed simp
  from url_secrets_withheld[OF this(1)] show ?thesis unfolding path by (elim exE conjE) (rule exI, rule conjI, assumption, assumption)
qed

end
