(* ===== verification/JobStatus.thy ===== *)
theory JobStatus
  imports Redaction "HOL-Library.Multiset"
begin

text \<open>
  The durable status of investigation jobs (\<open>job_status.py\<close>): admission under a capacity, updates by the
  owner, recovery of jobs whose process died, results with their digests, and pruning. The two tables are
  lists of rows; each operation is one transaction, so an error (the left side of a sum) changes nothing.
  A stored payload is the JSON value of its text. \<open>sanitize_text\<close>, the writer of JSON with the length of
  what it writes, SHA-256 and \<open>process_alive\<close> are arguments.

  \<open>capacity_kept\<close>, \<open>live_job_untouched\<close>, \<open>result_readable\<close> and \<open>prune_exact\<close> are the properties.
\<close>

definition running_states :: "string list" where
  "running_states = [''running'', ''cancelling'']"

definition terminal_states :: "string list" where
  "terminal_states = [''done'', ''error'', ''cancelled'', ''interrupted'']"

definition inline_limit :: nat where
  "inline_limit = 2000000"

section \<open>Payloads\<close>

record job =
  job_id :: string
  job_host :: string
  job_base_url :: string
  job_state :: string
  job_started :: time
  job_finished :: "time option"
  job_error :: json
  job_manifest :: json
  job_result :: json
  job_available :: bool
  job_recovered :: json
  job_ref :: "string option"
  job_size :: "nat option"
  job_sha :: "string option"
  job_summary :: json
  job_delivery_error :: "string option"
  job_journal :: json

record job_io =
  clean :: "string \<Rightarrow> string"
  encode :: "json \<Rightarrow> string"
  dump_length :: "json \<Rightarrow> nat"
  sha256 :: "string \<Rightarrow> string"

abbreviation sanitized :: "job_io \<Rightarrow> json \<Rightarrow> json" where
  "sanitized io \<equiv> sanitize_data (clean io) True"

definition has_ref :: "string option \<Rightarrow> bool" where
  "has_ref r = (case r of None \<Rightarrow> False | Some s \<Rightarrow> s \<noteq> [])"

definition job_payload :: "job_io \<Rightarrow> job \<Rightarrow> job" where
  "job_payload io j =
     (let c = clean io; s = sanitized io;
          d = j\<lparr>job_id := c (job_id j), job_host := c (job_host j),
                job_base_url := redact_secrets_in_url (c (job_base_url j)), job_state := c (job_state j),
                job_error := s (job_error j), job_manifest := s (job_manifest j), job_result := s (job_result j),
                job_recovered := s (job_recovered j), job_ref := map_option c (job_ref j),
                job_sha := map_option c (job_sha j), job_summary := s (job_summary j),
                job_delivery_error := map_option c (job_delivery_error j), job_journal := s (job_journal j)\<rparr>;
          d1 = d\<lparr>job_available := (job_result d \<noteq> JNull \<or> has_ref (job_ref d))\<rparr>
      in if dump_length io (job_result d1) > inline_limit
         then (let d2 = d1\<lparr>job_result := JNull, job_available := has_ref (job_ref d1)\<rparr> in
           if \<not> job_available d2
           then d2\<lparr>job_delivery_error := Some ''complete result has not been durably stored''\<rparr> else d2)
         else d1)"

definition public_snapshot :: "job_io \<Rightarrow> job \<Rightarrow> job" where
  "public_snapshot io j = job_payload io j"

section \<open>Tables\<close>

record job_row =
  row_id :: string
  row_owner :: string
  row_pid :: int
  row_state :: string
  row_started :: time
  row_finished :: "time option"
  row_payload :: job

record job_db =
  jobs :: "job_row list"
  job_results :: "(string \<times> string \<times> string) list"

record job_config =
  owner :: string
  retention :: real
  max_terminal :: nat
  max_running :: nat

datatype job_exc = JobCapacityError | JobValueError | JobAttributeError

definition job_row_of :: "string \<Rightarrow> job_row list \<Rightarrow> job_row option" where
  "job_row_of i rows = find (\<lambda>r. row_id r = i) rows"

text \<open>The summary of a result; a result without the shape the code expects raises.\<close>

definition summary_keys :: "string list" where
  "summary_keys = [''run_id'', ''request_count'', ''confirmed_issues'', ''partial'']"

definition short_value :: "json \<Rightarrow> json option" where
  "short_value v = (case v of JStr s \<Rightarrow> Some (JStr (take 128 s)) | JInt _ \<Rightarrow> Some v | JBool _ \<Rightarrow> Some v | _ \<Rightarrow> None)"

definition falsy :: "json \<Rightarrow> bool" where
  "falsy v = (case v of JNull \<Rightarrow> True | JBool b \<Rightarrow> \<not> b | JInt i \<Rightarrow> i = 0 | JFloat x \<Rightarrow> x = 0 | JStr s \<Rightarrow> s = []
     | JList xs \<Rightarrow> xs = [] | JObj kvs \<Rightarrow> kvs = [])"

definition dict_or_empty :: "json option \<Rightarrow> (string \<times> json) list" where
  "dict_or_empty v = (case v of Some (JObj kvs) \<Rightarrow> kvs | _ \<Rightarrow> [])"

definition summarize :: "json \<Rightarrow> job_exc + json" where
  "summarize result = (case result of
     JObj kvs \<Rightarrow>
       (let base = concat (map (\<lambda>key. case Option.bind (dict_get kvs key) short_value of None \<Rightarrow> [] | Some v \<Rightarrow> [(key, v)]) summary_keys);
            s1 = (case dict_get kvs ''findings'' of Some (JList xs) \<Rightarrow> base @ [(''findings'', JInt (int (length xs)))] | _ \<Rightarrow> base);
            instrumentation = dict_or_empty (dict_get kvs ''instrumentation'');
            metrics = option_or (dict_get instrumentation ''model_metrics'') JNull
        in if \<not> falsy metrics \<and> (case metrics of JObj _ \<Rightarrow> False | _ \<Rightarrow> True) then Inl JobAttributeError
           else let client = dict_or_empty (dict_get (dict_or_empty (Some metrics)) ''client'');
                    s2 = (case dict_get client ''context_truncated'' of Some (JInt n) \<Rightarrow> s1 @ [(''context_truncated'', JInt n)] | _ \<Rightarrow> s1);
                    preflight = dict_or_empty (dict_get instrumentation ''context_preflight'')
             in Inr (JObj (case dict_get preflight ''warnings'' of
                  Some (JList ws) \<Rightarrow> s2 @ [(''context_window_warnings'', JInt (int (length ws)))] | _ \<Rightarrow> s2)))
   | _ \<Rightarrow> Inl JobAttributeError)"

definition store_result :: "job_io \<Rightarrow> job \<Rightarrow> job_db \<Rightarrow> job_exc + (job \<times> job_db)" where
  "store_result io j db =
     (if job_result j = JNull then Inr (j, db)
      else let result = sanitized io (job_result j); content = encode io result; digest = sha256 io content in
        case summarize result of
          Inl e \<Rightarrow> Inl e
        | Inr summary \<Rightarrow> Inr
            (j\<lparr>job_ref := Some (''/engagement/'' @ quote_all (job_host j) @ ''/investigate/'' @ quote_all (job_id j) @ ''/result''),
               job_size := Some (length content), job_sha := Some digest, job_summary := summary, job_available := True\<rparr>,
             db\<lparr>job_results := dict_set (job_id j) (content, digest) (job_results db)\<rparr>))"

definition read_result :: "job_io \<Rightarrow> string \<Rightarrow> job_db \<Rightarrow> job_exc + string" where
  "read_result io i db = (case (dict_get (job_results db) i, job_row_of i (jobs db)) of
     (Some (content, digest), Some r) \<Rightarrow>
       (let meta = row_payload r in
        if sha256 io content \<noteq> digest \<or> Some digest \<noteq> job_sha meta \<or> Some (length content) \<noteq> job_size meta
        then Inl JobValueError else Inr content)
   | _ \<Rightarrow> Inl JobValueError)"

definition is_running :: "job_row \<Rightarrow> bool" where
  "is_running r = List.member running_states (row_state r)"

definition is_terminal :: "job_row \<Rightarrow> bool" where
  "is_terminal r = List.member terminal_states (row_state r)"

definition running_count :: "job_db \<Rightarrow> nat" where
  "running_count db = length (filter is_running (jobs db))"

text \<open>The result is the job or the stored payload, and whether this call admitted the job.\<close>

definition create_job :: "job_io \<Rightarrow> job_config \<Rightarrow> int \<Rightarrow> job \<Rightarrow> job_db \<Rightarrow> job_exc + ((job \<times> bool) \<times> job_db)" where
  "create_job io cfg pid j db = (case job_row_of (job_id j) (jobs db) of
     Some r \<Rightarrow> Inr ((row_payload r, False), db)
   | None \<Rightarrow>
       if running_count db \<ge> max_running cfg then Inl JobCapacityError
       else case store_result io j db of
         Inl e \<Rightarrow> Inl e
       | Inr (saved, db1) \<Rightarrow> Inr ((j, True), db1\<lparr>jobs := jobs db1 @ [\<lparr>row_id = job_id j, row_owner = owner cfg, row_pid = pid,
           row_state = job_state j, row_started = job_started j, row_finished = job_finished j,
           row_payload = job_payload io saved\<rparr>]\<rparr>))"

definition owns :: "job_config \<Rightarrow> string \<Rightarrow> job_row \<Rightarrow> bool" where
  "owns cfg i r \<longleftrightarrow> row_id r = i \<and> row_owner r = owner cfg"

definition update_job :: "job_io \<Rightarrow> job_config \<Rightarrow> job \<Rightarrow> job_db \<Rightarrow> job_exc + (job \<times> job_db)" where
  "update_job io cfg j db = (case store_result io j db of
     Inl e \<Rightarrow> Inl e
   | Inr (saved, db1) \<Rightarrow>
       if length (filter (owns cfg (job_id j)) (jobs db1)) \<noteq> 1 then Inl JobValueError
       else Inr (j\<lparr>job_ref := job_ref saved, job_size := job_size saved, job_sha := job_sha saved,
                   job_summary := job_summary saved, job_delivery_error := job_delivery_error saved\<rparr>,
          db1\<lparr>jobs := map (\<lambda>r. if owns cfg (job_id j) r
            then r\<lparr>row_state := job_state j, row_finished := job_finished j, row_payload := job_payload io saved\<rparr> else r) (jobs db1)\<rparr>))"

definition interrupt :: "job_io \<Rightarrow> time \<Rightarrow> job_row \<Rightarrow> job_row" where
  "interrupt io now r = r\<lparr>row_state := ''interrupted'', row_finished := Some now,
     row_payload := job_payload io ((row_payload r)\<lparr>job_state := ''interrupted'', job_finished := Some now,
       job_recovered := JBool True, job_error := JStr ''previous job process ended; no work was resumed''\<rparr>)\<rparr>"

definition recover_interrupted :: "job_io \<Rightarrow> job_config \<Rightarrow> time \<Rightarrow> (int \<Rightarrow> bool) \<Rightarrow> job_db \<Rightarrow> job_db" where
  "recover_interrupted io cfg now alive db = db\<lparr>jobs := map (\<lambda>r.
     if is_running r \<and> row_owner r \<noteq> owner cfg \<and> \<not> alive (row_pid r) then interrupt io now r else r) (jobs db)\<rparr>"

definition get_job :: "string \<Rightarrow> job_db \<Rightarrow> job option" where
  "get_job i db = map_option row_payload (job_row_of i (jobs db))"

definition list_jobs :: "string \<Rightarrow> job_db \<Rightarrow> job list" where
  "list_jobs h db = filter (\<lambda>j. job_host j = h) (map row_payload (sort_key (\<lambda>r. - row_started r) (jobs db)))"

definition expired_row :: "job_config \<Rightarrow> time \<Rightarrow> job_row \<Rightarrow> bool" where
  "expired_row cfg now r \<longleftrightarrow> is_terminal r \<and> (case row_finished r of None \<Rightarrow> False | Some f \<Rightarrow> f < now - retention cfg)"

text \<open>Rows by their finish, latest first and those without one last.\<close>

definition finish_key :: "job_row \<Rightarrow> nat \<times> time" where
  "finish_key r = (case row_finished r of None \<Rightarrow> (1, 0) | Some f \<Rightarrow> (0, - f))"

definition prune_jobs :: "job_config \<Rightarrow> time \<Rightarrow> job_db \<Rightarrow> job_db" where
  "prune_jobs cfg now db =
     (let kept = filter (\<lambda>r. \<not> expired_row cfg now r) (jobs db);
          surplus = map row_id (drop (max_terminal cfg) (sort_key finish_key (filter is_terminal kept)));
          left = filter (\<lambda>r. \<not> List.member surplus (row_id r)) kept
      in db\<lparr>jobs := left, job_results := filter (\<lambda>(i, _). List.member (map row_id left) i) (job_results db)\<rparr>)"

section \<open>Runs\<close>

text \<open>The calls of the processes that share the file; one that raises leaves the tables as they were.\<close>

datatype job_call =
    Create job_config int job
  | Update job_config job
  | Recover job_config time "int \<Rightarrow> bool"
  | Prune job_config time

definition committed_db :: "job_db \<Rightarrow> job_exc + ('a \<times> job_db) \<Rightarrow> job_db" where
  "committed_db db r = (case r of Inl _ \<Rightarrow> db | Inr (_, db') \<Rightarrow> db')"

fun job_step :: "job_io \<Rightarrow> job_db \<Rightarrow> job_call \<Rightarrow> job_db" where
  "job_step io db (Create cfg pid j) = committed_db db (create_job io cfg pid j db)"
| "job_step io db (Update cfg j) = committed_db db (update_job io cfg j db)"
| "job_step io db (Recover cfg now alive) = recover_interrupted io cfg now alive db"
| "job_step io db (Prune cfg now) = prune_jobs cfg now db"

definition no_jobs :: job_db where
  "no_jobs = \<lparr>jobs = [], job_results = []\<rparr>"

lemma store_result_jobs: "store_result io j db = Inr (saved, db1) \<Longrightarrow> jobs db1 = jobs db"
  by (auto simp: store_result_def Let_def split: if_splits sum.splits)

lemma create_cases:
  assumes "create_job io cfg pid j db = Inr (res, db')"
  obtains "db' = db"
  | saved db1 where "job_row_of (job_id j) (jobs db) = None" "running_count db < max_running cfg"
      "store_result io j db = Inr (saved, db1)"
      "db' = db1\<lparr>jobs := jobs db @ [\<lparr>row_id = job_id j, row_owner = owner cfg, row_pid = pid, row_state = job_state j,
         row_started = job_started j, row_finished = job_finished j, row_payload = job_payload io saved\<rparr>]\<rparr>"
  using assms
  by (cases "job_row_of (job_id j) (jobs db)"; cases "store_result io j db")
    (auto simp: create_job_def split: if_splits dest: store_result_jobs)

lemma update_cases:
  assumes "update_job io cfg j db = Inr (res, db')"
  obtains saved db1 where "store_result io j db = Inr (saved, db1)"
    "length (filter (owns cfg (job_id j)) (jobs db)) = 1"
    "db' = db1\<lparr>jobs := map (\<lambda>r. if owns cfg (job_id j) r
       then r\<lparr>row_state := job_state j, row_finished := job_finished j, row_payload := job_payload io saved\<rparr> else r) (jobs db)\<rparr>"
  using assms
  by (cases "store_result io j db") (auto simp: update_job_def split: if_splits dest: store_result_jobs)

lemma job_row_none: "job_row_of i rows = None \<longleftrightarrow> i \<notin> row_id ` set rows"
  by (auto simp: job_row_of_def find_None_iff)

definition ids_unique :: "job_db \<Rightarrow> bool" where
  [inv_defs]: "ids_unique db \<longleftrightarrow> distinct (map row_id (jobs db))"

lemma step_ids: "ids_unique db \<Longrightarrow> ids_unique (job_step io db c)"
proof (cases c)
  case (Create cfg pid j)
  assume u: "ids_unique db"
  show ?thesis
  proof (cases "create_job io cfg pid j db")
    case (Inr r)
    then have "create_job io cfg pid j db = Inr (fst r, snd r)" by simp
    then show ?thesis
      by (cases rule: create_cases) (use u Create Inr in \<open>auto simp: committed_db_def ids_unique_def job_row_none split: prod.split\<close>)
  qed (use u Create in \<open>simp add: committed_db_def\<close>)
next
  case (Update cfg j)
  assume u: "ids_unique db"
  show ?thesis
  proof (cases "update_job io cfg j db")
    case (Inr r)
    then have "update_job io cfg j db = Inr (fst r, snd r)" by simp
    then show ?thesis
    proof (cases rule: update_cases)
      case (1 saved db1)
      then have "map row_id (jobs (snd r)) = map row_id (jobs db)" by simp
      with u Update Inr show ?thesis by (simp add: committed_db_def ids_unique_def case_prod_unfold)
    qed
  qed (use u Update in \<open>simp add: committed_db_def\<close>)
next
  case (Recover cfg now alive)
  have "map row_id (jobs (recover_interrupted io cfg now alive db)) = map row_id (jobs db)"
    by (simp add: recover_interrupted_def interrupt_def)
  moreover assume "ids_unique db"
  ultimately show ?thesis using Recover by (simp add: ids_unique_def)
next
  case (Prune cfg now)
  assume "ids_unique db"
  with Prune show ?thesis by (simp add: ids_unique_def prune_jobs_def Let_def distinct_map_filter)
qed

section \<open>Capacity\<close>

text \<open>An update that makes a finished job run again is the one call admission does not see.\<close>

definition reopens :: "job_db \<Rightarrow> job_call \<Rightarrow> bool" where
  "reopens db c = (case c of
     Update cfg j \<Rightarrow> List.member running_states (job_state j) \<and>
       list_ex (\<lambda>r. owns cfg (job_id j) r \<and> \<not> is_running r) (jobs db)
   | _ \<Rightarrow> False)"

fun no_reopening :: "job_io \<Rightarrow> job_db \<Rightarrow> job_call list \<Rightarrow> bool" where
  "no_reopening io db [] = True"
| "no_reopening io db (c # cs) = (\<not> reopens db c \<and> no_reopening io (job_step io db c) cs)"

definition capacity_of :: "job_call \<Rightarrow> nat" where
  "capacity_of c = (case c of Create cfg _ _ \<Rightarrow> max_running cfg | _ \<Rightarrow> 0)"

lemma length_filter_map_le: "(\<And>r. r \<in> set rs \<Longrightarrow> P (f r) \<Longrightarrow> P r) \<Longrightarrow> length (filter P (map f rs)) \<le> length (filter P rs)"
  by (induction rs) auto

lemma length_filter_both: "length (filter P (filter Q xs)) \<le> length (filter P xs)"
  by (induction xs) auto

lemma step_capacity:
  assumes "running_count db \<le> m" and "capacity_of c \<le> m" and "\<not> reopens db c"
  shows "running_count (job_step io db c) \<le> m"
proof (cases c)
  case (Create cfg pid j)
  show ?thesis
  proof (cases "create_job io cfg pid j db")
    case (Inr r)
    then have "create_job io cfg pid j db = Inr (fst r, snd r)" by simp
    then show ?thesis
      by (cases rule: create_cases)
        (use assms Create Inr in \<open>auto simp: committed_db_def running_count_def capacity_of_def split: prod.split\<close>)
  qed (use assms Create in \<open>simp add: committed_db_def\<close>)
next
  case (Update cfg j)
  show ?thesis
  proof (cases "update_job io cfg j db")
    case (Inr r)
    then have "update_job io cfg j db = Inr (fst r, snd r)" by simp
    then show ?thesis
    proof (cases rule: update_cases)
      case (1 saved db1)
      have "length (filter is_running (map (\<lambda>r. if owns cfg (job_id j) r
          then r\<lparr>row_state := job_state j, row_finished := job_finished j, row_payload := job_payload io saved\<rparr> else r) (jobs db)))
          \<le> length (filter is_running (jobs db))"
        by (rule length_filter_map_le)
          (use assms(3) Update in \<open>auto simp: reopens_def is_running_def list_ex_iff split: if_splits\<close>)
      then have "running_count (snd r) \<le> running_count db" by (simp add: running_count_def 1(3))
      with assms Update Inr show ?thesis by (simp add: committed_db_def case_prod_unfold)
    qed
  qed (use assms Update in \<open>simp add: committed_db_def\<close>)
next
  case (Recover cfg now alive)
  have "length (filter is_running (map (\<lambda>r. if is_running r \<and> row_owner r \<noteq> owner cfg \<and> \<not> alive (row_pid r)
      then interrupt io now r else r) (jobs db))) \<le> length (filter is_running (jobs db))"
    by (rule length_filter_map_le) (auto simp: interrupt_def is_running_def running_states_def split: if_splits)
  then have "running_count (recover_interrupted io cfg now alive db) \<le> running_count db"
    by (simp add: running_count_def recover_interrupted_def)
  with assms Recover show ?thesis by simp
next
  case (Prune cfg now)
  have "running_count (prune_jobs cfg now db) \<le> running_count db"
    unfolding running_count_def prune_jobs_def Let_def
    by (simp del: filter_filter) (blast intro: order_trans length_filter_both)
  with assms Prune show ?thesis by simp
qed

lemma run_capacity:
  "running_count db \<le> m \<Longrightarrow> list_all (\<lambda>c. capacity_of c \<le> m) cs \<Longrightarrow> no_reopening io db cs \<Longrightarrow>
     running_count (foldl (job_step io) db cs) \<le> m"
  by (induction cs arbitrary: db) (simp_all add: step_capacity)

text \<open>However many processes share the file and whatever they call in whatever order, the jobs that
  run never number more than the largest capacity any of them was given, as long as no update makes a
  finished job run again.\<close>

theorem capacity_kept:
  assumes "list_all (\<lambda>c. capacity_of c \<le> m) cs" and "no_reopening io no_jobs cs"
  shows "running_count (foldl (job_step io) no_jobs cs) \<le> m"
  by (rule run_capacity[OF _ assms]) (simp add: running_count_def no_jobs_def)

section \<open>Running jobs of live processes\<close>

definition foreign_to :: "job_row \<Rightarrow> job_call \<Rightarrow> bool" where
  "foreign_to r c = (case c of
     Create _ _ _ \<Rightarrow> True
   | Update cfg _ \<Rightarrow> owner cfg \<noteq> row_owner r
   | Recover cfg _ alive \<Rightarrow> owner cfg = row_owner r \<or> alive (row_pid r)
   | Prune _ _ \<Rightarrow> True)"

lemma terminal_not_running: "is_running r \<Longrightarrow> \<not> is_terminal r"
  by (auto simp: is_running_def is_terminal_def running_states_def terminal_states_def)

lemma distinct_id_eq: "distinct (map f xs) \<Longrightarrow> x \<in> set xs \<Longrightarrow> y \<in> set xs \<Longrightarrow> f x = f y \<Longrightarrow> x = y"
  by (simp add: distinct_map inj_on_def)

lemma step_keeps_row:
  assumes "ids_unique db" and "r \<in> set (jobs db)" and "is_running r" and "foreign_to r c"
  shows "r \<in> set (jobs (job_step io db c))"
proof (cases c)
  case (Create cfg pid j)
  show ?thesis
  proof (cases "create_job io cfg pid j db")
    case (Inr res)
    then have "create_job io cfg pid j db = Inr (fst res, snd res)" by simp
    then show ?thesis
      by (cases rule: create_cases) (use assms(2) Create Inr in \<open>auto simp: committed_db_def split: prod.split\<close>)
  qed (use assms Create in \<open>simp add: committed_db_def\<close>)
next
  case (Update cfg j)
  show ?thesis
  proof (cases "update_job io cfg j db")
    case (Inr res)
    then have "update_job io cfg j db = Inr (fst res, snd res)" by simp
    then show ?thesis
      by (cases rule: update_cases)
        (use assms(2,4) Update Inr in \<open>auto simp: committed_db_def foreign_to_def owns_def image_iff split: prod.split intro!: bexI[of _ r]\<close>)
  qed (use assms Update in \<open>simp add: committed_db_def\<close>)
next
  case (Recover cfg now alive)
  with assms show ?thesis by (auto simp: recover_interrupted_def foreign_to_def image_iff intro!: bexI[of _ r])
next
  case (Prune cfg now)
  let ?kept = "filter (\<lambda>r. \<not> expired_row cfg now r) (jobs db)"
  let ?surplus = "drop (max_terminal cfg) (sort_key finish_key (filter is_terminal ?kept))"
  have "row_id r \<notin> row_id ` set ?surplus"
  proof
    assume "row_id r \<in> row_id ` set ?surplus"
    then obtain q where q: "q \<in> set ?surplus" "row_id r = row_id q" by auto
    from q(1) have "q \<in> set (jobs db)" "is_terminal q" by (auto dest!: in_set_dropD)
    with distinct_id_eq[OF assms(1)[unfolded ids_unique_def] assms(2) this(1) q(2)] assms(3) terminal_not_running
    show False by blast
  qed
  with assms Prune terminal_not_running[OF assms(3)] show ?thesis
    by (simp add: prune_jobs_def Let_def expired_row_def)
qed

lemma run_keeps_row:
  "ids_unique db \<Longrightarrow> r \<in> set (jobs db) \<Longrightarrow> is_running r \<Longrightarrow> list_all (foreign_to r) cs \<Longrightarrow>
     r \<in> set (jobs (foldl (job_step io) db cs))"
  by (induction cs arbitrary: db) (simp_all add: step_keeps_row step_ids)

lemma run_ids: "ids_unique db \<Longrightarrow> ids_unique (foldl (job_step io) db cs)"
  by (induction cs arbitrary: db) (simp_all add: step_ids)

lemma empty_ids: "ids_unique no_jobs"
  by (simp add: ids_unique_def no_jobs_def)

lemma create_admitted:
  assumes "create_job io cfg pid j db = Inr ((j', True), db')"
  shows "\<exists>p. jobs db' = jobs db @ [\<lparr>row_id = job_id j, row_owner = owner cfg, row_pid = pid, row_state = job_state j,
    row_started = job_started j, row_finished = job_finished j, row_payload = p\<rparr>]"
  using assms
  by (cases "job_row_of (job_id j) (jobs db)"; cases "store_result io j db")
    (auto simp: create_job_def split: if_splits dest: store_result_jobs)

text \<open>Once admitted, the row of a job stays as it is through all calls of other processes (their
  admissions, updates, recoveries and prunings) for as long as its own process is alive and does not update it.\<close>

theorem live_job_untouched:
  assumes "create_job io cfg pid j (foldl (job_step io) no_jobs before) = Inr ((j, True), db)"
    and "List.member running_states (job_state j)" and "r = last (jobs db)" and "list_all (foreign_to r) cs"
  shows "r \<in> set (jobs (foldl (job_step io) db cs)) \<and> row_id r = job_id j \<and> row_owner r = owner cfg \<and> row_state r = job_state j"
proof -
  let ?db0 = "foldl (job_step io) no_jobs before"
  obtain p where jobs: "jobs db = jobs ?db0 @ [\<lparr>row_id = job_id j, row_owner = owner cfg, row_pid = pid, row_state = job_state j,
      row_started = job_started j, row_finished = job_finished j, row_payload = p\<rparr>]"
    using create_admitted[OF assms(1)] by blast
  have "ids_unique (job_step io ?db0 (Create cfg pid j))" by (intro step_ids run_ids empty_ids)
  then have ids: "ids_unique db" by (simp add: assms(1) committed_db_def)
  have r: "r \<in> set (jobs db)" "is_running r" using assms(2,3) by (simp_all add: jobs is_running_def)
  from run_keeps_row[OF ids r assms(4)] assms(3) show ?thesis by (simp add: jobs)
qed

section \<open>Results\<close>

lemma saved_result:
  assumes "store_result io j db = Inr (saved, db1)" and "job_result j \<noteq> JNull"
  shows "dict_get (job_results db1) (job_id j) =
      Some (encode io (sanitized io (job_result j)), sha256 io (encode io (sanitized io (job_result j))))"
    and "job_sha saved = Some (sha256 io (encode io (sanitized io (job_result j))))"
    and "job_size saved = Some (length (encode io (sanitized io (job_result j))))"
  using assms by (auto simp: store_result_def Let_def split: sum.splits)

lemma payload_fields:
  "job_size (job_payload io j) = job_size j" "job_sha (job_payload io j) = map_option (clean io) (job_sha j)"
  by (simp_all add: job_payload_def Let_def)

lemma row_of_unique:
  assumes "distinct (map row_id rows)" and "r \<in> set rows" and "row_id r = i"
  shows "job_row_of i rows = Some r"
proof -
  from assms(2,3) obtain q where q: "job_row_of i rows = Some q" by (cases "job_row_of i rows") (auto simp: job_row_none)
  then have "q \<in> set rows" "row_id q = i" by (auto simp: job_row_of_def find_Some_iff)
  with distinct_id_eq[OF assms(1,2)] assms(3) q show ?thesis by force
qed

text \<open>After an update with a result, by the owner, the result can be read back as the sanitized bytes
  that were stored, and what can be read at all has the digest and the length of the payload.\<close>

theorem result_readable:
  assumes "update_job io cfg j (foldl (job_step io) no_jobs cs) = Inr (j', db)" and "job_result j \<noteq> JNull"
    and "clean io (sha256 io (encode io (sanitized io (job_result j)))) = sha256 io (encode io (sanitized io (job_result j)))"
  shows "read_result io (job_id j) db = Inr (encode io (sanitized io (job_result j))) \<and>
    job_sha j' = Some (sha256 io (encode io (sanitized io (job_result j))))"
proof -
  let ?db0 = "foldl (job_step io) no_jobs cs"
  have "ids_unique (job_step io ?db0 (Update cfg j))" by (intro step_ids run_ids empty_ids)
  then have ids: "distinct (map row_id (jobs db))" by (simp add: assms(1) committed_db_def ids_unique_def)
  from assms(1) obtain saved db1 where st: "store_result io j ?db0 = Inr (saved, db1)"
    and one: "length (filter (owns cfg (job_id j)) (jobs ?db0)) = 1"
    and db: "db = db1\<lparr>jobs := map (\<lambda>r. if owns cfg (job_id j) r
       then r\<lparr>row_state := job_state j, row_finished := job_finished j, row_payload := job_payload io saved\<rparr> else r) (jobs ?db0)\<rparr>"
    by (rule update_cases)
  note s = saved_result[OF st assms(2)]
  from one obtain r where "r \<in> set (filter (owns cfg (job_id j)) (jobs ?db0))"
    by (metis last_in_set list.size(3) zero_neq_one)
  then have r: "r \<in> set (jobs ?db0)" "owns cfg (job_id j) r" by simp_all
  let ?r = "r\<lparr>row_state := job_state j, row_finished := job_finished j, row_payload := job_payload io saved\<rparr>"
  have "?r \<in> set (jobs db)" using r by (force simp: db)
  then have "job_row_of (job_id j) (jobs db) = Some ?r"
    by (intro row_of_unique[OF ids]) (use r(2) in \<open>simp_all add: owns_def\<close>)
  moreover have "job_results db = job_results db1" by (simp add: db)
  ultimately have "read_result io (job_id j) db = Inr (encode io (sanitized io (job_result j)))"
    using s assms(3) by (simp add: read_result_def payload_fields)
  moreover have "job_sha j' = job_sha saved"
    using assms(1) st by (auto simp: update_job_def split: if_splits)
  ultimately show ?thesis using s(2) by simp
qed

section \<open>Pruning\<close>

lemma sort_take_drop:
  assumes "x \<in> set (take n (sort_key f xs))" and "y \<in> set (drop n (sort_key f xs))"
  shows "f x \<le> f y"
proof -
  have "sorted (map f (take n (sort_key f xs) @ drop n (sort_key f xs)))" by simp
  then show ?thesis unfolding map_append sorted_append using assms by auto
qed

lemma filter_drop_length:
  assumes "distinct (map f xs)"
  shows "filter (\<lambda>x. f x \<notin> f ` set (drop n xs)) xs = take n xs"
proof -
  have "distinct (map f (take n xs @ drop n xs))" using assms by simp
  then have d: "f ` set (take n xs) \<inter> f ` set (drop n xs) = {}" by (simp only: map_append distinct_append set_map)
  have "filter (\<lambda>x. f x \<notin> f ` set (drop n xs)) (take n xs @ drop n xs) = take n xs"
    using d by (subst filter_append) (auto simp: filter_empty_conv intro!: filter_True)
  then show ?thesis by simp
qed

text \<open>Pruning keeps every job that is not finished, keeps at most the configured number of finished
  ones, none of them past the retention, and when it drops a job within the retention then every finished
  job it keeps finished no earlier; the results of the jobs it drops go with them.\<close>

theorem prune_exact:
  assumes "db' = prune_jobs cfg now (foldl (job_step io) no_jobs cs)"
    and "r \<in> set (jobs (foldl (job_step io) no_jobs cs))"
  shows "(\<not> is_terminal r \<longrightarrow> r \<in> set (jobs db')) \<and>
    length (filter is_terminal (jobs db')) \<le> max_terminal cfg \<and>
    list_all (\<lambda>q. \<not> expired_row cfg now q) (jobs db') \<and>
    (is_terminal r \<and> \<not> expired_row cfg now r \<and> r \<notin> set (jobs db') \<longrightarrow>
       list_all (\<lambda>q. finish_key q \<le> finish_key r) (filter is_terminal (jobs db'))) \<and>
    set (map fst (job_results db')) \<subseteq> set (map row_id (jobs db'))"
proof -
  let ?db = "foldl (job_step io) no_jobs cs"
  let ?kept = "filter (\<lambda>r. \<not> expired_row cfg now r) (jobs ?db)"
  let ?sorted = "sort_key finish_key (filter is_terminal ?kept)"
  let ?n = "max_terminal cfg"
  have ids: "distinct (map row_id (jobs ?db))" using run_ids[OF empty_ids] by (simp add: ids_unique_def)
  have jobs: "jobs db' = filter (\<lambda>r. row_id r \<notin> row_id ` set (drop ?n ?sorted)) ?kept"
    by (simp add: assms(1) prune_jobs_def Let_def)
  have fin: "set (filter is_terminal (jobs db')) = set (take ?n ?sorted)"
    and len: "length (filter is_terminal (jobs db')) \<le> ?n"
  proof -
    have m: "mset (filter is_terminal (jobs db')) = mset (filter (\<lambda>r. row_id r \<notin> row_id ` set (drop ?n ?sorted)) ?sorted)"
      by (simp add: jobs filter_filter_mset conj_ac)
    have "distinct (map row_id (filter is_terminal ?kept))" using ids by (intro distinct_map_filter)
    then have "distinct (map row_id ?sorted)" by (simp add: distinct_map)
    note f = filter_drop_length[OF this, of ?n]
    from m f show "set (filter is_terminal (jobs db')) = set (take ?n ?sorted)" by (metis set_mset_mset)
    from m f have "length (filter is_terminal (jobs db')) = length (take ?n ?sorted)" by (metis size_mset)
    then show "length (filter is_terminal (jobs db')) \<le> ?n" by simp
  qed
  have keep: "r \<in> set (jobs db')" if "\<not> is_terminal r"
  proof -
    have "row_id r \<notin> row_id ` set (drop ?n ?sorted)"
    proof
      assume "row_id r \<in> row_id ` set (drop ?n ?sorted)"
      then obtain q where q: "q \<in> set (drop ?n ?sorted)" "row_id r = row_id q" by auto
      from q(1) have "q \<in> set (jobs ?db)" "is_terminal q" by (auto dest!: in_set_dropD)
      with distinct_id_eq[OF ids assms(2) this(1) q(2)] that show False by simp
    qed
    with that assms(2) show ?thesis by (simp add: jobs expired_row_def)
  qed
  have order: "finish_key q \<le> finish_key r"
    if "is_terminal r" "\<not> expired_row cfg now r" "r \<notin> set (jobs db')" "q \<in> set (filter is_terminal (jobs db'))" for q
  proof -
    have "r \<in> set ?sorted" using that assms(2) by simp
    moreover have "r \<notin> set (take ?n ?sorted)" using that(1,3) fin by auto
    ultimately have "r \<in> set (drop ?n ?sorted)" by (metis append_take_drop_id set_append Un_iff)
    moreover have "q \<in> set (take ?n ?sorted)" using that(4) fin by blast
    ultimately show ?thesis by (rule sort_take_drop[rotated])
  qed
  show ?thesis
    using keep len order by (auto simp: list_all_iff jobs) (auto simp: assms(1) prune_jobs_def Let_def)
qed

section \<open>Witnesses, and what reopening does\<close>

definition sample_io :: job_io where
  "sample_io = \<lparr>clean = (\<lambda>s. s), encode = (\<lambda>_. ''{}''), dump_length = (\<lambda>_. 2), sha256 = (\<lambda>s. s)\<rparr>"

definition job_settings :: "string \<Rightarrow> job_config" where
  "job_settings who = \<lparr>owner = who, retention = 900, max_terminal = 1, max_running = 1\<rparr>"

definition sample_job :: "string \<Rightarrow> string \<Rightarrow> job" where
  "sample_job i state = \<lparr>job_id = i, job_host = ''h'', job_base_url = [], job_state = state, job_started = 0, job_finished = None,
     job_error = JNull, job_manifest = JNull, job_result = JNull, job_available = False, job_recovered = JNull,
     job_ref = None, job_size = None, job_sha = None, job_summary = JNull, job_delivery_error = None, job_journal = JNull\<rparr>"

definition sample_job_row :: "string \<Rightarrow> string \<Rightarrow> job_row" where
  "sample_job_row i state = \<lparr>row_id = i, row_owner = ''a'', row_pid = 1, row_state = state, row_started = 0, row_finished = None,
     row_payload = job_payload sample_io (sample_job i state)\<rparr>"

lemmas sample_defs = sample_io_def job_settings_def sample_job_def sample_job_row_def

lemma create_sample:
  "running_count db < 1 \<Longrightarrow> job_row_of i (jobs db) = None \<Longrightarrow>
     create_job sample_io (job_settings ''a'') 1 (sample_job i state) db =
       Inr ((sample_job i state, True), db\<lparr>jobs := jobs db @ [sample_job_row i state]\<rparr>)"
  by (simp add: create_job_def store_result_def sample_defs)

lemma first_job:
  "create_job sample_io (job_settings ''a'') 1 (sample_job i state) no_jobs =
     Inr ((sample_job i state, True), \<lparr>jobs = [sample_job_row i state], job_results = []\<rparr>)"
  by (subst create_sample) (simp_all add: running_count_def no_jobs_def job_row_of_def)

lemma update_sample:
  "update_job sample_io (job_settings ''a'') (sample_job i state') \<lparr>jobs = sample_job_row i state # rows, job_results = rs\<rparr> =
     (if filter (owns (job_settings ''a'') i) rows = []
      then Inr (sample_job i state', \<lparr>jobs = sample_job_row i state' # rows, job_results = rs\<rparr>) else Inl JobValueError)"
  by (auto simp: update_job_def store_result_def sample_defs owns_def filter_empty_conv intro!: map_idI)

theorem capacity_kept_witness:
  "running_count (foldl (job_step sample_io) no_jobs [Create (job_settings ''a'') 1 (sample_job ''j'' ''running''),
     Recover (job_settings ''b'') 5 (\<lambda>_. False)]) \<le> 1"
  by (rule capacity_kept) (simp_all add: capacity_of_def job_settings_def reopens_def)

theorem live_job_untouched_witness:
  "sample_job_row ''j'' ''running'' \<in> set (jobs (foldl (job_step sample_io) \<lparr>jobs = [sample_job_row ''j'' ''running''], job_results = []\<rparr>
     [Recover (job_settings ''b'') 5 (\<lambda>_. True), Prune (job_settings ''b'') 9]))"
proof -
  note l = live_job_untouched[of sample_io "job_settings ''a''" 1 "sample_job ''j'' ''running''" "[]",
      unfolded foldl_Nil, OF first_job _ refl, of "[Recover (job_settings ''b'') 5 (\<lambda>_. True), Prune (job_settings ''b'') 9]"]
  have "sample_job_row ''j'' ''running'' = last (jobs \<lparr>jobs = [sample_job_row ''j'' ''running''], job_results = []\<rparr>)" by simp
  then show ?thesis using l by (simp add: foreign_to_def running_states_def sample_job_def)
qed

text \<open>An update that makes a finished job run again is not held to the capacity.\<close>

lemma reopening_passes_capacity:
  "running_count (foldl (job_step sample_io) no_jobs [Create (job_settings ''a'') 1 (sample_job ''j'' ''running''),
     Update (job_settings ''a'') (sample_job ''j'' ''done''), Create (job_settings ''a'') 1 (sample_job ''k'' ''running''),
     Update (job_settings ''a'') (sample_job ''j'' ''running'')]) = 2"
proof -
  have 1: "create_job sample_io (job_settings ''a'') 1 (sample_job ''k'' ''running'')
      \<lparr>jobs = [sample_job_row ''j'' ''done''], job_results = []\<rparr> =
    Inr ((sample_job ''k'' ''running'', True), \<lparr>jobs = [sample_job_row ''j'' ''done'', sample_job_row ''k'' ''running''], job_results = []\<rparr>)"
    by (subst create_sample)
      (simp_all add: running_count_def is_running_def running_states_def job_row_of_def sample_job_row_def)
  have 2: "(sample_job i s)\<lparr>job_ref := None\<rparr> = sample_job i s" "job_id (sample_job i s) = i" for i s
    by (simp_all add: sample_job_def)
  have 3: "\<not> owns (job_settings ''a'') ''j'' (sample_job_row ''k'' s)" for s
    by (simp add: owns_def sample_job_row_def)
  show ?thesis
    by (simp add: first_job update_sample 1 3 committed_db_def running_count_def is_running_def running_states_def)
      (simp add: sample_job_row_def)
qed

theorem prune_exact_witness:
  "length (filter is_terminal (jobs (prune_jobs (job_settings ''a'') 9 \<lparr>jobs = [sample_job_row ''j'' ''done''], job_results = []\<rparr>))) \<le> 1"
  using prune_exact[OF refl, of "sample_job_row ''j'' ''done''" sample_io
      "[Create (job_settings ''a'') 1 (sample_job ''j'' ''done'')]" "job_settings ''a''" 9]
  by (simp add: first_job committed_db_def) (simp add: job_settings_def)

definition finished_job :: job where
  "finished_job = (sample_job ''j'' ''done'')\<lparr>job_result := JObj []\<rparr>"

theorem result_readable_witness:
  "\<exists>j' db. update_job sample_io (job_settings ''a'') finished_job \<lparr>jobs = [sample_job_row ''j'' ''running''], job_results = []\<rparr> = Inr (j', db) \<and>
     read_result sample_io ''j'' db = Inr ''{}''"
proof -
  obtain j' db where u: "update_job sample_io (job_settings ''a'') finished_job
      (foldl (job_step sample_io) no_jobs [Create (job_settings ''a'') 1 (sample_job ''j'' ''running'')]) = Inr (j', db)"
    by (simp add: first_job committed_db_def)
      (simp add: update_job_def store_result_def finished_job_def summarize_def sample_defs owns_def Let_def
        dict_or_empty_def falsy_def option_or_def)
  from result_readable[OF u] have "read_result sample_io ''j'' db = Inr ''{}''"
    by (simp add: finished_job_def sample_io_def sample_job_def)
  with u show ?thesis by (auto simp: first_job committed_db_def)
qed

end
