(* ===== verification/RunJournal.thy ===== *)
theory RunJournal
  imports Redaction
begin

text \<open>
  The journal of finished units of a run (\<open>run_journal.py\<close>): writing units without the credentials of
  the roles, reading back what is intact and of the same context, packing exchanges with pointers in
  place of role headers, and downgrading findings whose proof cannot be shown any more. SHA-256, the JSON
  reader and writer (\<open>escaped\<close> is what the writer puts between the quotes of a string), the decoding of
  tokens and the lookups of proofs are arguments; a lookup that raises is None.

  \<open>no_secret_stored\<close>, \<open>read_back\<close>, \<open>get_exact\<close>, \<open>pack_roundtrip\<close>, \<open>packed_withheld\<close> and
  \<open>resumed_claims\<close> are the properties.
\<close>

definition retention_seconds :: real where
  "retention_seconds = 14 * 24 * 3600"

definition role_pointer :: string where
  "role_pointer = ''$role:''"

definition min_secret_length :: nat where
  "min_secret_length = 4"

section \<open>The journal\<close>

record role_session =
  role_label :: string
  role_name :: "string option"
  role_headers :: "(string \<times> string) list"

text \<open>\<open>RoleSession.principal_id\<close>: the name, or the label with a digest of the credentials.\<close>

definition principal_id :: "(string \<Rightarrow> string) \<Rightarrow> role_session \<Rightarrow> string" where
  "principal_id sha r =
     (if option_or (role_name r) [] \<noteq> [] then option_or (role_name r) []
      else let cred = concat (map (\<lambda>(k, v). if py_lower k = ''authorization'' \<or> py_lower k = ''cookie''
                                             then py_lower k @ ''='' @ v @ '';'' else []) (role_headers r)) in
        if cred = [] then list_or (role_label r) ''anonymous'' else role_label r @ ''#'' @ take 8 (sha cred))"

record journal_stats =
  hits :: nat
  misses :: nat
  writes :: nat
  corrupt :: nat

record run_journal =
  root_job :: string
  context_key :: string
  secrets :: "string list"
  journal_stats :: journal_stats

record unit_row =
  unit_root :: string
  unit_name :: string
  unit_context :: string
  unit_payload :: string
  unit_sha :: string
  unit_created :: time

record journal_io =
  dumps :: "json \<Rightarrow> string"
  loads :: "string \<Rightarrow> json option"
  escaped :: "string \<Rightarrow> string"
  digest :: "string \<Rightarrow> string"

text \<open>Secrets of one length come in the order of the roles (the code's set leaves it open).\<close>

definition role_secrets :: "role_session list \<Rightarrow> string list" where
  "role_secrets roles = concat (map (\<lambda>r. map snd (filter (\<lambda>(n, v).
     is_credential_header n \<and> length v \<ge> min_secret_length) (role_headers r))) roles)"

definition new_journal :: "journal_io \<Rightarrow> string \<Rightarrow> string \<Rightarrow> role_session list \<Rightarrow> run_journal" where
  "new_journal io job ctx roles =
     (let s = role_secrets roles in
      \<lparr>root_job = job, context_key = ctx,
       secrets = sort_key (\<lambda>v. - int (length v)) (remdups (s @ map (escaped io) s)),
       journal_stats = \<lparr>hits = 0, misses = 0, writes = 0, corrupt = 0\<rparr>\<rparr>)"

text \<open>\<open>s.replace(old, new)\<close>, for an \<open>old\<close> that is not empty.\<close>

function replace_all :: "string \<Rightarrow> string \<Rightarrow> string \<Rightarrow> string" where
  "replace_all old new [] = []"
| "replace_all old new (c # s) =
     (if old \<noteq> [] \<and> starts_with old (c # s) then new @ replace_all old new (drop (length old - 1) s)
      else c # replace_all old new s)"
  by pat_completeness auto
termination by (relation "measure (\<lambda>(old, new, s). length s)") auto

definition withhold_credentials :: "run_journal \<Rightarrow> string \<Rightarrow> string" where
  "withhold_credentials j text = foldl (\<lambda>t secret. replace_all secret secret_placeholder t) text (secrets j)"

definition prune_units :: "time \<Rightarrow> unit_row list \<Rightarrow> nat \<times> unit_row list" where
  "prune_units now rows = (let cutoff = now - retention_seconds in
     (length (filter (\<lambda>r. unit_created r < cutoff) rows), filter (\<lambda>r. \<not> unit_created r < cutoff) rows))"

definition same_unit :: "string \<Rightarrow> string \<Rightarrow> unit_row \<Rightarrow> bool" where
  "same_unit job u r \<longleftrightarrow> unit_root r = job \<and> unit_name r = u"

definition put_unit :: "journal_io \<Rightarrow> string \<Rightarrow> json \<Rightarrow> time \<Rightarrow> run_journal \<Rightarrow> unit_row list \<Rightarrow> run_journal \<times> unit_row list" where
  "put_unit io u payload now j rows =
     (let t = withhold_credentials j (dumps io payload) in
      (j\<lparr>journal_stats := (journal_stats j)\<lparr>writes := writes (journal_stats j) + 1\<rparr>\<rparr>,
       filter (\<lambda>r. \<not> same_unit (root_job j) u r) rows @
         [\<lparr>unit_root = root_job j, unit_name = u, unit_context = context_key j, unit_payload = t,
           unit_sha = digest io t, unit_created = now\<rparr>]))"

definition mark_corrupt :: "run_journal \<Rightarrow> run_journal" where
  "mark_corrupt j = j\<lparr>journal_stats := (journal_stats j)\<lparr>corrupt := corrupt (journal_stats j) + 1\<rparr>\<rparr>"

definition read_unit :: "journal_io \<Rightarrow> unit_row \<Rightarrow> run_journal \<Rightarrow> json option \<times> run_journal" where
  "read_unit io r j =
     (if unit_context r \<noteq> context_key j then (None, j)
      else if digest io (unit_payload r) \<noteq> unit_sha r then (None, mark_corrupt j)
      else case loads io (unit_payload r) of
        Some (JObj kvs) \<Rightarrow> (Some (JObj kvs), j)
      | _ \<Rightarrow> (None, mark_corrupt j))"

definition note_read :: "json option \<Rightarrow> run_journal \<Rightarrow> run_journal" where
  "note_read v j = (let s = journal_stats j in
     j\<lparr>journal_stats := (if v \<noteq> None then s\<lparr>hits := hits s + 1\<rparr> else s\<lparr>misses := misses s + 1\<rparr>)\<rparr>)"

definition get_unit :: "journal_io \<Rightarrow> string \<Rightarrow> unit_row list \<Rightarrow> run_journal \<Rightarrow> json option \<times> run_journal" where
  "get_unit io u rows j =
     (let (v, j1) = (case find (same_unit (root_job j) u) rows of None \<Rightarrow> (None, j) | Some r \<Rightarrow> read_unit io r j)
      in (v, note_read v j1))"

fun read_units :: "journal_io \<Rightarrow> unit_row list \<Rightarrow> run_journal \<Rightarrow> (string \<times> json) list \<times> run_journal" where
  "read_units io [] j = ([], j)"
| "read_units io (r # rows) j =
     (let (v, j1) = read_unit io r j; (found, j2) = read_units io rows (note_read v j1)
      in (case v of None \<Rightarrow> found | Some x \<Rightarrow> (unit_name r, x) # found, j2))"

definition units_of :: "journal_io \<Rightarrow> string \<Rightarrow> unit_row list \<Rightarrow> run_journal \<Rightarrow> (string \<times> json) list \<times> run_journal" where
  "units_of io pre rows j = read_units io (filter (\<lambda>r. unit_root r = root_job j \<and> starts_with pre (unit_name r)) rows) j"

definition has_any :: "bool \<Rightarrow> unit_row list \<Rightarrow> run_journal \<Rightarrow> bool" where
  "has_any any_context rows j = list_ex (\<lambda>r. unit_root r = root_job j \<and> (any_context \<or> unit_context r = context_key j)) rows"

section \<open>Exchanges\<close>

record packed_exchange =
  request_headers :: "(string \<times> string) list"
  other_data :: json

definition owned_headers :: "(string \<Rightarrow> string) \<Rightarrow> role_session list \<Rightarrow> ((string \<times> string) \<times> string) list" where
  "owned_headers sha roles = foldl (\<lambda>d (key, p). dict_set key p d) []
     (concat (map (\<lambda>r. map (\<lambda>(n, v). ((py_lower n, v), principal_id sha r))
        (filter (\<lambda>(n, v). is_credential_header n) (role_headers r))) roles))"

definition pack_header :: "(string \<Rightarrow> json option) \<Rightarrow> ((string \<times> string) \<times> string) list \<Rightarrow> string \<Rightarrow> string \<Rightarrow> string" where
  "pack_header decode owned n v = (case dict_get owned (py_lower n, v) of
     Some p \<Rightarrow> role_pointer @ p
   | None \<Rightarrow> redact_header decode n v)"

definition pack_exchange :: "(string \<Rightarrow> string) \<Rightarrow> (string \<Rightarrow> json option) \<Rightarrow> role_session list \<Rightarrow> packed_exchange \<Rightarrow> packed_exchange" where
  "pack_exchange sha decode roles x = x\<lparr>request_headers :=
     map (\<lambda>(n, v). (n, pack_header decode (owned_headers sha roles) n v)) (request_headers x)\<rparr>"

definition supplied :: "role_session option \<Rightarrow> (string \<times> string) list" where
  "supplied r = (case r of None \<Rightarrow> []
     | Some s \<Rightarrow> foldl (\<lambda>d (k, v). dict_set (py_lower k) v d) [] (role_headers s))"

definition by_principal :: "(string \<Rightarrow> string) \<Rightarrow> role_session list \<Rightarrow> string \<Rightarrow> role_session option" where
  "by_principal sha roles p = find (\<lambda>r. principal_id sha r = p) (rev roles)"

definition unpack_header :: "(string \<Rightarrow> string) \<Rightarrow> role_session list \<Rightarrow> string \<times> string \<Rightarrow> (string \<times> string) list" where
  "unpack_header sha roles h = (case h of (n, v) \<Rightarrow>
     if starts_with role_pointer v
     then (case dict_get (supplied (by_principal sha roles (drop (length role_pointer) v))) (py_lower n) of
         None \<Rightarrow> [] | Some w \<Rightarrow> [(n, w)])
     else [(n, v)])"

definition unpack_exchange :: "(string \<Rightarrow> string) \<Rightarrow> role_session list \<Rightarrow> packed_exchange \<Rightarrow> packed_exchange" where
  "unpack_exchange sha roles x = x\<lparr>request_headers := concat (map (unpack_header sha roles) (request_headers x))\<rparr>"

section \<open>Findings\<close>

record resumed_finding =
  rf_confirmed :: bool
  rf_case :: string
  rf_proof :: string
  rf_oracle :: bool
  rf_state :: string
  rf_resumed_from :: "string option"
  rf_downgrade :: "string option"

record stored_proof =
  pr_id :: string
  pr_baseline :: string
  pr_attack :: string
  pr_controls :: "string list"

definition proof_shown :: "(string \<Rightarrow> stored_proof list option) \<Rightarrow> (stored_proof \<Rightarrow> bool option) \<Rightarrow> string \<Rightarrow> string \<Rightarrow> bool" where
  "proof_shown proofs resolves case_id proof_id = (case proofs case_id of
     None \<Rightarrow> False
   | Some ps \<Rightarrow> (case find (\<lambda>p. pr_id p = proof_id) ps of
       None \<Rightarrow> False
     | Some p \<Rightarrow> if pr_baseline p = [] \<and> pr_attack p = [] \<and> list_all (\<lambda>c. c = []) (pr_controls p) then True
                  else resolves p = Some True))"

definition resume_finding :: "(string \<Rightarrow> stored_proof list option) \<Rightarrow> (stored_proof \<Rightarrow> bool option) \<Rightarrow> string \<Rightarrow>
    resumed_finding \<Rightarrow> resumed_finding" where
  "resume_finding proofs resolves job f =
     (let out = f\<lparr>rf_resumed_from := Some job\<rparr> in
      if \<not> rf_confirmed out \<or> rf_case out = [] \<or> rf_proof out = [] then out
      else if proof_shown proofs resolves (rf_case out) (rf_proof out) then out
      else out\<lparr>rf_confirmed := False, rf_oracle := False, rf_state := ''candidate'',
               rf_downgrade := Some (''proof belongs to interrupted job '' @ job @ ''; re-run to re-establish'')\<rparr>)"

record resumed_outcome =
  ro_findings :: "resumed_finding list"
  ro_confirmed :: bool

definition resume_outcome :: "(string \<Rightarrow> stored_proof list option) \<Rightarrow> (stored_proof \<Rightarrow> bool option) \<Rightarrow> string \<Rightarrow>
    resumed_outcome \<Rightarrow> resumed_outcome" where
  "resume_outcome proofs resolves job out =
     (let fs = map (resume_finding proofs resolves job) (ro_findings out) in
      out\<lparr>ro_findings := fs, ro_confirmed := list_ex rf_confirmed fs\<rparr>)"

section \<open>Withholding\<close>

definition clean_secret :: "string \<Rightarrow> bool" where
  "clean_secret s \<longleftrightarrow> s \<noteq> [] \<and> \<not> List.member s CHR ''['' \<and> \<not> List.member s CHR '']'' \<and> \<not> contains_str s secret_placeholder"

lemma starts_prefix: "starts_with p s \<longleftrightarrow> prefix p s"
  by (auto simp: starts_with_def prefix_def) (metis append_take_drop_id)

lemma contains_sublist: "contains_str p s \<longleftrightarrow> sublist p s"
  by (induction s) (auto simp: starts_prefix sublist_Cons_right)

lemma sublist_around: "c \<notin> set u \<Longrightarrow> sublist u (x @ c # y) \<Longrightarrow> sublist u x \<or> sublist u y"
  by (auto simp: sublist_append sublist_Cons_right prefix_Cons dest: suffix_imp_sublist)

lemma placeholder_shape: "secret_placeholder = CHR ''['' # ''REDACTED-SECRET'' @ [CHR '']'']"
  by (simp add: secret_placeholder_def)

lemma clean_in_replaced:
  assumes "clean_secret u" and "sublist u (secret_placeholder @ y)"
  shows "sublist u y"
proof -
  have c: "CHR ''['' \<notin> set u" "CHR '']'' \<notin> set u" "\<not> sublist u secret_placeholder" "u \<noteq> []"
    using assms(1) by (simp_all add: clean_secret_def contains_sublist)
  from assms(2) have "sublist u ([] @ CHR ''['' # (''REDACTED-SECRET'' @ CHR '']'' # y))"
    by (simp add: placeholder_shape)
  from sublist_around[OF c(1) this] c(4) have "sublist u (''REDACTED-SECRET'' @ CHR '']'' # y)" by auto
  from sublist_around[OF c(2) this] show ?thesis
  proof
    assume "sublist u ''REDACTED-SECRET''"
    moreover have "sublist ''REDACTED-SECRET'' ([CHR ''[''] @ ''REDACTED-SECRET'' @ [CHR '']''])" by (rule sublist_appendI)
    ultimately have "sublist u ([CHR ''[''] @ ''REDACTED-SECRET'' @ [CHR '']''])" by (rule sublist_order.order.trans)
    with c(3) show ?thesis by (simp add: placeholder_shape)
  qed
qed

lemma prefix_replaced: "CHR ''['' \<notin> set u \<Longrightarrow> prefix u (replace_all old secret_placeholder s) \<Longrightarrow> prefix u s"
proof (induction s arbitrary: u)
  case (Cons c s)
  show ?case
  proof (cases "old \<noteq> [] \<and> starts_with old (c # s)")
    case True
    with Cons.prems show ?thesis by (cases u) (simp_all add: placeholder_shape)
  next
    case False
    with Cons show ?thesis by (cases u) auto
  qed
qed simp

lemma replaced_none_new:
  "clean_secret u \<Longrightarrow> sublist u (replace_all old secret_placeholder s) \<Longrightarrow> sublist u s"
proof (induction "length s" arbitrary: s rule: less_induct)
  case less
  show ?case
  proof (cases s)
    case Nil
    with less.prems show ?thesis by simp
  next
    case (Cons c r)
    show ?thesis
    proof (cases "old \<noteq> [] \<and> starts_with old s")
      case True
      with less.prems(2) Cons have "sublist u (secret_placeholder @ replace_all old secret_placeholder (drop (length old - 1) r))" by simp
      from less.hyps[OF _ less.prems(1) clean_in_replaced[OF less.prems(1) this]] Cons
      have "sublist u (drop (length old - 1) r)" by simp
      then have "sublist u r" by (rule sublist_order.order.trans) (rule sublist_drop)
      then show ?thesis by (simp add: Cons sublist_Cons_right)
    next
      case False
      then have eq: "replace_all old secret_placeholder s = c # replace_all old secret_placeholder r"
        unfolding Cons replace_all.simps by (rule if_not_P)
      have "prefix u (replace_all old secret_placeholder s) \<or> sublist u (replace_all old secret_placeholder r)"
        using less.prems(2) sublist_Cons_right[of u c "replace_all old secret_placeholder r"] unfolding eq by blast
      then show ?thesis
      proof
        assume "prefix u (replace_all old secret_placeholder s)"
        then have "prefix u s" by (rule prefix_replaced[rotated]) (use less.prems(1) in \<open>simp add: clean_secret_def\<close>)
        then show ?thesis by (rule prefix_imp_sublist)
      next
        assume "sublist u (replace_all old secret_placeholder r)"
        from less.hyps[OF _ less.prems(1) this] Cons show ?thesis by (simp add: sublist_Cons_right)
      qed
    qed
  qed
qed

lemma replaced_gone: "clean_secret u \<Longrightarrow> \<not> sublist u (replace_all u secret_placeholder s)"
proof (induction "length s" arbitrary: s rule: less_induct)
  case less
  show ?case
  proof (cases s)
    case Nil
    with less.prems show ?thesis by (simp add: clean_secret_def)
  next
    case (Cons c r)
    show ?thesis
    proof (cases "u \<noteq> [] \<and> starts_with u s")
      case True
      have "\<not> sublist u (replace_all u secret_placeholder (drop (length u - 1) r))"
        by (rule less.hyps[OF _ less.prems]) (simp add: Cons)
      with clean_in_replaced[OF less.prems] True Cons show ?thesis by auto
    next
      case False
      then have "\<not> prefix u s" using less.prems by (simp add: starts_prefix clean_secret_def)
      then have "\<not> prefix u (replace_all u secret_placeholder s)"
        using less.prems prefix_replaced by (auto simp: clean_secret_def)
      moreover have "\<not> sublist u (replace_all u secret_placeholder r)"
        by (rule less.hyps[OF _ less.prems]) (simp add: Cons)
      moreover have eq: "replace_all u secret_placeholder s = c # replace_all u secret_placeholder r"
        using False unfolding Cons replace_all.simps by (rule if_not_P)
      ultimately show ?thesis unfolding eq sublist_Cons_right by blast
    qed
  qed
qed

lemma withheld_gone:
  assumes "list_all clean_secret ss" and "u \<in> set ss"
  shows "\<not> sublist u (foldl (\<lambda>t s. replace_all s secret_placeholder t) body ss)"
proof -
  have none_new: "sublist u (foldl (\<lambda>t s. replace_all s secret_placeholder t) body ss) \<Longrightarrow> clean_secret u \<Longrightarrow> sublist u body"
    for ss body
  proof (induction ss arbitrary: body)
    case (Cons s ss)
    from Cons.IH[of "replace_all s secret_placeholder body"] Cons.prems replaced_none_new[OF Cons.prems(2)] show ?case by simp
  qed simp
  from assms show ?thesis
  proof (induction ss arbitrary: body)
    case (Cons s ss)
    show ?case
    proof (cases "u \<in> set ss")
      case True
      with Cons show ?thesis by simp
    next
      case False
      with Cons.prems have "u = s" "clean_secret u" by auto
      with none_new[of "replace_all s secret_placeholder body" ss] replaced_gone[of u body] show ?thesis by auto
    qed
  qed simp
qed

text \<open>What a credential header is, said apart from the code's own classification: a header of one of
  the usual names, or of a name with one of the usual words in it, unless it is one that the browser
  sets (\<open>Sec-\<close>).\<close>

definition credential_names :: "string list" where
  "credential_names = [''authorization'', ''cookie'', ''proxy-authorization'', ''x-api-key'']"

definition credential_words :: "string list" where
  "credential_words = [''auth'', ''token'', ''secret'', ''session'', ''csrf'', ''xsrf'', ''jwt'', ''bearer'', ''credential'']"

definition names_credential :: "string \<Rightarrow> bool" where
  "names_credential n \<longleftrightarrow> (let m = py_lower (py_strip n) in
     m \<in> set credential_names \<or> \<not> starts_with ''sec-'' m \<and> list_ex (\<lambda>w. contains_str w m) credential_words)"

lemma ends_word: "sublist w m \<Longrightarrow> (\<And>p. set (ends (lit w) p) \<subseteq> set (ends r p)) \<Longrightarrow> search r m"
proof -
  assume "sublist w m" and lit: "\<And>p. set (ends (lit w) p) \<subseteq> set (ends r p)"
  then obtain x y where m: "m = x @ w @ y" by (auto simp: sublist_def)
  have "(rev w @ rev x, y) \<in> set (ends (lit w) (rev x, w @ y))" by (rule ends_lit) (rule refl)
  with lit have "(rev w @ rev x, y) \<in> set (ends r (rev x, w @ y))" by blast
  then show "search r m" unfolding m by (rule search_at)
qed

lemma alt_member:
  assumes "r \<in> set rs"
  shows "set (ends r p) \<subseteq> set (ends (foldr Alt rs e) p)"
  using assms by (induction rs) auto

lemma alt_last: "set (ends e p) \<subseteq> set (ends (foldr Alt rs e) p)"
  by (induction rs) auto

lemma word_in_pattern:
  assumes "w \<in> set credential_words"
  shows "set (ends (lit w) p) \<subseteq> set (ends credential_header_pattern p)"
proof (cases "w = ''credential''")
  case True
  then show ?thesis unfolding credential_header_pattern_def by (simp only: alt_last)
next
  case False
  with assms have "w \<in> set [''auth'', ''token'', ''secret'', ''session'', ''csrf'', ''xsrf'', ''jwt'', ''bearer'']"
    by (auto simp: credential_words_def)
  then show ?thesis
    unfolding credential_header_pattern_def by (intro alt_member) (auto simp del: lit.simps)
qed

lemma names_credential_classified:
  assumes "names_credential n"
  shows "is_credential_header n"
proof (cases "py_lower (py_strip n) \<in> set credential_names")
  case True
  then show ?thesis
    by (auto simp: credential_names_def is_credential_header_def Let_def always_credential_headers_def secret_header_names_def)
next
  case False
  let ?m = "py_lower (py_strip n)"
  from False assms obtain w where w: "w \<in> set credential_words" "sublist w ?m" and sec: "\<not> starts_with ''sec-'' ?m"
    by (auto simp: names_credential_def Let_def list_ex_iff contains_sublist)
  have "search credential_header_pattern ?m" by (rule ends_word[OF w(2)]) (rule word_in_pattern[OF w(1)])
  moreover have "?m \<noteq> []" using w by (auto simp: credential_words_def)
  moreover have "?m \<noteq> ''proxy-connection''"
  proof
    assume m: "?m = ''proxy-connection''"
    have "list_all (\<lambda>w. \<not> contains_str w ''proxy-connection'') credential_words" by code_simp
    with w m show False by (simp add: list_all_iff contains_sublist)
  qed
  ultimately show ?thesis using sec by (simp add: is_credential_header_def Let_def)
qed

lemma credential_collected:
  assumes "r \<in> set roles" and "(n, v) \<in> set (role_headers r)" and "names_credential n" and "4 \<le> length v"
  shows "v \<in> set (role_secrets roles)"
  using assms by (force simp: role_secrets_def min_secret_length_def names_credential_classified)

text \<open>C34: The text a unit is stored as holds no value of four characters or more that a role of the run
  has in a credential header (Authorization, Cookie, Proxy-Authorization, X-Api-Key, or a header with
  auth, token, secret, session, csrf, xsrf, jwt, bearer or credential in its name that does not begin
  with Sec-), neither as it is nor as JSON escapes it, as long as none of the values that are withheld
  has a square bracket or is part of the placeholder. A shorter value is stored in clear.\<close>

theorem no_secret_stored:
  assumes "j = new_journal io job ctx roles" and "list_all clean_secret (secrets j)"
    and "rows' = snd (put_unit io u payload now j rows)"
    and "r \<in> set roles" and "(n, v) \<in> set (role_headers r)" and "names_credential n" and "4 \<le> length v"
  shows "\<not> contains_str v (unit_payload (last rows')) \<and> \<not> contains_str (escaped io v) (unit_payload (last rows'))"
proof -
  have "set (secrets j) = set (role_secrets roles) \<union> escaped io ` set (role_secrets roles)"
    using assms(1) by (simp add: new_journal_def Let_def)
  moreover have "unit_payload (last rows') = foldl (\<lambda>t s. replace_all s secret_placeholder t) (dumps io payload) (secrets j)"
    using assms(3) by (simp add: put_unit_def Let_def withhold_credentials_def)
  ultimately show ?thesis
    using withheld_gone[OF assms(2)] credential_collected[OF assms(4-7)] by (auto simp: contains_sublist)
qed

text \<open>A credential of three characters is stored as it is.\<close>

lemma short_credential_stored:
  "secrets (new_journal io job ctx [\<lparr>role_label = l, role_name = nm, role_headers = [(''X-Api-Key'', ''abc'')]\<rparr>]) = []"
  by (simp add: new_journal_def Let_def role_secrets_def min_secret_length_def)

text \<open>A short credential of digits withholds a part of a number, and what is stored is no JSON any more.\<close>

lemma number_withheld: "replace_all ''2024'' secret_placeholder ''{x: 12024}'' = ''{x: 1[REDACTED-SECRET]}''"
  by code_simp

section \<open>Reading back\<close>

lemma replace_absent: "\<not> sublist old s \<Longrightarrow> replace_all old new s = s"
proof (induction s)
  case (Cons c s)
  then have "\<not> starts_with old (c # s)" "\<not> sublist old s" by (auto simp: starts_prefix sublist_Cons_right)
  with Cons.IH show ?case by simp
qed simp

lemma withhold_absent:
  assumes "list_all (\<lambda>s. \<not> contains_str s text) (secrets j)"
  shows "withhold_credentials j text = text"
proof -
  have "list_all (\<lambda>s. \<not> contains_str s text) ss \<Longrightarrow> foldl (\<lambda>t s. replace_all s secret_placeholder t) text ss = text" for ss
    by (induction ss) (simp_all add: contains_sublist replace_absent)
  with assms show ?thesis by (simp add: withhold_credentials_def)
qed

lemma find_app: "find P (xs @ ys) = (case find P xs of None \<Rightarrow> find P ys | Some x \<Rightarrow> Some x)"
  by (induction xs) auto

lemma find_other: "(\<And>x. x \<in> set xs \<Longrightarrow> P x \<Longrightarrow> Q x) \<Longrightarrow> find P (filter Q xs) = find P xs"
  by (induction xs) auto

text \<open>A unit is read back as it was written when no credential occurs in it; the other units of the
  journal are read as before; and a journal of another context does not see it.\<close>

theorem read_back:
  assumes "list_all (\<lambda>s. \<not> contains_str s (dumps io (JObj kvs))) (secrets j)"
    and "loads io (dumps io (JObj kvs)) = Some (JObj kvs)"
    and "(j', rows') = put_unit io u (JObj kvs) now j rows" and "context_key j2 \<noteq> context_key j" and "root_job j2 = root_job j"
    and "u' \<noteq> u"
  shows "fst (get_unit io u rows' j') = Some (JObj kvs) \<and>
    fst (get_unit io u' rows' j') = fst (get_unit io u' rows j) \<and>
    fst (get_unit io u rows' j2) = None"
proof -
  let ?new = "\<lparr>unit_root = root_job j, unit_name = u, unit_context = context_key j, unit_payload = dumps io (JObj kvs),
    unit_sha = digest io (dumps io (JObj kvs)), unit_created = now\<rparr>"
  have rows': "rows' = filter (\<lambda>r. \<not> same_unit (root_job j) u r) rows @ [?new]"
    and j': "root_job j' = root_job j" "context_key j' = context_key j"
    using assms(3) by (simp_all add: put_unit_def Let_def withhold_absent[OF assms(1)])
  have new: "find (same_unit (root_job j) u) rows' = Some ?new"
  proof -
    have "find (same_unit (root_job j) u) (filter (\<lambda>r. \<not> same_unit (root_job j) u r) rows) = None"
      by (simp add: find_None_iff)
    then show ?thesis by (simp add: rows' find_app same_unit_def)
  qed
  have old: "find (same_unit (root_job j) u') rows' = find (same_unit (root_job j) u') rows"
  proof -
    have "find (same_unit (root_job j) u') (filter (\<lambda>r. \<not> same_unit (root_job j) u r) rows) = find (same_unit (root_job j) u') rows"
      by (rule find_other) (use assms(6) in \<open>auto simp: same_unit_def\<close>)
    then show ?thesis using assms(6) by (simp add: rows' find_app same_unit_def split: option.split)
  qed
  show ?thesis
    using assms(2,4,5) new old j' by (auto simp: get_unit_def read_unit_def case_prod_unfold split: option.split json.split)
qed

section \<open>Packing exchanges\<close>

lemma foldl_dict_last:
  "dict_get (foldl (\<lambda>d (k, v). dict_set k v d) d0 xs) k = (case find (\<lambda>x. fst x = k) (rev xs) of None \<Rightarrow> dict_get d0 k | Some x \<Rightarrow> Some (snd x))"
  by (induction xs arbitrary: d0) (auto simp: find_app dict_get_set split: option.split)

lemma find_SomeD: "find P xs = Some x \<Longrightarrow> x \<in> set xs \<and> P x"
  by (induction xs) (auto split: if_splits)

abbreviation role_credentials :: "(string \<Rightarrow> string) \<Rightarrow> role_session list \<Rightarrow> ((string \<times> string) \<times> string) list" where
  "role_credentials sha roles \<equiv> concat (map (\<lambda>r. map (\<lambda>(n, v). ((py_lower n, v), principal_id sha r))
     (filter (\<lambda>(n, v). is_credential_header n) (role_headers r))) roles)"

lemma role_credentials_in:
  "((m, v), p) \<in> set (role_credentials sha roles) \<longleftrightarrow> (\<exists>r \<in> set roles. \<exists>n. principal_id sha r = p \<and>
     (n, v) \<in> set (role_headers r) \<and> py_lower n = m \<and> is_credential_header n)"
  by (auto simp: image_iff)

lemma owned_get:
  "dict_get (owned_headers sha roles) k = map_option snd (find (\<lambda>x. fst x = k) (rev (role_credentials sha roles)))"
  by (auto simp: owned_headers_def foldl_dict_last split: option.split)

lemma owned_source:
  assumes "dict_get (owned_headers sha roles) (m, v) = Some p"
  shows "\<exists>r \<in> set roles. \<exists>n. principal_id sha r = p \<and> (n, v) \<in> set (role_headers r) \<and> py_lower n = m"
proof -
  from assms obtain x where f: "find (\<lambda>x. fst x = (m, v)) (rev (role_credentials sha roles)) = Some x" and p: "snd x = p"
    unfolding owned_get by (auto simp only: map_option_eq_Some)
  have x: "x = ((m, v), p)" using find_SomeD[OF f] p by (cases x) simp
  have "((m, v), p) \<in> set (role_credentials sha roles)" using find_SomeD[OF f] unfolding x set_rev by (rule conjunct1)
  then show ?thesis unfolding role_credentials_in by blast
qed

lemma owned_iff:
  "dict_get (owned_headers sha roles) (m, v) \<noteq> None \<longleftrightarrow>
     (\<exists>r \<in> set roles. \<exists>n. (n, v) \<in> set (role_headers r) \<and> py_lower n = m \<and> is_credential_header n)"
proof -
  have "dict_get (owned_headers sha roles) (m, v) \<noteq> None \<longleftrightarrow> (\<exists>p. ((m, v), p) \<in> set (role_credentials sha roles))"
  proof
    assume "dict_get (owned_headers sha roles) (m, v) \<noteq> None"
    then obtain x where x: "x \<in> set (role_credentials sha roles)" "fst x = (m, v)"
      unfolding owned_get option.map_disc_iff find_None_iff set_rev by blast
    have "((m, v), snd x) = x" by (simp add: prod_eq_iff x(2))
    show "\<exists>p. ((m, v), p) \<in> set (role_credentials sha roles)"
      by (rule exI[of _ "snd x"]) (subst \<open>((m, v), snd x) = x\<close>, rule x(1))
  next
    assume "\<exists>p. ((m, v), p) \<in> set (role_credentials sha roles)"
    then obtain x where "x \<in> set (role_credentials sha roles)" "fst x = (m, v)" by fastforce
    then show "dict_get (owned_headers sha roles) (m, v) \<noteq> None"
      unfolding owned_get option.map_disc_iff find_None_iff set_rev by blast
  qed
  then show ?thesis unfolding role_credentials_in by blast
qed

lemma by_principal_unique:
  assumes "distinct (map (principal_id sha) roles)" and "r \<in> set roles"
  shows "by_principal sha roles (principal_id sha r) = Some r"
proof -
  have "find (\<lambda>q. principal_id sha q = principal_id sha r) (rev roles) \<noteq> None"
    using assms(2) by (auto simp: find_None_iff)
  then obtain q where q: "find (\<lambda>q. principal_id sha q = principal_id sha r) (rev roles) = Some q" by blast
  then have "q \<in> set roles" "principal_id sha q = principal_id sha r" using find_SomeD by fastforce+
  with assms have "q = r" by (auto simp: distinct_map inj_on_def)
  with q show ?thesis by (simp add: by_principal_def)
qed

lemma supplied_get:
  assumes "distinct (map (py_lower \<circ> fst) (role_headers r))" and "(n, v) \<in> set (role_headers r)"
  shows "dict_get (supplied (Some r)) (py_lower n) = Some v"
proof -
  have eq: "foldl (\<lambda>d (k, v). dict_set (py_lower k) v d) d0 hs = foldl (\<lambda>d (k, v). dict_set k v d) d0 (map (\<lambda>(k, v). (py_lower k, v)) hs)"
    for d0 and hs :: "(string \<times> string) list" by (induction hs arbitrary: d0) auto
  let ?hs = "map (\<lambda>(k, v). (py_lower k, v)) (role_headers r)"
  have d: "distinct (map fst ?hs)" using assms(1) by (simp add: comp_def case_prod_unfold)
  have m: "(py_lower n, v) \<in> set ?hs" using assms(2) by force
  have "find (\<lambda>x. fst x = py_lower n) (rev ?hs) \<noteq> None" unfolding find_None_iff set_rev using m by (metis fst_conv)
  then obtain x where x: "find (\<lambda>x. fst x = py_lower n) (rev ?hs) = Some x" by blast
  then have "x \<in> set ?hs" "fst x = py_lower n" using find_SomeD by fastforce+
  with d m have "x = (py_lower n, v)" unfolding distinct_map inj_on_def by (metis fst_conv)
  with x show ?thesis by (simp add: supplied_def eq foldl_dict_last)
qed

lemma starts_append: "starts_with p (p @ s)"
  by (simp add: starts_with_def)

text \<open>A header that packing keeps the meaning of: supplied by a role, or neither secret nor like a pointer.\<close>

definition portable :: "(string \<Rightarrow> string) \<Rightarrow> role_session list \<Rightarrow> string \<times> string \<Rightarrow> bool" where
  "portable sha roles h \<longleftrightarrow> dict_get (owned_headers sha roles) (py_lower (fst h), snd h) \<noteq> None \<or>
     \<not> List.member secret_header_names (py_lower (fst h)) \<and> \<not> starts_with role_pointer (snd h)"

definition roles_distinct :: "(string \<Rightarrow> string) \<Rightarrow> role_session list \<Rightarrow> bool" where
  "roles_distinct sha roles \<longleftrightarrow> distinct (map (principal_id sha) roles) \<and>
     list_all (\<lambda>r. distinct (map (py_lower \<circ> fst) (role_headers r))) roles"

lemma unpack_packed:
  assumes "roles_distinct sha roles" and "portable sha roles (n, v)"
  shows "unpack_header sha roles (n, pack_header decode (owned_headers sha roles) n v) = [(n, v)]"
proof (cases "dict_get (owned_headers sha roles) (py_lower n, v)")
  case None
  with assms(2) show ?thesis
    by (simp add: portable_def pack_header_def unpack_header_def other_header_kept)
next
  case (Some p)
  from owned_source[OF Some] obtain r m where r: "r \<in> set roles" "principal_id sha r = p"
    and m: "(m, v) \<in> set (role_headers r)" "py_lower m = py_lower n" by blast
  from assms(1) r have "by_principal sha roles p = Some r" and "distinct (map (py_lower \<circ> fst) (role_headers r))"
    by (auto simp: roles_distinct_def list_all_iff by_principal_unique)
  with supplied_get[OF _ m(1)] m(2) Some show ?thesis
    by (simp add: pack_header_def unpack_header_def starts_append)
qed

text \<open>C35: Packing and unpacking an exchange gives it back when its secret headers are those of the roles
  and the roles have distinct ids, and no header that is packed is the credential of a role.\<close>

theorem pack_roundtrip:
  assumes "roles_distinct sha roles" and "list_all (portable sha roles) (request_headers x)"
  shows "unpack_exchange sha roles (pack_exchange sha decode roles x) = x \<and>
    list_all (\<lambda>(n, w). starts_with role_pointer w \<or>
        \<not> list_ex (\<lambda>r. list_ex (\<lambda>(m, v). is_credential_header m \<and> py_lower m = py_lower n \<and> v = w) (role_headers r)) roles)
      (request_headers (pack_exchange sha decode roles x))"
proof
  have "concat (map (\<lambda>(n, v). unpack_header sha roles (n, pack_header decode (owned_headers sha roles) n v)) hs) = hs"
    if "list_all (portable sha roles) hs" for hs
    using that by (induction hs) (auto simp: unpack_packed[OF assms(1)])
  from this[OF assms(2)] show "unpack_exchange sha roles (pack_exchange sha decode roles x) = x"
    by (simp add: unpack_exchange_def pack_exchange_def comp_def case_prod_unfold)
  have "starts_with role_pointer w \<or> \<not> list_ex (\<lambda>r. list_ex (\<lambda>(m, v). is_credential_header m \<and> py_lower m = py_lower n \<and> v = w) (role_headers r)) roles"
    if "(n, v) \<in> set (request_headers x)" and w: "w = pack_header decode (owned_headers sha roles) n v" for n v w
  proof (cases "dict_get (owned_headers sha roles) (py_lower n, v)")
    case None
    with assms(2) that have "w = v" by (auto simp: list_all_iff portable_def pack_header_def other_header_kept)
    with None owned_iff[of sha roles "py_lower n" v] show ?thesis by (auto simp: list_ex_iff)
  next
    case (Some p)
    then show ?thesis by (simp add: w pack_header_def starts_append)
  qed
  then show "list_all (\<lambda>(n, w). starts_with role_pointer w \<or>
        \<not> list_ex (\<lambda>r. list_ex (\<lambda>(m, v). is_credential_header m \<and> py_lower m = py_lower n \<and> v = w) (role_headers r)) roles)
      (request_headers (pack_exchange sha decode roles x))"
    by (auto simp: list_all_iff pack_exchange_def)
qed

text \<open>Roles without a name that authenticate by another header than \<open>Authorization\<close> or \<open>Cookie\<close> share one id,
  and an exchange of the first is resumed with the key of the second.\<close>

lemma wrong_credential_resumed:
  "let alice = \<lparr>role_label = ''user'', role_name = None, role_headers = [(''X-Api-Key'', ''alice-key'')]\<rparr>;
       bob = \<lparr>role_label = ''user'', role_name = None, role_headers = [(''X-Api-Key'', ''bob-key'')]\<rparr>;
       x = \<lparr>request_headers = [(''X-Api-Key'', ''alice-key'')], other_data = JNull\<rparr>
   in request_headers (unpack_exchange (\<lambda>s. s) [alice, bob] (pack_exchange (\<lambda>s. s) (\<lambda>s. None) [alice, bob] x)) =
        [(''X-Api-Key'', ''bob-key'')]"
  by code_simp

section \<open>Resumed findings\<close>

text \<open>A resumed run claims a finding as confirmed exactly when the interrupted run did and it names no
  proof or the first stored proof of that id exists and, when it names exchanges, they resolve; a finding
  whose claim stands is only marked, and an outcome is confirmed exactly when one of its findings still is.\<close>

theorem resumed_claims:
  "rf_confirmed (resume_finding proofs resolves job f) = (rf_confirmed f \<and> (rf_case f = [] \<or> rf_proof f = [] \<or>
     (\<exists>ps p. proofs (rf_case f) = Some ps \<and> find (\<lambda>p. pr_id p = rf_proof f) ps = Some p \<and>
        (resolves p = Some True \<or> pr_baseline p = [] \<and> pr_attack p = [] \<and> list_all (\<lambda>c. c = []) (pr_controls p))))) \<and>
   (rf_confirmed (resume_finding proofs resolves job f) = rf_confirmed f \<longleftrightarrow>
     resume_finding proofs resolves job f = f\<lparr>rf_resumed_from := Some job\<rparr>) \<and>
   ro_confirmed (resume_outcome proofs resolves job out) =
     list_ex (\<lambda>g. rf_confirmed (resume_finding proofs resolves job g)) (ro_findings out)"
proof (intro conjI)
  have shown: "proof_shown proofs resolves c i \<longleftrightarrow>
     (\<exists>ps p. proofs c = Some ps \<and> find (\<lambda>p. pr_id p = i) ps = Some p \<and>
        (resolves p = Some True \<or> pr_baseline p = [] \<and> pr_attack p = [] \<and> list_all (\<lambda>c. c = []) (pr_controls p)))" for c i
    by (auto simp: proof_shown_def split: option.split)
  show "rf_confirmed (resume_finding proofs resolves job f) = (rf_confirmed f \<and> (rf_case f = [] \<or> rf_proof f = [] \<or>
     (\<exists>ps p. proofs (rf_case f) = Some ps \<and> find (\<lambda>p. pr_id p = rf_proof f) ps = Some p \<and>
        (resolves p = Some True \<or> pr_baseline p = [] \<and> pr_attack p = [] \<and> list_all (\<lambda>c. c = []) (pr_controls p)))))"
    unfolding shown[symmetric] by (auto simp: resume_finding_def Let_def)
  show "rf_confirmed (resume_finding proofs resolves job f) = rf_confirmed f \<longleftrightarrow>
     resume_finding proofs resolves job f = f\<lparr>rf_resumed_from := Some job\<rparr>"
    by (cases f) (auto simp: resume_finding_def Let_def)
  show "ro_confirmed (resume_outcome proofs resolves job out) =
     list_ex (\<lambda>g. rf_confirmed (resume_finding proofs resolves job g)) (ro_findings out)"
    by (simp add: resume_outcome_def Let_def list_ex_iff)
qed

section \<open>Witnesses\<close>

definition sample_role :: role_session where
  "sample_role = \<lparr>role_label = ''user'', role_name = Some ''alice'', role_headers = [(''Cookie'', ''sid=12345'')]\<rparr>"

definition sample_journal_io :: journal_io where
  "sample_journal_io = \<lparr>dumps = (\<lambda>v. case v of JObj [] \<Rightarrow> ''{}'' | _ \<Rightarrow> ''sid=12345''),
     loads = (\<lambda>s. if s = ''{}'' then Some (JObj []) else None), escaped = (\<lambda>s. s), digest = (\<lambda>s. s)\<rparr>"

abbreviation sample_journal :: run_journal where
  "sample_journal \<equiv> new_journal sample_journal_io ''j'' ''c'' [sample_role]"

lemma sample_secrets: "secrets sample_journal = [''sid=12345'']" "role_secrets [sample_role] = [''sid=12345'']"
  by code_simp+

theorem no_secret_stored_witness:
  "\<not> contains_str ''sid=12345'' (unit_payload (last (snd (put_unit sample_journal_io ''discovery'' JNull 0 sample_journal []))))"
proof -
  have "clean_secret ''sid=12345''" and "names_credential ''Cookie''" by code_simp+
  with no_secret_stored[OF refl _ refl, of sample_journal_io "''j''" "''c''" "[sample_role]" sample_role
      "''Cookie''" "''sid=12345''" "''discovery''" JNull 0 "[]"]
  show ?thesis by (simp add: sample_secrets) (simp add: sample_role_def)
qed

theorem read_back_witness:
  "fst (get_unit sample_journal_io ''u'' (snd (put_unit sample_journal_io ''u'' (JObj []) 0 sample_journal []))
     (fst (put_unit sample_journal_io ''u'' (JObj []) 0 sample_journal []))) = Some (JObj [])"
proof -
  have absent: "list_all (\<lambda>s. \<not> contains_str s (dumps sample_journal_io (JObj []))) (secrets sample_journal)"
    unfolding sample_secrets by code_simp
  have loads: "loads sample_journal_io (dumps sample_journal_io (JObj [])) = Some (JObj [])"
    by (simp add: sample_journal_io_def)
  obtain j' rows' where put: "(j', rows') = put_unit sample_journal_io ''u'' (JObj []) 0 sample_journal []"
    by (cases "put_unit sample_journal_io ''u'' (JObj []) 0 sample_journal []") simp
  have other: "context_key (sample_journal\<lparr>context_key := ''d''\<rparr>) \<noteq> context_key sample_journal"
    "root_job (sample_journal\<lparr>context_key := ''d''\<rparr>) = root_job sample_journal"
    by (simp_all add: new_journal_def Let_def)
  from read_back[OF absent loads put other, of "''v''"] show ?thesis unfolding put[symmetric] by simp
qed

theorem pack_roundtrip_witness:
  "unpack_exchange (\<lambda>s. s) [sample_role] (pack_exchange (\<lambda>s. s) (\<lambda>s. None) [sample_role]
     \<lparr>request_headers = [(''cookie'', ''sid=12345''), (''Accept'', ''a'')], other_data = JNull\<rparr>) =
     \<lparr>request_headers = [(''cookie'', ''sid=12345''), (''Accept'', ''a'')], other_data = JNull\<rparr>"
  by (rule pack_roundtrip[THEN conjunct1]) (code_simp+)

end
