(* ===== verification/Sessions.thy ===== *)
theory Sessions
  imports SafetyGate Redaction
begin

text \<open>
  What a run keeps about its own traffic (\<open>run_context.py\<close>): the budget of requests, the sessions of its
  principals and which headers belong to them, the routes that only ever fail, and the addresses its
  names are pinned to. Each operation runs under a lock or without a suspension point.

  \<open>run_budget_sound\<close>, \<open>bound_headers_exact\<close>, \<open>answering_route_never_paused\<close> and \<open>pins_hold\<close> are the properties.
\<close>

section \<open>The budget\<close>

record request_budget =
  b_max :: "int option"
  b_used :: int
  b_held :: int
  b_labels :: "(string \<times> int) list"

definition new_request_budget :: "int option \<Rightarrow> request_budget" where
  "new_request_budget m = \<lparr>b_max = m, b_used = 0, b_held = 0, b_labels = []\<rparr>"

definition budget_reserve :: "int \<Rightarrow> string \<Rightarrow> request_budget \<Rightarrow> bool \<times> request_budget" where
  "budget_reserve n label b =
     (if (case b_max b of None \<Rightarrow> False | Some m \<Rightarrow> b_used b + n > m - b_held b) then (False, b)
      else (let key = list_or label ''unlabelled'' in
        (True, b\<lparr>b_used := b_used b + n,
          b_labels := dict_set key (option_or (dict_get (b_labels b) key) 0 + n) (b_labels b)\<rparr>)))"

definition budget_hold :: "int \<Rightarrow> request_budget \<Rightarrow> int \<times> request_budget" where
  "budget_hold n b = (case b_max b of None \<Rightarrow> (0, b) | Some m \<Rightarrow>
     if n \<le> 0 then (0, b) else (let h = min (b_held b + n) (m - b_used b) in (h, b\<lparr>b_held := h\<rparr>)))"

definition release_hold :: "request_budget \<Rightarrow> int \<times> request_budget" where
  "release_hold b = (b_held b, b\<lparr>b_held := 0\<rparr>)"

definition budget_remaining :: "request_budget \<Rightarrow> int option" where
  "budget_remaining b = map_option (\<lambda>m. max 0 (m - b_used b - b_held b)) (b_max b)"

section \<open>Sessions\<close>

definition origin_of :: "string \<Rightarrow> string" where
  "origin_of url = (case parse_scope_url url of None \<Rightarrow> [] | Some u \<Rightarrow> origin u)"

definition same_origin :: "string \<Rightarrow> string \<Rightarrow> bool" where
  "same_origin a b \<longleftrightarrow> origin_of a \<noteq> [] \<and> origin_of a = origin_of b"

record health_probe =
  probe_method :: string
  probe_url :: string
  expect_status :: "int list"

type_synonym header_map = "(string \<times> string) list"

record managed_session =
  ms_id :: string
  ms_principal :: string
  ms_headers :: header_map
  ms_origins :: "string list"
  ms_role :: string
  ms_name :: string
  generation :: int
  health :: string
  last_ok_at :: real
  auth_failures :: int
  own_probe :: "health_probe option"
  has_refresh :: bool
  refreshes :: int
  checked_at :: "real option"
  expiry_reported :: bool

type_synonym session_manager = "(string \<times> managed_session) list"

datatype session_exc = InvalidOrigins | OriginRequired | UnknownSession string

definition register :: "string \<Rightarrow> string \<Rightarrow> header_map \<Rightarrow> string list \<Rightarrow> string \<Rightarrow> string \<Rightarrow> session_manager
    \<Rightarrow> session_exc + session_manager" where
  "register sid who hs origins role name m =
     (let normalized = remdups (map origin_of origins) in
      if [] \<in> set normalized then Inl InvalidOrigins
      else if hs \<noteq> [] \<and> normalized = [] then Inl OriginRequired
      else Inr (dict_set sid \<lparr>ms_id = sid, ms_principal = who, ms_headers = hs, ms_origins = normalized,
        ms_role = role, ms_name = list_or name who, generation = 0, health = ''unverified'', last_ok_at = 0,
        auth_failures = 0, own_probe = None, has_refresh = False, refreshes = 0, checked_at = None,
        expiry_reported = False\<rparr> m))"

definition unregister :: "string \<Rightarrow> session_manager \<Rightarrow> session_manager" where
  "unregister sid m = dict_pop sid m"

definition get_session :: "string option \<Rightarrow> session_manager \<Rightarrow> managed_session option" where
  "get_session sref m = (case sref of None \<Rightarrow> None | Some sid \<Rightarrow> if sid = [] then None else dict_get m sid)"

text \<open>An update of the session object that a name refers to.\<close>

definition on_session :: "string \<Rightarrow> (managed_session \<Rightarrow> managed_session) \<Rightarrow> session_manager \<Rightarrow> session_manager" where
  "on_session sid f m = map (\<lambda>(k, s). (k, if k = sid then f s else s)) m"

definition checked :: "string \<Rightarrow> session_manager \<Rightarrow> session_manager \<Rightarrow> session_exc + session_manager" where
  "checked sid m m' = (if dict_get m sid = None then Inl (UnknownSession sid) else Inr m')"

definition register_health_probe :: "string \<Rightarrow> string \<Rightarrow> string \<Rightarrow> int list \<Rightarrow> session_manager
    \<Rightarrow> session_exc + session_manager" where
  "register_health_probe sid meth url expect m = checked sid m (on_session sid
     (\<lambda>s. s\<lparr>own_probe := Some \<lparr>probe_method = py_upper (list_or meth ''GET''), probe_url = url, expect_status = expect\<rparr>\<rparr>) m)"

definition set_refresh :: "string \<Rightarrow> session_manager \<Rightarrow> session_exc + session_manager" where
  "set_refresh sid m = checked sid m (on_session sid (\<lambda>s. s\<lparr>has_refresh := True\<rparr>) m)"

definition with_headers :: "header_map \<Rightarrow> real \<Rightarrow> managed_session \<Rightarrow> managed_session" where
  "with_headers hs now s = s\<lparr>ms_headers := hs, generation := generation s + 1, health := ''healthy'', last_ok_at := now,
     expiry_reported := False\<rparr>"

definition replace_headers :: "string \<Rightarrow> header_map \<Rightarrow> real \<Rightarrow> session_manager \<Rightarrow> session_exc + session_manager" where
  "replace_headers sid hs now m = checked sid m (on_session sid (with_headers hs now) m)"

text \<open>The identity credentials among headers, by lowercase name.\<close>

definition identity_headers :: "header_map \<Rightarrow> header_map" where
  "identity_headers hs = foldl (\<lambda>d (k, v). dict_set (py_lower k) v d) []
     (filter (\<lambda>(k, v). is_identity_credential_header k) hs)"

definition same_dict :: "header_map \<Rightarrow> header_map \<Rightarrow> bool" where
  "same_dict a b \<longleftrightarrow> list_all (\<lambda>(k, v). dict_get b k = Some v) a \<and> list_all (\<lambda>(k, v). dict_get a k = Some v) b"

definition plain_headers :: "header_map \<Rightarrow> header_map" where
  "plain_headers hs = filter (\<lambda>(k, v). \<not> is_identity_credential_header k) hs"

definition bind_headers :: "header_map \<Rightarrow> session_manager \<Rightarrow> string option \<times> header_map" where
  "bind_headers supplied m = (let wanted = identity_headers supplied in
     if wanted = [] then (None, supplied)
     else (case find (\<lambda>(k, s). same_dict (identity_headers (ms_headers s)) wanted) m of
       None \<Rightarrow> (None, supplied) | Some (k, s) \<Rightarrow> (Some (ms_id s), plain_headers supplied)))"

section \<open>Routes and events\<close>

record route_state =
  errors_5xx :: int
  saw_non_5xx :: bool
  r_open :: bool
  opened_at :: real
  reported :: bool

definition new_route :: route_state where
  "new_route = \<lparr>errors_5xx = 0, saw_non_5xx = False, r_open = False, opened_at = 0, reported = False\<rparr>"

text \<open>Method, origin, template of the path and principal.\<close>

type_synonym route = "string \<times> string \<times> string \<times> string"

datatype health_event = RoutePaused route int | SessionExpired string | SessionRefresh string bool int | SessionStale string

record transport_health =
  routes :: "(route \<times> route_state) list"
  health_events :: "health_event list"

definition new_health :: transport_health where
  "new_health = \<lparr>routes = [], health_events = []\<rparr>"

definition record_health_event :: "health_event \<Rightarrow> transport_health \<Rightarrow> transport_health" where
  "record_health_event e h = h\<lparr>health_events := health_events h @ [e]\<rparr>"

definition route_blocked :: "route \<Rightarrow> real \<Rightarrow> real \<Rightarrow> transport_health \<Rightarrow> bool \<times> transport_health" where
  "route_blocked key cooldown now h = (case dict_get (routes h) key of
     None \<Rightarrow> (False, h)
   | Some r \<Rightarrow>
       if \<not> r_open r then (False, h)
       else if now - opened_at r \<ge> cooldown
         then (False, h\<lparr>routes := dict_set key (r\<lparr>opened_at := now\<rparr>) (routes h)\<rparr>)
       else (True, h))"

definition is_5xx :: "int \<Rightarrow> bool" where
  "is_5xx st \<longleftrightarrow> 500 \<le> st \<and> st \<le> 599"

definition route_observed :: "route \<Rightarrow> int \<Rightarrow> int \<Rightarrow> real \<Rightarrow> transport_health \<Rightarrow> transport_health" where
  "route_observed key st threshold now h =
     (let r = option_or (dict_get (routes h) key) new_route in
      if is_5xx st then
        (let r1 = r\<lparr>errors_5xx := errors_5xx r + 1\<rparr> in
         if \<not> saw_non_5xx r1 \<and> \<not> r_open r1 \<and> errors_5xx r1 \<ge> max 1 threshold then
           h\<lparr>routes := dict_set key (r1\<lparr>r_open := True, opened_at := now, reported := True\<rparr>) (routes h),
             health_events := (if reported r1 then health_events h
               else health_events h @ [RoutePaused key (errors_5xx r1)])\<rparr>
         else h\<lparr>routes := dict_set key r1 (routes h)\<rparr>)
      else h\<lparr>routes := dict_set key (r\<lparr>saw_non_5xx := True, r_open := False\<rparr>) (routes h)\<rparr>)"

definition paused_routes :: "transport_health \<Rightarrow> (route \<times> int) list" where
  "paused_routes h = map (\<lambda>(k, r). (k, errors_5xx r)) (filter (\<lambda>(k, r). r_open r) (routes h))"


section \<open>Pinned addresses\<close>

definition is_loopback :: "ip_addr \<Rightarrow> bool" where
  "is_loopback a = (case a of V4 n \<Rightarrow> n div 2 ^ 24 = 127 | V6 n z \<Rightarrow> n = 1)"

definition is_link_local :: "ip_addr \<Rightarrow> bool" where
  "is_link_local a = (case a of V4 n \<Rightarrow> n div 2 ^ 16 = 169 * 256 + 254 | V6 n z \<Rightarrow> n div 2 ^ 118 = 0x3FA)"

definition is_multicast :: "ip_addr \<Rightarrow> bool" where
  "is_multicast a = (case a of V4 n \<Rightarrow> n div 2 ^ 28 = 14 | V6 n z \<Rightarrow> n div 2 ^ 120 = 255)"

definition is_unspecified :: "ip_addr \<Rightarrow> bool" where
  "is_unspecified a = (case a of V4 n \<Rightarrow> n = 0 | V6 n z \<Rightarrow> n = 0)"

text \<open>The reserved networks of IPv6, as the first address and the number of free bits.\<close>

definition reserved_v6 :: "(nat \<times> nat) list" where
  "reserved_v6 = [(0, 120), (0x0100, 120), (0x0200, 121), (0x0400, 122), (0x0800, 123), (0x1000, 124), (0x4000, 125),
     (0x6000, 125), (0x8000, 125), (0xA000, 125), (0xC000, 125), (0xE000, 124), (0xF000, 123), (0xF800, 122), (0xFE00, 119)]"

definition is_reserved :: "ip_addr \<Rightarrow> bool" where
  "is_reserved a = (case a of V4 n \<Rightarrow> n div 2 ^ 28 = 15
     | V6 n z \<Rightarrow> list_ex (\<lambda>(hi, k). n div 2 ^ k = hi * 2 ^ 112 div 2 ^ k) reserved_v6)"

definition unmapped :: "ip_addr \<Rightarrow> ip_addr" where
  "unmapped a = (case a of V4 n \<Rightarrow> V4 n | V6 n z \<Rightarrow> if n div 2 ^ 32 = 0xFFFF then V4 (n mod 2 ^ 32) else V6 n z)"

datatype special = LinkLocal | Multicast | Unspecified | Reserved

text \<open>\<open>special_purpose_reason\<close>, on an address; on a text that is none it raises.\<close>

definition special_purpose :: "ip_addr \<Rightarrow> special option" where
  "special_purpose addr = (let a = unmapped addr in
     if is_loopback a then None
     else if is_link_local a then Some LinkLocal
     else if is_multicast a then Some Multicast
     else if is_unspecified a then Some Unspecified
     else if is_reserved a then Some Reserved
     else None)"

datatype pin_error = ResolveFailed | NotAnAddress | DestinationBlocked special

type_synonym pins = "(string \<times> string) list"

text \<open>\<open>address_for\<close>; \<open>resolved\<close> is what the resolver answers (None when it raises). A pin that another task sets
  during the resolution wins, so the state is the one at the time of the answer.\<close>

definition address_for :: "string \<Rightarrow> string option \<Rightarrow> pins \<Rightarrow> (pin_error + string) \<times> pins" where
  "address_for host resolved m =
     (if ip_address host \<noteq> None then (Inr host, m)
      else (let key = py_lower host in
        case (case dict_get m key of Some ip \<Rightarrow> Some (ip, m)
              | None \<Rightarrow> map_option (\<lambda>ip. (ip, dict_set key ip m)) resolved) of
          None \<Rightarrow> (Inl ResolveFailed, m)
        | Some (ip, m') \<Rightarrow> (case ip_address ip of
            None \<Rightarrow> (Inl NotAnAddress, m')
          | Some a \<Rightarrow> (case special_purpose a of
              Some r \<Rightarrow> (Inl (DestinationBlocked r), m') | None \<Rightarrow> (Inr ip, m')))))"

section \<open>The budget over a run\<close>

datatype rb_event = Reserve nat string | Hold int | ReleaseHold

fun rb_step :: "request_budget \<Rightarrow> rb_event \<Rightarrow> request_budget" where
  "rb_step b (Reserve n label) = snd (budget_reserve (int n) label b)"
| "rb_step b (Hold n) = snd (budget_hold n b)"
| "rb_step b ReleaseHold = snd (release_hold b)"

definition budget_sound :: "int option \<Rightarrow> request_budget \<Rightarrow> bool" where
  "budget_sound cap b \<longleftrightarrow> b_max b = cap \<and> distinct (map fst (b_labels b)) \<and>
     sum_list (map snd (b_labels b)) = b_used b \<and> 0 \<le> b_used b \<and>
     (case cap of None \<Rightarrow> True | Some m \<Rightarrow> min 0 m \<le> b_held b \<and> b_used b \<le> max 0 m)"

lemma sum_dict_set:
  "distinct (map fst d) \<Longrightarrow>
     sum_list (map snd (dict_set k v d)) = sum_list (map snd d) - option_or (dict_get d k) 0 + (v :: int)"
  by (induction d) (auto simp: option_or_def map_of_eq_None_iff)

lemma rb_sound_step: "budget_sound cap b \<Longrightarrow> budget_sound cap (rb_step b e)"
  by (cases e) (auto simp: budget_sound_def budget_reserve_def budget_hold_def release_hold_def Let_def sum_dict_set
    distinct_keys_set split: option.split)

lemma run_budget_sound_all: "budget_sound cap (foldl rb_step (new_request_budget cap) es)"
proof -
  have "budget_sound cap (foldl rb_step b es)" if "budget_sound cap b" for b
    using that by (induction es arbitrary: b) (simp_all add: rb_sound_step)
  then show ?thesis by (simp add: budget_sound_def new_request_budget_def split: option.split)
qed

text \<open>whatever is reserved, held and released, the requests granted so far never exceed the ceiling of the run, and the
  counts by label add up to them.\<close>

theorem run_budget_sound:
  "let b = foldl rb_step (new_request_budget cap) es in
     sum_list (map snd (b_labels b)) = b_used b \<and> (case cap of None \<Rightarrow> True | Some m \<Rightarrow> b_used b \<le> max 0 m)"
  using run_budget_sound_all[of cap es] by (auto simp: budget_sound_def split: option.splits)


section \<open>Whose headers these are\<close>

lemma identity_distinct: "distinct (map fst (identity_headers hs))"
proof -
  have "distinct (map fst (foldl (\<lambda>d (k, v). dict_set (py_lower k) v d) d xs))" if "distinct (map fst d)"
    for d :: header_map and xs
    using that by (induction xs arbitrary: d) (auto simp: distinct_keys_set split: prod.split)
  then show ?thesis by (simp add: identity_headers_def)
qed

lemma same_dict_iff:
  assumes "distinct (map fst a)" "distinct (map fst b)"
  shows "same_dict a b \<longleftrightarrow> map_of a = map_of b"
proof
  assume s: "same_dict a b"
  show "map_of a = map_of b"
  proof
    fix k
    show "map_of a k = map_of b k"
      using s assms by (cases "map_of a k"; cases "map_of b k")
        (auto simp: same_dict_def list_all_iff map_of_eq_Some_iff dest: map_of_SomeD eq_key_imp_eq_value)
  qed
next
  assume "map_of a = map_of b"
  then show "same_dict a b" using assms by (auto simp: same_dict_def list_all_iff) (metis map_of_eq_Some_iff)+
qed

text \<open>supplied headers are bound to a session exactly when some session carries the same identity credentials,
  by name without case and by value; what is left to send then names nobody. Otherwise nothing is bound and
  the headers are returned as they were.\<close>

theorem bound_headers_exact:
  "case bind_headers supplied m of
     (Some sid, left) \<Rightarrow> identity_headers supplied \<noteq> [] \<and> left = plain_headers supplied \<and>
       list_all (\<lambda>(k, v). \<not> is_identity_credential_header k) left \<and>
       (\<exists>k s. (k, s) \<in> set m \<and> ms_id s = sid \<and>
         map_of (identity_headers (ms_headers s)) = map_of (identity_headers supplied))
   | (None, left) \<Rightarrow> left = supplied \<and> (identity_headers supplied = [] \<or>
       (\<nexists>k s. (k, s) \<in> set m \<and> map_of (identity_headers (ms_headers s)) = map_of (identity_headers supplied)))"
proof -
  have f: "same_dict (identity_headers a) (identity_headers b) \<longleftrightarrow>
      map_of (identity_headers a) = map_of (identity_headers b)" for a b
    by (simp add: same_dict_iff identity_distinct)
  show ?thesis
  proof (cases "identity_headers supplied = []")
    case True
    then show ?thesis by (simp add: bind_headers_def)
  next
    case w: False
    show ?thesis
    proof (cases "find (\<lambda>(k, s). same_dict (identity_headers (ms_headers s)) (identity_headers supplied)) m")
      case None
      then have "\<forall>x \<in> set m. \<not> (case x of (k, s) \<Rightarrow> same_dict (identity_headers (ms_headers s)) (identity_headers supplied))"
        by (auto simp: find_None_iff)
      then show ?thesis using None w by (auto simp: bind_headers_def Let_def f)
    next
      case (Some ks)
      obtain k t where kt: "ks = (k, t)" by (cases ks)
      from Some have "ks \<in> set m" "same_dict (identity_headers (ms_headers t)) (identity_headers supplied)"
        by (auto simp: find_Some_iff kt in_set_conv_nth)
      then show ?thesis using Some w by (auto simp: bind_headers_def Let_def f kt plain_headers_def list_all_iff)
    qed
  qed
qed

section \<open>Routes that answer are never paused\<close>

datatype route_event = Observed route int | Asked route

fun route_step :: "real \<Rightarrow> int \<Rightarrow> transport_health \<Rightarrow> real \<times> route_event \<Rightarrow> transport_health" where
  "route_step cooldown threshold h (now, Observed k st) = route_observed k st threshold now h"
| "route_step cooldown threshold h (now, Asked k) = snd (route_blocked k cooldown now h)"

definition statuses_of :: "route \<Rightarrow> (real \<times> route_event) list \<Rightarrow> int list" where
  "statuses_of k es = concat (map (\<lambda>(t, e). case e of Observed j st \<Rightarrow> (if j = k then [st] else []) | Asked j \<Rightarrow> []) es)"

definition route_sound :: "int \<Rightarrow> route \<Rightarrow> int list \<Rightarrow> transport_health \<Rightarrow> bool" where
  "route_sound threshold k sts h \<longleftrightarrow>
     (case dict_get (routes h) k of None \<Rightarrow> sts = []
      | Some r \<Rightarrow> errors_5xx r = int (length (filter is_5xx sts)) \<and> saw_non_5xx r = (filter (\<lambda>st. \<not> is_5xx st) sts \<noteq> []) \<and>
          (r_open r \<longrightarrow> \<not> saw_non_5xx r \<and> errors_5xx r \<ge> max 1 threshold))"

lemma route_sound_step:
  assumes "route_sound threshold k sts h"
  shows "route_sound threshold k (sts @ statuses_of k [e]) (route_step cooldown threshold h e)"
proof (cases e)
  case (Pair now ev)
  show ?thesis
  proof (cases ev)
    case (Observed j st)
    then show ?thesis using assms
      by (cases "j = k") (auto simp: Pair route_sound_def statuses_of_def route_observed_def new_route_def option_or_def Let_def
        split: option.splits)
  next
    case (Asked j)
    then show ?thesis using assms
      by (cases "j = k") (auto simp: Pair route_sound_def statuses_of_def route_blocked_def split: option.splits)
  qed
qed

lemma route_sound_run:
  "route_sound threshold k (statuses_of k es) (foldl (route_step cooldown threshold) new_health es)"
proof (induction es rule: rev_induct)
  case Nil
  then show ?case by (simp add: route_sound_def statuses_of_def new_health_def)
next
  case (snoc e es)
  have "statuses_of k (es @ [e]) = statuses_of k es @ statuses_of k [e]" by (simp add: statuses_of_def)
  then show ?case using route_sound_step[OF snoc.IH, of e cooldown] by simp
qed

text \<open>a request is held back for its route only when every answer of that route so far was a server error and
  there were at least as many as the threshold: a route that ever answered is never paused.\<close>

theorem answering_route_never_paused:
  assumes "fst (route_blocked k cooldown now (foldl (route_step cooldown threshold) new_health es))"
  shows "list_all is_5xx (statuses_of k es) \<and> int (length (statuses_of k es)) \<ge> max 1 threshold"
proof -
  let ?h = "foldl (route_step cooldown threshold) new_health es"
  obtain r where r: "dict_get (routes ?h) k = Some r" "r_open r"
    using assms by (auto simp: route_blocked_def split: option.splits if_splits)
  have "filter (\<lambda>st. \<not> is_5xx st) (statuses_of k es) = []" "int (length (filter is_5xx (statuses_of k es))) \<ge> max 1 threshold"
    using route_sound_run[of threshold k es cooldown] r by (auto simp: route_sound_def)
  then show ?thesis by (auto simp: filter_empty_conv list_all_iff intro: order_trans[OF _ zle_int[THEN iffD2, OF length_filter_le]])
qed


section \<open>Pins hold\<close>

fun pins_after :: "(string \<times> string option) list \<Rightarrow> pins \<Rightarrow> pins" where
  "pins_after [] m = m"
| "pins_after ((host, resolved) # es) m = pins_after es (snd (address_for host resolved m))"

lemma pin_kept: "dict_get m k = Some ip \<Longrightarrow> dict_get (snd (address_for host resolved m)) k = Some ip"
  by (cases resolved; cases "k = py_lower host")
    (auto simp: address_for_def Let_def split: option.splits)

lemma pins_kept: "dict_get m k = Some ip \<Longrightarrow> dict_get (pins_after es m) k = Some ip"
  by (induction es m rule: pins_after.induct) (auto dest: pin_kept)

lemma address_pinned:
  "fst (address_for host resolved m) = Inr ip \<Longrightarrow> ip_address host = None \<Longrightarrow>
     dict_get (snd (address_for host resolved m)) (py_lower host) = Some ip \<and>
     (\<exists>a. ip_address ip = Some a \<and> special_purpose a = None)"
  by (auto simp: address_for_def Let_def split: option.splits)

text \<open>C38: once a name was connected to an address, every later connection of the run to that name (in any case) goes to the
  same address, whatever other names are resolved in between and whatever the resolver answers; and neither is a
  special-purpose address.\<close>

theorem pins_hold:
  assumes "ip_address host = None" "ip_address host' = None" "py_lower host' = py_lower host"
    and "fst (address_for host resolved m) = Inr ip"
    and "fst (address_for host' resolved' (pins_after es (snd (address_for host resolved m)))) = Inr ip'"
  shows "ip' = ip \<and> (\<exists>a. ip_address ip = Some a \<and> special_purpose a = None)"
proof -
  let ?m = "snd (address_for host resolved m)"
  have p: "dict_get ?m (py_lower host) = Some ip" and a: "\<exists>a. ip_address ip = Some a \<and> special_purpose a = None"
    using address_pinned[OF assms(4,1)] by auto
  have "dict_get (pins_after es ?m) (py_lower host') = Some ip" using pins_kept[OF p] assms(3) by simp
  from pin_kept[OF this] address_pinned[OF assms(5,2)] have "ip' = ip" by simp
  then show ?thesis using a by simp
qed

lemmas address_evaluation = ip_address_def parse_v4_def parse_v6_def v6_parts_def partition_at_def parse_octet_def all_digits_def
  is_digit_def code_def int_of_digits_def from_base_def

lemma sample_addresses:
  "ip_address ''app.test'' = None" "ip_address ''App.test'' = None" "ip_address ''10.0.0.7'' = Some (V4 167772167)"
  "ip_address ''169.254.169.254'' = Some (V4 2852039166)"
  by (simp_all add: address_evaluation)

lemma sample_specials: "special_purpose (V4 167772167) = None" "special_purpose (V4 2852039166) = Some LinkLocal"
  by (simp_all add: special_purpose_def unmapped_def is_loopback_def is_link_local_def is_multicast_def is_unspecified_def
    is_reserved_def)

lemma pins_hold_witness: "\<exists>a. ip_address ''10.0.0.7'' = Some a \<and> special_purpose a = None"
proof -
  have l: "py_lower ''app.test'' = ''app.test''" "py_lower ''App.test'' = ''app.test''" by code_simp+
  have a: "fst (address_for ''app.test'' (Some ''10.0.0.7'') []) = Inr ''10.0.0.7''"
    by (simp add: address_for_def sample_addresses sample_specials l)
  have b: "fst (address_for ''App.test'' (Some ''169.254.169.254'') (pins_after []
     (snd (address_for ''app.test'' (Some ''10.0.0.7'') [])))) = Inr ''10.0.0.7''"
    by (simp add: address_for_def sample_addresses sample_specials l)
  have "py_lower ''App.test'' = py_lower ''app.test''" by (simp add: l)
  from pins_hold[OF sample_addresses(1,2) this a b] show ?thesis by blast
qed

lemma metadata_refused:
  "fst (address_for ''app.test'' (Some ''169.254.169.254'') []) = Inl (DestinationBlocked LinkLocal)"
  by (simp add: address_for_def sample_addresses sample_specials)

definition sample_sessions :: session_manager where
  "sample_sessions = (case register ''s'' ''alice'' [(''Authorization'', ''t'')] [''http://app.test''] ''user'' [] [] of
     Inr m \<Rightarrow> m | Inl e \<Rightarrow> [])"

lemma bound_headers_example:
  "bind_headers [(''authorization'', ''t''), (''X-CSRF-Token'', ''c'')] sample_sessions = (Some ''s'', [(''X-CSRF-Token'', ''c'')])"
  by code_simp

lemma bound_headers_exact_witness:
  "\<exists>k s. (k, s) \<in> set sample_sessions \<and> ms_id s = ''s'' \<and> map_of (identity_headers (ms_headers s)) =
     map_of (identity_headers [(''authorization'', ''t''), (''X-CSRF-Token'', ''c'')])"
  using bound_headers_exact[of "[(''authorization'', ''t''), (''X-CSRF-Token'', ''c'')]" sample_sessions] bound_headers_example
  by simp

lemma answering_route_never_paused_witness:
  "list_all is_5xx (statuses_of (''GET'', ''o'', ''/'', []) [(0, Observed (''GET'', ''o'', ''/'', []) 503)])"
proof -
  have "fst (route_blocked (''GET'', ''o'', ''/'', []) 300 1
     (foldl (route_step 300 1) new_health [(0, Observed (''GET'', ''o'', ''/'', []) 503)]))"
    by (simp add: route_blocked_def route_observed_def new_health_def new_route_def is_5xx_def option_or_def)
  from answering_route_never_paused[OF this] show ?thesis by simp
qed

end
