(* ===== verification/SessionFreshness.thy ===== *)
theory SessionFreshness
  imports Sessions
begin

text \<open>
  When a session has gone stale (\<open>session_freshness.py\<close>): for each session the routes the target served it,
  and a window of the later answers on those routes. A session is stale when enough of the window are denials, spread
  over enough routes. The transport feeds it only URLs it has sent, so they can be split.

  \<open>stale_means_lost_access\<close> is the property.
\<close>

definition hex_or_dash :: "char \<Rightarrow> bool" where
  "hex_or_dash c \<longleftrightarrow> is_hex c \<or> c = CHR ''-''"

definition numeric_segment :: "string \<Rightarrow> bool" where
  "numeric_segment s \<longleftrightarrow> all_digits s \<or>
     (length s \<ge> 36 \<and> list_all is_hex (take 8 s) \<and> s ! 8 = CHR ''-'' \<and> list_all hex_or_dash (drop 9 s))"

type_synonym fresh_key = "string \<times> string"

definition fresh_route :: "string \<Rightarrow> string \<Rightarrow> fresh_key" where
  "fresh_route meth url =
     (let path = (case urlsplit url of None \<Rightarrow> [] | Some p \<Rightarrow> u_path p);
          segments = map (\<lambda>s. if numeric_segment s then ''{id}'' else s) (split_on CHR ''/'' (list_or path ''/''))
      in (py_upper (list_or meth ''GET''), join_with ''/'' segments))"

record freshness_config =
  f_enabled :: bool
  f_window :: int
  min_denials :: int
  min_routes :: int
  denial_rate :: real

text \<open>\<open>from_config\<close>, from the values as \<open>bool\<close>, \<open>int\<close> and \<open>float\<close> read them; None where the key is absent.\<close>

definition freshness_from_config :: "bool option \<Rightarrow> int option \<Rightarrow> int option \<Rightarrow> int option \<Rightarrow> real option \<Rightarrow> freshness_config" where
  "freshness_from_config enabled w d r rate =
     \<lparr>f_enabled = option_or enabled False, f_window = max 1 (option_or w 20), min_denials = max 1 (option_or d 6),
      min_routes = max 1 (option_or r 2), denial_rate = min 1 (max 0 (option_or rate (6 / 10)))\<rparr>"

record session_track =
  t_generation :: int
  good_routes :: "fresh_key list"
  recent :: "(fresh_key \<times> bool) list"

type_synonym tracks = "(string \<times> session_track) list"

definition track_of :: "string \<Rightarrow> int \<Rightarrow> tracks \<Rightarrow> session_track" where
  "track_of sid gen ts = (case dict_get ts sid of
     None \<Rightarrow> \<lparr>t_generation = gen, good_routes = [], recent = []\<rparr>
   | Some t \<Rightarrow> if t_generation t \<noteq> gen then \<lparr>t_generation = gen, good_routes = good_routes t, recent = []\<rparr> else t)"

definition denied_in :: "session_track \<Rightarrow> fresh_key list" where
  "denied_in t = map fst (filter snd (recent t))"

definition looks_stale :: "freshness_config \<Rightarrow> session_track \<Rightarrow> bool" where
  "looks_stale cfg t = (let denied = denied_in t in
     if int (length denied) < min_denials cfg then False
     else if int (length (remdups denied)) < min_routes cfg then False
     else real (length denied) / real (length (recent t)) \<ge> denial_rate cfg)"

definition served :: "int \<Rightarrow> bool" where
  "served st \<longleftrightarrow> 200 \<le> st \<and> st < 300"

definition add_recent :: "freshness_config \<Rightarrow> fresh_key \<Rightarrow> bool \<Rightarrow> session_track \<Rightarrow> session_track" where
  "add_recent cfg key was_denied t = t\<lparr>recent := trim_left (f_window cfg) (recent t @ [(key, was_denied)])\<rparr>"

definition observe_status :: "freshness_config \<Rightarrow> string \<Rightarrow> int \<Rightarrow> string \<Rightarrow> string \<Rightarrow> int \<Rightarrow> tracks \<Rightarrow> bool \<times> tracks" where
  "observe_status cfg sid gen meth url st ts =
     (if \<not> f_enabled cfg then (False, ts)
      else (let t = track_of sid gen ts; key = fresh_route meth url in
        if served st then
          (let t' = add_recent cfg key False (t\<lparr>good_routes := List.insert key (good_routes t)\<rparr>) in
           (looks_stale cfg t', dict_set sid t' ts))
        else if List.member [401, 403] st then
          (if \<not> List.member (good_routes t) key then (False, dict_set sid t ts)
           else (let t' = add_recent cfg key True t in (looks_stale cfg t', dict_set sid t' ts)))
        else (False, dict_set sid t ts)))"

record stale_counts =
  ev_window :: int
  ev_denials :: int
  ev_routes :: int
  ev_known :: int

definition stale_evidence :: "string \<Rightarrow> int \<Rightarrow> tracks \<Rightarrow> stale_counts" where
  "stale_evidence sid gen ts = (let t = track_of sid gen ts in
     \<lparr>ev_window = int (length (recent t)), ev_denials = int (length (denied_in t)),
      ev_routes = int (length (remdups (denied_in t))), ev_known = int (length (good_routes t))\<rparr>)"

definition reset_window :: "string \<Rightarrow> int \<Rightarrow> tracks \<Rightarrow> tracks" where
  "reset_window sid gen ts = dict_set sid ((track_of sid gen ts)\<lparr>recent := []\<rparr>) ts"

section \<open>Only lost access makes a session stale\<close>

datatype fresh_event = Answer string int string string int | WindowReset string int

fun fresh_step :: "freshness_config \<Rightarrow> tracks \<Rightarrow> fresh_event \<Rightarrow> tracks" where
  "fresh_step cfg ts (Answer sid gen meth url st) = snd (observe_status cfg sid gen meth url st ts)"
| "fresh_step cfg ts (WindowReset sid gen) = reset_window sid gen ts"

text \<open>The routes that were served to a session.\<close>

definition served_routes :: "string \<Rightarrow> fresh_event list \<Rightarrow> fresh_key set" where
  "served_routes sid es = {fresh_route meth url | gen meth url st. Answer sid gen meth url st \<in> set es \<and> served st}"

definition track_sound :: "freshness_config \<Rightarrow> fresh_key set \<Rightarrow> session_track \<Rightarrow> bool" where
  "track_sound cfg R t \<longleftrightarrow> set (good_routes t) \<subseteq> R \<and> set (denied_in t) \<subseteq> R \<and> int (length (recent t)) \<le> f_window cfg"

lemma denied_iff: "k \<in> set (denied_in t) \<longleftrightarrow> (k, True) \<in> set (recent t)"
  by (force simp: denied_in_def)

lemma track_sound_mono: "track_sound cfg R t \<Longrightarrow> R \<subseteq> R' \<Longrightarrow> track_sound cfg R' t"
  by (auto simp: track_sound_def)

lemma track_of_sound:
  "(\<And>t. dict_get ts sid = Some t \<Longrightarrow> track_sound cfg R t) \<Longrightarrow> 0 \<le> f_window cfg \<Longrightarrow> track_sound cfg R (track_of sid gen ts)"
  by (auto simp: track_of_def track_sound_def denied_in_def split: option.split)

lemma add_recent_sound:
  assumes "track_sound cfg R t" "0 \<le> f_window cfg" "was_denied \<Longrightarrow> key \<in> R"
  shows "track_sound cfg R (add_recent cfg key was_denied t)"
proof -
  have "set (trim_left (f_window cfg) (recent t @ [(key, was_denied)])) \<subseteq> insert (key, was_denied) (set (recent t))"
    using set_trim_left[of "f_window cfg" "recent t @ [(key, was_denied)]"] by auto
  then have "set (denied_in (add_recent cfg key was_denied t)) \<subseteq> R"
    using assms(1,3) by (fastforce simp: track_sound_def denied_iff add_recent_def)
  then show ?thesis
    using assms(1) length_trim_left[OF assms(2), of "recent t @ [(key, was_denied)]"]
    by (simp add: track_sound_def add_recent_def)
qed

lemma observed_track:
  assumes "track_sound cfg R (track_of sid gen ts)" "0 \<le> f_window cfg" "served st \<Longrightarrow> fresh_route meth url \<in> R" "f_enabled cfg"
  shows "\<exists>t. dict_get (snd (observe_status cfg sid gen meth url st ts)) sid = Some t \<and> track_sound cfg R t \<and>
     (fst (observe_status cfg sid gen meth url st ts) \<longrightarrow> looks_stale cfg t)"
proof -
  have m: "fresh_route meth url \<in> set (good_routes (track_of sid gen ts)) \<Longrightarrow> fresh_route meth url \<in> R"
    using assms(1) by (auto simp: track_sound_def)
  have g: "served st \<Longrightarrow> track_sound cfg R ((track_of sid gen ts)
      \<lparr>good_routes := List.insert (fresh_route meth url) (good_routes (track_of sid gen ts))\<rparr>)"
    using assms(1,3) by (auto simp: track_sound_def denied_in_def)
  show ?thesis using assms(1,2,4) m g
    by (auto simp: observe_status_def Let_def intro!: add_recent_sound)
qed

lemma observe_other: "sid' \<noteq> sid \<Longrightarrow> dict_get (snd (observe_status cfg sid gen meth url st ts)) sid' = dict_get ts sid'"
  by (simp add: observe_status_def Let_def)


definition tracks_sound :: "freshness_config \<Rightarrow> fresh_event list \<Rightarrow> tracks \<Rightarrow> bool" where
  "tracks_sound cfg es ts \<longleftrightarrow> (\<forall>sid t. dict_get ts sid = Some t \<longrightarrow> track_sound cfg (served_routes sid es) t)"

lemma served_routes_mono: "served_routes sid es \<subseteq> served_routes sid (es @ [e])"
  by (auto simp: served_routes_def)

lemma tracks_sound_step:
  assumes "tracks_sound cfg es ts" "0 \<le> f_window cfg"
  shows "tracks_sound cfg (es @ [e]) (fresh_step cfg ts e)"
proof -
  have old: "dict_get ts sid = Some t \<Longrightarrow> track_sound cfg (served_routes sid (es @ [e])) t" for sid t
    using assms(1) track_sound_mono[OF _ served_routes_mono] by (auto simp: tracks_sound_def)
  have cur: "track_sound cfg (served_routes sid (es @ [e])) (track_of sid gen ts)" for sid gen
    by (rule track_of_sound[OF old assms(2)])
  show ?thesis
  proof (cases e)
    case (Answer sid gen meth url st)
    show ?thesis
    proof (cases "f_enabled cfg")
      case True
      have "served st \<Longrightarrow> fresh_route meth url \<in> served_routes sid (es @ [e])"
        by (auto simp: served_routes_def Answer)
      from observed_track[where gen = gen, OF cur assms(2) this True]
      obtain t where "dict_get (snd (observe_status cfg sid gen meth url st ts)) sid = Some t"
          "track_sound cfg (served_routes sid (es @ [e])) t" by blast
      then have "dict_get (snd (observe_status cfg sid gen meth url st ts)) sid' = Some u \<Longrightarrow>
          track_sound cfg (served_routes sid' (es @ [e])) u" for sid' u
        using old[of sid' u] by (cases "sid' = sid") (simp_all add: observe_other)
      then show ?thesis by (simp add: tracks_sound_def Answer)
    next
      case False
      then show ?thesis using old by (simp add: tracks_sound_def Answer observe_status_def)
    qed
  next
    case (WindowReset sid gen)
    have "track_sound cfg (served_routes sid (es @ [e])) ((track_of sid gen ts)\<lparr>recent := []\<rparr>)"
      using cur[of sid gen] assms(2) by (auto simp: track_sound_def denied_in_def)
    then show ?thesis using old
      by (auto simp: tracks_sound_def WindowReset reset_window_def dict_get_set split: if_splits)
  qed
qed

lemma tracks_sound_run: "0 \<le> f_window cfg \<Longrightarrow> tracks_sound cfg es (foldl (fresh_step cfg) [] es)"
proof (induction es rule: rev_induct)
  case Nil
  then show ?case by (simp add: tracks_sound_def)
next
  case (snoc e es)
  then show ?case using tracks_sound_step[of cfg es "foldl (fresh_step cfg) [] es" e] by simp
qed

text \<open>a session is called stale only when its window holds the configured number of denials, spread over the configured
  number of routes, at the configured rate, and each of those routes was served to this very session before: a
  route that only ever refused it does not count. The window never exceeds its size.\<close>

theorem stale_means_lost_access:
  assumes "0 \<le> f_window cfg"
    and "fst (observe_status cfg sid gen meth url st (foldl (fresh_step cfg) [] es))"
  shows "\<exists>lost total. min_denials cfg \<le> int (length lost) \<and> min_routes cfg \<le> int (card (set lost)) \<and>
     denial_rate cfg * real total \<le> real (length lost) \<and> int total \<le> f_window cfg \<and>
     set lost \<subseteq> served_routes sid (es @ [Answer sid gen meth url st])"
proof -
  let ?ts = "foldl (fresh_step cfg) [] es" and ?e = "Answer sid gen meth url st"
  have en: "f_enabled cfg" using assms(2) by (simp add: observe_status_def split: if_splits)
  have old: "dict_get ?ts sid = Some t \<Longrightarrow> track_sound cfg (served_routes sid (es @ [?e])) t" for t
    using tracks_sound_run[OF assms(1), of es] track_sound_mono[OF _ served_routes_mono] by (auto simp: tracks_sound_def)
  have new: "served st \<Longrightarrow> fresh_route meth url \<in> served_routes sid (es @ [?e])" by (auto simp: served_routes_def)
  have "track_sound cfg (served_routes sid (es @ [?e])) (track_of sid gen ?ts)" by (rule track_of_sound[OF old assms(1)])
  from observed_track[OF this assms(1) new en] assms(2)
  obtain t where t: "track_sound cfg (served_routes sid (es @ [?e])) t" "looks_stale cfg t" by auto
  show ?thesis
  proof (intro exI conjI)
    show "min_denials cfg \<le> int (length (denied_in t))" "min_routes cfg \<le> int (card (set (denied_in t)))"
      using t(2) by (auto simp: looks_stale_def Let_def length_remdups_card_conv split: if_splits)
    show "denial_rate cfg * real (length (recent t)) \<le> real (length (denied_in t))"
      using t(2) by (cases "recent t = []") (auto simp: looks_stale_def Let_def field_simps split: if_splits)
    show "int (length (recent t)) \<le> f_window cfg" "set (denied_in t) \<subseteq> served_routes sid (es @ [?e])"
      using t(1) by (auto simp: track_sound_def)
  qed
qed

definition sample_freshness :: freshness_config where
  "sample_freshness = \<lparr>f_enabled = True, f_window = 4, min_denials = 2, min_routes = 2, denial_rate = 1 / 2\<rparr>"

definition sample_answers :: "fresh_event list" where
  "sample_answers = [Answer ''s'' 0 ''GET'' ''http://a/x'' 200, Answer ''s'' 0 ''GET'' ''http://a/y/7'' 200,
     Answer ''s'' 0 ''GET'' ''http://a/x'' 401]"

lemma stale_means_lost_access_witness:
  "\<exists>lost. 2 \<le> int (length lost) \<and>
     set lost \<subseteq> served_routes ''s'' (sample_answers @ [Answer ''s'' 0 ''GET'' ''http://a/y/9'' 403])"
proof -
  have w: "0 \<le> f_window sample_freshness" "min_denials sample_freshness = 2" by (simp_all add: sample_freshness_def)
  have k: "fresh_route ''GET'' ''http://a/x'' = (''GET'', ''/x'')" "fresh_route ''GET'' ''http://a/y/7'' = (''GET'', ''/y/{id}'')"
    "fresh_route ''GET'' ''http://a/y/9'' = (''GET'', ''/y/{id}'')" by code_simp+
  have "fst (observe_status sample_freshness ''s'' 0 ''GET'' ''http://a/y/9'' 403
      (foldl (fresh_step sample_freshness) [] sample_answers))"
    by (simp add: sample_answers_def observe_status_def sample_freshness_def k track_of_def add_recent_def looks_stale_def
      denied_in_def served_def Let_def)
  from stale_means_lost_access[OF w(1) this] w(2) show ?thesis by auto
qed

lemma refusals_never_stale:
  "\<not> fst (observe_status sample_freshness ''s'' 0 ''GET'' ''http://a/x'' 403
     (foldl (fresh_step sample_freshness) [] (replicate 9 (Answer ''s'' 0 ''GET'' ''http://a/y'' 403))))"
  by (simp add: observe_status_def sample_freshness_def track_of_def served_def Let_def numeral_eq_Suc)

end
