(* ===== verification/ObjectiveCompletion.thy ===== *)
theory ObjectiveCompletion
  imports Regex
begin

text \<open>
  Objectives (\<open>objective_profiles.py\<close>, \<open>objective_completion.py\<close>): what a run declares it may do with a
  confirmed finding, and the one action with its independent oracle. The executor of a run, the language
  model that drafts a payload, the injection points of an exchange and the request that a payload in one of
  them makes are arguments; what was sent is returned beside the result. Texts for the operator are values
  that hold what they say.

  \<open>completed_only_by_oracle\<close>, \<open>sends_within_ceiling\<close>, \<open>payload_in_contract\<close> and
  \<open>declaration_narrows\<close> are the properties.
\<close>

section \<open>Profiles and declarations\<close>

definition read_only :: string where "read_only = ''read_only''"
definition destructive_level :: string where "destructive_level = ''destructive''"

record objective_profile =
  vulnerability_class :: string
  action_class :: string
  oracle_kind :: string
  max_completion_requests :: int
  requires_mutating_authorization :: bool
  mutation_level :: string

definition ssti_file_delete :: objective_profile where
  "ssti_file_delete = \<lparr>vulnerability_class = ''ssti'', action_class = ''file_delete'', oracle_kind = ''file_absent'',
     max_completion_requests = 2, requires_mutating_authorization = True, mutation_level = destructive_level\<rparr>"

definition access_admin_read :: objective_profile where
  "access_admin_read = \<lparr>vulnerability_class = ''idor'', action_class = ''http_get'', oracle_kind = ''content_present'',
     max_completion_requests = 2, requires_mutating_authorization = False, mutation_level = read_only\<rparr>"

definition profile_registry :: "(string \<times> objective_profile) list" where
  "profile_registry = [(vulnerability_class ssti_file_delete, ssti_file_delete),
     (vulnerability_class access_admin_read, access_admin_read)]"

definition profiles_by_name :: "(string \<times> objective_profile) list" where
  "profiles_by_name = [(''ssti_file_delete'', ssti_file_delete), (''access_admin_read'', access_admin_read)]"

definition resolve_profile :: "string option \<Rightarrow> objective_profile option" where
  "resolve_profile c = (case c of None \<Rightarrow> None | Some s \<Rightarrow>
     if s = [] then None else dict_get profile_registry (py_lower (py_strip s)))"

record objective_task =
  task_profile :: objective_profile
  target_path :: string
  oracle_url :: string
  oracle_marker :: string
  destructive_opt_in :: bool

record objective_decl =
  profile_name :: string
  d_target_path :: string
  d_action_class :: string
  d_mutation_level :: string
  d_oracle :: string
  d_oracle_url :: string
  d_oracle_marker :: string
  d_max_requests :: int

datatype decl_error = NotAnObject | UnknownProfile string | BadEndState | TargetMissing
  | Differs string string string | BadCeilings | CeilingOutOfRange int

fun py_truthy :: "json \<Rightarrow> bool" where
  "py_truthy JNull = False"
| "py_truthy (JBool b) = b"
| "py_truthy (JInt n) = (n \<noteq> 0)"
| "py_truthy (JFloat x) = (x \<noteq> 0)"
| "py_truthy (JStr s) = (s \<noteq> [])"
| "py_truthy (JList xs) = (xs \<noteq> [])"
| "py_truthy (JObj kvs) = (kvs \<noteq> [])"

text \<open>\<open>str(value or "")\<close>; the argument is \<open>str\<close> on values that are not strings.\<close>

definition str_or_empty :: "(json \<Rightarrow> string) \<Rightarrow> json option \<Rightarrow> string" where
  "str_or_empty show v = (case v of None \<Rightarrow> [] | Some (JStr s) \<Rightarrow> s | Some x \<Rightarrow> if py_truthy x then show x else [])"

text \<open>\<open>data.get(key) or {}\<close>, when that is an object.\<close>

definition section_of :: "json option \<Rightarrow> (string \<times> json) list option" where
  "section_of v = (case v of None \<Rightarrow> Some [] | Some (JObj kvs) \<Rightarrow> Some kvs | Some x \<Rightarrow> if py_truthy x then None else Some [])"

definition declared_ceiling :: "objective_profile \<Rightarrow> json option \<Rightarrow> int option" where
  "declared_ceiling p v = (case v of
     None \<Rightarrow> Some (max_completion_requests p)
   | Some (JInt n) \<Rightarrow> if 1 \<le> n \<and> n \<le> max_completion_requests p then Some n else None
   | Some _ \<Rightarrow> None)"

definition from_mapping :: "(json \<Rightarrow> string) \<Rightarrow> json \<Rightarrow> decl_error + objective_decl" where
  "from_mapping show data = (case data of
     JObj kvs \<Rightarrow>
       (let name = py_lower (py_strip (str_or_empty show (dict_get kvs ''profile''))) in
        case dict_get profiles_by_name name of
          None \<Rightarrow> Inl (UnknownProfile name)
        | Some p \<Rightarrow>
           (case section_of (dict_get kvs ''required_end_state'') of
              None \<Rightarrow> Inl BadEndState
            | Some end_state \<Rightarrow>
               (let target = py_strip (str_or_empty show (dict_get end_state ''target_path''));
                    action = str_or_empty show (dict_get kvs ''action_class'');
                    level = str_or_empty show (dict_get kvs ''mutation_level'');
                    orac = str_or_empty show (dict_get kvs ''oracle'') in
                if target = [] then Inl TargetMissing
                else if action \<noteq> action_class p then Inl (Differs ''action_class'' (action_class p) action)
                else if level \<noteq> mutation_level p then Inl (Differs ''mutation_level'' (mutation_level p) level)
                else if orac \<noteq> oracle_kind p then Inl (Differs ''oracle'' (oracle_kind p) orac)
                else case section_of (dict_get kvs ''ceilings'') of
                  None \<Rightarrow> Inl BadCeilings
                | Some ceilings \<Rightarrow>
                   (case declared_ceiling p (dict_get ceilings ''max_completion_requests'') of
                      None \<Rightarrow> Inl (CeilingOutOfRange (max_completion_requests p))
                    | Some n \<Rightarrow> Inr \<lparr>profile_name = name, d_target_path = target, d_action_class = action,
                        d_mutation_level = level, d_oracle = orac,
                        d_oracle_url = str_or_empty show (dict_get end_state ''oracle_url''),
                        d_oracle_marker = str_or_empty show (dict_get end_state ''oracle_marker''), d_max_requests = n\<rparr>))))
   | _ \<Rightarrow> Inl NotAnObject)"

text \<open>A declaration names a registered profile (looking up another raises, None here).\<close>

definition to_task :: "bool \<Rightarrow> objective_decl \<Rightarrow> objective_task option" where
  "to_task allow d = map_option (\<lambda>p.
     \<lparr>task_profile = p\<lparr>max_completion_requests := d_max_requests d\<rparr>, target_path = d_target_path d,
      oracle_url = d_oracle_url d, oracle_marker = d_oracle_marker d,
      destructive_opt_in = (allow \<and> d_mutation_level d = destructive_level)\<rparr>) (dict_get profiles_by_name (profile_name d))"

section \<open>Payloads\<close>

definition after_prefix :: "string \<Rightarrow> string \<Rightarrow> string option" where
  "after_prefix p s = (if starts_with p s then Some (drop (length p) s) else None)"

definition skip_space :: "string \<Rightarrow> string" where
  "skip_space s = dropWhile is_space s"

definition quote1 :: char where "quote1 = CHR 0x27"
definition quote2 :: char where "quote2 = CHR 0x22"

definition file_delete_payload :: "string \<Rightarrow> string" where
  "file_delete_payload target = ''<%= File.delete('' @ [quote1] @ target @ [quote1] @ '') rescue nil; '' @ [quote1] @ ''deleted'' @
     [quote1] @ '' %>''"

definition target_char :: "char \<Rightarrow> bool" where
  "target_char c \<longleftrightarrow> \<not> List.member ([quote1, quote2, CHR 0x60] @ ''<>;$|&'') c"

text \<open>The pattern of \<open>file_delete\<close>, on a stripped text: the target it names. No part of it can give back what
  the next one needs, so it is read from left to right.\<close>

definition match_file_delete :: "string \<Rightarrow> string option" where
  "match_file_delete s =
     Option.bind (after_prefix ''<%='' s) (\<lambda>a.
     Option.bind (after_prefix (''File.delete('' @ [quote1]) (skip_space a)) (\<lambda>b.
     let target = takeWhile target_char b in
     if target = [] then None
     else Option.bind (after_prefix ([quote1] @ '')'') (dropWhile target_char b)) (\<lambda>c.
     Option.bind (after_prefix ''rescue'' (skip_space c)) (\<lambda>d.
     Option.bind (after_prefix ''nil;'' (skip_space d)) (\<lambda>e.
     case skip_space e of [] \<Rightarrow> None | q # f \<Rightarrow>
       if q \<noteq> quote1 \<and> q \<noteq> quote2 then None
       else Option.bind (after_prefix ''deleted'' f) (\<lambda>g. case g of [] \<Rightarrow> None | r # h \<Rightarrow>
         if r \<noteq> quote1 \<and> r \<noteq> quote2 then None
         else if skip_space h = ''%>'' then Some target else None))))))"

definition exactly :: "string \<Rightarrow> rx" where
  "exactly s = seqs (map (\<lambda>c. CharSet (\<lambda>x. x = c)) s)"

definition optional_rx :: "rx \<Rightarrow> rx" where
  "optional_rx r = Alt r Eps"

definition alnum :: "char \<Rightarrow> bool" where
  "alnum c \<longleftrightarrow> is_alpha c \<or> is_digit c"

definition http_target_pattern :: rx where
  "http_target_pattern = (let d = CharSet is_digit; o1 = optional_rx d in
     seqs [exactly ''http'', optional_rx (exactly ''s''), exactly ''://'', plus (CharSet (\<lambda>c. alnum c \<or> List.member ''.-'' c)),
       optional_rx (seqs [exactly '':'', d, o1, o1, o1, o1]),
       optional_rx (Seq (exactly ''/'') (Star (CharSet (\<lambda>c. alnum c \<or> List.member ''_-./'' c)))),
       optional_rx (Seq (exactly ''?'') (Star (CharSet (\<lambda>c. alnum c \<or> List.member ''_-.=&'' c)))), EndOfText])"

definition rx_match :: "rx \<Rightarrow> string \<Rightarrow> bool" where
  "rx_match r s \<longleftrightarrow> ends r ([], s) \<noteq> []"

definition action_classes :: "string list" where
  "action_classes = [''file_delete'', ''http_get'']"

definition static_payload :: "string \<Rightarrow> string \<Rightarrow> string option" where
  "static_payload action target =
     (if action = ''file_delete'' then Some (file_delete_payload target)
      else if action = ''http_get'' then Some target else None)"

text \<open>What the language model drafts: a text that is not blank, or nothing when it fails.\<close>

type_synonym drafter = "string \<Rightarrow> string \<Rightarrow> string option"

definition propose_payload :: "drafter option \<Rightarrow> string \<Rightarrow> string \<Rightarrow> string option" where
  "propose_payload provider action target = (case provider of None \<Rightarrow> None | Some ask \<Rightarrow>
     (case ask action target of None \<Rightarrow> None | Some p \<Rightarrow> if py_strip p = [] then None else Some p))"

text \<open>Only the pattern of \<open>file_delete\<close> has a target to name; for the other class the code would raise, but a
  direct action never comes here.\<close>

definition validate_proposal :: "string \<Rightarrow> string \<Rightarrow> string option \<Rightarrow> string option" where
  "validate_proposal action target proposed = (case proposed of
     None \<Rightarrow> static_payload action target
   | Some p \<Rightarrow>
       if action \<noteq> ''file_delete'' \<or> p = [] then static_payload action target
       else if match_file_delete (py_strip p) = Some target then Some (py_strip p)
       else static_payload action target)"


section \<open>The action and its oracle\<close>

datatype completion_status = Completed | NotCompleted | NotAttempted | PolicyBlocked | CompletionError

text \<open>What a summary says.\<close>

datatype completion_note = NoTask | NotConfirmedYet | OtherClass string string | NoTarget | NoTemplate string
  | NeedsOptIn string string | CeilingTooLow int int | NoRunContext | NoParameter | GateRefused | SendDeclined string
  | SendFailed string | TargetShape string | Satisfied string string | EndStateNotReached string | NotVerifiable

record completion_result =
  status :: completion_status
  result_action :: string
  summary :: completion_note
  result_payload :: string
  requests_used :: int

text \<open>\<open>TypedRequest\<close> and \<open>ExecutionOutcome\<close>; \<open>GateBlocked\<close> is the gate's exception. What the executor answers may
  differ from one call to the next, so it is also given the number of calls before.\<close>

record typed_request =
  req_method :: string
  req_url :: string
  req_headers :: "(string \<times> string) list"
  req_body :: string

record execution_outcome =
  outcome :: string
  status_code :: "int option"
  resp_body :: string

datatype gate_reply = GateBlocked | Replied execution_outcome

type_synonym executor = "nat \<Rightarrow> typed_request \<Rightarrow> gate_reply"

definition ok :: "execution_outcome \<Rightarrow> bool" where
  "ok x \<longleftrightarrow> outcome x = ''ok''"

definition executed :: "execution_outcome \<Rightarrow> bool" where
  "executed x \<longleftrightarrow> List.member [''ok'', ''error''] (outcome x)"

definition get_request :: "string \<Rightarrow> typed_request" where
  "get_request url = \<lparr>req_method = ''GET'', req_url = url, req_headers = [], req_body = []\<rparr>"

text \<open>\<open>_check_oracle\<close>, with the requests it made of the executor.\<close>

definition oracle_verdict :: "string \<Rightarrow> objective_task \<Rightarrow> gate_reply \<Rightarrow> bool option" where
  "oracle_verdict kind t r = (case r of GateBlocked \<Rightarrow> None | Replied x \<Rightarrow>
     if kind = ''file_absent'' then (if \<not> ok x then None else Some (contains_str ''absent'' (py_lower (resp_body x))))
     else (case status_code x of None \<Rightarrow> None | Some st \<Rightarrow>
       if st \<noteq> 200 then Some False
       else if oracle_marker t \<noteq> [] then Some (contains_str (oracle_marker t) (resp_body x)) else Some True))"

definition check_oracle :: "string \<Rightarrow> objective_task \<Rightarrow> executor \<Rightarrow> nat \<Rightarrow> bool option \<times> typed_request list" where
  "check_oracle kind t ex n =
     (if \<not> List.member [''file_absent'', ''content_present''] kind \<or> oracle_url t = [] then (None, [])
      else (let r = get_request (oracle_url t) in (oracle_verdict kind t (ex n r), [r])))"

definition finish_with_oracle :: "objective_task \<Rightarrow> string \<Rightarrow> int \<Rightarrow> executor \<Rightarrow> nat
    \<Rightarrow> completion_result \<times> typed_request list" where
  "finish_with_oracle t payload used ex n =
     (let p = task_profile t; (verdict, sends) = check_oracle (oracle_kind p) t ex n;
          total = used + (if verdict \<noteq> None then 1 else 0);
          result = (\<lambda>s note. \<lparr>status = s, result_action = action_class p, summary = note, result_payload = payload,
            requests_used = total\<rparr>) in
      (case verdict of
         Some True \<Rightarrow> result Completed (Satisfied (target_path t) (oracle_kind p))
       | Some False \<Rightarrow> result NotCompleted (EndStateNotReached (target_path t))
       | None \<Rightarrow> result NotCompleted NotVerifiable, sends))"

definition nothing_sent :: "completion_status \<Rightarrow> string \<Rightarrow> completion_note \<Rightarrow> completion_result" where
  "nothing_sent s action note = \<lparr>status = s, result_action = action, summary = note, result_payload = [], requests_used = 0\<rparr>"

text \<open>The common part of both ways to act: one send, then the oracle.\<close>

definition act :: "objective_task \<Rightarrow> string \<Rightarrow> typed_request \<Rightarrow> executor \<Rightarrow> completion_result \<times> typed_request list" where
  "act t payload req ex = (let a = action_class (task_profile t) in
     case ex 0 req of
       GateBlocked \<Rightarrow> (nothing_sent PolicyBlocked a GateRefused, [req])
     | Replied x \<Rightarrow>
         if \<not> executed x then (nothing_sent PolicyBlocked a (SendDeclined (outcome x)), [req])
         else if \<not> ok x then
           (\<lparr>status = CompletionError, result_action = a, summary = SendFailed (outcome x), result_payload = payload,
              requests_used = 1\<rparr>, [req])
         else map_prod id (\<lambda>sends. req # sends) (finish_with_oracle t payload 1 ex 1))"

definition attempt_direct_read :: "objective_task \<Rightarrow> executor \<Rightarrow> completion_result \<times> typed_request list" where
  "attempt_direct_read t ex =
     (if \<not> rx_match http_target_pattern (target_path t)
      then (nothing_sent NotAttempted (action_class (task_profile t)) (TargetShape (target_path t)), [])
      else act t (target_path t) (get_request (target_path t)) ex)"

text \<open>\<open>param_targets\<close> of the exchange is \<open>points\<close>; \<open>replay\<close> is the request that a payload at one of them makes
  (method, headers, session and \<open>mutate\<close>).\<close>

definition attempt_injection :: "objective_task \<Rightarrow> drafter option \<Rightarrow> (string \<times> string) list
    \<Rightarrow> (string \<times> string \<Rightarrow> string \<Rightarrow> typed_request) \<Rightarrow> string \<Rightarrow> executor \<Rightarrow> completion_result \<times> typed_request list" where
  "attempt_injection t provider points replay nonce ex =
     (let a = action_class (task_profile t) in
      case points of
        [] \<Rightarrow> (nothing_sent CompletionError a NoParameter, [])
      | point # _ \<Rightarrow>
         (let inner = validate_proposal a (target_path t) (propose_payload provider a (target_path t));
              payload = nonce @ (case inner of Some i \<Rightarrow> i | None \<Rightarrow> ''None'') @ nonce in
          act t payload (replay point payload) ex))"

record confirmation =
  confirmed :: bool
  finding_class :: string

definition requests_needed :: "objective_task \<Rightarrow> int" where
  "requests_needed t = 1 + (if oracle_kind (task_profile t) \<noteq> [] \<and> oracle_url t \<noteq> [] then 1 else 0)"

text \<open>The guards of \<open>attempt_completion\<close>, in their order: why nothing is attempted.\<close>

definition refusal :: "objective_task \<Rightarrow> confirmation \<Rightarrow> completion_result option" where
  "refusal t c = (let p = task_profile t in
     if \<not> confirmed c then Some (nothing_sent NotAttempted [] NotConfirmedYet)
     else if vulnerability_class p \<noteq> finding_class c
       then Some (nothing_sent NotAttempted [] (OtherClass (vulnerability_class p) (finding_class c)))
     else if target_path t = [] then Some (nothing_sent NotAttempted [] NoTarget)
     else if \<not> List.member action_classes (action_class p) then Some (nothing_sent NotAttempted [] (NoTemplate (action_class p)))
     else if mutation_level p \<noteq> read_only \<and> \<not> destructive_opt_in t
       then Some (nothing_sent NotAttempted (action_class p) (NeedsOptIn (mutation_level p) (action_class p)))
     else if max_completion_requests p < requests_needed t
       then Some (nothing_sent NotAttempted (action_class p) (CeilingTooLow (requests_needed t) (max_completion_requests p)))
     else None)"

definition attempt_completion :: "objective_task option \<Rightarrow> confirmation \<Rightarrow> executor option \<Rightarrow> drafter option
    \<Rightarrow> (string \<times> string) list \<Rightarrow> (string \<times> string \<Rightarrow> string \<Rightarrow> typed_request) \<Rightarrow> string
    \<Rightarrow> completion_result \<times> typed_request list" where
  "attempt_completion task c run provider points replay nonce = (case task of
     None \<Rightarrow> (nothing_sent NotAttempted [] NoTask, [])
   | Some t \<Rightarrow> (case refusal t c of
       Some r \<Rightarrow> (r, [])
     | None \<Rightarrow> (case run of
         None \<Rightarrow> (nothing_sent PolicyBlocked (action_class (task_profile t)) NoRunContext, [])
       | Some ex \<Rightarrow>
           if action_class (task_profile t) = ''http_get'' then attempt_direct_read t ex
           else attempt_injection t provider points replay nonce ex)))"


section \<open>What may be sent, and when an objective counts as reached\<close>

text \<open>The shape of the template, up to white space and the kind of two quotes, with the target written as it is
  between single quotes. It is a single \<open>File.delete\<close> of the target as long as the target is \<open>harmless\<close>: a quote in
  it would end the string, and what follows would be Ruby of its own.\<close>

definition harmless :: "string \<Rightarrow> bool" where
  "harmless target \<longleftrightarrow> target \<noteq> [] \<and> (\<forall>c \<in> set target. c \<notin> {quote1, quote2, CHR 0x60, CHR ''<'', CHR ''>'',
     CHR '';'', CHR ''$'', CHR ''|'', CHR ''&''})"


definition all_space :: "string \<Rightarrow> bool" where
  "all_space s \<longleftrightarrow> list_all is_space s"

definition delete_shape :: "string \<Rightarrow> string \<Rightarrow> bool" where
  "delete_shape target s \<longleftrightarrow> (\<exists>w1 w2 w3 w4 w5 q r.
     list_all all_space [w1, w2, w3, w4, w5] \<and> q \<in> {quote1, quote2} \<and> r \<in> {quote1, quote2} \<and>
     s = ''<%='' @ w1 @ ''File.delete('' @ [quote1] @ target @ [quote1] @ '')'' @ w2 @ ''rescue'' @ w3 @ ''nil;'' @ w4 @
       [q] @ ''deleted'' @ [r] @ w5 @ ''%>'')"

lemma after_prefix_some: "after_prefix p s = Some a \<longleftrightarrow> s = p @ a"
proof -
  have "s = p @ drop (length p) s" if "starts_with p s"
    using append_take_drop_id[of "length p" s] that unfolding starts_with_def by metis
  then show ?thesis by (auto simp: after_prefix_def starts_with_def)
qed

lemma skip_space_split: "\<exists>w. all_space w \<and> s = w @ skip_space s"
proof (intro exI conjI)
  show "all_space (takeWhile is_space s)" by (auto simp: all_space_def list_all_iff dest: set_takeWhileD)
  show "s = takeWhile is_space s @ skip_space s" by (simp only: skip_space_def takeWhile_dropWhile_id)
qed

lemma skip_spaces:
  assumes "all_space w" "s \<noteq> []" "\<not> is_space (hd s)"
  shows "skip_space (w @ s) = s"
  using assms by (cases s) (auto simp: all_space_def skip_space_def list_all_iff dropWhile_append3)

lemma target_taken:
  assumes "list_all target_char t" "s \<noteq> []" "\<not> target_char (hd s)"
  shows "takeWhile target_char (t @ s) = t" "dropWhile target_char (t @ s) = s"
  using assms by (cases s; simp add: list_all_iff takeWhile_append2 dropWhile_append3)+

lemma shape_fallback: "delete_shape target (file_delete_payload target)"
proof -
  have "list_all all_space ['' '', '' '', '' '', '' '', '' '']" by (simp add: all_space_def is_space_def)
  then show ?thesis
    unfolding delete_shape_def file_delete_payload_def
    by (intro exI[of _ "'' ''"] exI[of _ quote1]) simp
qed


lemma case_list_some: "(case xs of [] \<Rightarrow> None | x # ys \<Rightarrow> f x ys) = Some v \<longleftrightarrow> (\<exists>x ys. xs = x # ys \<and> f x ys = Some v)"
  by (cases xs) auto

lemma if_some:
  "(if c then None else x) = Some v \<longleftrightarrow> \<not> c \<and> x = Some v"
  "(if c then Some y else None) = Some v \<longleftrightarrow> c \<and> y = v"
  by auto

lemma match_file_delete_sound:
  assumes "match_file_delete s = Some target"
  shows "delete_shape target s \<and> target \<noteq> [] \<and> list_all target_char target"
proof -
  from assms obtain a b c d e q f r h where
    m: "s = ''<%='' @ a" "skip_space a = (''File.delete('' @ [quote1]) @ b" "takeWhile target_char b = target" "target \<noteq> []"
       "dropWhile target_char b = ([quote1] @ '')'') @ c" "skip_space c = ''rescue'' @ d" "skip_space d = ''nil;'' @ e"
       "skip_space e = q # f" "q \<in> {quote1, quote2}" "f = ''deleted'' @ r # h" "r \<in> {quote1, quote2}" "skip_space h = ''%>''"
    unfolding match_file_delete_def Let_def
    by (auto simp: bind_eq_Some_conv after_prefix_some case_list_some if_some)
  have b: "b = target @ [quote1] @ '')'' @ c"
    using takeWhile_dropWhile_id[of target_char b] m(3,5) by simp
  obtain w1 w2 w3 w4 w5 where w: "list_all all_space [w1, w2, w3, w4, w5]"
      "a = w1 @ skip_space a" "c = w2 @ skip_space c" "d = w3 @ skip_space d" "e = w4 @ skip_space e" "h = w5 @ skip_space h"
    using skip_space_split[of a] skip_space_split[of c] skip_space_split[of d] skip_space_split[of e]
      skip_space_split[of h] by auto
  have h: "h = w5 @ ''%>''" using w(6) m(12) by argo
  have e: "e = w4 @ [q] @ ''deleted'' @ [r] @ w5 @ ''%>''" using w(5) m(8,10) h by simp
  have d: "d = w3 @ ''nil;'' @ e" using w(4) m(7) by argo
  have c: "c = w2 @ ''rescue'' @ d" using w(3) m(6) by argo
  have a: "a = w1 @ ''File.delete('' @ [quote1] @ b" using w(2) m(2) by simp
  have "s = ''<%='' @ w1 @ ''File.delete('' @ [quote1] @ target @ [quote1] @ '')'' @ w2 @ ''rescue'' @ w3 @ ''nil;'' @ w4 @
       [q] @ ''deleted'' @ [r] @ w5 @ ''%>''" by (simp add: m(1) a b c d e)
  then have "delete_shape target s" unfolding delete_shape_def using w(1) m(9,11) by blast
  moreover have "list_all target_char target" using m(3) by (auto simp: list_all_iff dest: set_takeWhileD)
  ultimately show ?thesis using m(4) by simp
qed

lemma match_file_delete_complete:
  assumes "delete_shape target s" "target \<noteq> []" "list_all target_char target"
  shows "match_file_delete s = Some target"
proof -
  from assms(1) obtain w1 w2 w3 w4 w5 q r where ws: "list_all all_space [w1, w2, w3, w4, w5]"
    and q: "q \<in> {quote1, quote2}" "r \<in> {quote1, quote2}"
    and s: "s = ''<%='' @ w1 @ ''File.delete('' @ [quote1] @ target @ [quote1] @ '')'' @ w2 @ ''rescue'' @ w3 @ ''nil;'' @ w4 @
       [q] @ ''deleted'' @ [r] @ w5 @ ''%>''"
    unfolding delete_shape_def by blast
  have w: "all_space w1" "all_space w2" "all_space w3" "all_space w4" "all_space w5" using ws by simp_all
  have sp: "\<not> is_space q" "\<not> is_space r" "\<not> is_space CHR ''F''" "\<not> is_space CHR ''r''" "\<not> is_space CHR ''n''" "\<not> is_space CHR ''%''"
    using q by (auto simp: quote1_def quote2_def is_space_def)
  have t: "\<not> target_char quote1" by (simp add: target_char_def)
  note skips = skip_spaces[OF w(1)] skip_spaces[OF w(2)] skip_spaces[OF w(3)] skip_spaces[OF w(4)] skip_spaces[OF w(5)]
  note takes = target_taken[OF assms(3)]
  show ?thesis
    unfolding match_file_delete_def s
    using q assms(2) by (simp add: after_prefix_def starts_with_def skips takes sp t)
qed


lemma act_sends:
  "snd (act t payload req ex) = req # rest \<Longrightarrow> set rest \<subseteq> {get_request (oracle_url t)}"
  "\<exists>rest. snd (act t payload req ex) = req # rest"
  "length (snd (act t payload req ex)) \<le> nat (requests_needed t)"
  "requests_used (fst (act t payload req ex)) \<le> int (length (snd (act t payload req ex)))"
  by (auto simp: act_def finish_with_oracle_def check_oracle_def oracle_verdict_def requests_needed_def nothing_sent_def Let_def
      split: gate_reply.splits option.split bool.split if_splits prod.split)

lemma attempt_sends:
  "snd (attempt_injection t provider points replay nonce ex) = [] \<or>
     (\<exists>point more payload. points = point # more \<and>
       attempt_injection t provider points replay nonce ex = act t payload (replay point payload) ex)"
  "snd (attempt_direct_read t ex) = [] \<or>
     rx_match http_target_pattern (target_path t) \<and>
     attempt_direct_read t ex = act t (target_path t) (get_request (target_path t)) ex"
  by (auto simp: attempt_injection_def attempt_direct_read_def Let_def split: list.split)

text \<open>Nothing is attempted, or one of the two ways is taken with every guard passed.\<close>

lemma attempt_cases:
  obtains (quiet) "snd (attempt_completion task c run provider points replay nonce) = []"
      "status (fst (attempt_completion task c run provider points replay nonce)) \<noteq> Completed"
      "requests_used (fst (attempt_completion task c run provider points replay nonce)) = 0"
  | (taken) t ex where "task = Some t" "run = Some ex" "refusal t c = None"
      "attempt_completion task c run provider points replay nonce =
        (if action_class (task_profile t) = ''http_get'' then attempt_direct_read t ex
        else attempt_injection t provider points replay nonce ex)"
proof (cases task)
  case None
  then show ?thesis by (intro quiet) (simp_all add: attempt_completion_def nothing_sent_def)
next
  case (Some t)
  show ?thesis
  proof (cases "refusal t c")
    case r: (Some x)
    then have "status x = NotAttempted" "requests_used x = 0"
      by (auto simp: refusal_def nothing_sent_def Let_def split: if_splits)
    then show ?thesis by (intro quiet) (simp_all add: attempt_completion_def Some r)
  next
    case r: None
    show ?thesis
    proof (cases run)
      case None
      then show ?thesis by (intro quiet) (simp_all add: attempt_completion_def nothing_sent_def Some r)
    next
      case x: (Some ex)
      then show ?thesis by (intro taken[of t ex]) (simp_all add: attempt_completion_def Some r)
    qed
  qed
qed

definition end_state_shown :: "objective_task \<Rightarrow> execution_outcome \<Rightarrow> bool" where
  "end_state_shown t x \<longleftrightarrow>
     (oracle_kind (task_profile t) = ''file_absent'' \<and> ok x \<and> contains_str ''absent'' (py_lower (resp_body x))) \<or>
     (oracle_kind (task_profile t) = ''content_present'' \<and> status_code x = Some 200 \<and>
        contains_str (oracle_marker t) (resp_body x))"

lemma contains_nothing [simp]: "contains_str [] s"
  by (cases s) (simp_all add: starts_with_def)

lemma act_completed:
  "status (fst (act t payload req ex)) = Completed \<Longrightarrow> oracle_url t \<noteq> [] \<and>
     (\<exists>x. ex 1 (get_request (oracle_url t)) = Replied x \<and> end_state_shown t x)"
  by (auto simp: act_def finish_with_oracle_def check_oracle_def oracle_verdict_def nothing_sent_def end_state_shown_def Let_def
      split: gate_reply.splits option.splits bool.splits if_splits prod.splits)

lemma refusal_none:
  "refusal t c = None \<longleftrightarrow> confirmed c \<and> vulnerability_class (task_profile t) = finding_class c \<and> target_path t \<noteq> [] \<and>
     action_class (task_profile t) \<in> set action_classes \<and>
     (mutation_level (task_profile t) = read_only \<or> destructive_opt_in t) \<and>
     requests_needed t \<le> max_completion_requests (task_profile t)"
  by (auto simp: refusal_def Let_def)


lemma act_bound: "int (length (snd (act t payload req ex))) \<le> requests_needed t"
  using act_sends(3)[of t payload req ex] by (auto simp: requests_needed_def split: if_splits)

lemma attempt_bounds:
  "int (length (snd (attempt_direct_read t ex))) \<le> requests_needed t"
  "requests_used (fst (attempt_direct_read t ex)) \<le> int (length (snd (attempt_direct_read t ex)))"
  "int (length (snd (attempt_injection t provider points replay nonce ex))) \<le> requests_needed t"
  "requests_used (fst (attempt_injection t provider points replay nonce ex)) \<le>
     int (length (snd (attempt_injection t provider points replay nonce ex)))"
proof -
  have "0 \<le> requests_needed t" by (simp add: requests_needed_def)
  then show
    "int (length (snd (attempt_direct_read t ex))) \<le> requests_needed t"
    "requests_used (fst (attempt_direct_read t ex)) \<le> int (length (snd (attempt_direct_read t ex)))"
    "int (length (snd (attempt_injection t provider points replay nonce ex))) \<le> requests_needed t"
    "requests_used (fst (attempt_injection t provider points replay nonce ex)) \<le>
       int (length (snd (attempt_injection t provider points replay nonce ex)))"
    by (auto simp: attempt_direct_read_def attempt_injection_def nothing_sent_def act_bound act_sends(4) Let_def
      split: list.split)
qed

text \<open>C39: an objective is reported as completed only when a run is attached, the finding was confirmed for the
  class of the declared profile, a destructive profile was opted in to, and the request to the declared oracle
  that was made after the action showed the end state: an answer that the file is absent, or a status of 200
  with the declared marker in the body. Neither the answer to the action nor the model decides it.\<close>

theorem completed_only_by_oracle:
  assumes "status (fst (attempt_completion task c run provider points replay nonce)) = Completed"
  shows "\<exists>t ex x. task = Some t \<and> run = Some ex \<and> confirmed c \<and> vulnerability_class (task_profile t) = finding_class c \<and>
     (mutation_level (task_profile t) = read_only \<or> destructive_opt_in t) \<and> oracle_url t \<noteq> [] \<and>
     ex 1 (get_request (oracle_url t)) = Replied x \<and> end_state_shown t x"
proof (cases rule: attempt_cases[of task c run provider points replay nonce])
  case quiet
  then show ?thesis using assms by simp
next
  case (taken t ex)
  obtain payload req where "attempt_completion task c run provider points replay nonce = act t payload req ex"
    using assms taken attempt_sends(1)[of t provider points replay nonce ex] attempt_sends(2)[of t ex]
    by (auto simp: attempt_injection_def attempt_direct_read_def nothing_sent_def Let_def split: if_splits list.splits)
  then show ?thesis using act_completed[of t payload req ex] assms taken(1-3) by (auto simp: refusal_none)
qed

text \<open>whatever is declared, confirmed, drafted and answered, no more requests are made than the profile of the task allows
  (none without a task), and the number that is reported is not larger than the number that was made.\<close>

theorem sends_within_ceiling:
  "let r = attempt_completion task c run provider points replay nonce in
     int (length (snd r)) \<le> (case task of None \<Rightarrow> 0 | Some t \<Rightarrow> max 0 (max_completion_requests (task_profile t))) \<and>
     requests_used (fst r) \<le> int (length (snd r))"
proof (cases rule: attempt_cases[of task c run provider points replay nonce])
  case quiet
  then show ?thesis by (simp split: option.split)
next
  case (taken t ex)
  have "requests_needed t \<le> max_completion_requests (task_profile t)" using taken(3) by (simp add: refusal_none)
  then show ?thesis
    using taken(1,4) attempt_bounds(1,2)[of t ex] attempt_bounds(3,4)[of t provider points replay nonce ex]
    by (auto simp: Let_def split: if_splits)
qed

lemma harmless_chars: "harmless target \<longleftrightarrow> target \<noteq> [] \<and> list_all target_char target"
  by (auto simp: harmless_def list_all_iff target_char_def)

lemma payload_shape:
  "validate_proposal ''file_delete'' target proposed = Some body \<Longrightarrow> body = file_delete_payload target \<or>
     harmless target \<and> delete_shape target body \<and> (\<exists>p. proposed = Some p \<and> body = py_strip p)"
  by (auto simp: validate_proposal_def static_payload_def harmless_chars match_file_delete_sound split: option.splits if_splits)

lemma drafted: "propose_payload provider action target = Some p \<Longrightarrow> \<exists>ask. provider = Some ask \<and> ask action target = Some p"
  by (auto simp: propose_payload_def split: option.splits if_splits)

lemma validated: "\<exists>body. validate_proposal ''file_delete'' target proposed = Some body"
  by (simp add: validate_proposal_def static_payload_def split: option.split)

text \<open>C40: whatever the language model drafts, the first request carries the nonce twice around a payload, at the first
  injection point of the confirmed exchange. The payload is the built-in template with the declared target written into
  it; or it is the model's draft, and then it has the shape of that template around exactly the declared target,
  and the target has no character that could end its string or begin another command. The built-in template is used
  for any target, one with a quote included, where it does more than delete. For the reading action the first
  request is a plain GET of the declared target, which has the allowed shape. Every other request is a GET of the
  declared oracle.\<close>

theorem payload_in_contract:
  assumes "snd (attempt_completion (Some t) c run provider points replay nonce) = req # others"
  shows "set others \<subseteq> {get_request (oracle_url t)} \<and>
     (if action_class (task_profile t) = ''http_get''
      then req = get_request (target_path t) \<and> rx_match http_target_pattern (target_path t)
      else action_class (task_profile t) = ''file_delete'' \<and> points \<noteq> [] \<and>
        (\<exists>body. req = replay (hd points) (nonce @ body @ nonce) \<and>
          (body = file_delete_payload (target_path t) \<or>
           harmless (target_path t) \<and> delete_shape (target_path t) body \<and>
           (\<exists>ask p. provider = Some ask \<and> ask ''file_delete'' (target_path t) = Some p \<and> body = py_strip p))))"
proof (cases rule: attempt_cases[of "Some t" c run provider points replay nonce])
  case quiet
  then show ?thesis using assms by simp
next
  case (taken t' ex)
  then have t: "t' = t" by simp
  let ?p = "propose_payload provider (action_class (task_profile t)) (target_path t)"
  obtain body where b: "validate_proposal ''file_delete'' (target_path t) ?p = Some body" using validated by metis
  have a: "action_class (task_profile t) = ''http_get'' \<or> action_class (task_profile t) = ''file_delete''"
    using taken(3) by (auto simp: t refusal_none action_classes_def)
  have first: "snd (act t payload q ex) = req # others \<Longrightarrow> q = req \<and> set others \<subseteq> {get_request (oracle_url t)}" for payload q
    using act_sends(1,2)[of t payload q ex] by (metis list.inject)
  show ?thesis
  proof (cases "action_class (task_profile t) = ''http_get''")
    case True
    then show ?thesis using assms taken(4) first
      by (auto simp: t attempt_direct_read_def split: if_splits)
  next
    case False
    then have fd: "action_class (task_profile t) = ''file_delete''" using a by simp
    obtain point more where p: "points = point # more"
      using assms taken(4) False by (cases points) (auto simp: t attempt_injection_def Let_def)
    have "req = replay point (nonce @ body @ nonce) \<and> set others \<subseteq> {get_request (oracle_url t)}"
      using assms taken(4) False fd b first by (auto simp: t p attempt_injection_def Let_def)
    moreover from payload_shape[OF b] fd have "body = file_delete_payload (target_path t) \<or>
        harmless (target_path t) \<and> delete_shape (target_path t) body \<and>
        (\<exists>ask p. provider = Some ask \<and> ask ''file_delete'' (target_path t) = Some p \<and> body = py_strip p)"
      using drafted by fastforce
    ultimately show ?thesis using fd by (auto simp: p)
  qed
qed

lemma registered_profiles:
  "dict_get profiles_by_name name = Some p \<Longrightarrow> 1 \<le> max_completion_requests p \<and> mutation_level p \<in> {read_only, destructive_level}"
  by (auto simp: profiles_by_name_def ssti_file_delete_def access_admin_read_def split: if_splits)

text \<open>a declaration that is accepted makes a task of a registered profile with its class, action, level and oracle,
  with a ceiling from 1 to the registered one and a target; it is opted in only when the run allows destruction and the profile is
  destructive.\<close>

theorem declaration_narrows:
  assumes "from_mapping show_other data = Inr d"
  shows "\<exists>p t. dict_get profiles_by_name (profile_name d) = Some p \<and> to_task allow d = Some t \<and>
     task_profile t = p\<lparr>max_completion_requests := d_max_requests d\<rparr> \<and>
     1 \<le> d_max_requests d \<and> d_max_requests d \<le> max_completion_requests p \<and> target_path t \<noteq> [] \<and>
     destructive_opt_in t = (allow \<and> mutation_level p = destructive_level)"
  using assms
  by (auto simp: from_mapping_def to_task_def Let_def declared_ceiling_def
    dest: registered_profiles split: json.splits option.splits if_splits sum.splits)


section \<open>Concrete runs\<close>

definition sample_task :: objective_task where
  "sample_task = \<lparr>task_profile = ssti_file_delete, target_path = ''/tmp/x'', oracle_url = ''http://a/s'', oracle_marker = [],
     destructive_opt_in = True\<rparr>"

definition sample_exec :: executor where
  "sample_exec n r = Replied \<lparr>outcome = ''ok'', status_code = Some 200, resp_body = (if n = 0 then ''deleted'' else ''Absent'')\<rparr>"

definition sample_replay :: "string \<times> string \<Rightarrow> string \<Rightarrow> typed_request" where
  "sample_replay p v = \<lparr>req_method = ''POST'', req_url = ''http://a/'', req_headers = [], req_body = snd p @ ''='' @ v\<rparr>"

abbreviation objective_run :: "drafter option \<Rightarrow> completion_result \<times> typed_request list" where
  "objective_run provider \<equiv> attempt_completion (Some sample_task) \<lparr>confirmed = True, finding_class = ''ssti''\<rparr> (Some sample_exec)
     provider [(''body'', ''q'')] sample_replay ''n0''"

lemma completed_only_by_oracle_witness: "end_state_shown sample_task \<lparr>outcome = ''ok'', status_code = Some 200, resp_body = ''Absent''\<rparr>"
proof -
  have "status (fst (objective_run None)) = Completed" by code_simp
  from completed_only_by_oracle[OF this] show ?thesis by (auto simp: sample_exec_def)
qed

lemma payload_in_contract_witness:
  "hd (snd (objective_run (Some (\<lambda>a t. Some ''<%= system(1) %>'')))) =
     sample_replay (''body'', ''q'') (''n0'' @ file_delete_payload ''/tmp/x'' @ ''n0'')"
proof -
  have s: "snd (objective_run (Some (\<lambda>a t. Some ''<%= system(1) %>''))) =
     [sample_replay (''body'', ''q'') (''n0'' @ file_delete_payload ''/tmp/x'' @ ''n0''), get_request ''http://a/s'']"
    by code_simp
  have a: "action_class (task_profile sample_task) \<noteq> ''http_get''" "target_path sample_task = ''/tmp/x''" by code_simp+
  have d: "py_strip ''<%= system(1) %>'' = ''<%= system(1) %>''" "match_file_delete ''<%= system(1) %>'' = None" by code_simp+
  have "\<not> delete_shape ''/tmp/x'' ''<%= system(1) %>''"
  proof
    assume "delete_shape ''/tmp/x'' ''<%= system(1) %>''"
    moreover have "list_all target_char ''/tmp/x''" by code_simp
    ultimately show False using match_file_delete_complete[of "''/tmp/x''" "''<%= system(1) %>''"] d(2) by simp
  qed
  with payload_in_contract[OF s] a d(1) s show ?thesis by auto
qed

definition sample_declaration :: json where
  "sample_declaration = JObj [(''profile'', JStr ''SSTI_file_delete ''), (''action_class'', JStr ''file_delete''),
     (''mutation_level'', JStr ''destructive''), (''oracle'', JStr ''file_absent''),
     (''required_end_state'', JObj [(''target_path'', JStr ''/tmp/x'')]),
     (''ceilings'', JObj [(''max_completion_requests'', JInt 1)])]"

definition sample_decl :: objective_decl where
  "sample_decl = \<lparr>profile_name = ''ssti_file_delete'', d_target_path = ''/tmp/x'', d_action_class = ''file_delete'',
     d_mutation_level = ''destructive'', d_oracle = ''file_absent'', d_oracle_url = [], d_oracle_marker = [], d_max_requests = 1\<rparr>"

lemma declaration_narrows_witness:
  "\<exists>t. to_task False sample_decl = Some t \<and> max_completion_requests (task_profile t) = 1 \<and> \<not> destructive_opt_in t"
proof -
  have "from_mapping (\<lambda>_. []) sample_declaration = Inr sample_decl" by code_simp
  from declaration_narrows[OF this, of False] show ?thesis by (auto simp: sample_decl_def)
qed

section \<open>What the code does beside its comments\<close>

text \<open>An oracle request that fails is not counted in \<open>requests_used\<close>, and the summary then says that no oracle was
  declared.\<close>

lemma failed_oracle_uncounted:
  "let r = attempt_completion (Some sample_task) \<lparr>confirmed = True, finding_class = ''ssti''\<rparr>
       (Some (\<lambda>n q. if n = 0 then sample_exec 0 q else Replied \<lparr>outcome = ''error'', status_code = None, resp_body = []\<rparr>))
       None [(''body'', ''q'')] sample_replay ''n0'' in
     length (snd r) = 2 \<and> requests_used (fst r) = 1 \<and> summary (fst r) = NotVerifiable"
  by code_simp

text \<open>The fallback is not held to the pattern a proposal must match: a target with a quote closes the string.\<close>

lemma fallback_unchecked:
  "validate_proposal ''file_delete'' [CHR ''x'', quote1, CHR '';''] None = Some (file_delete_payload [CHR ''x'', quote1, CHR '';'']) \<and>
   match_file_delete (file_delete_payload [CHR ''x'', quote1, CHR '';'']) = None"
  by code_simp

text \<open>A target that ends in a newline passes the pattern of \<open>http_get\<close>.\<close>

lemma newline_target: "rx_match http_target_pattern (''http://a/'' @ [CHR 0x0A])"
  by code_simp

end
