(* ===== verification/EndpointPaths.thy ===== *)
theory EndpointPaths
  imports Url
begin

text \<open>
  The route a URL stands for (\<open>normalize_path\<close> of \<open>engagement.py\<close>): object ids in its path are collapsed, so that
  two objects of one endpoint share a key. The run transport keys its circuits by it, and the issues group by it.
\<close>

definition is_uuid :: "string \<Rightarrow> bool" where
  "is_uuid s \<longleftrightarrow> map length (split_on CHR ''-'' s) = [8, 4, 4, 4, 12] \<and> list_all (list_all is_hex) (split_on CHR ''-'' s)"

definition is_object_id_segment :: "string \<Rightarrow> bool" where
  "is_object_id_segment s \<longleftrightarrow> all_digits s \<or> (length s \<ge> 12 \<and> list_all is_hex s) \<or> is_uuid s"

definition template_object_ids :: "string \<Rightarrow> string" where
  "template_object_ids path = (case split_on CHR ''/'' path of [] \<Rightarrow> []
     | w # ws \<Rightarrow> join_with ''/'' (w # map (\<lambda>s. if is_object_id_segment s then ''{id}'' else s) ws))"

text \<open>The URL of a request has been split before.\<close>

definition normalize_path :: "string \<Rightarrow> string" where
  "normalize_path s =
     (let p = (if contains_str ''://'' s then list_or (case urlsplit s of None \<Rightarrow> [] | Some u \<Rightarrow> u_path u) ''/''
               else fst (partition_at CHR ''#'' (fst (partition_at CHR ''?'' s))));
          t = template_object_ids p;
          t' = (if length t > 1 \<and> ends_with ''/'' t then butlast t else t)
      in list_or t' ''/'')"

end
