(* ===== verification/RunTransport.thy ===== *)
theory RunTransport
  imports SessionFreshness ObjectiveCompletion EndpointPaths "HOL-Library.Multiset"
begin

text \<open>
  The one way a run sends (\<open>TargetTransport\<close> of \<open>run_context.py\<close>, with \<open>urljoin\<close>): every hop of a request passes the scope, the path policy, the route circuit, the safety gate
  and the budget, and credentials go along only to the origins of their session; what the answers say of
  a session leads to a probe, a refresh or its end. One call runs at a time. The clients, the clocks, the
  cancellation and the refresh of a login are an environment; passive observers of answers (server errors, the route feed,
  self-ownership, counters of sends) are left out. An empty body and no body are the same. The id of a session is the name it
  is registered under. A \<open>Location\<close> has no control characters.

  \<open>every_send_authorized\<close>, \<open>credentials_stay_home\<close> and \<open>sends_of_a_call\<close> are the properties.
\<close>

section \<open>Joining URLs\<close>

definition split_params :: "string \<Rightarrow> string \<times> string" where
  "split_params p =
     (let final = after_last CHR ''/'' p; front = take (length p - length final) p in
      case partition_at CHR '';'' final of (a, semi, b) \<Rightarrow> if semi then (front @ a, b) else (p, []))"

text \<open>\<open>urlunparse\<close>, with an authority.\<close>

definition url_unparse :: "string \<Rightarrow> string \<Rightarrow> string \<Rightarrow> string \<Rightarrow> string \<Rightarrow> string \<Rightarrow> string" where
  "url_unparse scheme netloc path params query fragment =
     (let p = (if params \<noteq> [] then path @ '';'' @ params else path);
          p' = (if p \<noteq> [] \<and> hd p \<noteq> CHR ''/'' then ''/'' @ p else p) in
      scheme @ ''://'' @ netloc @ p' @ (if query \<noteq> [] then ''?'' @ query else []) @
        (if fragment \<noteq> [] then ''#'' @ fragment else []))"

definition middle_filtered :: "string list \<Rightarrow> string list" where
  "middle_filtered xs = (if length xs < 2 then xs
     else [hd xs] @ filter (\<lambda>w. w \<noteq> []) (butlast (tl xs)) @ [List.last xs])"

fun resolve_dots :: "string list \<Rightarrow> string list \<Rightarrow> string list" where
  "resolve_dots acc [] = rev acc"
| "resolve_dots acc (w # ws) =
     (if w = ''..'' then resolve_dots (tl acc) ws
      else if w = ''.'' then resolve_dots acc ws
      else resolve_dots (w # acc) ws)"

text \<open>\<open>urljoin\<close> on a base with scheme \<open>http\<close> or \<open>https\<close> and an authority; None where \<open>urlparse\<close> raises.\<close>

definition urljoin :: "string \<Rightarrow> string \<Rightarrow> string option" where
  "urljoin base url =
     (if base = [] then Some url else if url = [] then Some base
      else Option.bind (urlsplit base) (\<lambda>b. Option.bind (urlsplit url) (\<lambda>u.
        let (bpath, bparams) = split_params (u_path b); (path, params) = split_params (u_path u);
            scheme = list_or (u_scheme u) (u_scheme b) in
        if scheme \<noteq> u_scheme b \<or> \<not> List.member [''http'', ''https''] scheme then Some url
        else if u_netloc u \<noteq> [] then Some (url_unparse scheme (u_netloc u) path params (u_query u) (u_fragment u))
        else if path = [] \<and> params = [] then
          Some (url_unparse scheme (u_netloc b) bpath bparams (list_or (u_query u) (u_query b)) (u_fragment u))
        else (let parts = split_on CHR ''/'' bpath;
                  base_parts = (if List.last parts \<noteq> [] then butlast parts else parts);
                  segments = (if take 1 path = ''/'' then split_on CHR ''/'' path
                    else middle_filtered (base_parts @ split_on CHR ''/'' path));
                  resolved = resolve_dots [] segments @ (if List.member [''.'', ''..''] (List.last segments) then [[]] else [])
              in Some (url_unparse scheme (u_netloc b) (list_or (join_with ''/'' resolved) ''/'') params (u_query u)
                   (u_fragment u))))))"

section \<open>Route keys\<close>

definition route_key_for :: "string \<Rightarrow> string \<Rightarrow> managed_session option \<Rightarrow> route" where
  "route_key_for meth url session = (py_upper (list_or meth ''GET''), origin_of url, normalize_path url,
     case session of None \<Rightarrow> [] | Some s \<Rightarrow> if List.member (ms_origins s) (origin_of url) then ms_principal s else [])"

section \<open>A run\<close>

text \<open>\<open>ScopePolicy\<close>, and \<open>HostAllowScope\<close> when an empty list may admit everything.\<close>

record scope_policy =
  sp_hosts :: scope_config
  sp_allow_unset :: bool

definition in_scope :: "scope_policy \<Rightarrow> string \<Rightarrow> bool" where
  "in_scope p url = scope_matches url (sp_hosts p) False (sp_allow_unset p) (Some [''http'', ''https''])"

record transport_config =
  tc_cooldown :: real
  tc_threshold :: int
  tc_max_refreshes :: int
  tc_probe_path :: string
  tc_probe_method :: string
  tc_probe_expect :: "int list"
  tc_freshness :: freshness_config

text \<open>What a client is given: the client is the one of a session or the shared one.\<close>

record wire_request =
  w_method :: string
  w_url :: string
  w_headers :: header_map
  w_body :: string
  w_client :: "string option"

record http_answer =
  h_status :: int
  h_location :: string
  h_body :: string

datatype wire_answer = RefusedAtConnect | SendFailure string | Answered http_answer

datatype evidence_kind = PlannedAction | AuthorizationDecision | ExecutionRecord

record evidence_entry =
  ee_kind :: evidence_kind
  ee_finding :: string
  ee_case :: string
  ee_outcome :: string
  ee_url :: string

record run_state =
  rs_scope :: scope_policy
  rs_policy :: request_policy
  rs_config :: transport_config
  rs_gate :: gate
  rs_budget :: request_budget
  rs_sessions :: session_manager
  rs_health :: transport_health
  rs_tracks :: tracks
  rs_wires :: "wire_request list"
  rs_evidence :: "evidence_entry list"
  rs_tick :: nat

text \<open>Every reading of a clock (monotonic or of the wall) or of the cancellation has a number; the answer of a client depends on how many
  requests were given to clients before.\<close>

record run_env =
  env_answer :: "nat \<Rightarrow> wire_request \<Rightarrow> wire_answer"
  env_clock :: "nat \<Rightarrow> real"
  env_wall :: "nat \<Rightarrow> real"
  env_cancelled :: "nat \<Rightarrow> bool"
  env_refresh :: "string \<Rightarrow> nat \<Rightarrow> header_map option"

definition ticked :: "run_state \<Rightarrow> run_state" where
  "ticked s = s\<lparr>rs_tick := rs_tick s + 1\<rparr>"

definition now_of :: "run_env \<Rightarrow> run_state \<Rightarrow> real" where
  "now_of env s = env_clock env (rs_tick s)"

definition wall_of :: "run_env \<Rightarrow> run_state \<Rightarrow> real" where
  "wall_of env s = env_wall env (rs_tick s)"

record call =
  c_capability :: string
  c_session :: "string option"
  c_key :: string
  c_case :: string
  c_cleanup :: bool

record full_outcome = execution_outcome +
  final_url :: string
  artifact_tag :: string

definition finding_ref :: "call \<Rightarrow> string" where
  "finding_ref c = list_or (c_key c) (c_case c)"

definition health_capability :: string where "health_capability = ''session_health''"


section \<open>Before a send\<close>

text \<open>\<open>_artifact\<close>: the record of an outcome, kept when the call belongs to a case.\<close>

definition is_executed_tag :: "string \<Rightarrow> bool" where
  "is_executed_tag tag \<longleftrightarrow> tag = ''ok'' \<or> starts_with ''error:'' tag \<or> tag = ''redirect_limit''"

definition note_outcome :: "call \<Rightarrow> string \<Rightarrow> string \<Rightarrow> run_state \<Rightarrow> run_state" where
  "note_outcome c tag url s = (if c_case c = [] then s else s\<lparr>rs_evidence := rs_evidence s @
     [\<lparr>ee_kind = (if is_executed_tag tag then ExecutionRecord else AuthorizationDecision), ee_finding = finding_ref c,
       ee_case = c_case c, ee_outcome = tag, ee_url = url\<rparr>]\<rparr>)"

definition conclude :: "call \<Rightarrow> string \<Rightarrow> string \<Rightarrow> int option \<Rightarrow> string \<Rightarrow> string \<Rightarrow> run_state \<Rightarrow> full_outcome \<times> run_state" where
  "conclude c out tag st body url s =
     (\<lparr>outcome = out, status_code = st, resp_body = body, final_url = url, artifact_tag = tag\<rparr>, note_outcome c tag url s)"

definition denied :: "call \<Rightarrow> string \<Rightarrow> string \<Rightarrow> string \<Rightarrow> run_state \<Rightarrow> full_outcome option \<times> run_state" where
  "denied c out tag url s = map_prod Some id (conclude c out tag None [] url s)"

definition session_of :: "call \<Rightarrow> run_state \<Rightarrow> managed_session option" where
  "session_of c s = get_session (c_session c) (rs_sessions s)"

text \<open>The checks of one hop, in their order: None when the request may go out, with its reservation made.\<close>

definition clear_hop :: "run_env \<Rightarrow> call \<Rightarrow> string \<Rightarrow> string \<Rightarrow> string \<Rightarrow> run_state \<Rightarrow> full_outcome option \<times> run_state" where
  "clear_hop env c meth url body s0 =
     (let s = ticked s0 in
      if env_cancelled env (rs_tick s0) \<and> \<not> c_cleanup c then denied c ''cancelled'' ''cancelled'' url s
      else if \<not> in_scope (rs_scope s) url then denied c ''out_of_scope'' ''out_of_scope'' url s
      else if denial_reason (rs_policy s) url \<noteq> [] then denied c ''blocked'' ''blocked'' url s
      else (case route_blocked (route_key_for meth url (session_of c s)) (tc_cooldown (rs_config s)) (now_of env s)
          (rs_health s) of (blocked, h) \<Rightarrow>
        let s1 = (ticked s)\<lparr>rs_health := h\<rparr> in
        if blocked then denied c ''route_unavailable'' ''route_unavailable'' url s1
        else (case authorize (now_of env s1) (c_capability c) meth url (Some body)
            (if c_key c = [] then None else Some (c_key c)) 1 (rs_gate s1) of (d, g) \<Rightarrow>
          let s2 = (ticked s1)\<lparr>rs_gate := g\<rparr> in
          if \<not> allowed d then denied c ''blocked'' ''blocked'' url s2
          else (case budget_reserve 1 (c_capability c) (rs_budget s2) of (granted, b) \<Rightarrow>
            let s3 = s2\<lparr>rs_budget := b\<rparr> in
            if \<not> granted then denied c ''budget_exhausted'' ''budget_exhausted'' url s3 else (None, s3)))))"

section \<open>A send\<close>

definition credential_destination :: "managed_session option \<Rightarrow> string \<Rightarrow> bool" where
  "credential_destination session url = (case session of None \<Rightarrow> False
     | Some t \<Rightarrow> List.member (ms_origins t) (origin_of url))"

definition withheld :: "managed_session option \<Rightarrow> string \<Rightarrow> bool" where
  "withheld session k = (if session = None then is_identity_credential_header k else is_credential_header k)"

text \<open>\<open>d.setdefault(k, v)\<close> for each header of the session.\<close>

definition set_defaults :: "header_map \<Rightarrow> header_map \<Rightarrow> header_map" where
  "set_defaults defaults d = foldl (\<lambda>acc (k, v). if dict_get acc k = None then acc @ [(k, v)] else acc) d defaults"

definition send_headers :: "managed_session option \<Rightarrow> string \<Rightarrow> header_map \<Rightarrow> header_map" where
  "send_headers session url hs =
     (let dest = credential_destination session url; own = filter (\<lambda>(k, v). dest \<or> \<not> withheld session k) hs in
      case session of Some t \<Rightarrow> if dest then set_defaults (ms_headers t) own else own | None \<Rightarrow> own)"

definition wire_of :: "call \<Rightarrow> string \<Rightarrow> string \<Rightarrow> header_map \<Rightarrow> string \<Rightarrow> run_state \<Rightarrow> wire_request" where
  "wire_of c meth url hs body s = \<lparr>w_method = meth, w_url = url, w_headers = send_headers (session_of c s) url hs,
     w_body = body, w_client = (if credential_destination (session_of c s) url then c_session c else None)\<rparr>"

definition put_on_wire :: "wire_request \<Rightarrow> run_state \<Rightarrow> run_state" where
  "put_on_wire w s = s\<lparr>rs_wires := rs_wires s @ [w]\<rparr>"

definition route_feedback :: "run_env \<Rightarrow> call \<Rightarrow> string \<Rightarrow> string \<Rightarrow> int \<Rightarrow> run_state \<Rightarrow> run_state" where
  "route_feedback env c meth url st s = (ticked s)\<lparr>rs_health :=
     route_observed (route_key_for meth url (session_of c s)) st (tc_threshold (rs_config s)) (now_of env s) (rs_health s)\<rparr>"

datatype transport_exc = BadLocation

type_synonym feedback = "string \<Rightarrow> string \<Rightarrow> string \<Rightarrow> int \<Rightarrow> run_state \<Rightarrow> run_state"

definition redirect_codes :: "int list" where "redirect_codes = [301, 302, 303, 307, 308]"
definition redirect_to_get :: "int list" where "redirect_to_get = [301, 302, 303]"

text \<open>The loop over hops, with the number of them that are left. \<open>feedback\<close> is what an answer to the session's
  credentials sets off.\<close>

fun hops :: "run_env \<Rightarrow> feedback \<Rightarrow> call \<Rightarrow> nat \<Rightarrow> string \<Rightarrow> string \<Rightarrow> header_map \<Rightarrow> string \<Rightarrow> run_state
    \<Rightarrow> (transport_exc + full_outcome) \<times> run_state" where
  "hops env feedback c 0 meth url hs body s = map_prod Inr id (conclude c ''ok'' ''redirect_limit'' None [] url s)"
| "hops env feedback c (Suc n) meth url hs body s =
     (case clear_hop env c meth url body s of
        (Some out, s1) \<Rightarrow> (Inr out, s1)
      | (None, s1) \<Rightarrow>
         (let w = wire_of c meth url hs body s1; s2 = put_on_wire w s1 in
          case env_answer env (length (rs_wires s1)) w of
            RefusedAtConnect \<Rightarrow> map_prod Inr id (conclude c ''blocked'' ''destination_blocked'' None [] url s2)
          | SendFailure kind \<Rightarrow> map_prod Inr id (conclude c ''error'' (''error:'' @ kind) None [] url s2)
          | Answered a \<Rightarrow>
             (let s3 = route_feedback env c meth url (h_status a) s2;
                  s4 = (if credential_destination (session_of c s1) url \<and> c_capability c \<noteq> health_capability
                        then feedback (option_or (c_session c) []) meth url (h_status a) s3 else s3) in
              if List.member redirect_codes (h_status a) \<and> h_location a \<noteq> [] \<and> 0 < n then
                (case urljoin url (h_location a) of
                   None \<Rightarrow> (Inl BadLocation, s4)
                 | Some next_url \<Rightarrow>
                     (let to_get = List.member redirect_to_get (h_status a) in
                      hops env feedback c n (if to_get then ''GET'' else meth) next_url []
                        (if to_get \<or> \<not> same_origin url next_url then [] else body) s4))
              else map_prod Inr id (conclude c ''ok'' ''ok'' (Some (h_status a)) (h_body a) url s4))))"

definition plan_action :: "call \<Rightarrow> string \<Rightarrow> run_state \<Rightarrow> run_state" where
  "plan_action c url s = (if c_case c = [] then s else s\<lparr>rs_evidence := rs_evidence s @
     [\<lparr>ee_kind = PlannedAction, ee_finding = finding_ref c, ee_case = c_case c, ee_outcome = [], ee_url = url\<rparr>]\<rparr>)"

text \<open>\<open>execute\<close>, up to what an answer sets off; \<open>ambient\<close> is the case of the enclosing block.\<close>

definition execute_with :: "run_env \<Rightarrow> feedback \<Rightarrow> string \<Rightarrow> typed_request \<Rightarrow> string \<Rightarrow> string option \<Rightarrow> string \<Rightarrow> int \<Rightarrow> bool
    \<Rightarrow> run_state \<Rightarrow> (transport_exc + full_outcome) \<times> run_state" where
  "execute_with env feedback ambient req capability sref key max_redirects cleanup s =
     (let c = \<lparr>c_capability = capability, c_session = sref, c_key = key, c_case = list_or ambient key, c_cleanup = cleanup\<rparr>;
          unref = (sref = None \<or> sref = Some []); url = req_url req in
      case session_of c s of
        None \<Rightarrow>
          if \<not> unref then map_prod Inr id (conclude c ''unknown_session'' ''unknown_session'' None [] url s)
          else if list_ex (\<lambda>(k, v). is_identity_credential_header k) (req_headers req)
            then map_prod Inr id (conclude c ''blocked'' ''credentials_require_session'' None [] url s)
          else hops env feedback c (nat (max_redirects + 1)) (py_upper (list_or (req_method req) ''GET'')) url (req_headers req)
            (req_body req) (plan_action c url s)
      | Some t \<Rightarrow>
          if \<not> List.member (ms_origins t) (origin_of url)
            then map_prod Inr id (conclude c ''blocked'' ''credential_destination_blocked'' None [] url s)
          else if List.member [''expired'', ''stale''] (health t)
            then map_prod Inr id (conclude c ''session_expired'' ''session_expired'' None [] url s)
          else hops env feedback c (nat (max_redirects + 1)) (py_upper (list_or (req_method req) ''GET'')) url (req_headers req)
            (req_body req) (plan_action c url s))"


section \<open>What an answer says of the session\<close>

definition with_session :: "string \<Rightarrow> (managed_session \<Rightarrow> managed_session) \<Rightarrow> run_state \<Rightarrow> run_state" where
  "with_session sid f s = s\<lparr>rs_sessions := on_session sid f (rs_sessions s)\<rparr>"

definition set_health :: "string \<Rightarrow> string \<Rightarrow> run_state \<Rightarrow> run_state" where
  "set_health sid h s = with_session sid (\<lambda>t. t\<lparr>health := h\<rparr>) s"

definition emit_event :: "health_event \<Rightarrow> run_state \<Rightarrow> run_state" where
  "emit_event e s = s\<lparr>rs_health := record_health_event e (rs_health s)\<rparr>"

definition probe_for :: "managed_session \<Rightarrow> string \<Rightarrow> run_state \<Rightarrow> health_probe option" where
  "probe_for t url s = (case own_probe t of Some p \<Rightarrow> Some p | None \<Rightarrow>
     (let cfg = rs_config s in
      if tc_probe_path cfg = [] \<or> origin_of url = [] then None
      else Some \<lparr>probe_method = py_upper (list_or (tc_probe_method cfg) ''GET''),
        probe_url = origin_of url @ tc_probe_path cfg, expect_status = tc_probe_expect cfg\<rparr>))"

datatype probe_result = ProbeOk | ProbeRejected | ProbeInconclusive

definition probe_verdict :: "health_probe \<Rightarrow> transport_exc + full_outcome \<Rightarrow> probe_result" where
  "probe_verdict p r = (case r of Inl e \<Rightarrow> ProbeInconclusive | Inr out \<Rightarrow>
     (case status_code out of None \<Rightarrow> ProbeInconclusive | Some st \<Rightarrow>
        if outcome out \<noteq> ''ok'' \<or> st \<ge> 500 then ProbeInconclusive
        else if List.member (expect_status p) st then ProbeOk else ProbeRejected))"

text \<open>The probe is a call of its own; its answer sets off nothing (\<open>health_sets_off_nothing\<close> below).\<close>

definition run_health_probe :: "run_env \<Rightarrow> string \<Rightarrow> health_probe \<Rightarrow> run_state \<Rightarrow> probe_result \<times> run_state" where
  "run_health_probe env sid p s =
     (case execute_with env (\<lambda>_ _ _ _ x. x) []
        \<lparr>req_method = probe_method p, req_url = probe_url p, req_headers = [], req_body = []\<rparr>
        health_capability (Some sid) [] 0 False s of
      (r, s') \<Rightarrow> (probe_verdict p r, s'))"

text \<open>\<open>_refresh_fn\<close>: None when it raises or has nothing.\<close>

definition ask_refresh :: "run_env \<Rightarrow> string \<Rightarrow> run_state \<Rightarrow> header_map option \<times> run_state" where
  "ask_refresh env sid s = (case env_refresh env sid (rs_tick s) of
     None \<Rightarrow> (None, ticked s) | Some hs \<Rightarrow> (if hs = [] then None else Some hs, ticked s))"

definition may_refresh :: "managed_session \<Rightarrow> run_state \<Rightarrow> bool" where
  "may_refresh t s \<longleftrightarrow> has_refresh t \<and> refreshes t < tc_max_refreshes (rs_config s)"

text \<open>The end of \<open>_recheck_session\<close>, after the probe was rejected.\<close>

definition expire :: "string \<Rightarrow> managed_session \<Rightarrow> run_state \<Rightarrow> run_state" where
  "expire sid t s =
     (let s' = with_session sid (\<lambda>t. t\<lparr>health := ''expired'', expiry_reported := True\<rparr>) s in
      if expiry_reported t then s' else emit_event (SessionExpired (ms_name t)) s')"

definition after_rejection :: "run_env \<Rightarrow> string \<Rightarrow> run_state \<Rightarrow> run_state" where
  "after_rejection env sid s = (case dict_get (rs_sessions s) sid of None \<Rightarrow> s | Some t \<Rightarrow>
     if may_refresh t s then
       (case ask_refresh env sid (with_session sid (\<lambda>t. t\<lparr>refreshes := refreshes t + 1\<rparr>) s) of
          (Some hs, s1) \<Rightarrow>
            ticked (with_session sid (\<lambda>t. (with_headers hs (wall_of env s1) t)\<lparr>checked_at := Some (now_of env s1)\<rparr>) s1)
        | (None, s1) \<Rightarrow>
            if refreshes t + 1 < tc_max_refreshes (rs_config s)
            then with_session sid (\<lambda>t. t\<lparr>health := ''suspect'', checked_at := None\<rparr>) s1
            else expire sid t s1)
     else expire sid t s)"

definition recheck_session :: "run_env \<Rightarrow> string \<Rightarrow> string \<Rightarrow> run_state \<Rightarrow> run_state" where
  "recheck_session env sid url s = (case dict_get (rs_sessions s) sid of None \<Rightarrow> s | Some t \<Rightarrow>
     (case probe_for t url s of
        None \<Rightarrow> if health t \<noteq> ''expired'' then set_health sid ''suspect'' s else s
      | Some p \<Rightarrow>
          (let now = now_of env s; s1 = ticked s in
           if health t = ''expired'' \<or> (case checked_at t of None \<Rightarrow> False | Some x \<Rightarrow> now - x < 30) then s1
           else (case run_health_probe env sid p (with_session sid (\<lambda>t. t\<lparr>checked_at := Some now\<rparr>) s1) of
               (ProbeOk, s2) \<Rightarrow> ticked (with_session sid (\<lambda>t. t\<lparr>health := ''healthy'', last_ok_at := wall_of env s2\<rparr>) s2)
             | (ProbeInconclusive, s2) \<Rightarrow> set_health sid ''suspect'' s2
             | (ProbeRejected, s2) \<Rightarrow> after_rejection env sid s2))))"

definition session_feedback :: "run_env \<Rightarrow> string \<Rightarrow> string \<Rightarrow> int \<Rightarrow> run_state \<Rightarrow> run_state" where
  "session_feedback env sid url st s =
     (if st < 400 then ticked (with_session sid (\<lambda>t. t\<lparr>last_ok_at := wall_of env s,
        health := (if List.member [''unverified'', ''suspect''] (health t) then ''healthy'' else health t)\<rparr>) s)
      else if st = 401 then recheck_session env sid url (with_session sid (\<lambda>t. t\<lparr>auth_failures := auth_failures t + 1\<rparr>) s)
      else s)"

definition go_stale :: "string \<Rightarrow> managed_session \<Rightarrow> run_state \<Rightarrow> run_state" where
  "go_stale sid t s = emit_event (SessionStale (ms_name t)) (set_health sid ''stale'' s)"

definition session_stale :: "run_env \<Rightarrow> string \<Rightarrow> run_state \<Rightarrow> run_state" where
  "session_stale env sid s = (case dict_get (rs_sessions s) sid of None \<Rightarrow> s | Some t \<Rightarrow>
     if List.member [''expired'', ''stale''] (health t) then s
     else if may_refresh t s then
       (case ask_refresh env sid (with_session sid (\<lambda>t. t\<lparr>refreshes := refreshes t + 1\<rparr>) s) of (fresh, s1) \<Rightarrow>
         let s2 = (case fresh of None \<Rightarrow> s1 | Some hs \<Rightarrow> with_session sid (with_headers hs (wall_of env s1)) s1);
             gen = (case dict_get (rs_sessions s2) sid of None \<Rightarrow> 0 | Some u \<Rightarrow> generation u);
             s3 = emit_event (SessionRefresh (ms_name t) (fresh \<noteq> None) (refreshes t + 1))
               (s2\<lparr>rs_tracks := reset_window sid gen (rs_tracks s2)\<rparr>) in
         if fresh \<noteq> None \<or> refreshes t + 1 < tc_max_refreshes (rs_config s) then s3 else go_stale sid t s3)
     else go_stale sid t s)"

definition freshness_feedback :: "run_env \<Rightarrow> string \<Rightarrow> string \<Rightarrow> string \<Rightarrow> int \<Rightarrow> run_state \<Rightarrow> run_state" where
  "freshness_feedback env sid meth url st s =
     (if \<not> f_enabled (tc_freshness (rs_config s)) then s
      else (case dict_get (rs_sessions s) sid of None \<Rightarrow> s | Some t \<Rightarrow>
        if List.member [''expired'', ''stale''] (health t) then s
        else (case observe_status (tc_freshness (rs_config s)) sid (generation t) meth url st (rs_tracks s) of (stale, ts) \<Rightarrow>
          let s1 = s\<lparr>rs_tracks := ts\<rparr> in if stale then session_stale env sid s1 else s1)))"

definition answer_feedback :: "run_env \<Rightarrow> feedback" where
  "answer_feedback env sid meth url st s = freshness_feedback env sid meth url st (session_feedback env sid url st s)"

definition execute :: "run_env \<Rightarrow> string \<Rightarrow> typed_request \<Rightarrow> string \<Rightarrow> string option \<Rightarrow> string \<Rightarrow> int \<Rightarrow> bool \<Rightarrow> run_state
    \<Rightarrow> (transport_exc + full_outcome) \<times> run_state" where
  "execute env = execute_with env (answer_feedback env)"

text \<open>\<open>send_creds\<close>: headers with credentials go out through the session that owns them, or through a session made for
  the origin of the URL (\<open>fresh_id\<close> is its name); a URL without an origin raises.\<close>

definition send_creds :: "run_env \<Rightarrow> string \<Rightarrow> string \<Rightarrow> typed_request \<Rightarrow> string \<Rightarrow> string \<Rightarrow> int \<Rightarrow> run_state
    \<Rightarrow> session_exc + (transport_exc + full_outcome) \<times> run_state" where
  "send_creds env ambient fresh_id req capability key max_redirects s =
     (let hs = req_headers req; cred = filter (\<lambda>(k, v). is_identity_credential_header k) hs;
          send = (\<lambda>sref left s. execute env ambient (req\<lparr>req_headers := left\<rparr>) capability sref key max_redirects False s) in
      if cred = [] then Inr (send None hs s)
      else (case bind_headers hs (rs_sessions s) of
          (Some sid, left) \<Rightarrow> Inr (send (Some sid) left s)
        | (None, _) \<Rightarrow> (case register fresh_id fresh_id cred [req_url req] ''user'' [] (rs_sessions s) of
             Inl e \<Rightarrow> Inl e
           | Inr m \<Rightarrow> Inr (send (Some fresh_id) (plain_headers hs) (s\<lparr>rs_sessions := m\<rparr>)))))"


section \<open>What every call keeps\<close>

definition statics :: "run_state \<Rightarrow> scope_policy \<times> request_policy \<times> transport_config \<times> (string \<times> string list) list" where
  "statics s = (rs_scope s, rs_policy s, rs_config s, map (\<lambda>(k, t). (k, ms_origins t)) (rs_sessions s))"

definition home_origins :: "string option \<Rightarrow> run_state \<Rightarrow> string list option" where
  "home_origins sref s = map_option ms_origins (get_session sref (rs_sessions s))"

definition wire_lawful :: "string option \<Rightarrow> run_state \<Rightarrow> wire_request \<Rightarrow> bool" where
  "wire_lawful sref s w \<longleftrightarrow> in_scope (rs_scope s) (w_url w) \<and> denial_reason (rs_policy s) (w_url w) = [] \<and>
     ((\<exists>os. home_origins sref s = Some os \<and> origin_of (w_url w) \<in> set os \<and> w_client w = sref) \<or>
      (w_client w = None \<and> (\<forall>h \<in> set (w_headers w). \<not> is_identity_credential_header (fst h) \<and>
         (home_origins sref s \<noteq> None \<longrightarrow> \<not> is_credential_header (fst h)))))"

definition send_of :: "wire_request \<Rightarrow> string \<times> string" where
  "send_of w = (w_method w, w_url w)"

definition decision_of :: "audit_entry \<Rightarrow> string \<times> string" where
  "decision_of e = (a_method e, a_url e)"

definition lawful :: "string option \<Rightarrow> run_state \<Rightarrow> run_state \<Rightarrow> bool" where
  "lawful sref s s' \<longleftrightarrow> statics s' = statics s \<and>
     (\<exists>ws es. rs_wires s' = rs_wires s @ ws \<and> audit_log (rs_gate s') = audit_log (rs_gate s) @ es \<and>
       mset (map send_of ws) \<subseteq># mset (map decision_of (filter a_allowed es)) \<and>
       b_used (rs_budget s') = b_used (rs_budget s) + int (length ws) \<and> (\<forall>w \<in> set ws. wire_lawful sref s w))"

lemma home_statics: "statics s' = statics s \<Longrightarrow> home_origins sref s' = home_origins sref s"
proof -
  have h: "map_option ms_origins (dict_get m k) = dict_get (map (\<lambda>(k, t). (k, ms_origins t)) m) k" for m k
    by (induction m) auto
  show "statics s' = statics s \<Longrightarrow> home_origins sref s' = home_origins sref s"
    by (auto simp: home_origins_def get_session_def statics_def h split: option.split)
qed

lemma wire_statics: "statics s' = statics s \<Longrightarrow> wire_lawful sref s' w = wire_lawful sref s w"
  using home_statics[of s' s sref] by (simp add: wire_lawful_def) (simp add: statics_def)

text \<open>A step that gives nothing to a client and leaves gate and budget alone.\<close>

definition quiet :: "run_state \<Rightarrow> run_state \<Rightarrow> bool" where
  "quiet s s' \<longleftrightarrow> statics s' = statics s \<and> rs_wires s' = rs_wires s \<and> rs_gate s' = rs_gate s \<and> rs_budget s' = rs_budget s"

lemma quiet_trans: "quiet s s' \<Longrightarrow> quiet s' s'' \<Longrightarrow> quiet s s''"
  by (simp add: quiet_def)

lemma quiet_lawful: "quiet s s' \<Longrightarrow> lawful sref s s'"
  by (auto simp: quiet_def lawful_def intro!: exI[of _ "[]"])

lemma lawful_trans:
  assumes "lawful sref s s'" "lawful sref s' s''"
  shows "lawful sref s s''"
proof -
  from assms(1) obtain ws es where a: "statics s' = statics s" "rs_wires s' = rs_wires s @ ws"
    "audit_log (rs_gate s') = audit_log (rs_gate s) @ es"
    "mset (map send_of ws) \<subseteq># mset (map decision_of (filter a_allowed es))"
    "b_used (rs_budget s') = b_used (rs_budget s) + int (length ws)" "\<forall>w \<in> set ws. wire_lawful sref s w"
    unfolding lawful_def by blast
  from assms(2) obtain ws' es' where b: "statics s'' = statics s'" "rs_wires s'' = rs_wires s' @ ws'"
    "audit_log (rs_gate s'') = audit_log (rs_gate s') @ es'"
    "mset (map send_of ws') \<subseteq># mset (map decision_of (filter a_allowed es'))"
    "b_used (rs_budget s'') = b_used (rs_budget s') + int (length ws')" "\<forall>w \<in> set ws'. wire_lawful sref s' w"
    unfolding lawful_def by blast
  have "mset (map send_of (ws @ ws')) \<subseteq># mset (map decision_of (filter a_allowed (es @ es')))"
    using subset_mset.add_mono[OF a(4) b(4)] by simp
  moreover have "\<forall>w \<in> set (ws @ ws'). wire_lawful sref s w" using a(6) b(6) wire_statics[OF a(1)] by auto
  ultimately show ?thesis unfolding lawful_def
    by (intro conjI exI[of _ "ws @ ws'"] exI[of _ "es @ es'"]) (simp_all add: a b)
qed

lemma quiet_ticked: "quiet s (ticked s)"
  by (simp add: quiet_def ticked_def statics_def)

lemma quiet_health: "quiet s (s\<lparr>rs_health := h\<rparr>)" "quiet s (s\<lparr>rs_tracks := ts\<rparr>)"
  by (simp_all add: quiet_def statics_def)

lemma quiet_note: "quiet s (note_outcome c tag url s)" "quiet s (plan_action c url s)"
  by (simp_all add: quiet_def statics_def note_outcome_def plan_action_def)

lemma quiet_conclude: "quiet s (snd (conclude c out tag st body url s))"
  by (simp add: conclude_def quiet_note)

lemma quiet_denied: "quiet s (snd (denied c out tag url s))"
  by (simp add: denied_def quiet_conclude)

lemma quiet_event: "quiet s (emit_event e s)"
  by (simp add: emit_event_def quiet_health)

lemma quiet_session: "(\<And>t. ms_origins (f t) = ms_origins t) \<Longrightarrow> quiet s (with_session sid f s)"
  by (auto simp: quiet_def with_session_def statics_def on_session_def)

lemma authorize_logs:
  "\<exists>e. audit_log (snd (authorize now v meth url body finding n g)) = audit_log g @ [e] \<and> a_method e = meth \<and> a_url e = url \<and>
     a_allowed e = allowed (fst (authorize now v meth url body finding n g))"
  by (simp add: authorize_def log_decision_def Let_def reserve_mutating_def split: tier.split option.split)

lemma reserve_one:
  "fst (budget_reserve 1 l b) \<Longrightarrow> b_used (snd (budget_reserve 1 l b)) = b_used b + 1"
  "\<not> fst (budget_reserve 1 l b) \<Longrightarrow> snd (budget_reserve 1 l b) = b"
  by (auto simp: budget_reserve_def Let_def split: if_splits)


section \<open>One hop\<close>

lemma authorize_logs_at:
  "authorize now v meth url body finding n g = (d, g') \<Longrightarrow>
     \<exists>e. audit_log g' = audit_log g @ [e] \<and> a_method e = meth \<and> a_url e = url \<and> a_allowed e = allowed d"
  using authorize_logs[of now v meth url body finding n g] by simp

lemma reserve_one_at:
  "budget_reserve 1 l b = (granted, b') \<Longrightarrow> b_used b' = (if granted then b_used b + 1 else b_used b)"
  using reserve_one[of l b] by (cases granted) auto

text \<open>The state when the gate has been asked, or before it.\<close>

lemma gate_asked_lawful:
  assumes "authorize now v meth url (Some body) finding 1 (rs_gate s) = (d, g)"
  shows "lawful sref s (s\<lparr>rs_gate := g\<rparr>)"
proof -
  obtain e where "audit_log g = audit_log (rs_gate s) @ [e]" using authorize_logs_at[OF assms] by blast
  then show ?thesis unfolding lawful_def by (intro conjI exI[of _ "[]"] exI[of _ "[e]"]) (simp_all add: statics_def)
qed

lemma clear_hop_passed:
  assumes "clear_hop env c meth url body s = (None, s1)"
  shows "statics s1 = statics s \<and> in_scope (rs_scope s) url \<and> denial_reason (rs_policy s) url = [] \<and>
     rs_wires s1 = rs_wires s \<and> b_used (rs_budget s1) = b_used (rs_budget s) + 1 \<and>
     (\<exists>e. audit_log (rs_gate s1) = audit_log (rs_gate s) @ [e] \<and> decision_of e = (meth, url) \<and> a_allowed e)"
  using assms
  by (auto simp: clear_hop_def Let_def denied_def conclude_def statics_def ticked_def decision_of_def
    split: if_splits prod.splits dest!: authorize_logs_at reserve_one_at)

lemma denied_lawful: "lawful sref s s' \<Longrightarrow> lawful sref s (snd (denied c out tag url s'))"
  by (rule lawful_trans[OF _ quiet_lawful[OF quiet_denied]])

lemma ticked_gate: "rs_gate (ticked s) = rs_gate s" "rs_budget (ticked s) = rs_budget s"
  by (simp_all add: ticked_def)

lemma clear_hop_denied:
  assumes "clear_hop env c meth url body s = (Some out, s1)"
  shows "lawful sref s s1"
proof -
  have q: "lawful sref s (ticked s)" by (rule quiet_lawful[OF quiet_ticked])
  have h: "lawful sref s ((ticked (ticked s))\<lparr>rs_health := h\<rparr>)" for h
    by (intro quiet_lawful quiet_trans[OF quiet_trans[OF quiet_ticked quiet_ticked] quiet_health(1)])
  have t: "lawful sref s x \<Longrightarrow> lawful sref s (ticked x)" for x
    by (rule lawful_trans[OF _ quiet_lawful[OF quiet_ticked]])
  have g: "authorize now v meth url (Some body) finding 1 (rs_gate x) = (d, g) \<Longrightarrow> lawful sref s x \<Longrightarrow>
      lawful sref s (x\<lparr>rs_gate := g\<rparr>)" for x now v finding d g
    by (rule lawful_trans[OF _ gate_asked_lawful])
  have k: "b = rs_budget x \<Longrightarrow> lawful sref s x \<Longrightarrow> lawful sref s (x\<lparr>rs_budget := b\<rparr>)" for x b
    by simp
  have d: "denied c o' tag url x = (Some out, s1) \<Longrightarrow> lawful sref s x \<longrightarrow> lawful sref s s1" for x o' tag
    using denied_lawful[of sref s x c o' tag url] by simp
  have b: "budget_reserve 1 l x = (False, b') \<Longrightarrow> b' = x" for l x b'
    using reserve_one(2)[of l x] by simp
  show ?thesis using assms unfolding clear_hop_def Let_def
    by (auto split: if_splits prod.splits simp: b ticked_gate dest!: d intro!: q h t k intro: g)
qed

lemma wire_of_lawful:
  assumes "in_scope (rs_scope s) url" "denial_reason (rs_policy s) url = []"
  shows "wire_lawful (c_session c) s (wire_of c meth url hs body s)"
  using assms
  by (auto simp: wire_lawful_def wire_of_def home_origins_def session_of_def[symmetric] credential_destination_def
    send_headers_def withheld_def Let_def is_identity_credential_header_def split: option.splits if_splits)


lemma send_lawful:
  assumes "clear_hop env c meth url body s = (None, s1)"
  shows "lawful (c_session c) s (put_on_wire (wire_of c meth url hs body s1) s1)"
proof -
  let ?w = "wire_of c meth url hs body s1"
  obtain e where p: "statics s1 = statics s" "in_scope (rs_scope s) url" "denial_reason (rs_policy s) url = []"
    "rs_wires s1 = rs_wires s" "b_used (rs_budget s1) = b_used (rs_budget s) + 1"
    "audit_log (rs_gate s1) = audit_log (rs_gate s) @ [e]" "decision_of e = (meth, url)" "a_allowed e"
    using clear_hop_passed[OF assms] by blast
  have "rs_scope s1 = rs_scope s" "rs_policy s1 = rs_policy s" using p(1) by (simp_all add: statics_def)
  then have "wire_lawful (c_session c) s ?w"
    using wire_of_lawful[of s1 url c meth hs body] p(2,3) wire_statics[OF p(1)] by simp
  moreover have "send_of ?w = decision_of e" using p(7) by (simp add: send_of_def wire_of_def)
  moreover have "statics (put_on_wire ?w s1) = statics s" using p(1) by (simp add: put_on_wire_def statics_def)
  ultimately show ?thesis unfolding lawful_def
    by (intro conjI exI[of _ "[?w]"] exI[of _ "[e]"]) (simp_all add: put_on_wire_def p(4-8))
qed

lemma route_feedback_quiet: "quiet s (route_feedback env c meth url st s)"
  by (simp add: route_feedback_def quiet_def statics_def ticked_def)

section \<open>Every call\<close>

text \<open>The states in which a hop that was cleared can end, and the ways on from there.\<close>

definition hop_ends :: "run_env \<Rightarrow> feedback \<Rightarrow> call \<Rightarrow> string \<Rightarrow> string \<Rightarrow> header_map \<Rightarrow> string \<Rightarrow> run_state \<Rightarrow> run_state set" where
  "hop_ends env feedback c meth url hs body s1 =
     (let s2 = put_on_wire (wire_of c meth url hs body s1) s1 in
      {s2} \<union> {if credential_destination (session_of c s1) url \<and> c_capability c \<noteq> health_capability
         then feedback (option_or (c_session c) []) meth url st (route_feedback env c meth url st s2)
         else route_feedback env c meth url st s2 | st. True})"

lemma hops_cases:
  obtains (stopped) out s1 where "clear_hop env c meth url body s = (Some out, s1)"
      "hops env feedback c (Suc n) meth url hs body s = (Inr out, s1)"
  | (ended) s1 x o' tag st b where "clear_hop env c meth url body s = (None, s1)" "x \<in> hop_ends env feedback c meth url hs body s1"
      "hops env feedback c (Suc n) meth url hs body s = map_prod Inr id (conclude c o' tag st b url x)"
  | (lost) s1 x where "clear_hop env c meth url body s = (None, s1)" "x \<in> hop_ends env feedback c meth url hs body s1"
      "hops env feedback c (Suc n) meth url hs body s = (Inl BadLocation, x)"
  | (followed) s1 x m u b where "clear_hop env c meth url body s = (None, s1)" "x \<in> hop_ends env feedback c meth url hs body s1"
      "hops env feedback c (Suc n) meth url hs body s = hops env feedback c n m u [] b x"
proof (cases "clear_hop env c meth url body s")
  case (Pair out s1)
  show ?thesis
  proof (cases out)
    case (Some o')
    then show ?thesis using Pair by (intro stopped[of o' s1]) simp_all
  next
    case None
    let ?w = "wire_of c meth url hs body s1" and ?s2 = "put_on_wire (wire_of c meth url hs body s1) s1"
    have ch: "clear_hop env c meth url body s = (None, s1)" using Pair None by simp
    have s2: "?s2 \<in> hop_ends env feedback c meth url hs body s1" by (simp add: hop_ends_def Let_def)
    show ?thesis
    proof (cases "env_answer env (length (rs_wires s1)) ?w")
      case RefusedAtConnect
      show ?thesis by (rule ended[OF ch s2])
        (simp only: hops.simps ch RefusedAtConnect Let_def prod.case option.case wire_answer.case)
    next
      case (SendFailure k)
      show ?thesis by (rule ended[OF ch s2]) (simp only: hops.simps ch SendFailure Let_def prod.case option.case wire_answer.case)
    next
      case (Answered a)
      let ?s4 = "if credential_destination (session_of c s1) url \<and> c_capability c \<noteq> health_capability
        then feedback (option_or (c_session c) []) meth url (h_status a) (route_feedback env c meth url (h_status a) ?s2)
        else route_feedback env c meth url (h_status a) ?s2"
      have s4: "?s4 \<in> hop_ends env feedback c meth url hs body s1" unfolding hop_ends_def Let_def by blast
      show ?thesis
      proof (cases "List.member redirect_codes (h_status a) \<and> h_location a \<noteq> [] \<and> 0 < n")
        case True
        show ?thesis
        proof (cases "urljoin url (h_location a)")
          case None
          show ?thesis by (rule lost[OF ch s4]) (simp only: hops.simps ch Answered True None Let_def
            prod.case option.case wire_answer.case if_True simp_thms)
        next
          case (Some u)
          show ?thesis by (rule followed[OF ch s4]) (simp only: hops.simps ch Answered True Some Let_def
            prod.case option.case wire_answer.case if_True simp_thms)
        qed
      next
        case False
        show ?thesis by (rule ended[OF ch s4]) (simp only: hops.simps ch Answered False Let_def
          prod.case option.case wire_answer.case if_False simp_thms)
      qed
    qed
  qed
qed

lemma hops_lawful:
  assumes "\<And>sid meth url st s. c_session c = Some sid \<Longrightarrow> c_capability c \<noteq> health_capability \<Longrightarrow>
    lawful (c_session c) s (feedback sid meth url st s)"
  shows "lawful (c_session c) s (snd (hops env feedback c n meth url hs body s))"
proof (induction n arbitrary: meth url hs body s)
  case 0
  then show ?case by (simp add: quiet_lawful[OF quiet_conclude])
next
  case (Suc n)
  let ?r = "lawful (c_session c)"
  have ends: "?r s x" if ch: "clear_hop env c meth url body s = (None, s1)" and x: "x \<in> hop_ends env feedback c meth url hs body s1" for s1 x
  proof -
    let ?s2 = "put_on_wire (wire_of c meth url hs body s1) s1"
    have s2: "?r s ?s2" by (rule send_lawful[OF ch])
    have s3: "?r s (route_feedback env c meth url st ?s2)" for st by (rule lawful_trans[OF s2 quiet_lawful[OF route_feedback_quiet]])
    have "credential_destination (session_of c s1) url \<Longrightarrow> \<exists>sid. c_session c = Some sid"
      by (cases "c_session c") (simp_all add: credential_destination_def session_of_def get_session_def)
    then have "?r s (feedback (option_or (c_session c) []) meth url st (route_feedback env c meth url st ?s2))"
      if "credential_destination (session_of c s1) url" "c_capability c \<noteq> health_capability" for st
      using lawful_trans[OF s3 assms] that by (auto simp: option_or_def)
    then show ?thesis using x s2 s3 unfolding hop_ends_def Let_def by auto
  qed
  show ?case
  proof (cases rule: hops_cases[of env c meth url body s feedback n hs])
    case (stopped out s1)
    then show ?thesis using clear_hop_denied[OF stopped(1)] by simp
  next
    case (ended s1 x o' tag st b)
    then show ?thesis using lawful_trans[OF ends[OF ended(1,2)] quiet_lawful[OF quiet_conclude]] by simp
  next
    case (lost s1 x)
    then show ?thesis using ends by simp
  next
    case (followed s1 x m u b)
    then show ?thesis using lawful_trans[OF ends[OF followed(1,2)] Suc.IH] by simp
  qed
qed

lemma execute_with_lawful:
  assumes "\<And>sid meth url st s. sref = Some sid \<Longrightarrow> capability \<noteq> health_capability \<Longrightarrow>
    lawful sref s (feedback sid meth url st s)"
  shows "lawful sref s (snd (execute_with env feedback ambient req capability sref key m cleanup s))"
proof -
  let ?c = "\<lparr>c_capability = capability, c_session = sref, c_key = key, c_case = list_or ambient key, c_cleanup = cleanup\<rparr>"
  have p: "lawful sref s (plan_action ?c u s)" for u by (rule quiet_lawful[OF quiet_note(2)])
  have "lawful sref x (snd (hops env feedback ?c n meth url hs body x))" for n meth url hs body x
    using hops_lawful[of ?c feedback] assms by simp
  then have h: "lawful sref s (snd (hops env feedback ?c n meth url hs body (plan_action ?c u s)))" for n meth url hs body u
    by (rule lawful_trans[OF p])
  have q: "lawful sref s (snd (map_prod Inr id (conclude ?c o' tag st b u s)))" for o' tag st b u
    by (simp add: quiet_lawful[OF quiet_conclude])
  have branch: "lawful sref s (snd a) \<Longrightarrow> lawful sref s (snd b) \<Longrightarrow> lawful sref s (snd (if P then a else b))"
    for P and a b :: "(transport_exc + full_outcome) \<times> run_state"
    by simp
  show ?thesis
  proof (cases "session_of ?c s")
    case None
    then show ?thesis unfolding execute_with_def Let_def by (simp only: option.case) (intro branch h q)
  next
    case (Some t)
    then show ?thesis unfolding execute_with_def Let_def by (simp only: option.case) (intro branch h q)
  qed
qed


lemma probe_lawful: "lawful (Some sid) s (snd (run_health_probe env sid p s))"
proof -
  have "lawful (Some sid) s (snd (execute_with env (\<lambda>_ _ _ _ x. x) [] req health_capability (Some sid) [] 0 False s))" for req
    by (rule execute_with_lawful) simp
  then show ?thesis unfolding run_health_probe_def by (metis (no_types, lifting) case_prod_beta snd_conv)
qed

lemma ask_refresh_quiet: "ask_refresh env sid s = (fresh, s1) \<Longrightarrow> quiet s s1"
  by (auto simp: ask_refresh_def quiet_ticked split: option.splits)

lemma quiet_refl: "quiet s s"
  by (simp add: quiet_def)

lemma session_update_quiet: "quiet s x \<Longrightarrow> (\<And>t. ms_origins (f t) = ms_origins t) \<Longrightarrow> quiet s (with_session sid f x)"
  by (rule quiet_trans[OF _ quiet_session])

lemma further_quiet:
  "quiet s x \<Longrightarrow> quiet s (ticked x)" "quiet s x \<Longrightarrow> quiet s (emit_event e x)" "quiet s x \<Longrightarrow> quiet s (x\<lparr>rs_tracks := ts\<rparr>)"
  by (blast intro: quiet_trans quiet_ticked quiet_event quiet_health)+

lemma expire_quiet: "quiet s x \<Longrightarrow> quiet s (expire sid t x)"
  by (auto simp: expire_def Let_def intro!: further_quiet session_update_quiet)

lemma go_stale_quiet: "quiet s x \<Longrightarrow> quiet s (go_stale sid t x)"
  by (auto simp: go_stale_def set_health_def intro!: further_quiet session_update_quiet)

lemma refresh_asked:
  assumes "ask_refresh env sid (with_session sid (\<lambda>t. t\<lparr>refreshes := refreshes t + 1\<rparr>) s) = (fresh, s1)"
  shows "quiet s s1"
  by (rule quiet_trans[OF _ ask_refresh_quiet[OF assms]]) (auto intro!: session_update_quiet quiet_refl)

lemma after_rejection_quiet: "quiet s (after_rejection env sid s)"
  by (auto simp: after_rejection_def with_headers_def split: option.split prod.split
    intro!: further_quiet session_update_quiet expire_quiet quiet_refl dest!: refresh_asked)

lemma session_stale_quiet: "quiet s (session_stale env sid s)"
  by (auto simp: session_stale_def with_headers_def Let_def split: option.split prod.split
    intro!: further_quiet session_update_quiet go_stale_quiet quiet_refl dest!: refresh_asked)

lemma freshness_feedback_quiet: "quiet s (freshness_feedback env sid meth url st s)"
  by (auto simp: freshness_feedback_def Let_def split: option.split prod.split
    intro!: quiet_trans[OF quiet_health(2) session_stale_quiet] quiet_health quiet_refl)

lemma recheck_lawful: "lawful (Some sid) s (recheck_session env sid url s)"
proof (cases "dict_get (rs_sessions s) sid")
  case None
  then show ?thesis by (simp add: recheck_session_def quiet_lawful quiet_refl)
next
  case (Some t)
  show ?thesis
  proof (cases "probe_for t url s")
    case None
    then show ?thesis
      by (auto simp: recheck_session_def Some set_health_def intro!: quiet_lawful session_update_quiet quiet_refl)
  next
    case p: (Some p)
    let ?x = "with_session sid (\<lambda>t. t\<lparr>checked_at := Some (now_of env s)\<rparr>) (ticked s)"
    have x: "lawful (Some sid) s ?x" by (intro quiet_lawful session_update_quiet quiet_ticked) simp
    obtain v s2 where r: "run_health_probe env sid p ?x = (v, s2)" by (cases "run_health_probe env sid p ?x")
    have s2: "lawful (Some sid) s s2" using lawful_trans[OF x probe_lawful[of sid ?x env p]] r by simp
    have k: "quiet s2 y \<Longrightarrow> lawful (Some sid) s y" for y by (rule lawful_trans[OF s2 quiet_lawful])
    have settled: "lawful (Some sid) s (case v of
        ProbeOk \<Rightarrow> ticked (with_session sid (\<lambda>t. t\<lparr>health := ''healthy'', last_ok_at := wall_of env s2\<rparr>) s2)
      | ProbeInconclusive \<Rightarrow> set_health sid ''suspect'' s2 | ProbeRejected \<Rightarrow> after_rejection env sid s2)"
      by (cases v) (auto simp: set_health_def intro!: k further_quiet session_update_quiet quiet_refl after_rejection_quiet)
    show ?thesis
    proof (cases "health t = ''expired'' \<or> (case checked_at t of None \<Rightarrow> False | Some x \<Rightarrow> now_of env s - x < 30)")
      case True
      then show ?thesis unfolding recheck_session_def Some p Let_def
        by (simp only: p option.case if_True quiet_lawful[OF quiet_ticked])
    next
      case False
      have "recheck_session env sid url s = (case v of
        ProbeOk \<Rightarrow> ticked (with_session sid (\<lambda>t. t\<lparr>health := ''healthy'', last_ok_at := wall_of env s2\<rparr>) s2)
      | ProbeInconclusive \<Rightarrow> set_health sid ''suspect'' s2 | ProbeRejected \<Rightarrow> after_rejection env sid s2)"
        unfolding recheck_session_def Some p Let_def
        by (simp only: p option.case False if_False r prod.case)
      then show ?thesis using settled by simp
    qed
  qed
qed

lemma session_feedback_lawful: "lawful (Some sid) s (session_feedback env sid url st s)"
proof -
  have "lawful (Some sid) s (recheck_session env sid url (with_session sid (\<lambda>t. t\<lparr>auth_failures := auth_failures t + 1\<rparr>) s))"
    by (rule lawful_trans[OF quiet_lawful recheck_lawful]) (intro session_update_quiet quiet_refl, simp)
  then show ?thesis
    by (auto simp: session_feedback_def intro!: quiet_lawful further_quiet session_update_quiet quiet_refl)
qed

lemma answer_feedback_lawful: "lawful (Some sid) s (answer_feedback env sid meth url st s)"
  unfolding answer_feedback_def
  by (rule lawful_trans[OF session_feedback_lawful quiet_lawful[OF freshness_feedback_quiet]])

lemma execute_lawful: "lawful sref s (snd (execute env ambient req capability sref key m cleanup s))"
  unfolding execute_def by (rule execute_with_lawful) (simp add: answer_feedback_lawful)


section \<open>What a run may send\<close>

definition run_after :: "run_env \<Rightarrow> string \<Rightarrow> typed_request \<Rightarrow> string \<Rightarrow> string option \<Rightarrow> string \<Rightarrow> int \<Rightarrow> bool \<Rightarrow> run_state \<Rightarrow> run_state" where
  "run_after env ambient req capability sref key m cleanup s = snd (execute env ambient req capability sref key m cleanup s)"

text \<open>C1: whatever the target answers and wherever it redirects to, every request that a call gives to a client (the call
  itself, each followed redirect, and the health probes they set off) has a URL in the scope of the run and free of its path policy,
  has an allowing decision of the safety gate of its own, and has taken one unit of the budget of the run; and no unit is taken otherwise.\<close>

theorem every_send_authorized:
  "\<exists>ws es. let s' = run_after env ambient req capability sref key m cleanup s in
     rs_wires s' = rs_wires s @ ws \<and> audit_log (rs_gate s') = audit_log (rs_gate s) @ es \<and>
     list_all (\<lambda>w. in_scope (rs_scope s) (w_url w) \<and> denial_reason (rs_policy s) (w_url w) = []) ws \<and>
     mset (map send_of ws) \<subseteq># mset (map decision_of (filter a_allowed es)) \<and>
     b_used (rs_budget s') = b_used (rs_budget s) + int (length ws)"
proof -
  from execute_lawful[of sref s env ambient req capability key m cleanup] obtain ws es where
    "rs_wires (run_after env ambient req capability sref key m cleanup s) = rs_wires s @ ws"
    "audit_log (rs_gate (run_after env ambient req capability sref key m cleanup s)) = audit_log (rs_gate s) @ es"
    "mset (map send_of ws) \<subseteq># mset (map decision_of (filter a_allowed es))"
    "b_used (rs_budget (run_after env ambient req capability sref key m cleanup s)) = b_used (rs_budget s) + int (length ws)"
    "\<forall>w \<in> set ws. wire_lawful sref s w"
    unfolding lawful_def run_after_def by blast
  then show ?thesis unfolding Let_def
    by (intro exI[of _ ws] exI[of _ es]) (simp add: wire_lawful_def list_all_iff)
qed

definition credentials_at_home :: "string option \<Rightarrow> run_state \<Rightarrow> wire_request \<Rightarrow> bool" where
  "credentials_at_home sref s w \<longleftrightarrow>
     (case home_origins sref s of
        None \<Rightarrow> w_client w = None \<and> list_all (\<lambda>(k, v). \<not> is_identity_credential_header k) (w_headers w)
      | Some os \<Rightarrow> (origin_of (w_url w) \<in> set os \<and> w_client w = sref) \<or>
          (w_client w = None \<and> list_all (\<lambda>(k, v). \<not> is_credential_header k) (w_headers w)))"

text \<open>C2: a request of a call without a session carries no identity credential; one of a call with a session
  either goes to an origin of that session, through the client of that session, or goes through the shared client without any
  credential header. This holds for every redirect and probe, and after the credentials of the session were replaced.\<close>

theorem credentials_stay_home:
  "\<exists>ws. rs_wires (run_after env ambient req capability sref key m cleanup s) = rs_wires s @ ws \<and>
     list_all (credentials_at_home sref s) ws"
proof -
  from execute_lawful[of sref s env ambient req capability key m cleanup] obtain ws where
    "rs_wires (run_after env ambient req capability sref key m cleanup s) = rs_wires s @ ws"
    "\<forall>w \<in> set ws. wire_lawful sref s w"
    unfolding lawful_def run_after_def by blast
  moreover have "wire_lawful sref s w \<Longrightarrow> credentials_at_home sref s w" for w
    by (cases "home_origins sref s") (auto simp: wire_lawful_def credentials_at_home_def list_all_iff)
  ultimately show ?thesis by (auto simp: list_all_iff)
qed

section \<open>How many requests a call makes\<close>

definition sent :: "run_state \<Rightarrow> nat" where
  "sent s = length (rs_wires s)"

lemma quiet_sent: "quiet s s' \<Longrightarrow> sent s' = sent s"
  by (simp add: quiet_def sent_def)

lemma denied_sent: "sent (snd (denied c o' tag url s)) = sent s" "sent (snd (conclude c o' tag st b url s)) = sent s"
  using quiet_sent[OF quiet_denied] quiet_sent[OF quiet_conclude] by blast+

lemma sent_updates: "sent (ticked s) = sent s" "sent (s\<lparr>rs_health := h\<rparr>) = sent s" "sent (s\<lparr>rs_gate := g\<rparr>) = sent s"
  "sent (s\<lparr>rs_budget := b\<rparr>) = sent s"
  by (simp_all add: sent_def ticked_def)

lemma clear_hop_sent: "sent (snd (clear_hop env c meth url body s)) = sent s"
  unfolding clear_hop_def Let_def by (simp add: denied_sent sent_updates split: prod.split)

lemma hops_sent:
  assumes "\<And>sid meth url st s. sent (feedback sid meth url st s) \<le> sent s + k"
  shows "sent (snd (hops env feedback c n meth url hs body s)) \<le> sent s + n * (if c_capability c = health_capability then 1 else k + 1)"
proof (induction n arbitrary: meth url hs body s)
  case 0
  then show ?case by (simp add: denied_sent)
next
  case (Suc n)
  let ?u = "if c_capability c = health_capability then 1 else k + 1"
  have ends: "sent x \<le> sent s + ?u"
    if ch: "clear_hop env c meth url body s = (None, s1)" and x: "x \<in> hop_ends env feedback c meth url hs body s1" for s1 x
  proof -
    let ?s2 = "put_on_wire (wire_of c meth url hs body s1) s1"
    have "sent s1 = sent s" using clear_hop_sent[of env c meth url body s] ch by simp
    then have s2: "sent ?s2 = sent s + 1" by (simp add: sent_def put_on_wire_def)
    have s3: "sent (route_feedback env c meth url st ?s2) = sent s + 1" for st
      using quiet_sent[OF route_feedback_quiet] s2 by simp
    have "sent (feedback sid meth url st (route_feedback env c meth url st ?s2)) \<le> sent s + 1 + k" for sid st
      using assms[of sid meth url st "route_feedback env c meth url st ?s2"] s3 by simp
    then show ?thesis using x s2 s3 unfolding hop_ends_def Let_def by (auto simp: add.commute add.left_commute)
  qed
  show ?case
  proof (cases rule: hops_cases[of env c meth url body s feedback n hs])
    case (stopped out s1)
    then show ?thesis using clear_hop_sent[of env c meth url body s] by simp
  next
    case (ended s1 x o' tag st b)
    then show ?thesis using ends[OF ended(1,2)] by (simp add: denied_sent)
  next
    case (lost s1 x)
    then show ?thesis using ends[OF lost(1,2)] by simp
  next
    case (followed s1 x m u b)
    then show ?thesis using ends[OF followed(1,2)] Suc.IH[of m u "[]" b x] by simp
  qed
qed

lemma execute_with_sent:
  assumes "\<And>sid meth url st s. sent (feedback sid meth url st s) \<le> sent s + k"
  shows "sent (snd (execute_with env feedback ambient req capability sref key m cleanup s)) \<le>
     sent s + nat (m + 1) * (if capability = health_capability then 1 else k + 1)"
proof -
  let ?c = "\<lparr>c_capability = capability, c_session = sref, c_key = key, c_case = list_or ambient key, c_cleanup = cleanup\<rparr>"
  have "sent (snd (hops env feedback ?c n meth url hs body x)) \<le> sent x + n * (if capability = health_capability then 1 else k + 1)"
    for n meth url hs body x
    using hops_sent[where feedback = feedback and k = k and c = ?c, OF assms] by simp
  moreover have "sent (plan_action ?c u s) = sent s" for u by (rule quiet_sent[OF quiet_note(2)])
  ultimately have h: "sent (snd (hops env feedback ?c n meth url hs body (plan_action ?c u s))) \<le>
      sent s + n * (if capability = health_capability then 1 else k + 1)" for n meth url hs body u
    by metis
  have q: "sent (snd (map_prod Inr id (conclude ?c o' tag st b u s))) \<le> sent s + n" for o' tag st b u n
    by (simp add: denied_sent)
  have branch: "sent (snd a) \<le> n \<Longrightarrow> sent (snd b) \<le> n \<Longrightarrow> sent (snd (if P then a else b)) \<le> n"
    for P n and a b :: "(transport_exc + full_outcome) \<times> run_state"
    by simp
  show ?thesis unfolding execute_with_def Let_def
    by (cases "session_of ?c s") (simp_all only: option.case, (intro branch h q)+)
qed


lemma health_sets_off_nothing:
  assumes "c_capability c = health_capability"
  shows "hops env feedback c n meth url hs body s = hops env feedback' c n meth url hs body s"
proof (induction n arbitrary: meth url hs body s)
  case (Suc n)
  show ?case by (simp only: hops.simps assms simp_thms if_False Suc.IH)
qed simp

lemma probe_sent: "sent (snd (run_health_probe env sid p s)) \<le> sent s + 1"
proof -
  let ?req = "\<lparr>req_method = probe_method p, req_url = probe_url p, req_headers = [], req_body = []\<rparr>"
  have "sent (snd (execute_with env (\<lambda>_ _ _ _ x. x) [] ?req health_capability (Some sid) [] 0 False s)) \<le>
      sent s + nat (0 + 1) * (if health_capability = health_capability then 1 else 0 + 1)"
    by (rule execute_with_sent) simp
  then show ?thesis by (auto simp: run_health_probe_def split: prod.split)
qed

lemma set_health_sent: "sent (with_session sid f s) = sent s" "sent (set_health sid h s) = sent s"
  by (simp_all add: sent_def with_session_def set_health_def)

lemma recheck_sent: "sent (recheck_session env sid url s) \<le> sent s + 1"
proof (cases "dict_get (rs_sessions s) sid")
  case None
  then show ?thesis by (simp add: recheck_session_def)
next
  case (Some t)
  show ?thesis
  proof (cases "probe_for t url s")
    case None
    then show ?thesis by (simp add: recheck_session_def Some set_health_sent)
  next
    case p: (Some p)
    let ?x = "with_session sid (\<lambda>t. t\<lparr>checked_at := Some (now_of env s)\<rparr>) (ticked s)"
    obtain v s2 where r: "run_health_probe env sid p ?x = (v, s2)" by (cases "run_health_probe env sid p ?x")
    have "sent s2 \<le> sent s + 1" using probe_sent[of env sid p ?x] r by (simp add: set_health_sent sent_updates)
    moreover have "sent (after_rejection env sid s2) = sent s2" by (rule quiet_sent[OF after_rejection_quiet])
    ultimately show ?thesis
      by (simp add: recheck_session_def Some p Let_def r set_health_sent sent_updates split: probe_result.split)
  qed
qed

lemma answer_feedback_sent: "sent (answer_feedback env sid meth url st s) \<le> sent s + 1"
proof -
  have "sent (session_feedback env sid url st s) \<le> sent s + 1"
    using recheck_sent[of env sid url "with_session sid (\<lambda>t. t\<lparr>auth_failures := auth_failures t + 1\<rparr>) s"]
    by (simp add: session_feedback_def sent_updates set_health_sent)
  then show ?thesis by (simp add: answer_feedback_def quiet_sent[OF freshness_feedback_quiet])
qed

text \<open>a call always returns, and gives at most two requests per hop to a client: the hop, and one probe of the session.
  There is one hop more than redirects are allowed.\<close>

theorem sends_of_a_call:
  "sent (run_after env ambient req capability sref key m cleanup s) \<le> sent s + 2 * nat (m + 1)"
proof -
  have "sent (run_after env ambient req capability sref key m cleanup s) \<le>
      sent s + nat (m + 1) * (if capability = health_capability then 1 else 1 + 1)"
    unfolding run_after_def execute_def by (rule execute_with_sent) (rule answer_feedback_sent)
  also have "\<dots> \<le> sent s + 2 * nat (m + 1)" by simp
  finally show ?thesis .
qed

section \<open>What the code does beside its comments\<close>

lemma clear_hop_evidence: "clear_hop env c meth url body s = (None, s1) \<Longrightarrow> rs_evidence s1 = rs_evidence s"
  by (auto simp: clear_hop_def Let_def denied_def conclude_def ticked_def split: if_splits prod.splits)

text \<open>A hop whose redirect is followed was sent, but no execution is recorded for it.\<close>

lemma redirect_hop_unrecorded:
  assumes "clear_hop env c meth url body s = (None, s1)" "c_session c = None" "0 < n"
    and "env_answer env (length (rs_wires s1)) (wire_of c meth url hs body s1) = Answered a"
    and "h_status a \<in> set redirect_codes" "h_location a \<noteq> []" "urljoin url (h_location a) = Some u"
  shows "\<exists>m b x. hops env feedback c (Suc n) meth url hs body s = hops env feedback c n m u [] b x \<and>
     rs_evidence x = rs_evidence s \<and> sent x = sent s + 1"
proof -
  let ?x = "route_feedback env c meth url (h_status a) (put_on_wire (wire_of c meth url hs body s1) s1)"
  have none: "credential_destination (session_of c s1) url = False"
    by (simp add: credential_destination_def session_of_def get_session_def assms(2))
  have red: "List.member redirect_codes (h_status a) \<and> h_location a \<noteq> [] \<and> 0 < n" using assms by simp
  have "\<exists>m b. hops env feedback c (Suc n) meth url hs body s = hops env feedback c n m u [] b ?x"
    by (intro exI) (simp only: hops.simps assms(1,4,7) none red Let_def prod.case option.case wire_answer.case if_True if_False
      simp_thms)
  moreover have "rs_evidence ?x = rs_evidence s"
    using clear_hop_evidence[OF assms(1)] by (simp add: route_feedback_def ticked_def put_on_wire_def)
  moreover have "sent ?x = sent s + 1"
    using clear_hop_sent[of env c meth url body s] assms(1) quiet_sent[OF route_feedback_quiet]
    by (simp add: sent_def put_on_wire_def)
  ultimately show ?thesis by blast
qed

text \<open>A target can end a call with an exception: a location that does not parse is joined outside of any handler.\<close>

lemma bad_location_raises:
  assumes "clear_hop env c meth url body s = (None, s1)" "0 < n"
    and "env_answer env (length (rs_wires s1)) (wire_of c meth url hs body s1) = Answered a"
    and "h_status a \<in> set redirect_codes" "h_location a = ''http://[''" "urlsplit url \<noteq> None" "url \<noteq> []"
  shows "fst (hops env feedback c (Suc n) meth url hs body s) = Inl BadLocation"
proof -
  have "urlsplit ''http://['' = None" by code_simp
  then have u: "urljoin url (h_location a) = None" using assms(5,6,7) by (auto simp: urljoin_def)
  have red: "List.member redirect_codes (h_status a) \<and> h_location a \<noteq> [] \<and> 0 < n" using assms by simp
  show ?thesis
    by (simp only: hops.simps assms(1,3) u red Let_def prod.case option.case wire_answer.case if_True simp_thms fst_conv)
qed

text \<open>A connection that the address policy refuses counts as not executed, but its unit of the budget is gone.\<close>

lemma refused_connection_spends:
  assumes "clear_hop env c meth url body s = (None, s1)"
    and "env_answer env (length (rs_wires s1)) (wire_of c meth url hs body s1) = RefusedAtConnect"
  shows "\<exists>out s'. hops env feedback c (Suc n) meth url hs body s = (Inr out, s') \<and> outcome out = ''blocked'' \<and>
     b_used (rs_budget s') = b_used (rs_budget s) + 1"
proof -
  have "hops env feedback c (Suc n) meth url hs body s =
      map_prod Inr id (conclude c ''blocked'' ''destination_blocked'' None [] url (put_on_wire (wire_of c meth url hs body s1) s1))"
    by (simp only: hops.simps assms Let_def prod.case option.case wire_answer.case)
  then show ?thesis using clear_hop_passed[OF assms(1)]
    by (simp add: conclude_def note_outcome_def put_on_wire_def)
qed

lemma clear_hop_exhausted:
  assumes "clear_hop env c meth url body s = (Some out, s1)" "outcome out = ''budget_exhausted''"
  shows "route_blocked (route_key_for meth url (session_of c (ticked s))) (tc_cooldown (rs_config s)) (now_of env (ticked s))
     (rs_health s) = (False, rs_health s1) \<and> sent s1 = sent s"
  using assms clear_hop_sent[of env c meth url body s]
  by (auto simp: clear_hop_def Let_def denied_def conclude_def note_outcome_def ticked_def split: if_splits prod.splits)

text \<open>The one send that a paused route is allowed per cooldown is used up by a call that the budget refuses.\<close>

lemma half_open_slot_spent:
  assumes "clear_hop env c meth url body s = (Some out, s1)" "outcome out = ''budget_exhausted''"
    and "dict_get (routes (rs_health s)) key = Some r" "r_open r" "0 < tc_cooldown (rs_config s)"
    and "key = route_key_for meth url (session_of c (ticked s))"
  shows "sent s1 = sent s \<and> fst (route_blocked key (tc_cooldown (rs_config s)) (now_of env (ticked s)) (rs_health s1))"
proof -
  have "route_blocked key cd now h = (False, h') \<Longrightarrow> dict_get (routes h) key = Some r \<Longrightarrow> 0 < cd \<Longrightarrow>
      fst (route_blocked key cd now h')" for cd now h h'
    using assms(4) by (auto simp: route_blocked_def split: if_splits)
  then show ?thesis using clear_hop_exhausted[OF assms(1,2)] assms(3,5,6) by metis
qed

text \<open>A denial that arrives after its session was found stale turns it back to suspect when there is no probe, and it is used again.\<close>

lemma stale_mark_lost:
  assumes "dict_get (rs_sessions s) sid = Some t" "health t = ''stale''" "own_probe t = None" "tc_probe_path (rs_config s) = []"
  shows "map_option health (dict_get (rs_sessions (session_feedback env sid url 401 s)) sid) = Some ''suspect''"
proof -
  have on: "dict_get (on_session k f m) k = map_option f (dict_get m k)" for k f m
    by (induction m) (auto simp: on_session_def)
  show ?thesis using assms
    by (simp add: session_feedback_def recheck_session_def with_session_def on probe_for_def set_health_def)
qed

end
