(* ===== verification/OracleFramework.thy ===== *)
theory OracleFramework
  imports Categories
begin

text \<open>
  When a finding is called verified (\<open>oracle_framework.py\<close>, \<open>negative_controls.py\<close>): a validator must confirm it every
  time, and must decline to confirm it on a benign variant of the request. A validator is a function of the number
  of the call and the exchange; SHA-256, and the JSON reader and writer of a request body, are arguments. Strings are
  ASCII; a form is split at \<open>&\<close>.

  \<open>verified_iff_proved\<close> says when a finding is verified, \<open>capsule_text_decisive\<close> what the identity of a capsule rests
  on, and \<open>form_values_benign\<close> what the benign variant of a form carries. A status is quoted as Python quotes a text
  without quotes and escapes.
\<close>

section \<open>Results and capsules\<close>

record validation_result =
  pr_status :: string
  pr_confirmed :: bool

record proof_capsule =
  pc_validator :: string
  pc_class :: string
  n_required :: nat
  n_confirmed :: nat
  reproduced :: bool
  control_available :: bool
  control_clean :: bool
  verified :: bool
  clean_negative :: bool
  pc_reason :: string
  reproductions :: "validation_result list"
  control_result :: "validation_result option"

definition is_confirmed :: "validation_result \<Rightarrow> bool" where
  "is_confirmed r \<longleftrightarrow> pr_confirmed r \<and> pr_status r = ''confirmed''"

definition is_clean_negative :: "validation_result list \<Rightarrow> bool" where
  "is_clean_negative rs = (let statuses = map (\<lambda>r. py_lower (pr_status r)) rs in
     if rs = [] then False
     else if list_ex (\<lambda>s. List.member [''skipped'', ''error'', ''blocked''] s) statuses then False
     else list_all (\<lambda>s. s = ''not_confirmed'') statuses)"

text \<open>A flag in the text that is hashed, and the text.\<close>

definition id_flag :: "bool \<Rightarrow> string" where
  "id_flag b = (if b then ''1'' else ''0'')"

definition unit_separator :: char where "unit_separator = CHR 0x1F"

definition canonical_or_lower :: "string \<Rightarrow> string" where
  "canonical_or_lower c = (case canonicalize (Some c) of
     Some k \<Rightarrow> (if k = [] then py_lower c else k) | None \<Rightarrow> py_lower c)"

definition decisive_fields :: "proof_capsule \<Rightarrow> string list" where
  "decisive_fields p = [pc_validator p, canonical_or_lower (pc_class p), dec_str (n_required p), dec_str (n_confirmed p),
     id_flag (reproduced p), id_flag (control_available p), id_flag (control_clean p), id_flag (verified p)]"

definition capsule_id :: "(string \<Rightarrow> string) \<Rightarrow> proof_capsule \<Rightarrow> string" where
  "capsule_id sha p = take 16 (sha (join_with [unit_separator] (decisive_fields p)))"

section \<open>An oracle\<close>

text \<open>A validator: its name, whether it sends, and what it answers to each call.\<close>

record 'x probe_validator =
  pv_name :: string
  pv_active :: bool
  pv_validate :: "nat \<Rightarrow> 'x \<Rightarrow> validation_result"

record 'x proof_oracle =
  o_validator :: "'x probe_validator"
  o_control :: "('x \<Rightarrow> 'x option) option"
  o_required :: nat
  o_require_control :: bool

text \<open>\<open>__init__\<close>; None where it raises.\<close>

definition make_oracle :: "'x probe_validator \<Rightarrow> ('x \<Rightarrow> 'x option) option \<Rightarrow> int \<Rightarrow> bool \<Rightarrow> 'x proof_oracle option" where
  "make_oracle v control n require_control = (if n < 1 then None
     else Some \<lparr>o_validator = v, o_control = control, o_required = nat n, o_require_control = require_control\<rparr>)"

text \<open>\<open>reproduce\<close>: \<open>k\<close> calls have been made, \<open>n\<close> are left.\<close>

fun reproduce :: "(nat \<Rightarrow> 'x \<Rightarrow> validation_result) \<Rightarrow> nat \<Rightarrow> nat \<Rightarrow> 'x \<Rightarrow> bool \<times> validation_result list" where
  "reproduce f k 0 x = (True, [])"
| "reproduce f k (Suc n) x = (let r = f k x in
     if \<not> is_confirmed r then (False, [r])
     else (case reproduce f (k + 1) n x of (ok, rs) \<Rightarrow> (ok, r # rs)))"

definition run_negative_control :: "'x proof_oracle \<Rightarrow> nat \<Rightarrow> 'x \<Rightarrow> bool \<times> bool \<times> validation_result option" where
  "run_negative_control o1 k x = (case o_control o1 of
     None \<Rightarrow> (False, False, None)
   | Some build \<Rightarrow> (case build x of
       None \<Rightarrow> (False, False, None)
     | Some benign \<Rightarrow> (let r = pv_validate (o_validator o1) k benign in (True, is_clean_negative [r], Some r))))"

definition missed_reason :: "nat \<Rightarrow> nat \<Rightarrow> bool \<Rightarrow> string" where
  "missed_reason n required clean = ''did not reproduce: '' @ dec_str n @ ''/'' @ dec_str required @ '' confirmed '' @
     (if clean then ''(clean executed negative)'' else ''(INCONCLUSIVE -- probe skipped/errored, not a clean negative)'')"

definition proof_reason :: "bool \<Rightarrow> bool \<Rightarrow> bool \<Rightarrow> validation_result option \<Rightarrow> string" where
  "proof_reason require_control available clean neg =
     (if require_control \<and> \<not> available then
        ''reproduced N-of-N but NO negative control was available for this class/exchange -- cannot rule out '' @
        ''a probe that confirms on any input; stays a candidate''
      else if available \<and> \<not> clean then
        (if (case neg of Some r \<Rightarrow> is_confirmed r | None \<Rightarrow> False) then
           ''reproduced N-of-N but the negative control ALSO confirmed on a benign variant -- '' @
           ''the probe is not discriminating; likely false positive''
         else ''reproduced N-of-N but the negative control did NOT execute to a clean not_confirmed verdict (control status='' @
           [CHR 0x27] @ list_or (case neg of Some r \<Rightarrow> py_lower (pr_status r) | None \<Rightarrow> []) ''unknown'' @ [CHR 0x27] @
           '') -- INCONCLUSIVE; cannot rule out a probe that confirms on any input, so it stays a candidate'')
      else ''reproduced N-of-N'' @ (if available then '' and the negative control stayed clean''
        else '' (leg is self-controlling; no benign-variant control needed)''))"

definition run_oracle :: "'x proof_oracle \<Rightarrow> string \<Rightarrow> 'x \<Rightarrow> proof_capsule" where
  "run_oracle o1 cls x =
     (let (ok, reps) = reproduce (pv_validate (o_validator o1)) 0 (o_required o1) x;
          n = length (filter is_confirmed reps) in
      if \<not> ok then
        (let clean = is_clean_negative reps in
         \<lparr>pc_validator = pv_name (o_validator o1), pc_class = cls, n_required = o_required o1, n_confirmed = n, reproduced = False,
           control_available = False, control_clean = False, verified = False, clean_negative = clean,
           pc_reason = missed_reason n (o_required o1) clean, reproductions = reps, control_result = None\<rparr>)
      else (case run_negative_control o1 (length reps) x of (available, clean, neg) \<Rightarrow>
        \<lparr>pc_validator = pv_name (o_validator o1), pc_class = cls, n_required = o_required o1, n_confirmed = n, reproduced = True,
          control_available = available, control_clean = clean,
          verified = (if o_require_control o1 \<and> \<not> available then False else if available \<and> \<not> clean then False else True),
          clean_negative = False, pc_reason = proof_reason (o_require_control o1) available clean neg,
          reproductions = reps, control_result = neg\<rparr>))"

section \<open>The registry, and what a finding is stamped with\<close>

record 'x oracle_registry =
  or_builders :: "(string \<times> ('x \<Rightarrow> 'x option)) list"
  or_self_controlling :: "string list"
  or_required :: int

text \<open>\<open>candidates\<close> are the validators that the registry of validators offers for the finding.\<close>

fun oracle_for :: "'x oracle_registry \<Rightarrow> bool \<Rightarrow> 'x probe_validator list \<Rightarrow> 'x proof_oracle option option" where
  "oracle_for r passive_only [] = Some None"
| "oracle_for r passive_only (v # vs) =
     (if passive_only \<and> pv_active v then oracle_for r passive_only vs
      else map_option Some (make_oracle v (dict_get (or_builders r) (pv_name v)) (or_required r)
        (\<not> List.member (or_self_controlling r) (pv_name v))))"

definition verify :: "'x oracle_registry \<Rightarrow> 'x probe_validator list \<Rightarrow> string \<Rightarrow> 'x \<Rightarrow> proof_capsule option option" where
  "verify r candidates cls x = map_option (map_option (\<lambda>o1. run_oracle o1 cls x)) (oracle_for r False candidates)"

record stamped_finding =
  sf_verified :: bool
  sf_capsule :: string
  sf_reason :: string
  sf_state :: string

definition stamp_finding :: "(string \<Rightarrow> string) \<Rightarrow> proof_capsule option \<Rightarrow> stamped_finding \<Rightarrow> stamped_finding" where
  "stamp_finding sha capsule f = (case capsule of
     None \<Rightarrow> f\<lparr>sf_verified := False, sf_capsule := [], sf_reason := ''no oracle applied'', sf_state := ''candidate''\<rparr>
   | Some p \<Rightarrow> f\<lparr>sf_verified := verified p, sf_capsule := capsule_id sha p, sf_reason := pc_reason p,
       sf_state := (if verified p then ''verified'' else ''candidate'')\<rparr>)"

definition derive_verification_state :: "stamped_finding \<Rightarrow> string" where
  "derive_verification_state f = (if sf_verified f then ''verified'' else ''candidate'')"


section \<open>Verified means proved\<close>

lemma reproduce_iff:
  "fst (reproduce f k n x) \<longleftrightarrow> list_all (\<lambda>i. is_confirmed (f i x)) [k..<k + n]"
  "fst (reproduce f k n x) \<Longrightarrow> reproduce f k n x = (True, map (\<lambda>i. f i x) [k..<k + n])"
proof (induction n arbitrary: k)
  case (Suc n)
  have u: "[k..<Suc (k + n)] = k # [Suc k..<Suc (k + n)]" for k :: nat by (simp add: upt_conv_Cons del: upt_Suc)
  { case 1
    show ?case using Suc(1)[of "k + 1"] by (auto simp: Let_def u simp del: upt_Suc split: prod.split)
  next
    case 2
    then show ?case using Suc(2)[of "k + 1"] by (auto simp: Let_def u simp del: upt_Suc split: prod.splits if_splits)
  }
qed simp_all

lemma reproduce_length: "length (snd (reproduce f k n x)) \<le> n"
  by (induction f k n x rule: reproduce.induct) (auto simp: Let_def split: prod.split)

lemma reproduce_confirmed:
  "\<not> fst (reproduce f k n x) \<Longrightarrow> length (filter is_confirmed (snd (reproduce f k n x))) < n"
  by (induction f k n x rule: reproduce.induct) (auto simp: Let_def split: prod.splits if_splits)

lemma clean_single: "is_clean_negative [r] \<longleftrightarrow> py_lower (pr_status r) = ''not_confirmed''"
  by (auto simp: is_clean_negative_def)

text \<open>C24: a finding is verified exactly when the validator confirmed it in each of the required calls and then either declined
  on the benign variant, with an answer that says so, or no variant could be made and the class does not ask for one. A
  skipped, blocked or failed control never counts.\<close>

theorem verified_iff_proved:
  "verified (run_oracle o1 cls x) \<longleftrightarrow>
     list_all (\<lambda>i. is_confirmed (pv_validate (o_validator o1) i x)) [0..<o_required o1] \<and>
     (case Option.bind (o_control o1) (\<lambda>build. build x) of
        None \<Rightarrow> \<not> o_require_control o1
      | Some benign \<Rightarrow> py_lower (pr_status (pv_validate (o_validator o1) (o_required o1) benign)) = ''not_confirmed'')"
proof (cases "reproduce (pv_validate (o_validator o1)) 0 (o_required o1) x")
  case (Pair ok reps)
  let ?f = "pv_validate (o_validator o1)"
  have all: "ok \<longleftrightarrow> list_all (\<lambda>i. is_confirmed (?f i x)) [0..<o_required o1]"
    using reproduce_iff(1)[of ?f 0 "o_required o1" x] Pair by simp
  show ?thesis
  proof (cases ok)
    case True
    then have "length reps = o_required o1" using reproduce_iff(2)[of ?f 0 "o_required o1" x] Pair by simp
    then have "verified (run_oracle o1 cls x) \<longleftrightarrow> (case Option.bind (o_control o1) (\<lambda>build. build x) of
        None \<Rightarrow> \<not> o_require_control o1
      | Some benign \<Rightarrow> py_lower (pr_status (?f (o_required o1) benign)) = ''not_confirmed'')"
      using True by (simp add: run_oracle_def Pair run_negative_control_def clean_single Let_def split: option.split)
    then show ?thesis using all True by simp
  next
    case False
    then have "\<not> verified (run_oracle o1 cls x)" by (simp add: run_oracle_def Pair Let_def)
    then show ?thesis using all False by simp
  qed
qed

text \<open>What the figures of a capsule mean.\<close>

lemma capsule_figures:
  "let p = run_oracle o1 cls x in n_confirmed p \<le> n_required p \<and> length (reproductions p) \<le> n_required p \<and>
     (reproduced p \<longleftrightarrow> n_confirmed p = n_required p)"
proof -
  let ?r = "reproduce (pv_validate (o_validator o1)) 0 (o_required o1) x"
  obtain ok reps where r: "?r = (ok, reps)" by (cases ?r)
  have "length reps \<le> o_required o1" using reproduce_length[of "pv_validate (o_validator o1)" 0 "o_required o1" x] r by simp
  moreover have "length (filter is_confirmed reps) = o_required o1" if ok
  proof -
    have reps: "reps = map (\<lambda>i. pv_validate (o_validator o1) i x) [0..<o_required o1]"
      using reproduce_iff(2)[of "pv_validate (o_validator o1)" 0 "o_required o1" x] that r by simp
    have "list_all (\<lambda>i. is_confirmed (pv_validate (o_validator o1) i x)) [0..<o_required o1]"
      using reproduce_iff(1)[of "pv_validate (o_validator o1)" 0 "o_required o1" x] that r by simp
    then have "filter is_confirmed reps = reps" by (simp add: reps filter_id_conv list_all_iff)
    then show ?thesis by (simp add: reps)
  qed
  moreover have "length (filter is_confirmed reps) < o_required o1" if "\<not> ok"
    using reproduce_confirmed[of "pv_validate (o_validator o1)" 0 "o_required o1" x] that r by simp
  ultimately show ?thesis by (auto simp: run_oracle_def r Let_def split: prod.split)
qed

lemma stamped_state: "derive_verification_state (stamp_finding sha c f) = sf_state (stamp_finding sha c f)"
  by (simp add: stamp_finding_def derive_verification_state_def split: option.split)

lemma passive_oracle_sends_nothing:
  "oracle_for r True vs = Some (Some o1) \<Longrightarrow> \<not> pv_active (o_validator o1)"
  by (induction vs) (auto simp: make_oracle_def split: if_splits)

text \<open>A miss after a confirmation is called inconclusive and blamed on a skipped or failed probe, though the probe ran.\<close>

lemma flaky_called_inconclusive:
  "let p = run_oracle \<lparr>o_validator = \<lparr>pv_name = ''v'', pv_active = True, pv_validate = (\<lambda>i x. if i = 0
       then \<lparr>pr_status = ''confirmed'', pr_confirmed = True\<rparr> else \<lparr>pr_status = ''not_confirmed'', pr_confirmed = False\<rparr>)\<rparr>,
       o_control = None, o_required = 3, o_require_control = True\<rparr> ''ssti'' () in
     \<not> clean_negative p \<and> map pr_status (reproductions p) = [''confirmed'', ''not_confirmed''] \<and>
     pc_reason p = ''did not reproduce: 1/3 confirmed (INCONCLUSIVE -- probe skipped/errored, not a clean negative)''"
  by code_simp


section \<open>What a capsule is known by\<close>

lemma dec_str_inj: "dec_str m = dec_str n \<Longrightarrow> m = n"
  using dec_str_value by metis

lemma dec_str_plain: "unit_separator \<notin> set (dec_str n)"
  using dec_str_digits[of n] by (auto simp: list_all_iff unit_separator_def is_digit_def code_def)

lemma id_flag_plain: "unit_separator \<notin> set (id_flag b)"
  by (simp add: id_flag_def unit_separator_def)

text \<open>the text that is hashed for a capsule determines everything that was decided: capsules of validators and classes
  without the separator have the same text exactly when these facts agree, whatever the reasons and the results say.\<close>

theorem capsule_text_decisive:
  assumes "unit_separator \<notin> set (pc_validator p) \<union> set (pc_validator q)"
    and "unit_separator \<notin> set (canonical_or_lower (pc_class p)) \<union> set (canonical_or_lower (pc_class q))"
  shows "join_with [unit_separator] (decisive_fields p) = join_with [unit_separator] (decisive_fields q) \<longleftrightarrow>
     pc_validator p = pc_validator q \<and> canonical_or_lower (pc_class p) = canonical_or_lower (pc_class q) \<and>
     n_required p = n_required q \<and> n_confirmed p = n_confirmed q \<and> reproduced p = reproduced q \<and>
     control_available p = control_available q \<and> control_clean p = control_clean q \<and> verified p = verified q"
    (is "?texts \<longleftrightarrow> ?facts")
proof
  have plain: "unit_separator \<notin> set w" if "w \<in> set (decisive_fields x)" "x = p \<or> x = q" for w x
    using that assms by (auto simp: decisive_fields_def dec_str_plain id_flag_plain)
  have split_back: "split_on unit_separator (join_with [unit_separator] (decisive_fields x)) = decisive_fields x" if "x = p \<or> x = q" for x
    by (rule split_join) (use plain[OF _ that] in \<open>simp_all add: list_all_iff\<close>, simp add: decisive_fields_def)
  assume same: "?texts"
  have "decisive_fields p = decisive_fields q" using arg_cong[OF same, of "split_on unit_separator"] by (simp only: split_back simp_thms)
  then show "?facts" by (auto simp: decisive_fields_def id_flag_def dest: dec_str_inj split: if_splits)
next
  assume "?facts"
  then show "?texts" by (simp add: decisive_fields_def)
qed

section \<open>Benign variants\<close>

record probe_exchange =
  e_url :: string
  e_request_headers :: "(string \<times> string) list"
  e_request_body :: string

definition benign_value :: string where "benign_value = ''benign_control_value''"

definition content_type :: "'a probe_exchange_scheme \<Rightarrow> string" where
  "content_type x = (case find (\<lambda>(k, v). py_lower k = ''content-type'') (e_request_headers x) of
     None \<Rightarrow> [] | Some (k, v) \<Rightarrow> py_lower v)"

definition looks_json :: "string \<Rightarrow> string \<Rightarrow> bool" where
  "looks_json body ctype \<longleftrightarrow> contains_str ''json'' ctype \<or>
     starts_with [CHR 0x7B] (py_strip body) \<or> starts_with ''['' (py_strip body)"

text \<open>\<open>parse_qsl\<close> with blank values kept: the names; its values are not used.\<close>

definition query_names :: "string \<Rightarrow> string list" where
  "query_names q = map (\<lambda>p. unquote_plus (fst (partition_at CHR ''='' p))) (filter (\<lambda>p. p \<noteq> []) (split_on CHR ''&'' q))"

definition assign_all :: "string \<Rightarrow> string list \<Rightarrow> string" where
  "assign_all r names = join_with ''&'' (map (\<lambda>k. k @ ''='' @ r) names)"

definition neutralise_query :: "string \<Rightarrow> string \<Rightarrow> string option" where
  "neutralise_query url r = map_option (\<lambda>p.
     if query_names (u_query p) = [] then []
     else u_scheme p @ ''://'' @ u_netloc p @ u_path p @ ''?'' @ assign_all r (query_names (u_query p))) (urlsplit url)"

definition form_names :: "string \<Rightarrow> string list" where
  "form_names body = map (\<lambda>p. fst (partition_at CHR ''='' p)) (filter (\<lambda>p. p \<noteq> []) (split_on CHR ''&'' body))"

definition neutralise_body :: "(string \<Rightarrow> json option) \<Rightarrow> (json \<Rightarrow> string) \<Rightarrow> 'a probe_exchange_scheme \<Rightarrow> string \<Rightarrow> string" where
  "neutralise_body loads dumps x r =
     (let body = e_request_body x in
      if py_strip body = [] then []
      else if looks_json body (content_type x) then
        (case loads body of Some (JObj kvs) \<Rightarrow> dumps (JObj (map (\<lambda>(k, v). (k, JStr r)) kvs)) | _ \<Rightarrow> [])
      else assign_all r (form_names body))"

text \<open>None where the URL cannot be split (the code raises); otherwise the variant, if there is something to replace.\<close>

definition replace_all_params :: "(string \<Rightarrow> json option) \<Rightarrow> (json \<Rightarrow> string) \<Rightarrow> 'a probe_exchange_scheme \<Rightarrow> string
    \<Rightarrow> 'a probe_exchange_scheme option option" where
  "replace_all_params loads dumps x r = map_option (\<lambda>url.
     let body = neutralise_body loads dumps x r in
     if url = [] \<and> body = [] then None
     else Some (x\<lparr>e_url := list_or url (e_url x), e_request_body := list_or body (e_request_body x)\<rparr>)) (neutralise_query (e_url x) r)"

definition builder_values :: "(string \<times> string) list" where
  "builder_values = [(''sqlmap'', ''1''), (''ssti'', ''1''), (''path_traversal'', benign_value), (''open_redirect'', benign_value),
     (''header_injection'', benign_value), (''sequence'', benign_value), (''stored_xss'', benign_value),
     (''browser_xss'', benign_value), (''dom_xss'', benign_value)]"

definition self_controlling :: "string list" where
  "self_controlling = [''ssrf'', ''xxe'', ''command_injection'', ''deserialization_oob'']"

text \<open>The parameters of a form: names and values.\<close>

definition form_pairs :: "string \<Rightarrow> (string \<times> string) list" where
  "form_pairs body = map (\<lambda>p. case partition_at CHR ''='' p of (k, eq, v) \<Rightarrow> (k, v)) (filter (\<lambda>p. p \<noteq> []) (split_on CHR ''&'' body))"

lemma form_pairs_assigned:
  assumes "list_all (\<lambda>k. CHR ''='' \<notin> set k \<and> CHR ''&'' \<notin> set k) names" "CHR ''&'' \<notin> set r"
  shows "form_pairs (assign_all r names) = map (\<lambda>k. (k, r)) names"
proof (cases "names = []")
  case True
  then show ?thesis by (simp add: assign_all_def form_pairs_def)
next
  case False
  have "split_on CHR ''&'' (assign_all r names) = map (\<lambda>k. k @ ''='' @ r) names"
    unfolding assign_all_def using assms False by (intro split_join) (auto simp: list_all_iff)
  moreover have "filter (\<lambda>p. p \<noteq> []) (map (\<lambda>k. k @ ''='' @ r) names) = map (\<lambda>k. k @ ''='' @ r) names"
    by (simp add: filter_id_conv)
  ultimately show ?thesis using assms(1)
    by (auto simp: form_pairs_def list_all_iff partition_at_some)
qed

lemma form_names_plain: "list_all (\<lambda>k. CHR ''='' \<notin> set k \<and> CHR ''&'' \<notin> set k) (form_names body)"
  by (auto simp: form_names_def list_all_iff partition_at_def dest: set_takeWhileD split_on_no_sep)

lemma form_names_pairs: "map fst (form_pairs body) = form_names body"
  by (simp add: form_pairs_def form_names_def case_prod_beta comp_def)

text \<open>the benign variant of a form has the parameters of the original in their order, each with the benign value of its class and
  none with a value of the original.\<close>

theorem form_values_benign:
  assumes "(v, r) \<in> set builder_values" "\<not> looks_json (e_request_body x) (content_type x)" "py_strip (e_request_body x) \<noteq> []"
  shows "form_pairs (neutralise_body loads dumps x r) = map (\<lambda>(k, w). (k, r)) (form_pairs (e_request_body x))"
proof -
  have "CHR ''&'' \<notin> set r" using assms(1) by (auto simp: builder_values_def benign_value_def)
  from form_pairs_assigned[OF form_names_plain this] show ?thesis using assms(2,3)
    by (simp add: neutralise_body_def Let_def form_names_pairs[symmetric] case_prod_beta comp_def)
qed

text \<open>A query is rebuilt from decoded names: an escaped separator in a name makes a parameter with a value that is not benign.\<close>

lemma query_value_survives:
  "neutralise_query ''http://a/x?q%26cmd%3Dls=1'' benign_value = Some ''http://a/x?q&cmd=ls=benign_control_value''"
  by code_simp

definition sample_form :: probe_exchange where
  "sample_form = \<lparr>e_url = ''http://a/'', e_request_headers = [], e_request_body = ''id=7&&q=a=b''\<rparr>"

lemma form_values_benign_witness:
  "form_pairs (neutralise_body (\<lambda>_. None) (\<lambda>_. []) sample_form ''1'') = [(''id'', ''1''), (''q'', ''1'')]"
proof -
  have "(''ssti'', ''1'') \<in> set builder_values" by (simp add: builder_values_def)
  moreover have "\<not> looks_json (e_request_body sample_form) (content_type sample_form)" "py_strip (e_request_body sample_form) \<noteq> []"
    "form_pairs (e_request_body sample_form) = [(''id'', ''7''), (''q'', ''a=b'')]" by code_simp+
  ultimately show ?thesis using form_values_benign[of "''ssti''" "''1''" sample_form "\<lambda>_. None" "\<lambda>_. []"] by simp
qed

end
