(* ===== verification/ProofRecords.thy ===== *)
theory ProofRecords
  imports FindingGates
begin

text \<open>
  Proofs bound to a case (\<open>evidence.py\<close>, \<open>evidence_audit.py\<close>, and the tables \<open>proof_records\<close> and
  \<open>proof_identity\<close> of \<open>store.py\<close> with \<open>_resolve_confirmation_proofs\<close>). A case names one concrete scenario, a proof one
  attempt at it. SHA-256, the text of a time stamp, fresh ids and the readings of the clock are arguments. The control
  ids of a row are the list their JSON text stands for. Rows with equal times come in row order.

  \<open>store_refines_ledger\<close>: the tables give the proofs of a case as the ledger in memory does. \<open>shown_confirmed_iff_proved\<close> says
  which stored confirmations are shown, \<open>conversion_never_raises\<close> what a validator result becomes, \<open>strongest_proof_kept\<close>
  that the strongest proof of a case is never displaced.
\<close>

section \<open>The strongest of a list\<close>

text \<open>\<open>max(xs, key=f)\<close>: the first element with the largest key.\<close>

definition best_by :: "('a \<Rightarrow> 'k::linorder) \<Rightarrow> 'a list \<Rightarrow> 'a option" where
  "best_by f xs = (case xs of [] \<Rightarrow> None | x # ys \<Rightarrow> Some (foldl (\<lambda>m y. if f m < f y then y else m) x ys))"

lemma best_by_Nil [simp]: "best_by f [] = None"
  by (simp add: best_by_def)

lemma best_by_single [simp]: "best_by f [y] = Some y"
  by (simp add: best_by_def)

lemma best_by_None [simp]: "best_by f xs = None \<longleftrightarrow> xs = []"
  by (simp add: best_by_def split: list.split)

lemma best_by_snoc:
  "best_by f (xs @ [y]) = (case best_by f xs of None \<Rightarrow> Some y | Some m \<Rightarrow> Some (if f m < f y then y else m))"
  by (cases xs) (auto simp: best_by_def)

lemma best_by_split:
  "best_by f xs = Some m \<Longrightarrow> \<exists>us vs. xs = us @ m # vs \<and> (\<forall>u \<in> set us. f u < f m) \<and> (\<forall>v \<in> set vs. f v \<le> f m)"
proof (induction xs arbitrary: m rule: rev_induct)
  case (snoc y xs)
  show ?case
  proof (cases "best_by f xs")
    case None
    then have "xs = []" by simp
    then have "m = y" using snoc.prems by simp
    with \<open>xs = []\<close> show ?thesis by (intro exI[of _ "[]"]) simp
  next
    case (Some k)
    from snoc.IH[OF this] obtain us vs where s: "xs = us @ k # vs" "\<forall>u \<in> set us. f u < f k" "\<forall>v \<in> set vs. f v \<le> f k" by blast
    show ?thesis
    proof (cases "f k < f y")
      case True
      then have "m = y" using snoc.prems Some by (simp add: best_by_snoc)
      moreover have "\<forall>u \<in> set xs. f u < f y" using s True by (auto intro: le_less_trans less_trans)
      ultimately show ?thesis by (intro exI[of _ xs] exI[of _ "[]"]) simp
    next
      case False
      then have "m = k" using snoc.prems Some by (simp add: best_by_snoc)
      then show ?thesis using s False by (intro exI[of _ us] exI[of _ "vs @ [y]"]) auto
    qed
  qed
qed simp

lemma best_by_mem: "best_by f xs = Some m \<Longrightarrow> m \<in> set xs"
  by (auto dest: best_by_split)

lemma best_by_max: "best_by f xs = Some m \<Longrightarrow> y \<in> set xs \<Longrightarrow> f y \<le> f m"
  by (fastforce dest: best_by_split)

lemma best_by_head:
  assumes "best_by f xs = Some m"
  shows "\<exists>rest. filter (\<lambda>x. f x = f m) xs = m # rest"
proof -
  from best_by_split[OF assms] obtain us vs where s: "xs = us @ m # vs" "\<forall>u \<in> set us. f u < f m" by blast
  have "filter (\<lambda>x. f x = f m) us = []" using s(2) by (force simp: filter_empty_conv)
  then show ?thesis using s(1) by simp
qed

text \<open>Sorting by something the key determines changes nothing.\<close>

lemma best_by_sorted:
  assumes "\<And>x y. f x = f y \<Longrightarrow> g x = g y"
  shows "best_by f (sort_key g xs) = best_by f xs"
proof (cases "best_by f xs")
  case None
  then show ?thesis by (metis best_by_None set_empty set_sort)
next
  case (Some m)
  then have "sort_key g xs \<noteq> []" by (metis best_by_None option.distinct(1) set_empty set_sort)
  then obtain k where k: "best_by f (sort_key g xs) = Some k" by (metis best_by_None not_None_eq)
  have "f k = f m" using best_by_max[OF k, of m] best_by_max[OF Some, of k] best_by_mem[OF k] best_by_mem[OF Some] by simp
  have "filter (\<lambda>x. f x = f m) ys = filter (\<lambda>x. f x = f m) (filter (\<lambda>x. g x = g m) ys)" for ys
    by (induction ys) (auto dest: assms)
  then have "filter (\<lambda>x. f x = f m) (sort_key g xs) = filter (\<lambda>x. f x = f m) xs" by (metis sort_key_stable)
  moreover obtain r1 where "filter (\<lambda>x. f x = f m) (sort_key g xs) = k # r1" using best_by_head[OF k] \<open>f k = f m\<close> by auto
  moreover obtain r2 where "filter (\<lambda>x. f x = f m) xs = m # r2" using best_by_head[OF Some] by auto
  ultimately have "k = m" by simp
  then show ?thesis using k Some by simp
qed

section \<open>Verdicts\<close>

datatype verdict = VConfirmed | ControlledNegative | Inconclusive | VBlocked | VError

fun verdict_value :: "verdict \<Rightarrow> string" where
  "verdict_value VConfirmed = ''confirmed''"
| "verdict_value ControlledNegative = ''controlled_negative''"
| "verdict_value Inconclusive = ''inconclusive''"
| "verdict_value VBlocked = ''blocked''"
| "verdict_value VError = ''error''"

definition verdict_of :: "string \<Rightarrow> verdict option" where
  "verdict_of s = find (\<lambda>v. verdict_value v = s) [VConfirmed, ControlledNegative, Inconclusive, VBlocked, VError]"

lemma verdict_of_value [simp]: "verdict_of (verdict_value v) = Some v"
  by (cases v) (simp_all add: verdict_of_def)

fun verdict_strength :: "verdict \<Rightarrow> nat" where
  "verdict_strength VConfirmed = 4"
| "verdict_strength ControlledNegative = 3"
| "verdict_strength Inconclusive = 1"
| "verdict_strength VBlocked = 1"
| "verdict_strength VError = 0"

definition from_validation :: "string \<Rightarrow> bool \<Rightarrow> bool \<Rightarrow> bool \<Rightarrow> bool \<Rightarrow> verdict" where
  "from_validation status conf blocked controlled was_run = (let s = py_lower status in
     if blocked then VBlocked
     else if conf \<and> s = ''confirmed'' then VConfirmed
     else if s = ''error'' then VError
     else if s = ''not_confirmed'' then (if controlled \<and> was_run then ControlledNegative else Inconclusive)
     else Inconclusive)"

section \<open>Cases\<close>

definition short_id :: "(string \<Rightarrow> string) \<Rightarrow> string list \<Rightarrow> string" where
  "short_id sha parts = take 16 (sha (join_with [CHR 0x1F] parts))"

record case_ref =
  tc_run :: string
  tc_template :: string
  tc_check :: string
  tc_principal :: string
  tc_location :: string
  tc_name :: string
  tc_state :: string
  tc_finding :: string
  tc_case :: string

definition case_parts :: "case_ref \<Rightarrow> string list" where
  "case_parts c = [tc_run c, tc_template c, tc_check c, tc_principal c, tc_location c, tc_name c, tc_state c] @
     (if tc_finding c \<noteq> [] then [tc_finding c] else [])"

definition recompute_id :: "(string \<Rightarrow> string) \<Rightarrow> case_ref \<Rightarrow> string" where
  "recompute_id sha c = short_id sha (case_parts c)"

definition new_case :: "(string \<Rightarrow> string) \<Rightarrow> case_ref \<Rightarrow> case_ref" where
  "new_case sha c = (if tc_case c = [] then c\<lparr>tc_case := recompute_id sha c\<rparr> else c)"

definition consistent :: "(string \<Rightarrow> string) \<Rightarrow> case_ref \<Rightarrow> bool" where
  "consistent sha c \<longleftrightarrow> tc_run c \<noteq> [] \<and> tc_check c \<noteq> [] \<and> tc_case c = recompute_id sha c"

section \<open>Exchange artifacts\<close>

record exchange_artifact =
  art_id :: string
  art_request :: string
  art_response :: string
  art_destination :: string
  art_outcome :: string
  art_session :: string
  art_time :: time

definition make_artifact :: "(string \<Rightarrow> string) \<Rightarrow> (time \<Rightarrow> string) \<Rightarrow> string \<Rightarrow> string \<Rightarrow> string \<Rightarrow> string \<Rightarrow> string \<Rightarrow> time option
    \<Rightarrow> time \<Rightarrow> exchange_artifact" where
  "make_artifact sha show_time req resp dest outcome session stamp now = (let ts = option_or stamp now in
     \<lparr>art_id = short_id sha [req, resp, dest, session, show_time ts], art_request = req, art_response = resp,
       art_destination = dest, art_outcome = outcome, art_session = session, art_time = ts\<rparr>)"

definition redacted_view :: "exchange_artifact \<Rightarrow> (string \<times> json) list" where
  "redacted_view a = [(''artifact_id'', JStr (art_id a)), (''actual_destination'', JStr (art_destination a)),
     (''transport_outcome'', JStr (art_outcome a)), (''timestamp'', JFloat (art_time a))]"

section \<open>Proofs\<close>

record proof_record =
  pf_id :: string
  pf_case :: case_ref
  pf_validator :: string
  pf_verdict :: verdict
  pf_version :: string
  pf_baseline :: string
  pf_attack :: string
  pf_controls :: "string list"
  pf_invariant :: string
  pf_observed :: string
  pf_limitation :: string
  pf_executed :: bool
  pf_legacy :: bool
  pf_created :: time
  pf_policy :: string

datatype proof_exc = NotExecuted | NoControlArtifacts | UnknownVerdict | ForgedCase string | NotATypedDict

text \<open>\<open>__post_init__\<close>, with the id and the reading of the clock it may take.\<close>

definition new_proof :: "string \<Rightarrow> time \<Rightarrow> proof_record \<Rightarrow> proof_exc + proof_record" where
  "new_proof fresh now p =
     (if (pf_verdict p = VConfirmed \<or> pf_verdict p = ControlledNegative) \<and> \<not> pf_executed p then Inl NotExecuted
      else if pf_verdict p = ControlledNegative \<and> pf_controls p = [] then Inl NoControlArtifacts
      else Inr (p\<lparr>pf_id := list_or (pf_id p) fresh, pf_created := float_or (pf_created p) now\<rparr>))"

definition legacy_note :: string where
  "legacy_note = ''legacy/unstructured result: no resolvable exchange artifacts were captured''"

text \<open>What a validator reports of one attempt.\<close>

record attempt_result =
  ar_status :: string
  ar_confirmed :: bool
  ar_blocked :: bool
  ar_executed :: "bool option"
  ar_controlled :: bool

definition from_validation_result :: "string \<Rightarrow> time \<Rightarrow> attempt_result \<Rightarrow> proof_record \<Rightarrow> proof_exc + proof_record" where
  "from_validation_result fresh now r given =
     (let has_artifacts = (pf_baseline given \<noteq> [] \<or> pf_attack given \<noteq> [] \<or> pf_controls given \<noteq> []);
          explicit = (ar_executed r = Some True);
          controlled_negative = (ar_controlled r \<and> explicit \<and> pf_controls given \<noteq> []);
          v = from_validation (ar_status r) (ar_confirmed r) (ar_blocked r) controlled_negative explicit;
          ex = (explicit \<or> \<not> ar_blocked r \<and> ar_confirmed r \<and> py_lower (ar_status r) = ''confirmed'');
          limit = (if has_artifacts then pf_limitation given
            else if pf_limitation given \<noteq> [] then pf_limitation given @ ''; '' @ legacy_note else legacy_note)
      in new_proof fresh now (given\<lparr>pf_id := [], pf_verdict := v, pf_limitation := limit, pf_executed := ex,
           pf_legacy := \<not> has_artifacts, pf_created := 0\<rparr>))"

definition legacy_confirmed :: "string \<Rightarrow> time \<Rightarrow> case_ref \<Rightarrow> string \<Rightarrow> string \<Rightarrow> string \<Rightarrow> proof_exc + proof_record" where
  "legacy_confirmed fresh now c validator observed version = new_proof fresh now
     \<lparr>pf_id = [], pf_case = c, pf_validator = validator, pf_verdict = VConfirmed, pf_version = version, pf_baseline = [],
       pf_attack = [], pf_controls = [], pf_invariant = [], pf_observed = observed,
       pf_limitation = ''legacy pre-schema confirmation: structured baseline/attack/control artifacts were not captured under the proof contract'',
       pf_executed = True, pf_legacy = True, pf_created = 0, pf_policy = []\<rparr>"

section \<open>Dictionaries\<close>

definition case_to_dict :: "case_ref \<Rightarrow> (string \<times> json) list" where
  "case_to_dict c = [(''run_id'', JStr (tc_run c)), (''request_template_id'', JStr (tc_template c)), (''check_id'', JStr (tc_check c)),
     (''principal_id'', JStr (tc_principal c)), (''parameter_location'', JStr (tc_location c)), (''parameter_name'', JStr (tc_name c)),
     (''workflow_state_id'', JStr (tc_state c)), (''finding_ref'', JStr (tc_finding c)), (''case_id'', JStr (tc_case c))]"

definition proof_to_dict :: "proof_record \<Rightarrow> (string \<times> json) list" where
  "proof_to_dict p = [(''proof_id'', JStr (pf_id p)), (''case'', JObj (case_to_dict (pf_case p))), (''validator'', JStr (pf_validator p)),
     (''verdict'', JStr (verdict_value (pf_verdict p))), (''validator_version'', JStr (pf_version p)),
     (''baseline_artifact_id'', JStr (pf_baseline p)), (''attack_artifact_id'', JStr (pf_attack p)),
     (''control_artifact_ids'', JList (map JStr (pf_controls p))), (''expected_invariant'', JStr (pf_invariant p)),
     (''observed_result'', JStr (pf_observed p)), (''limitation'', JStr (pf_limitation p)), (''executed'', JBool (pf_executed p)),
     (''legacy'', JBool (pf_legacy p)), (''created_at'', JFloat (pf_created p)), (''policy_fingerprint'', JStr (pf_policy p))]"

text \<open>Reading a dictionary back. A key of another type than the one written is outside the model, and \<open>NotATypedDict\<close>.\<close>

definition str_at :: "(string \<times> json) list \<Rightarrow> string \<Rightarrow> string \<Rightarrow> string option" where
  "str_at d k missing = (case dict_get d k of None \<Rightarrow> Some missing | Some (JStr s) \<Rightarrow> Some s | _ \<Rightarrow> None)"

definition bool_at :: "(string \<times> json) list \<Rightarrow> string \<Rightarrow> bool option" where
  "bool_at d k = (case dict_get d k of None \<Rightarrow> Some False | Some (JBool b) \<Rightarrow> Some b | _ \<Rightarrow> None)"

definition time_at :: "(string \<times> json) list \<Rightarrow> string \<Rightarrow> time option" where
  "time_at d k = (case dict_get d k of None \<Rightarrow> Some 0 | Some (JFloat x) \<Rightarrow> Some x | _ \<Rightarrow> None)"

fun strs_of :: "json list \<Rightarrow> string list option" where
  "strs_of [] = Some []"
| "strs_of (JStr s # xs) = map_option ((#) s) (strs_of xs)"
| "strs_of (x # xs) = None"

definition strs_at :: "(string \<times> json) list \<Rightarrow> string \<Rightarrow> string list option" where
  "strs_at d k = (case dict_get d k of None \<Rightarrow> Some [] | Some (JList xs) \<Rightarrow> strs_of xs | _ \<Rightarrow> None)"

definition obj_at :: "(string \<times> json) list \<Rightarrow> string \<Rightarrow> (string \<times> json) list option" where
  "obj_at d k = (case dict_get d k of None \<Rightarrow> Some [] | Some (JObj e) \<Rightarrow> Some e | _ \<Rightarrow> None)"

definition case_from_dict :: "(string \<Rightarrow> string) \<Rightarrow> (string \<times> json) list \<Rightarrow> case_ref option" where
  "case_from_dict sha d = (case all_some (map (\<lambda>k. str_at d k [])
       [''run_id'', ''request_template_id'', ''check_id'', ''principal_id'', ''parameter_location'', ''parameter_name'',
        ''workflow_state_id'', ''finding_ref'', ''case_id'']) of
     Some [rid, template, check, who, loc, name, state, fref, cid] \<Rightarrow> Some (new_case sha
       \<lparr>tc_run = rid, tc_template = template, tc_check = check, tc_principal = who, tc_location = loc, tc_name = name,
         tc_state = state, tc_finding = fref, tc_case = cid\<rparr>)
   | _ \<Rightarrow> None)"

definition proof_from_dict :: "(string \<Rightarrow> string) \<Rightarrow> string \<Rightarrow> time \<Rightarrow> (string \<times> json) list \<Rightarrow> proof_exc + proof_record" where
  "proof_from_dict sha fresh now d =
     (case (all_some (map (\<lambda>k. str_at d k []) [''proof_id'', ''validator'', ''validator_version'', ''baseline_artifact_id'',
          ''attack_artifact_id'', ''expected_invariant'', ''observed_result'', ''limitation'', ''policy_fingerprint'']),
        Option.bind (obj_at d ''case'') (case_from_dict sha), str_at d ''verdict'' ''inconclusive'', strs_at d ''control_artifact_ids'',
        bool_at d ''executed'', bool_at d ''legacy'', time_at d ''created_at'') of
       (Some [pid, validator, version, baseline, attack, expect, observed, limit, policy], Some c, Some v, Some controls, Some ex,
          Some leg, Some created) \<Rightarrow>
         (case verdict_of v of None \<Rightarrow> Inl UnknownVerdict
          | Some verdict \<Rightarrow> new_proof fresh now
             \<lparr>pf_id = pid, pf_case = c, pf_validator = validator, pf_verdict = verdict, pf_version = version, pf_baseline = baseline,
               pf_attack = attack, pf_controls = controls, pf_invariant = expect, pf_observed = observed, pf_limitation = limit,
               pf_executed = ex, pf_legacy = leg, pf_created = created, pf_policy = policy\<rparr>)
     | _ \<Rightarrow> Inl NotATypedDict)"

section \<open>The ledger in memory\<close>

type_synonym proof_ledger = "(string \<times> proof_record list) list"

text \<open>An exception leaves the ledger as it is.\<close>

definition record_proof :: "(string \<Rightarrow> string) \<Rightarrow> proof_record \<Rightarrow> proof_ledger \<Rightarrow> (proof_exc + proof_record) \<times> proof_ledger" where
  "record_proof sha p led = (let cid = tc_case (pf_case p) in
     if \<not> consistent sha (pf_case p) then (Inl (ForgedCase cid), led)
     else (Inr p, dict_set cid (option_or (dict_get led cid) [] @ [p]) led))"

definition ledger_proofs :: "proof_ledger \<Rightarrow> string \<Rightarrow> proof_record list" where
  "ledger_proofs led cid = option_or (dict_get led cid) []"

definition proof_key :: "proof_record \<Rightarrow> nat \<times> time" where
  "proof_key p = (verdict_strength (pf_verdict p), pf_created p)"

definition ledger_best :: "proof_ledger \<Rightarrow> string \<Rightarrow> proof_record option" where
  "ledger_best led cid = (case dict_get led cid of None \<Rightarrow> None | Some ps \<Rightarrow> best_by proof_key ps)"

definition ledger_all :: "proof_ledger \<Rightarrow> proof_record list" where
  "ledger_all led = concat (map snd led)"

section \<open>The tables\<close>

text \<open>A row of \<open>proof_records\<close> is a proof without its policy, which is kept in \<open>proof_identity\<close> with a version.\<close>

record proof_tables =
  pt_rows :: "proof_record list"
  pt_identity :: "(string \<times> string \<times> int) list"

definition identity_version :: int where "identity_version = 1"

definition persist_proof_record :: "(string \<Rightarrow> string) \<Rightarrow> proof_record \<Rightarrow> proof_tables \<Rightarrow> (bool \<times> string) \<times> proof_tables" where
  "persist_proof_record sha p t =
     (if \<not> consistent sha (pf_case p) then ((False, ''unknown_or_forged_case''), t)
      else (let rows = (if List.member (map pf_id (pt_rows t)) (pf_id p) then pt_rows t
                        else pt_rows t @ [p\<lparr>pf_policy := []\<rparr>]);
                ids = (if pf_policy p \<noteq> [] \<and> \<not> List.member (map fst (pt_identity t)) (pf_id p)
                       then pt_identity t @ [(pf_id p, pf_policy p, identity_version)] else pt_identity t)
            in ((True, ''accepted''), t\<lparr>pt_rows := rows, pt_identity := ids\<rparr>)))"

text \<open>The join, and a row as it is read.\<close>

definition policy_row :: "proof_tables \<Rightarrow> string \<Rightarrow> string" where
  "policy_row t pid = (case find (\<lambda>(i, policy, v). i = pid \<and> v = identity_version) (pt_identity t) of
     None \<Rightarrow> [] | Some (i, policy, v) \<Rightarrow> policy)"

definition read_proof :: "proof_tables \<Rightarrow> proof_record \<Rightarrow> proof_record" where
  "read_proof t r = r\<lparr>pf_policy := policy_row t (pf_id r)\<rparr>"

definition proofs_for_case :: "proof_tables \<Rightarrow> string \<Rightarrow> proof_record list" where
  "proofs_for_case t cid = map (read_proof t) (sort_key pf_created (filter (\<lambda>r. tc_case (pf_case r) = cid) (pt_rows t)))"

definition proofs_for_run :: "proof_tables \<Rightarrow> string \<Rightarrow> proof_record list" where
  "proofs_for_run t rid = map (read_proof t) (sort_key pf_created (filter (\<lambda>r. tc_run (pf_case r) = rid) (pt_rows t)))"

definition best_proof_for_case :: "proof_tables \<Rightarrow> string \<Rightarrow> proof_record option" where
  "best_proof_for_case t cid = best_by proof_key (proofs_for_case t cid)"

section \<open>Auditing a claim\<close>

datatype audit = AuditVerified | AuditRejected | AuditUnverifiable

definition audit_proof :: "string \<Rightarrow> string \<Rightarrow> proof_record option \<Rightarrow> string \<Rightarrow> audit" where
  "audit_proof finding_case finding_proof proof rid = (case proof of
     None \<Rightarrow> AuditUnverifiable
   | Some p \<Rightarrow>
      (if finding_case = [] \<or> rid = [] \<or> tc_case (pf_case p) = [] \<or> tc_run (pf_case p) = [] then AuditUnverifiable
       else if tc_case (pf_case p) \<noteq> finding_case then AuditRejected
       else if tc_run (pf_case p) \<noteq> rid then AuditRejected
       else if finding_proof \<noteq> [] \<and> pf_id p \<noteq> finding_proof then AuditRejected
       else if \<not> pf_executed p then AuditRejected
       else if pf_verdict p \<noteq> VConfirmed then AuditRejected
       else AuditVerified))"

section \<open>Stored confirmations\<close>

record stored_finding = agent_finding +
  case_id :: string
  verification_state :: string
  lifecycle_shown :: lifecycle
  proof_status :: string

definition points_to_proof :: "'a stored_finding_scheme \<Rightarrow> bool" where
  "points_to_proof r \<longleftrightarrow> (confirmed r \<or> oracle_verified r \<or> verification_state r = ''verified'') \<and> (proof_id r \<noteq> [] \<or> case_id r \<noteq> [])"

definition on_record :: "proof_record list \<Rightarrow> string list \<Rightarrow> (string \<times> string) list" where
  "on_record rows ids = map (\<lambda>p. (pf_id p, tc_case (pf_case p)))
     (filter (\<lambda>p. List.member ids (pf_id p) \<and> pf_verdict p = VConfirmed) rows)"

definition resolve_row :: "(string \<times> string) list \<Rightarrow> 'a stored_finding_scheme \<Rightarrow> 'a stored_finding_scheme" where
  "resolve_row known r =
     (if \<not> points_to_proof r then r\<lparr>proof_status := ''none''\<rparr>
      else if List.member known (proof_id r, case_id r) then r\<lparr>proof_status := ''resolved''\<rparr>
      else r\<lparr>proof_status := ''unavailable'', confirmed := False, lifecycle_shown := lifecycle_state False (review_verdict r),
             oracle_verified := False, verification_state := ''candidate''\<rparr>)"

definition resolve_confirmation_proofs :: "proof_tables \<Rightarrow> 'a stored_finding_scheme list \<Rightarrow> 'a stored_finding_scheme list" where
  "resolve_confirmation_proofs t rs =
     (let ids = map proof_id (filter (\<lambda>r. points_to_proof r \<and> proof_id r \<noteq> []) rs)
      in map (resolve_row (on_record (pt_rows t) ids)) rs)"

section \<open>What becomes of a validator result\<close>

text \<open>the conversion of a validator result never raises; its verdict is a confirmation exactly for a result that confirms and was not
  blocked, and a controlled negative exactly for an executed and controlled not_confirmed with control artifacts. An error or a
  skipped run is never a negative.\<close>

theorem conversion_never_raises:
  "case from_validation_result fresh now r given of Inl e \<Rightarrow> False
   | Inr p \<Rightarrow> (pf_verdict p = VConfirmed \<longleftrightarrow> \<not> ar_blocked r \<and> ar_confirmed r \<and> py_lower (ar_status r) = ''confirmed'') \<and>
       (pf_verdict p = ControlledNegative \<longleftrightarrow> \<not> ar_blocked r \<and> py_lower (ar_status r) = ''not_confirmed'' \<and> ar_controlled r \<and>
          ar_executed r = Some True \<and> pf_controls given \<noteq> []) \<and>
       (pf_verdict p = VConfirmed \<or> pf_verdict p = ControlledNegative \<longrightarrow> pf_executed p) \<and>
       pf_case p = pf_case given \<and> pf_id p = fresh"
  by (auto simp: from_validation_result_def from_validation_def new_proof_def list_or_def Let_def)

section \<open>The tables and the ledger\<close>

definition recorded :: "(string \<Rightarrow> string) \<Rightarrow> proof_record list \<Rightarrow> proof_ledger" where
  "recorded sha ps = foldl (\<lambda>led p. snd (record_proof sha p led)) [] ps"

definition persisted :: "(string \<Rightarrow> string) \<Rightarrow> proof_record list \<Rightarrow> proof_tables" where
  "persisted sha ps = foldl (\<lambda>t p. snd (persist_proof_record sha p t)) \<lparr>pt_rows = [], pt_identity = []\<rparr> ps"

abbreviation genuine :: "(string \<Rightarrow> string) \<Rightarrow> proof_record list \<Rightarrow> proof_record list" where
  "genuine sha \<equiv> filter (\<lambda>p. consistent sha (pf_case p))"

abbreviation of_case :: "string \<Rightarrow> proof_record list \<Rightarrow> proof_record list" where
  "of_case cid \<equiv> filter (\<lambda>p. tc_case (pf_case p) = cid)"

lemma recorded_get:
  "dict_get (recorded sha ps) cid = (let qs = of_case cid (genuine sha ps) in if qs = [] then None else Some qs)"
proof (induction ps rule: rev_induct)
  case (snoc p ps)
  let ?led = "recorded sha ps"
  have step: "recorded sha (ps @ [p]) = snd (record_proof sha p ?led)" by (simp add: recorded_def)
  show ?case
  proof (cases "consistent sha (pf_case p) \<and> tc_case (pf_case p) = cid")
    case True
    then show ?thesis using snoc by (simp add: step record_proof_def Let_def option_or_def split: if_splits)
  next
    case False
    then show ?thesis using snoc by (auto simp: step record_proof_def Let_def)
  qed
qed (simp add: recorded_def)

lemma ledger_proofs_recorded: "ledger_proofs (recorded sha ps) cid = of_case cid (genuine sha ps)"
  by (simp add: ledger_proofs_def recorded_get option_or_def Let_def)

lemma ledger_best_recorded: "ledger_best (recorded sha ps) cid = best_by proof_key (of_case cid (genuine sha ps))"
  by (simp add: ledger_best_def recorded_get Let_def)

abbreviation bare :: "proof_record \<Rightarrow> proof_record" where
  "bare p \<equiv> p\<lparr>pf_policy := []\<rparr>"

lemma persisted_both:
  "distinct (map pf_id ps) \<Longrightarrow> pt_rows (persisted sha ps) = map bare (genuine sha ps) \<and>
     pt_identity (persisted sha ps) = map (\<lambda>p. (pf_id p, pf_policy p, identity_version)) (filter (\<lambda>p. pf_policy p \<noteq> []) (genuine sha ps))"
proof (induction ps rule: rev_induct)
  case (snoc p ps)
  have step: "persisted sha (ps @ [p]) = snd (persist_proof_record sha p (persisted sha ps))" by (simp add: persisted_def)
  have new: "pf_id p \<notin> pf_id ` set ps" using snoc.prems by simp
  have ids: "pt_rows (persisted sha ps) = map bare (genuine sha ps)"
    "pt_identity (persisted sha ps) = map (\<lambda>p. (pf_id p, pf_policy p, identity_version)) (filter (\<lambda>p. pf_policy p \<noteq> []) (genuine sha ps))"
    using snoc by simp_all
  have "pf_id p \<notin> pf_id ` set (pt_rows (persisted sha ps))" "pf_id p \<notin> fst ` set (pt_identity (persisted sha ps))"
    using new by (auto simp: ids)
  then have fresh: "\<not> List.member (map pf_id (pt_rows (persisted sha ps))) (pf_id p)"
    "\<not> List.member (map fst (pt_identity (persisted sha ps))) (pf_id p)" by simp_all
  show ?case using fresh ids by (simp add: step persist_proof_record_def Let_def)
qed (simp add: persisted_def)

lemmas persisted_tables = persisted_both[THEN conjunct1] persisted_both[THEN conjunct2]

lemma policy_found:
  "distinct (map pf_id ps) \<Longrightarrow> p \<in> set ps \<Longrightarrow>
   find (\<lambda>(i, policy, v). i = pf_id p \<and> v = identity_version)
     (map (\<lambda>p. (pf_id p, pf_policy p, identity_version)) (filter (\<lambda>p. pf_policy p \<noteq> []) ps)) =
   (if pf_policy p = [] then None else Some (pf_id p, pf_policy p, identity_version))"
  by (induction ps) (auto simp: find_None_iff image_iff)

lemma read_back_bare:
  assumes "distinct (map pf_id ps)" "p \<in> set (genuine sha ps)"
  shows "read_proof (persisted sha ps) (bare p) = p"
proof -
  have "distinct (map pf_id (genuine sha ps))" using assms(1) by (rule distinct_map_filter)
  from policy_found[OF this assms(2)] have "policy_row (persisted sha ps) (pf_id p) = pf_policy p"
    by (simp add: policy_row_def persisted_tables(2)[OF assms(1)])
  then show ?thesis by (simp add: read_proof_def)
qed

lemma sort_key_map: "sort_key f (map g xs) = map g (sort_key (\<lambda>x. f (g x)) xs)"
proof (induction xs)
  case (Cons x xs)
  have "insort_key f (g x) (map g ys) = map g (insort_key (\<lambda>x. f (g x)) x ys)" for ys by (induction ys) simp_all
  then show ?case using Cons by simp
qed simp

lemma proofs_for_case_persisted:
  assumes "distinct (map pf_id ps)"
  shows "proofs_for_case (persisted sha ps) cid = sort_key pf_created (of_case cid (genuine sha ps))"
proof -
  have "filter (\<lambda>r. tc_case (pf_case r) = cid) (pt_rows (persisted sha ps)) = map bare (of_case cid (genuine sha ps))"
    by (simp add: persisted_tables(1)[OF assms] filter_map comp_def)
  moreover have "map (\<lambda>p. read_proof (persisted sha ps) (bare p)) (sort_key pf_created (of_case cid (genuine sha ps))) =
      sort_key pf_created (of_case cid (genuine sha ps))"
    by (rule map_idI) (auto simp: read_back_bare[OF assms])
  ultimately show ?thesis by (simp add: proofs_for_case_def sort_key_map comp_def)
qed

text \<open>C29: the tables implement the ledger: after the same proofs, with distinct ids, they give for every case the attempts of the ledger in
  the order of their times, with their policies, and the same strongest one. Forged cases are in neither.\<close>

theorem store_refines_ledger:
  assumes "distinct (map pf_id ps)"
  shows "proofs_for_case (persisted sha ps) cid = sort_key pf_created (ledger_proofs (recorded sha ps) cid) \<and>
     best_proof_for_case (persisted sha ps) cid = ledger_best (recorded sha ps) cid"
  using best_by_sorted[of proof_key pf_created]
  by (simp add: proofs_for_case_persisted[OF assms] ledger_proofs_recorded ledger_best_recorded best_proof_for_case_def proof_key_def)

section \<open>What is kept, and what is shown\<close>

lemma rows_kept: "\<exists>new. pt_rows (snd (persist_proof_record sha p t)) = pt_rows t @ new"
  by (simp add: persist_proof_record_def Let_def)

lemma rows_kept_run: "\<exists>new. pt_rows (foldl (\<lambda>t p. snd (persist_proof_record sha p t)) t ps) = pt_rows t @ new"
proof (induction ps arbitrary: t)
  case (Cons p ps)
  from Cons.IH[of "snd (persist_proof_record sha p t)"] rows_kept[of sha p t] show ?case by auto
qed simp

lemma key_of_read [simp]: "proof_key (read_proof t r) = proof_key r"
  by (simp add: proof_key_def read_proof_def)

lemma best_key: "map_option proof_key (best_proof_for_case t cid) = map_option proof_key (best_by proof_key (of_case cid (pt_rows t)))"
proof -
  have map: "map_option proof_key (best_by proof_key (map (read_proof t) xs)) = map_option proof_key (best_by proof_key xs)" for xs
    by (induction xs rule: rev_induct) (auto simp: best_by_snoc split: option.splits)
  show ?thesis using best_by_sorted[of proof_key pf_created "of_case cid (pt_rows t)"]
    by (simp add: best_proof_for_case_def proofs_for_case_def map proof_key_def)
qed

text \<open>no later attempt, whether weaker, repeated or forged, displaces the strongest proof of a case by a weaker one.\<close>

theorem strongest_proof_kept:
  assumes "best_proof_for_case t cid = Some b"
  shows "\<exists>b'. best_proof_for_case (foldl (\<lambda>t p. snd (persist_proof_record sha p t)) t ps) cid = Some b' \<and> proof_key b \<le> proof_key b'"
proof -
  let ?u = "foldl (\<lambda>t p. snd (persist_proof_record sha p t)) t ps"
  obtain new where rows: "pt_rows ?u = pt_rows t @ new" using rows_kept_run by blast
  obtain m where m: "best_by proof_key (of_case cid (pt_rows t)) = Some m" "proof_key m = proof_key b"
    using best_key[of t cid] assms by (cases "best_by proof_key (of_case cid (pt_rows t))") auto
  have "m \<in> set (of_case cid (pt_rows ?u))" using best_by_mem[OF m(1)] by (simp add: rows)
  then obtain k where k: "best_by proof_key (of_case cid (pt_rows ?u)) = Some k" by (metis best_by_None empty_iff empty_set not_None_eq)
  then obtain b' where "best_proof_for_case ?u cid = Some b'" "proof_key b' = proof_key k" using best_key[of ?u cid] by auto
  then show ?thesis using best_by_max[OF k \<open>m \<in> _\<close>] m(2) by auto
qed

text \<open>Every row comes from the constructor.\<close>

definition well_made :: "proof_record \<Rightarrow> bool" where
  "well_made p \<longleftrightarrow> (case pf_verdict p of VConfirmed \<Rightarrow> pf_executed p
     | ControlledNegative \<Rightarrow> pf_executed p \<and> pf_controls p \<noteq> [] | _ \<Rightarrow> True)"

lemma new_proof_well_made: "new_proof fresh now p = Inr q \<Longrightarrow> well_made q"
  by (auto simp: new_proof_def well_made_def split: if_splits verdict.splits)

lemma persist_well_made:
  "well_made p \<Longrightarrow> list_all well_made (pt_rows t) \<Longrightarrow> list_all well_made (pt_rows (snd (persist_proof_record sha p t)))"
  by (simp add: persist_proof_record_def Let_def well_made_def split: verdict.splits)

lemma persist_consistent:
  "list_all (\<lambda>r. consistent sha (pf_case r)) (pt_rows t) \<Longrightarrow>
   list_all (\<lambda>r. consistent sha (pf_case r)) (pt_rows (snd (persist_proof_record sha p t)))"
  by (simp add: persist_proof_record_def Let_def)

definition confirmed_on_record :: "proof_tables \<Rightarrow> 'a stored_finding_scheme \<Rightarrow> bool" where
  "confirmed_on_record t r \<longleftrightarrow> proof_id r \<noteq> [] \<and>
     list_ex (\<lambda>p. pf_id p = proof_id r \<and> tc_case (pf_case p) = case_id r \<and> pf_verdict p = VConfirmed) (pt_rows t)"

definition unlinked :: "'a stored_finding_scheme \<Rightarrow> bool" where
  "unlinked r \<longleftrightarrow> proof_id r = [] \<and> case_id r = []"

lemma known_iff:
  assumes "r \<in> set rs" "points_to_proof r"
  shows "List.member (on_record (pt_rows t) (map proof_id (filter (\<lambda>r. points_to_proof r \<and> proof_id r \<noteq> []) rs))) (proof_id r, case_id r)
     \<longleftrightarrow> confirmed_on_record t r"
  using assms by (auto simp: on_record_def confirmed_on_record_def list_ex_iff image_iff)

text \<open>C28: a stored finding is shown as confirmed, or as verified, exactly when it was stored so and either names no proof and no case, or
  names a proof that is on record with a confirmed verdict for that very case. Nothing is ever promoted.\<close>

theorem shown_confirmed_iff_proved:
  "map (\<lambda>r. (confirmed r, oracle_verified r, verification_state r = ''verified'')) (resolve_confirmation_proofs t rs) =
   map (\<lambda>r. let backed = (unlinked r \<or> confirmed_on_record t r) in
     (confirmed r \<and> backed, oracle_verified r \<and> backed, verification_state r = ''verified'' \<and> backed)) rs"
proof -
  let ?known = "on_record (pt_rows t) (map proof_id (filter (\<lambda>r. points_to_proof r \<and> proof_id r \<noteq> []) rs))"
  have "(let q = resolve_row ?known r in (confirmed q, oracle_verified q, verification_state q = ''verified'')) =
     (let backed = (unlinked r \<or> confirmed_on_record t r) in
       (confirmed r \<and> backed, oracle_verified r \<and> backed, verification_state r = ''verified'' \<and> backed))" if "r \<in> set rs" for r
  proof (cases "points_to_proof r")
    case True
    then show ?thesis using known_iff[OF that True, of t] by (auto simp: resolve_row_def unlinked_def points_to_proof_def)
  next
    case False
    then show ?thesis by (auto simp: resolve_row_def points_to_proof_def unlinked_def)
  qed
  then show ?thesis by (simp add: resolve_confirmation_proofs_def Let_def)
qed

section \<open>Reading a proof back\<close>

lemma case_roundtrip: "tc_case c \<noteq> [] \<Longrightarrow> case_from_dict sha (case_to_dict c) = Some c"
  by (simp add: case_from_dict_def case_to_dict_def str_at_def new_case_def)

lemma strs_of_map [simp]: "strs_of (map JStr xs) = Some xs"
  by (induction xs) simp_all

text \<open>a proof that has an id, a time and a case is read back from its dictionary as it was.\<close>

theorem proof_roundtrip:
  assumes "well_made p" "pf_id p \<noteq> []" "pf_created p \<noteq> 0" "tc_case (pf_case p) \<noteq> []"
  shows "proof_from_dict sha fresh now (proof_to_dict p) = Inr p"
proof -
  have "new_proof fresh now p = Inr p" using assms(1-3)
    by (auto simp: new_proof_def well_made_def list_or_def float_or_def split: verdict.splits)
  then show ?thesis using case_roundtrip[OF assms(4), of sha]
    by (cases p) (simp add: proof_from_dict_def proof_to_dict_def str_at_def strs_at_def bool_at_def time_at_def obj_at_def)
qed

text \<open>A tampered dictionary is read, but not accepted: its case does not match its fields.\<close>

lemma forged_never_persisted:
  "\<not> consistent sha (pf_case p) \<Longrightarrow> persist_proof_record sha p t = ((False, ''unknown_or_forged_case''), t)"
  by (simp add: persist_proof_record_def)

section \<open>One case, one scenario\<close>

text \<open>two cases with one id are the same scenario (the same run, request, check, principal, input, workflow state and finding) when
  their fields hold no separator and their texts do not collide.\<close>

lemma same_case_same_scenario:
  assumes "consistent sha c" "consistent sha d" "tc_case c = tc_case d"
    and plain: "\<And>w. w \<in> set (case_parts c) \<union> set (case_parts d) \<Longrightarrow> CHR 0x1F \<notin> set w"
    and no_collision: "let a = join_with [CHR 0x1F] (case_parts c); b = join_with [CHR 0x1F] (case_parts d)
      in take 16 (sha a) = take 16 (sha b) \<longrightarrow> a = b"
  shows "c = d"
proof -
  have "join_with [CHR 0x1F] (case_parts c) = join_with [CHR 0x1F] (case_parts d)"
    using assms(1-3) no_collision by (simp add: consistent_def recompute_id_def short_id_def Let_def)
  moreover have "split_on CHR 0x1F (join_with [CHR 0x1F] (case_parts x)) = case_parts x" if "x = c \<or> x = d" for x
  proof (rule split_join)
    show "case_parts x \<noteq> []" by (simp add: case_parts_def)
    show "list_all (\<lambda>w. CHR 0x1F \<notin> set w) (case_parts x)" using plain that by (auto simp: list_all_iff)
  qed
  ultimately have "case_parts c = case_parts d" by metis
  then show ?thesis using assms(3) by (cases c; cases d) (auto simp: case_parts_def split: if_splits)
qed

section \<open>Samples\<close>

definition sample_case :: case_ref where
  "sample_case = new_case (\<lambda>s. s) \<lparr>tc_run = ''r'', tc_template = ''t'', tc_check = ''c'', tc_principal = ''p'', tc_location = ''query'',
     tc_name = ''q'', tc_state = [], tc_finding = [], tc_case = []\<rparr>"

definition sample_proof :: "string \<Rightarrow> verdict \<Rightarrow> time \<Rightarrow> proof_record" where
  "sample_proof i v created = \<lparr>pf_id = i, pf_case = sample_case, pf_validator = ''ssti'', pf_verdict = v, pf_version = [], pf_baseline = [],
     pf_attack = ''a'', pf_controls = [], pf_invariant = [], pf_observed = [], pf_limitation = [], pf_executed = True, pf_legacy = False,
     pf_created = created, pf_policy = ''csp:1''\<rparr>"

lemma sample_consistent: "consistent (\<lambda>s. s) sample_case"
  by (simp add: sample_case_def new_case_def consistent_def recompute_id_def case_parts_def)

lemma sample_proof_fields: "pf_id (sample_proof i v x) = i" "pf_case (sample_proof i v x) = sample_case"
  "pf_created (sample_proof i v x) = x" "pf_verdict (sample_proof i v x) = v"
  by (simp_all add: sample_proof_def)

lemma store_refines_ledger_witness:
  "let ps = [sample_proof ''a'' VConfirmed 2, sample_proof ''b'' VError 1] in
   map pf_id (proofs_for_case (persisted (\<lambda>s. s) ps) (tc_case sample_case)) = [''b'', ''a''] \<and>
   map_option pf_id (best_proof_for_case (persisted (\<lambda>s. s) ps) (tc_case sample_case)) = Some ''a''"
proof -
  let ?ps = "[sample_proof ''a'' VConfirmed 2, sample_proof ''b'' VError 1]"
  have "distinct (map pf_id ?ps)" by (simp add: sample_proof_fields)
  from store_refines_ledger[OF this, of "\<lambda>s. s" "tc_case sample_case"] show ?thesis
    by (simp add: ledger_proofs_recorded ledger_best_recorded best_by_def sample_proof_fields sample_consistent proof_key_def)
qed

lemma strongest_proof_kept_witness:
  "\<exists>b'. best_proof_for_case (foldl (\<lambda>t p. snd (persist_proof_record (\<lambda>s. s) p t)) (persisted (\<lambda>s. s) [sample_proof ''a'' VConfirmed 2])
      [sample_proof ''b'' VError 3]) (tc_case sample_case) = Some b' \<and> proof_key (sample_proof ''a'' VConfirmed 2) \<le> proof_key b'"
proof -
  have "distinct (map pf_id [sample_proof ''a'' VConfirmed 2])" by simp
  then have "proofs_for_case (persisted (\<lambda>s. s) [sample_proof ''a'' VConfirmed 2]) (tc_case sample_case) = [sample_proof ''a'' VConfirmed 2]"
    by (subst proofs_for_case_persisted) (simp_all add: sample_proof_fields sample_consistent)
  then show ?thesis by (intro strongest_proof_kept) (simp add: best_proof_for_case_def)
qed

end
