(* ===== verification/Issues.thy ===== *)
theory Issues
  imports ProofRecords EndpointPaths SafetyGate
begin

text \<open>
  Issues (\<open>issues.py\<close>, the merge overrides of \<open>store.py\<close> and the collection of an export in \<open>report_generator.py\<close>):
  findings are grouped by a conservative key, operators may fold issues together, and an exported issue is called verified
  only on an audited proof. SHA-256 is an argument. A finding is the row of the store with the columns the key reads; a missing
  text is the empty one.

  \<open>grouping_exact\<close> says what the groups are, \<open>issues_keep_apart\<close> what never shares an issue, \<open>merge_keeps_members\<close> that
  overrides lose nothing, \<open>exported_verified_backed\<close> what stands behind a verified export.
\<close>

section \<open>Findings and keys\<close>

record issue_finding = stored_finding +
  fi_url :: string
  fi_method :: string
  fi_location :: string
  fi_fingerprint :: string
  fi_input_recorded :: "bool option"
  fi_policy :: string
  fi_header_policy :: string
  fi_validator :: string
  fi_state :: string
  fi_capsule :: string
  fi_run :: string

definition boundary_for :: "string \<Rightarrow> string" where
  "boundary_for meth = (if List.member [''GET'', ''HEAD'', ''OPTIONS'', ''TRACE'', []] (py_upper meth) then ''read'' else ''write'')"

definition affected_input :: "issue_finding \<Rightarrow> string" where
  "affected_input f = (let loc = py_strip (fi_location f); name = py_strip (parameter_name f) in
     if loc = [] \<and> name = [] then [] else loc @ '':'' @ name)"

definition is_dependency_class :: "string \<Rightarrow> bool" where
  "is_dependency_class c = (let s = py_lower (py_strip c) in
     starts_with ''known-vulnerable-dependency:'' s \<or> starts_with ''recently-published-dependency:'' s)"

definition host_wide_classes :: "string list" where
  "host_wide_classes = [''insecure_transport'', ''missing_headers'']"

definition header_policy_classes :: "string list" where
  "header_policy_classes = [''csp'', ''cors''] @ host_wide_classes"

definition route_independent_mechanisms :: "string list" where
  "route_independent_mechanisms = [''jwt_forge'']"

definition policy_of :: "issue_finding \<Rightarrow> string" where
  "policy_of f = list_or (fi_policy f) (fi_header_policy f)"

definition route_independent_identity :: "issue_finding \<Rightarrow> string" where
  "route_independent_identity f =
     (if \<not> List.member route_independent_mechanisms (fi_validator f) \<or> policy_of f = [] then []
      else join_with [CHR 0x1F] [''mechanism'', fi_validator f, policy_of f, principal_id f, fi_state f])"

definition namespace_of :: "string \<Rightarrow> string" where
  "namespace_of url = (if url = [] then [] else (case urlsplit url of None \<Rightarrow> []
     | Some p \<Rightarrow> if u_netloc p = [] then [] else if u_scheme p \<noteq> [] then u_scheme p @ ''://'' @ u_netloc p else u_netloc p))"

definition issue_class :: "string \<Rightarrow> string" where
  "issue_class c = text_or (str_or (canonicalize (Some c)) (str_or (distinctive_token (Some c)) (Some (py_lower (py_strip c)))))"

definition input_bearing_classes :: "string list" where
  "input_bearing_classes = [''sqli'', ''nosql'', ''xss'', ''dom_xss'', ''command_injection'', ''ssti'', ''path_traversal'',
     ''xxe'', ''header_injection'', ''open_redirect'', ''ssrf'', ''file_upload'', ''deserialization'']"

text \<open>\<open>normalize_path\<close> splits the URL again, and raises where it cannot be split.\<close>

definition endpoint_family :: "string \<Rightarrow> string option" where
  "endpoint_family url = (if url = [] then Some [] else if contains_str ''://'' url \<and> urlsplit url = None then None
     else Some (normalize_path url))"

record issue_key =
  k_host :: string
  k_family :: string
  k_method :: string
  k_class :: string
  k_input :: string
  k_boundary :: string
  k_extra :: string

definition mk_key :: "string \<Rightarrow> string \<Rightarrow> string \<Rightarrow> string \<Rightarrow> string \<Rightarrow> string \<Rightarrow> string \<Rightarrow> issue_key" where
  "mk_key h fam meth c inp b extra = \<lparr>k_host = h, k_family = fam, k_method = meth, k_class = c, k_input = inp, k_boundary = b, k_extra = extra\<rparr>"

definition disambiguator :: "issue_finding \<Rightarrow> string \<Rightarrow> string" where
  "disambiguator f canon =
     (if affected_input f \<noteq> [] then []
      else if List.member canonical_categories canon then
        (if List.member input_bearing_classes canon \<and> fi_input_recorded f = Some False then fi_fingerprint f else [])
      else list_or (finding_id f) (fi_fingerprint f))"

text \<open>\<open>None\<close> where the code raises.\<close>

definition issue_key_of :: "issue_finding \<Rightarrow> issue_key option" where
  "issue_key_of f =
     (let host = namespace_of (fi_url f); meth = py_upper (fi_method f); vc = vuln_class f in
      if is_dependency_class vc then
        Some (mk_key host [] [] (text_or (str_or (canonicalize (Some vc)) (Some (py_lower (py_strip vc))))) [] ''read'' [])
      else (let canon = issue_class vc in
        if List.member header_policy_classes canon \<and> (policy_of f \<noteq> [] \<or> List.member host_wide_classes canon) then
          Some (mk_key host [] [] canon [] ''read'' (policy_of f))
        else if route_independent_identity f \<noteq> [] then
          Some (mk_key host [] [] canon (affected_input f) (boundary_for meth) (route_independent_identity f))
        else map_option (\<lambda>family. mk_key host family meth canon (affected_input f) (boundary_for meth) (disambiguator f canon))
          (endpoint_family (fi_url f))))"

section \<open>Issues\<close>

record issue =
  i_id :: string
  i_family :: string
  i_method :: string
  i_class :: string
  i_input :: string
  i_boundary :: string
  i_host :: string
  i_members :: "issue_finding list"

definition issue_version :: nat where "issue_version = 2"

definition issue_id_for :: "(string \<Rightarrow> string) \<Rightarrow> issue_key \<Rightarrow> string" where
  "issue_id_for sha k = short_id sha [dec_str issue_version, k_host k, k_family k, k_method k, k_class k, k_input k, k_boundary k, k_extra k]"

definition new_issue :: "(string \<Rightarrow> string) \<Rightarrow> issue_key \<Rightarrow> issue" where
  "new_issue sha k = \<lparr>i_id = issue_id_for sha k, i_family = k_family k, i_method = k_method k, i_class = k_class k,
     i_input = k_input k, i_boundary = k_boundary k, i_host = k_host k, i_members = []\<rparr>"

definition is_chain :: "issue_finding \<Rightarrow> bool" where
  "is_chain f = starts_with ''potential-attack-chain:'' (vuln_class f)"

definition add_member :: "issue_finding \<Rightarrow> issue \<Rightarrow> issue" where
  "add_member f i = i\<lparr>i_members := i_members i @ [f]\<rparr>"

fun group_from :: "(string \<Rightarrow> string) \<Rightarrow> (issue_key \<times> issue) list \<Rightarrow> issue_finding list \<Rightarrow> (issue_key \<times> issue) list option" where
  "group_from sha by_key [] = Some by_key"
| "group_from sha by_key (f # fs) =
     (if is_chain f then group_from sha by_key fs
      else (case issue_key_of f of None \<Rightarrow> None
        | Some k \<Rightarrow> group_from sha (dict_set k (add_member f (option_or (dict_get by_key k) (new_issue sha k))) by_key) fs))"

definition group_findings_into_issues :: "(string \<Rightarrow> string) \<Rightarrow> issue_finding list \<Rightarrow> issue list option" where
  "group_findings_into_issues sha fs = map_option (map snd) (group_from sha [] fs)"

section \<open>What an issue says\<close>

definition severity_order :: "(string \<times> nat) list" where
  "severity_order = [(''critical'', 0), (''high'', 1), (''medium'', 2), (''low'', 3), (''info'', 4)]"

definition severity_place :: "string \<Rightarrow> nat" where
  "severity_place s = option_or (dict_get severity_order (py_lower s)) 99"

definition issue_confirmed :: "issue \<Rightarrow> bool" where "issue_confirmed i = list_ex confirmed (i_members i)"
definition issue_verified :: "issue \<Rightarrow> bool" where "issue_verified i = list_ex oracle_verified (i_members i)"

definition issue_severity :: "issue \<Rightarrow> string" where
  "issue_severity i = text_or (str_or (best_by (\<lambda>s. - int (severity_place s)) (map (\<lambda>m. list_or (severity m) ''info'') (i_members i)))
     (Some ''info''))"

definition issue_confidence :: "issue \<Rightarrow> real" where
  "issue_confidence i = option_or (best_by (\<lambda>x. x) (map confidence (i_members i))) 0"

definition affected_instances :: "issue \<Rightarrow> string list" where
  "affected_instances i = rev (remdups (rev (filter (\<lambda>u. u \<noteq> []) (map fi_url (i_members i)))))"

definition verdict_rank :: "issue_finding \<Rightarrow> nat \<times> nat \<times> nat \<times> int \<times> real" where
  "verdict_rank m = (if confirmed m then 1 else 0, if oracle_verified m then 1 else 0,
     if finding_lifecycle_state (agent_finding.truncate m) = LEAD then 0 else 1,
     - int (severity_place (list_or (severity m) ''info'')), confidence m)"

definition best_member :: "issue \<Rightarrow> issue_finding option" where
  "best_member i = best_by verdict_rank (i_members i)"

section \<open>Operator overrides\<close>

text \<open>\<open>_resolve\<close>: \<open>seen\<close> are the ids passed so far.\<close>

function resolve_merge :: "(string \<times> string) list \<Rightarrow> string list \<Rightarrow> string list \<Rightarrow> string \<Rightarrow> string" where
  "resolve_merge merges ids seen i = (case dict_get merges i of None \<Rightarrow> i
     | Some target \<Rightarrow> if target = [] \<or> \<not> List.member ids target \<or> target = i \<or> List.member seen i then i
         else resolve_merge merges ids (i # seen) target)"
  by pat_completeness auto

lemma resolve_measure:
  assumes "i \<notin> set seen" "target \<in> set ids"
  shows "card (insert target (set ids) - set (i # seen)) < card (insert i (set ids) - set seen)"
proof (rule psubset_card_mono)
  show "insert target (set ids) - set (i # seen) \<subset> insert i (set ids) - set seen" using assms by auto
qed simp

termination resolve_merge
proof (relation "measure (\<lambda>(merges, ids, seen, i). card (insert i (set ids) - set seen))")
  fix merges :: "(string \<times> string) list" and ids seen :: "string list" and i target :: string
  assume "\<not> (target = [] \<or> \<not> List.member ids target \<or> target = i \<or> List.member seen i)"
  then show "((merges, ids, i # seen, target), merges, ids, seen, i) \<in> measure (\<lambda>(merges, ids, seen, i). card (insert i (set ids) - set seen))"
    using resolve_measure[of i seen target ids] by simp
qed simp

declare resolve_merge.simps [simp del]

lemma resolve_merge_mem: "i \<in> set ids \<Longrightarrow> resolve_merge merges ids seen i \<in> set ids"
proof (induction merges ids seen i rule: resolve_merge.induct)
  case (1 merges ids seen i)
  then show ?case by (subst resolve_merge.simps) (auto split: option.split)
qed

fun add_new :: "'a list \<Rightarrow> 'a list \<Rightarrow> 'a list" where
  "add_new ms [] = ms"
| "add_new ms (x # xs) = add_new (if List.member ms x then ms else ms @ [x]) xs"

lemma set_add_new [simp]: "set (add_new ms xs) = set ms \<union> set xs"
  by (induction ms xs rule: add_new.induct) auto

definition issues_by_id :: "issue list \<Rightarrow> (string \<times> issue) list" where
  "issues_by_id is = foldl (\<lambda>d i. dict_set (i_id i) i d) [] is"

definition fold_issue :: "(string \<times> issue) list \<Rightarrow> (string \<times> string) list \<Rightarrow> (string \<times> issue) list \<Rightarrow> issue \<Rightarrow> (string \<times> issue) list" where
  "fold_issue by_id merges merged i =
     (let final = resolve_merge merges (map fst by_id) [] (i_id i);
          source = option_or (dict_get by_id final) i;
          canonical = option_or (dict_get merged final) (source\<lparr>i_members := []\<rparr>)
      in dict_set final (canonical\<lparr>i_members := add_new (i_members canonical) (i_members i)\<rparr>) merged)"

definition apply_merge_overrides :: "issue list \<Rightarrow> (string \<times> string) list \<Rightarrow> issue list" where
  "apply_merge_overrides is merges = map snd (foldl (fold_issue (issues_by_id is) merges) [] is)"

text \<open>The table of overrides: host, source, target.\<close>

type_synonym merge_table = "(string \<times> string \<times> string) list"

definition record_issue_merge :: "string \<Rightarrow> string \<Rightarrow> string \<Rightarrow> merge_table \<Rightarrow> merge_table option" where
  "record_issue_merge h s target rows = (if s = target then None
     else Some (filter (\<lambda>(h', s', t). \<not> (h' = h \<and> s' = s)) rows @ [(h, s, target)]))"

definition remove_issue_merge :: "string \<Rightarrow> string \<Rightarrow> merge_table \<Rightarrow> bool \<times> merge_table" where
  "remove_issue_merge h s rows = (list_ex (\<lambda>(h', s', t). h' = h \<and> s' = s) rows, filter (\<lambda>(h', s', t). \<not> (h' = h \<and> s' = s)) rows)"

definition all_issue_merges :: "string \<Rightarrow> merge_table \<Rightarrow> (string \<times> string) list" where
  "all_issue_merges h rows = foldl (\<lambda>d (h', s, t). if h' = h then dict_set s t d else d) [] rows"

section \<open>The export\<close>

definition claims_verified :: "issue_finding \<Rightarrow> bool" where
  "claims_verified m \<longleftrightarrow> oracle_verified m \<or> verification_state m = ''verified''"

definition audited_member :: "(string \<Rightarrow> proof_record list) \<Rightarrow> issue_finding \<Rightarrow> bool" where
  "audited_member proofs m =
     (let attempts = (if case_id m \<noteq> [] then proofs (case_id m) else []);
          best = best_by (\<lambda>p. verdict_strength (pf_verdict p)) attempts;
          rid = (case best of None \<Rightarrow> [] | Some p \<Rightarrow> tc_run (pf_case p))
      in audit_proof (case_id m) (proof_id m) best rid = AuditVerified)"

definition audited_oracle_state :: "(string \<Rightarrow> proof_record list) \<Rightarrow> issue \<Rightarrow> bool \<times> string \<times> string list" where
  "audited_oracle_state proofs i =
     (let good = filter (\<lambda>m. claims_verified m \<and> audited_member proofs m) (i_members i) in
      (good \<noteq> [], if good \<noteq> [] then ''verified'' else ''candidate'', sort (remdups (filter (\<lambda>c. c \<noteq> []) (map fi_capsule good)))))"

record reporting_config =
  rc_quarantine :: bool
  rc_low_confidence :: bool
  rc_floor :: real
  rc_catchall :: bool

definition demoted_by_reporting_gates :: "reporting_config \<Rightarrow> issue_finding \<Rightarrow> bool" where
  "demoted_by_reporting_gates c m = (let f = agent_finding.truncate m in
     if rc_quarantine c \<and> should_quarantine_as_lead f then True
     else if rc_low_confidence c \<and> is_low_confidence_generic_guess (rc_floor c) default_generic_classes f then True
     else if rc_catchall c \<and> is_uncorroborated_catchall_guess default_catchall_classes f then True
     else False)"

text \<open>The proofs of a case that an export takes along. A run id is looked up in the dictionary of the proof.\<close>

definition owned_attempt :: "string list \<Rightarrow> proof_record \<Rightarrow> bool" where
  "owned_attempt runs p = (case dict_get (proof_to_dict p) ''run_id'' of Some (JStr r) \<Rightarrow> List.member runs r | _ \<Rightarrow> False)"

definition proofs_by_case :: "string \<Rightarrow> issue_finding list \<Rightarrow> proof_tables \<Rightarrow> string \<Rightarrow> proof_record list" where
  "proofs_by_case engagement fs t cid =
     (if cid = [] \<or> \<not> List.member (map case_id fs) cid then []
      else (let attempts = proofs_for_case t cid in
        if engagement = [] then attempts
        else filter (owned_attempt (map fi_run (filter (\<lambda>f. case_id f = cid) fs))) attempts))"

definition export_issues :: "(string \<Rightarrow> string) \<Rightarrow> string \<Rightarrow> reporting_config \<Rightarrow> proof_tables \<Rightarrow> (string \<times> string) list \<Rightarrow> issue_finding list
    \<Rightarrow> (issue \<times> bool \<times> string \<times> string list) list option" where
  "export_issues sha engagement c t merges rows =
     (let fs = filter (\<lambda>f. \<not> demoted_by_reporting_gates c f) rows; ms = (if engagement = [] then merges else []) in
      map_option (\<lambda>grouped. map (\<lambda>i. (i, audited_oracle_state (proofs_by_case engagement fs t) i))
         (if ms \<noteq> [] then apply_merge_overrides grouped ms else grouped)) (group_findings_into_issues sha fs))"

section \<open>What the groups are\<close>

definition first_seen :: "'a list \<Rightarrow> 'a list" where
  "first_seen xs = rev (remdups (rev xs))"

lemma first_seen_snoc: "first_seen (xs @ [x]) = (if x \<in> set xs then first_seen xs else first_seen xs @ [x])"
  by (simp add: first_seen_def)

lemma set_first_seen [simp]: "set (first_seen xs) = set xs" by (simp add: first_seen_def)
lemma distinct_first_seen [simp]: "distinct (first_seen xs)" by (simp add: first_seen_def)
lemma first_seen_Nil [simp]: "first_seen [] = []" by (simp add: first_seen_def)

lemma dict_set_table:
  "distinct ks \<Longrightarrow> dict_set k v (map (\<lambda>j. (j, g j)) ks) =
     map (\<lambda>j. (j, (g(k := v)) j)) (if k \<in> set ks then ks else ks @ [k])"
  by (induction ks) auto

lemma dict_get_table: "dict_get (map (\<lambda>j. (j, g j)) ks) k = (if k \<in> set ks then Some (g k) else None)"
  by (induction ks) auto

abbreviation kept :: "issue_finding list \<Rightarrow> issue_finding list" where
  "kept \<equiv> filter (\<lambda>f. \<not> is_chain f)"

definition keyed :: "issue_finding list \<Rightarrow> issue_key \<Rightarrow> issue_finding list" where
  "keyed fs k = filter (\<lambda>f. issue_key_of f = Some k) (kept fs)"

definition keys_of :: "issue_finding list \<Rightarrow> issue_key list" where
  "keys_of fs = first_seen (List.map_filter issue_key_of (kept fs))"

definition group_of :: "(string \<Rightarrow> string) \<Rightarrow> issue_finding list \<Rightarrow> issue_key \<Rightarrow> issue" where
  "group_of sha fs k = (new_issue sha k)\<lparr>i_members := keyed fs k\<rparr>"

lemma group_from_append:
  "group_from sha acc (xs @ ys) = Option.bind (group_from sha acc xs) (\<lambda>a. group_from sha a ys)"
  by (induction sha acc xs rule: group_from.induct) (auto split: option.split)

lemma keys_of_snoc:
  "keys_of (fs @ [f]) = (if is_chain f then keys_of fs else (case issue_key_of f of None \<Rightarrow> keys_of fs
     | Some k \<Rightarrow> if k \<in> set (keys_of fs) then keys_of fs else keys_of fs @ [k]))"
  by (simp add: keys_of_def map_filter_simps first_seen_snoc List.map_filter_def split: option.split)

lemma keyed_snoc: "keyed (fs @ [f]) k = keyed fs k @ (if \<not> is_chain f \<and> issue_key_of f = Some k then [f] else [])"
  by (simp add: keyed_def)

lemma keyed_new: "k \<notin> set (keys_of fs) \<Longrightarrow> keyed fs k = []"
  by (force simp: keys_of_def keyed_def filter_empty_conv List.map_filter_def image_iff)

lemma group_from_table:
  "group_from sha [] fs = (if list_all (\<lambda>f. issue_key_of f \<noteq> None) (kept fs)
     then Some (map (\<lambda>k. (k, group_of sha fs k)) (keys_of fs)) else None)"
proof (induction fs rule: rev_induct)
  case Nil
  then show ?case by (simp add: keys_of_def List.map_filter_def)
next
  case (snoc f fs)
  show ?case
  proof (cases "is_chain f \<or> \<not> list_all (\<lambda>f. issue_key_of f \<noteq> None) (kept fs) \<or> issue_key_of f = None")
    case True
    then show ?thesis using snoc by (auto simp: group_from_append keys_of_snoc keyed_snoc group_of_def)
  next
    case False
    then obtain k where k: "issue_key_of f = Some k" and f: "\<not> is_chain f" and all: "list_all (\<lambda>f. issue_key_of f \<noteq> None) (kept fs)" by auto
    have old: "option_or (dict_get (map (\<lambda>k. (k, group_of sha fs k)) (keys_of fs)) k) (new_issue sha k) = group_of sha fs k"
      using keyed_new[of k fs] by (auto simp: dict_get_table option_or_def group_of_def new_issue_def)
    have upd: "(group_of sha fs)(k := add_member f (group_of sha fs k)) = group_of sha (fs @ [f])"
      using k f by (auto simp: group_of_def keyed_snoc add_member_def fun_eq_iff)
    have "distinct (keys_of fs)" by (simp add: keys_of_def)
    from dict_set_table[OF this, of k "add_member f (group_of sha fs k)" "group_of sha fs"] show ?thesis
      using k f all snoc by (simp add: group_from_append old keys_of_snoc upd)
  qed
qed

text \<open>C26: grouping is a partition: unless some finding has no key, there is one issue for each key, in the order in which the keys
  first appear, and its members are exactly the findings with that key, all of them and in their order. Only chain hypotheses are left out.\<close>

theorem grouping_exact:
  "group_findings_into_issues sha fs =
     (if list_all (\<lambda>f. issue_key_of f \<noteq> None) (filter (\<lambda>f. \<not> is_chain f) fs)
      then Some (map (\<lambda>k. (new_issue sha k)\<lparr>i_members := filter (\<lambda>f. issue_key_of f = Some k) (filter (\<lambda>f. \<not> is_chain f) fs)\<rparr>)
        (rev (remdups (rev (List.map_filter issue_key_of (filter (\<lambda>f. \<not> is_chain f) fs))))))
      else None)"
  by (simp add: group_findings_into_issues_def group_from_table keys_of_def first_seen_def group_of_def keyed_def comp_def)

section \<open>What never shares an issue\<close>

definition host_level :: "issue_finding \<Rightarrow> bool" where
  "host_level f \<longleftrightarrow> is_dependency_class (vuln_class f) \<or> (let c = issue_class (vuln_class f) in
     List.member header_policy_classes c \<and> (policy_of f \<noteq> [] \<or> List.member host_wide_classes c))"

lemma key_of_endpoint:
  "\<not> host_level f \<Longrightarrow> issue_key_of f = Some k \<Longrightarrow>
   k_host k = namespace_of (fi_url f) \<and> k_class k = issue_class (vuln_class f) \<and> k_input k = affected_input f \<and>
   k_boundary k = boundary_for (py_upper (fi_method f))"
  by (auto simp: host_level_def issue_key_of_def mk_key_def Let_def split: if_splits)

lemma key_host: "issue_key_of f = Some k \<Longrightarrow> k_host k = namespace_of (fi_url f)"
  by (auto simp: issue_key_of_def mk_key_def Let_def split: if_splits)

text \<open>two findings that share an issue are on the same host, and unless they are facts about a host they are of the same class,
  concern the same input (an unknown input only goes with unknown ones) and cross the same boundary: a read never joins a write.\<close>

theorem issues_keep_apart:
  assumes "issue_key_of f = Some k" "issue_key_of g = Some k" "\<not> host_level f" "\<not> host_level g"
  shows "namespace_of (fi_url f) = namespace_of (fi_url g) \<and> issue_class (vuln_class f) = issue_class (vuln_class g) \<and>
     affected_input f = affected_input g \<and> boundary_for (py_upper (fi_method f)) = boundary_for (py_upper (fi_method g))"
  using key_of_endpoint[OF assms(3,1)] key_of_endpoint[OF assms(4,2)] by simp

section \<open>The strongest member\<close>

lemma rank_confirmed: "verdict_rank x \<le> verdict_rank y \<Longrightarrow> confirmed x \<Longrightarrow> confirmed y"
  by (auto simp: verdict_rank_def split: if_splits)

lemma rank_verified: "verdict_rank x \<le> verdict_rank y \<Longrightarrow> oracle_verified x \<Longrightarrow> confirmed x = confirmed y \<Longrightarrow> oracle_verified y"
  by (auto simp: verdict_rank_def split: if_splits)

text \<open>the member an issue is shown by is confirmed exactly when some member is: a merged issue never shows a weaker verdict than one
  of its members has.\<close>

theorem best_member_shows_verdict:
  "(case best_member i of None \<Rightarrow> i_members i = [] \<and> \<not> issue_confirmed i
    | Some m \<Rightarrow> List.member (i_members i) m \<and> (confirmed m \<longleftrightarrow> issue_confirmed i))"
proof (cases "best_member i")
  case None
  then show ?thesis by (simp add: best_member_def issue_confirmed_def)
next
  case (Some m)
  then have m: "best_by verdict_rank (i_members i) = Some m" by (simp add: best_member_def)
  have "confirmed m" if "x \<in> set (i_members i)" "confirmed x" for x
    using rank_confirmed[OF best_by_max[OF m that(1)]] that(2) .
  then show ?thesis using Some best_by_mem[OF m] by (auto simp: issue_confirmed_def list_ex_iff)
qed

section \<open>Overrides lose nothing\<close>

lemma by_id_inv: "\<lbrakk>\<And>r s. dict_get d r = Some s \<Longrightarrow> i_id s = r; dict_get (foldl (\<lambda>d i. dict_set (i_id i) i d) d is) r = Some s\<rbrakk> \<Longrightarrow> i_id s = r"
proof (induction "is" arbitrary: d)
  case (Cons i "is")
  show ?case
  proof (rule Cons.IH)
    show "dict_get (foldl (\<lambda>d i. dict_set (i_id i) i d) (dict_set (i_id i) i d) is) r = Some s" using Cons.prems(2) by simp
    show "i_id s = r" if "dict_get (dict_set (i_id i) i d) r = Some s" for r s
      using that Cons.prems(1) by (cases "r = i_id i") auto
  qed
qed simp

lemma by_id_get: "dict_get (issues_by_id is) r = Some s \<Longrightarrow> i_id s = r"
  unfolding issues_by_id_def by (rule by_id_inv[of "[]"]) simp_all

lemma by_id_keys: "set (map fst (issues_by_id is)) = i_id ` set is"
proof -
  have "set (map fst (foldl (\<lambda>d i. dict_set (i_id i) i d) d is)) = set (map fst d) \<union> i_id ` set is" for d
    by (induction "is" arbitrary: d) (auto simp: dom_update)
  then show ?thesis by (simp add: issues_by_id_def)
qed

definition representative :: "issue list \<Rightarrow> (string \<times> string) list \<Rightarrow> issue \<Rightarrow> string" where
  "representative is merges i = resolve_merge merges (map fst (issues_by_id is)) [] (i_id i)"

definition members_under :: "issue list \<Rightarrow> (string \<times> string) list \<Rightarrow> issue list \<Rightarrow> string \<Rightarrow> issue_finding set" where
  "members_under is merges js r = set (concat (map i_members (filter (\<lambda>i. representative is merges i = r) js)))"

definition folded_ok :: "issue list \<Rightarrow> (string \<times> string) list \<Rightarrow> issue list \<Rightarrow> (string \<times> issue) list \<Rightarrow> bool" where
  "folded_ok is merges js d \<longleftrightarrow> distinct (map fst d) \<and> fst ` set d = representative is merges ` set js \<and>
     (\<forall>r x. dict_get d r = Some x \<longrightarrow> i_id x = r \<and> set (i_members x) = members_under is merges js r)"

lemma folded_step:
  assumes "folded_ok is merges js d" "i \<in> set is"
  shows "folded_ok is merges (js @ [i]) (fold_issue (issues_by_id is) merges d i)"
proof -
  let ?r = "representative is merges i"
  have "?r \<in> set (map fst (issues_by_id is))" unfolding representative_def
    by (rule resolve_merge_mem) (use assms(2) in \<open>simp only: by_id_keys\<close>, simp)
  then obtain s where s: "dict_get (issues_by_id is) ?r = Some s" by (auto simp: map_of_eq_None_iff dest: weak_map_of_SomeI)
  then have "i_id s = ?r" by (rule by_id_get)
  define canonical where "canonical = option_or (dict_get d ?r) (s\<lparr>i_members := []\<rparr>)"
  have canonical: "i_id canonical = ?r" "set (i_members canonical) = members_under is merges js ?r"
  proof -
    have "members_under is merges js ?r = {}" if "dict_get d ?r = None"
    proof -
      have "?r \<notin> representative is merges ` set js" using that assms(1) by (simp add: map_of_eq_None_iff folded_ok_def)
      then have "filter (\<lambda>i. representative is merges i = ?r) js = []"
        by (intro filter_False ballI) (metis image_eqI)
      then show ?thesis by (simp add: members_under_def)
    qed
    then show "i_id canonical = ?r" "set (i_members canonical) = members_under is merges js ?r"
      using assms(1) \<open>i_id s = ?r\<close> by (auto simp: canonical_def option_or_def folded_ok_def split: option.split)
  qed
  have source: "option_or (dict_get (issues_by_id is) ?r) i = s" using s by (simp add: option_or_def)
  have new: "fold_issue (issues_by_id is) merges d i =
      dict_set ?r (canonical\<lparr>i_members := add_new (i_members canonical) (i_members i)\<rparr>) d"
    by (simp add: fold_issue_def Let_def canonical_def representative_def[symmetric] source)
  have "members_under is merges (js @ [i]) r = members_under is merges js r \<union> (if r = ?r then set (i_members i) else {})" for r
    by (auto simp: members_under_def)
  then show ?thesis using assms(1) canonical unfolding new folded_ok_def
    by (auto simp: distinct_update dom_update dict_get_set)
qed

lemma folded_all: "set js \<subseteq> set is \<Longrightarrow> folded_ok is merges js (foldl (fold_issue (issues_by_id is) merges) [] js)"
proof (induction js rule: rev_induct)
  case Nil
  then show ?case by (simp add: folded_ok_def)
next
  case (snoc j js)
  then show ?case using folded_step[of "is" merges js _ j] by simp
qed

text \<open>C27: whatever overrides are declared, also in chains and cycles, every issue ends up in exactly one issue of the result, under the id
  its overrides lead to; the results have distinct ids, and each holds all members of the issues folded into it and no others.\<close>

theorem merge_keeps_members:
  "let out = apply_merge_overrides is merges in
     distinct (map i_id out) \<and> set (map i_id out) = representative is merges ` set is \<and>
     map (\<lambda>x. set (i_members x)) out = map (\<lambda>x. members_under is merges is (i_id x)) out"
proof -
  let ?d = "foldl (fold_issue (issues_by_id is) merges) [] is"
  have ok: "folded_ok is merges is ?d" by (rule folded_all) simp
  then have get: "i_id x = r \<and> set (i_members x) = members_under is merges is r" if "(r, x) \<in> set ?d" for r x
    using that by (auto simp: folded_ok_def)
  then have keys: "map i_id (map snd ?d) = map fst ?d"
    and "map (\<lambda>x. set (i_members x)) (map snd ?d) = map (\<lambda>x. members_under is merges is (i_id x)) (map snd ?d)" by auto
  moreover have "distinct (map fst ?d)" "set (map fst ?d) = representative is merges ` set is" using ok by (simp_all add: folded_ok_def)
  ultimately show ?thesis unfolding apply_merge_overrides_def Let_def by (simp only: simp_thms)
qed

lemma merged_members:
  assumes "i \<in> set (apply_merge_overrides is merges)" "m \<in> set (i_members i)"
  shows "\<exists>j \<in> set is. m \<in> set (i_members j)"
proof -
  have "map (\<lambda>x. set (i_members x)) (apply_merge_overrides is merges) =
      map (\<lambda>x. members_under is merges is (i_id x)) (apply_merge_overrides is merges)"
    using folded_all[of "is" "is" merges] by (auto simp: apply_merge_overrides_def folded_ok_def)
  then have "set (i_members i) = members_under is merges is (i_id i)" using assms(1) by simp
  then show ?thesis using assms(2) by (auto simp: members_under_def)
qed

text \<open>Overrides are reversible.\<close>

lemma override_removed:
  "record_issue_merge h s target rows = Some rows' \<Longrightarrow> \<not> fst (remove_issue_merge h s rows) \<Longrightarrow> snd (remove_issue_merge h s rows') = rows"
  by (auto simp: record_issue_merge_def remove_issue_merge_def filter_id_conv list_ex_iff split: if_splits)

section \<open>What stands behind an export\<close>

lemma audited_backed:
  assumes "audited_member proofs m"
  shows "\<exists>p \<in> set (proofs (case_id m)). tc_case (pf_case p) = case_id m \<and> pf_verdict p = VConfirmed \<and> pf_executed p \<and>
     (proof_id m = [] \<or> pf_id p = proof_id m)"
proof -
  define best where "best = best_by (\<lambda>p. verdict_strength (pf_verdict p)) (if case_id m \<noteq> [] then proofs (case_id m) else [])"
  obtain rid where a: "audit_proof (case_id m) (proof_id m) best rid = AuditVerified"
    using assms by (auto simp: audited_member_def best_def Let_def)
  then obtain p where p: "best = Some p" by (cases best) (auto simp: audit_proof_def)
  have "p \<in> set (proofs (case_id m))" using best_by_mem[OF p[unfolded best_def]] by (auto split: if_splits)
  then show ?thesis using a by (auto simp: p audit_proof_def split: if_splits)
qed

lemma collected_on_record:
  "p \<in> set (proofs_by_case engagement fs t cid) \<Longrightarrow> \<exists>r \<in> set (pt_rows t). p = read_proof t r"
  by (auto simp: proofs_by_case_def proofs_for_case_def Let_def split: if_splits)

lemma grouped_members: "group_findings_into_issues sha fs = Some is \<Longrightarrow> i \<in> set is \<Longrightarrow> set (i_members i) \<subseteq> set fs"
  by (auto simp: group_findings_into_issues_def group_from_table group_of_def keyed_def split: if_splits)

text \<open>C25: an issue is only exported as verified when one of its members is a stored finding that claims it and a proof on record backs that
  claim: of the very case of the finding, executed, with a confirmed verdict, and the one the finding names if it names one.\<close>

theorem exported_verified_backed:
  assumes "export_issues sha engagement c t merges rows = Some out" "(i, True, state, capsules) \<in> set out"
  shows "\<exists>m \<in> set (i_members i). m \<in> set rows \<and> claims_verified m \<and> (\<exists>p \<in> set (pt_rows t). tc_case (pf_case p) = case_id m \<and>
     pf_verdict p = VConfirmed \<and> pf_executed p \<and> (proof_id m = [] \<or> pf_id p = proof_id m))"
proof -
  define fs where "fs = filter (\<lambda>f. \<not> demoted_by_reporting_gates c f) rows"
  define state_of where "state_of = audited_oracle_state (proofs_by_case engagement fs t)"
  define ms where "ms = (if engagement = [] then merges else [])"
  obtain grouped where g: "group_findings_into_issues sha fs = Some grouped"
    and out: "out = map (\<lambda>i. (i, state_of i)) (if ms \<noteq> [] then apply_merge_overrides grouped ms else grouped)"
    using assms(1) by (auto simp: export_issues_def fs_def[symmetric] state_of_def ms_def Let_def)
  then have i: "i \<in> set (if ms \<noteq> [] then apply_merge_overrides grouped ms else grouped)" and "state_of i = (True, state, capsules)"
    using assms(2) by auto
  then obtain m where m: "m \<in> set (i_members i)" "claims_verified m" "audited_member (proofs_by_case engagement fs t) m"
    by (auto simp: state_of_def audited_oracle_state_def Let_def filter_empty_conv)
  have "m \<in> set fs" using i m(1) merged_members[of i grouped ms m] grouped_members[OF g] by (auto split: if_splits)
  moreover obtain p where p: "p \<in> set (proofs_by_case engagement fs t (case_id m))" "tc_case (pf_case p) = case_id m"
    "pf_verdict p = VConfirmed" "pf_executed p" "proof_id m = [] \<or> pf_id p = proof_id m" using audited_backed[OF m(3)] by blast
  moreover obtain r where "r \<in> set (pt_rows t)" "p = read_proof t r" using collected_on_record[OF p(1)] by blast
  ultimately show ?thesis using m(1,2) by (intro bexI[of _ m]) (auto simp: fs_def read_proof_def)
qed

section \<open>What the export gets wrong\<close>

text \<open>The run id of an attempt is inside its case; looked up beside it, it is never found, so that an export of an engagement takes no proof
  along and calls nothing verified.\<close>

lemma engagement_export_without_proofs: "engagement \<noteq> [] \<Longrightarrow> proofs_by_case engagement fs t cid = []"
  by (simp add: proofs_by_case_def owned_attempt_def proof_to_dict_def Let_def)

lemma engagement_never_verified:
  assumes "engagement \<noteq> []" "export_issues sha engagement c t merges rows = Some out" "(i, v, state, capsules) \<in> set out"
  shows "\<not> v"
proof -
  have none: "proofs_by_case engagement fs t = (\<lambda>_. [])" for fs using engagement_export_without_proofs[OF assms(1)] by (intro ext) simp
  have "audited_oracle_state (\<lambda>_. []) j = (False, ''candidate'', [])" for j
    by (simp add: audited_oracle_state_def audited_member_def audit_proof_def Let_def)
  then show ?thesis using assms by (auto simp: export_issues_def none Let_def split: if_splits)
qed

definition sample_finding_row :: issue_finding where
  "sample_finding_row = \<lparr>vuln_class = ''ssti'', confidence = 1 / 2, summary = [], basis = [], severity = ''high'', original_confidence = None,
     review_verdict = None, review_note = None, original_severity = None, confirmed = True, confirmed_by_leg = [], confirmation_method = [],
     oracle_verified = True, finding_id = ''f1'', principal_id = [], parameter_name = ''q'', proof_id = ''b'',
     case_id = tc_case sample_case, verification_state = ''verified'', lifecycle_shown = CONFIRMED, proof_status = ''resolved'',
     fi_url = ''http://h/orders/42?q=1'', fi_method = ''GET'', fi_location = ''query'', fi_fingerprint = ''p'', fi_input_recorded = Some True,
     fi_policy = [], fi_header_policy = [], fi_validator = ''ssti'', fi_state = [], fi_capsule = ''c1'', fi_run = ''r''\<rparr>"

text \<open>Of two confirming attempts the first is audited, though the finding names the second: its claim is rejected.\<close>

lemma second_confirmed_attempt_rejected:
  "let p = sample_proof ''a'' VConfirmed 1; q = sample_proof ''b'' VConfirmed 2; m = sample_finding_row in
   \<not> audited_member (\<lambda>_. [p, q]) m \<and> audited_member (\<lambda>_. [q]) m"
  by (simp add: audited_member_def sample_finding_row_def best_by_def audit_proof_def sample_proof_def sample_case_def new_case_def
      recompute_id_def short_id_def case_parts_def)

text \<open>The run a proof is audited against is the run of the proof itself, whatever run the finding is of.\<close>

lemma any_run_accepted:
  "audited_member (\<lambda>_. [sample_proof ''b'' VConfirmed 2]) (sample_finding_row\<lparr>fi_run := ''another run''\<rparr>)"
  by (simp add: audited_member_def sample_finding_row_def best_by_def audit_proof_def sample_proof_def sample_case_def new_case_def
      recompute_id_def short_id_def case_parts_def)

text \<open>One finding with a URL that cannot be split ends the grouping of all.\<close>

lemma unsplittable_url_stops_grouping:
  "issue_key_of (sample_finding_row\<lparr>fi_url := ''http://[''\<rparr>) = None"
  by code_simp

section \<open>Witnesses\<close>

definition sample_key :: issue_key where
  "sample_key = mk_key ''http://h'' ''/orders/{id}'' ''GET'' ''ssti'' ''query:q'' ''read'' []"

lemma sample_keys: "issue_key_of sample_finding_row = Some sample_key"
  "issue_key_of (sample_finding_row\<lparr>fi_url := ''http://h/orders/7''\<rparr>) = Some sample_key"
  by code_simp+

lemma sample_not_host_level: "\<not> host_level sample_finding_row" "\<not> host_level (sample_finding_row\<lparr>fi_url := ''http://h/orders/7''\<rparr>)"
  by code_simp+

lemma issues_keep_apart_witness:
  "namespace_of (fi_url sample_finding_row) = namespace_of ''http://h/orders/7''"
  using issues_keep_apart[OF sample_keys sample_not_host_level] by simp

definition no_gates :: reporting_config where
  "no_gates = \<lparr>rc_quarantine = False, rc_low_confidence = False, rc_floor = 1 / 2, rc_catchall = False\<rparr>"

definition sample_tables :: proof_tables where
  "sample_tables = \<lparr>pt_rows = [sample_proof ''b'' VConfirmed 2], pt_identity = []\<rparr>"

lemma sample_proof_read: "proofs_by_case [] [sample_finding_row] sample_tables (tc_case sample_case) =
    [read_proof sample_tables (sample_proof ''b'' VConfirmed 2)]"
  by (simp add: proofs_by_case_def proofs_for_case_def sample_tables_def sample_proof_fields sample_finding_row_def sample_case_def
      new_case_def recompute_id_def short_id_def case_parts_def)

lemma sample_export:
  "export_issues (\<lambda>s. s) [] no_gates sample_tables [] [sample_finding_row] =
     Some [(group_of (\<lambda>s. s) [sample_finding_row] sample_key, True, ''verified'', [''c1''])]"
proof -
  have chain: "\<not> is_chain sample_finding_row" by code_simp
  have keys: "keys_of [sample_finding_row] = [sample_key]"
    using chain by (simp add: keys_of_def List.map_filter_def sample_keys first_seen_def)
  have "i_members (group_of (\<lambda>s. s) [sample_finding_row] sample_key) = [sample_finding_row]"
    using chain by (simp add: group_of_def keyed_def sample_keys)
  moreover have "audited_member (proofs_by_case [] [sample_finding_row] sample_tables) sample_finding_row"
  proof -
    have "tc_case sample_case \<noteq> []" "tc_run sample_case \<noteq> []" "pf_executed (sample_proof ''b'' VConfirmed 2)"
      by (simp_all add: sample_proof_def sample_case_def new_case_def recompute_id_def short_id_def case_parts_def)
    moreover have "case_id sample_finding_row = tc_case sample_case" "proof_id sample_finding_row = ''b''"
      by (simp_all add: sample_finding_row_def)
    ultimately show ?thesis
      by (simp add: audited_member_def sample_proof_read best_by_def audit_proof_def read_proof_def sample_proof_fields)
  qed
  ultimately have "audited_oracle_state (proofs_by_case [] [sample_finding_row] sample_tables) (group_of (\<lambda>s. s) [sample_finding_row] sample_key)
      = (True, ''verified'', [''c1''])"
    by (simp add: audited_oracle_state_def claims_verified_def sample_finding_row_def Let_def)
  moreover have "group_findings_into_issues (\<lambda>s. s) [sample_finding_row] = Some [group_of (\<lambda>s. s) [sample_finding_row] sample_key]"
    using chain by (simp add: group_findings_into_issues_def group_from_table keys sample_keys del: group_from.simps)
  ultimately show ?thesis by (simp add: export_issues_def demoted_by_reporting_gates_def no_gates_def)
qed

lemma exported_verified_backed_witness:
  "\<exists>p \<in> set (pt_rows sample_tables). pf_verdict p = VConfirmed \<and> pf_executed p"
  using exported_verified_backed[OF sample_export, of "group_of (\<lambda>s. s) [sample_finding_row] sample_key" "''verified''" "[''c1'']"]
  by auto

end
